(* ===== verification/Peer_Identity.thy ===== *)
theory Peer_Identity
  imports Prelude
begin

text \<open>
  Peer identities: the lexical classes of \<^verbatim>\<open>core/src/link/mod.rs\<close> and the
  protocol-qualified identities, operator aliases and reversible EchoLink dial numbers of
  \<^verbatim>\<open>core/src/link/identity.rs\<close>. The lemmas show that aliases round-trip, that
  canonicalisation is idempotent and that the canonical dial spelling determines the peer.
\<close>

section \<open>Lexical classes (link/mod.rs)\<close>

definition identity_char :: "char \<Rightarrow> bool" where
  "identity_char b \<longleftrightarrow> is_ascii_alphanumeric b \<or> b = CHR ''_'' \<or> b = CHR ''-''"

definition identity :: "string \<Rightarrow> bool" where
  "identity name \<longleftrightarrow> name \<noteq> [] \<and> length name < 64 \<and> list_all identity_char name"

definition decimal_identity :: "string \<Rightarrow> bool" where
  "decimal_identity name \<longleftrightarrow> identity name \<and> list_all is_ascii_digit name"

definition valid_digit :: "char \<Rightarrow> bool" where
  "valid_digit digit \<longleftrightarrow> digit \<in> set ''0123456789ABCD*#''"

section \<open>Protocol-qualified identities (link/identity.rs)\<close>

datatype ProtocolId = AllStarLink | EchoLink

datatype IdentityError = IdentityError

record PeerIdentity =
  pi_protocol :: ProtocolId
  pi_node :: string

definition positive_id :: "string \<Rightarrow> IdentityError + u32" where
  "positive_id digits =
     (if \<not> list_all is_ascii_digit digits then Inl IdentityError
      else (case parse_unsigned 32 digits of
              Some i \<Rightarrow> (if i \<noteq> 0 then Inr (of_nat i) else Inl IdentityError)
            | None \<Rightarrow> Inl IdentityError))"

definition echo_alias_parse :: "string \<Rightarrow> IdentityError + u32" where
  "echo_alias_parse digits =
     (case strip_prefix ''3'' digits of
        None \<Rightarrow> Inl IdentityError
      | Some real \<Rightarrow>
          if \<not> (6 \<le> length real \<and> length real \<le> 10) then Inl IdentityError
          else positive_id real)"

definition echo_alias_format :: "u32 \<Rightarrow> string" where
  "echo_alias_format i = CHR ''3'' # pad_zero 6 (show_nat (unat i))"

definition peer_identity_parse :: "ProtocolId \<Rightarrow> string \<Rightarrow> IdentityError + PeerIdentity" where
  "peer_identity_parse protocol node =
     (if \<not> decimal_identity node then Inl IdentityError
      else (case protocol of
              AllStarLink \<Rightarrow> Inr \<lparr>pi_protocol = AllStarLink, pi_node = node\<rparr>
            | EchoLink \<Rightarrow>
                (case positive_id node of
                   Inl e \<Rightarrow> Inl e
                 | Inr i \<Rightarrow> Inr \<lparr>pi_protocol = EchoLink, pi_node = show_nat (unat i)\<rparr>)))"

definition from_operator :: "string \<Rightarrow> IdentityError + PeerIdentity" where
  "from_operator alias =
     (if prefix ''3'' alias \<and> length alias \<ge> 7
      then (case echo_alias_parse alias of
              Inl e \<Rightarrow> Inl e
            | Inr i \<Rightarrow> peer_identity_parse EchoLink (show_nat (unat i)))
      else peer_identity_parse AllStarLink alias)"

definition operator_alias :: "PeerIdentity \<Rightarrow> string" where
  "operator_alias p =
     (case pi_protocol p of
        AllStarLink \<Rightarrow> pi_node p
      | EchoLink \<Rightarrow> CHR ''3'' # pad_zero 6 (pi_node p))"

definition canonical_operator :: "string \<Rightarrow> IdentityError + string" where
  "canonical_operator alias =
     (case from_operator alias of Inl e \<Rightarrow> Inl e | Inr p \<Rightarrow> Inr (operator_alias p))"

section \<open>Lemmas\<close>

lemma digit_identity_char [simp]: "is_ascii_digit c \<Longrightarrow> identity_char c"
  by (simp add: identity_char_def is_ascii_alphanumeric_def)

lemma identity_char_cases: "identity_char c \<Longrightarrow> c \<noteq> CHR '' '' \<and> c \<noteq> CHR '','' \<and> c \<noteq> CHR ''!'' \<and> c \<noteq> CHR ''*''"
  by (auto simp: identity_char_def is_ascii_alphanumeric_def is_ascii_digit_def)

lemma decimal_identity_digits:
  "decimal_identity s \<longleftrightarrow> s \<noteq> [] \<and> length s < 64 \<and> list_all is_ascii_digit s"
  by (auto simp: decimal_identity_def identity_def list_all_iff)

lemma u32_digits: "length (show_nat (unat (i :: u32))) \<le> 10"
proof -
  have "unat i < 2 ^ 32" using unsigned_less [of i, where ?'a = nat] by simp
  then have "unat i < 10 ^ 10" by simp
  then show ?thesis by (rule show_nat_length_le) simp
qed

lemma decimal_identity_show [simp]: "decimal_identity (show_nat (unat (i :: u32)))"
  using u32_digits [of i] by (simp add: decimal_identity_digits)

lemma length_pad_zero: "length (pad_zero w s) = max w (length s)"
  by (simp add: pad_zero_def)

lemma list_all_replicate: "P x \<Longrightarrow> list_all P (replicate n x)"
  by (simp add: list_all_iff)

lemma digits_pad_zero [simp]: "list_all is_ascii_digit (pad_zero w s) \<longleftrightarrow> list_all is_ascii_digit s"
  by (simp add: pad_zero_def is_ascii_digit_def [of "CHR ''0''"] list_all_append list_all_replicate)

lemma pad_zero_nonempty [simp]: "s \<noteq> [] \<Longrightarrow> pad_zero w s \<noteq> []"
  by (simp add: pad_zero_def)

lemma positive_id_value:
  "list_all is_ascii_digit s \<Longrightarrow> s \<noteq> [] \<Longrightarrow> digits_val s = unat i \<Longrightarrow> i \<noteq> 0 \<Longrightarrow> positive_id s = Inr i"
  for i :: u32
  using unsigned_less [of i, where ?'a = nat]
  by (auto simp: positive_id_def parse_unsigned_digits unat_eq_0)

lemma positive_id_nonzero: "positive_id s = Inr i \<Longrightarrow> i \<noteq> 0"
proof -
  assume "positive_id s = Inr i"
  then obtain n where n: "parse_unsigned 32 s = Some n" "n \<noteq> 0" "i = of_nat n"
    by (auto simp: positive_id_def split: if_splits option.splits)
  from n(1) have "n < 2 ^ 32" by (rule parse_unsigned_lt)
  with n have "unat i = n" by (simp add: unat_of_nat)
  with n(2) show ?thesis by auto
qed

lemma echo_roundtrip: "i \<noteq> 0 \<Longrightarrow> echo_alias_parse (echo_alias_format i) = Inr i"
  using u32_digits [of i]
  by (simp add: echo_alias_parse_def echo_alias_format_def strip_prefix_def length_pad_zero
      positive_id_value)

lemma peer_parse_show: "i \<noteq> 0 \<Longrightarrow> peer_identity_parse EchoLink (show_nat (unat i)) =
    Inr \<lparr>pi_protocol = EchoLink, pi_node = show_nat (unat i)\<rparr>" for i :: u32
  by (simp add: peer_identity_parse_def positive_id_value)

text \<open>The identities an operator can dial: what \<^const>\<open>from_operator\<close> can return.\<close>

definition dialable :: "PeerIdentity \<Rightarrow> bool" where
  "dialable p \<longleftrightarrow>
     (case pi_protocol p of
        AllStarLink \<Rightarrow> decimal_identity (pi_node p) \<and> \<not> (prefix ''3'' (pi_node p) \<and> length (pi_node p) \<ge> 7)
      | EchoLink \<Rightarrow> (\<exists>i :: u32. i \<noteq> 0 \<and> pi_node p = show_nat (unat i)))"

lemma from_operator_dialable: "from_operator a = Inr p \<Longrightarrow> dialable p"
proof -
  assume a: "from_operator a = Inr p"
  show ?thesis
  proof (cases "prefix ''3'' a \<and> length a \<ge> 7")
    case True
    with a obtain i where i: "echo_alias_parse a = Inr i"
      "peer_identity_parse EchoLink (show_nat (unat i)) = Inr p"
      by (auto simp: from_operator_def split: sum.splits)
    from i(1) have "i \<noteq> 0"
      by (auto simp: echo_alias_parse_def split: option.splits if_splits dest: positive_id_nonzero)
    with i(2) show ?thesis
      by (auto simp: peer_parse_show dialable_def)
  next
    case False
    with a show ?thesis
      by (auto simp: from_operator_def peer_identity_parse_def dialable_def split: if_splits)
  qed
qed

lemma alias_from_operator: "dialable p \<Longrightarrow> from_operator (operator_alias p) = Inr p"
proof (cases "pi_protocol p")
  case AllStarLink
  then show "dialable p \<Longrightarrow> ?thesis"
    by (auto simp: dialable_def operator_alias_def from_operator_def peer_identity_parse_def)
next
  case EchoLink
  assume "dialable p"
  with EchoLink obtain i :: u32 where i: "i \<noteq> 0" "pi_node p = show_nat (unat i)"
    by (auto simp: dialable_def)
  have "operator_alias p = echo_alias_format i"
    using EchoLink i by (simp add: operator_alias_def echo_alias_format_def)
  moreover have "prefix ''3'' (echo_alias_format i) \<and> 7 \<le> length (echo_alias_format i)"
    by (simp add: echo_alias_format_def length_pad_zero)
  ultimately show ?thesis
    using EchoLink i by (simp add: from_operator_def echo_roundtrip peer_parse_show)
qed

interpretation operator_codec: codec operator_alias "\<lambda>a. case from_operator a of Inl _ \<Rightarrow> None | Inr p \<Rightarrow> Some p" dialable
  by unfold_locales (simp add: alias_from_operator)

interpretation echo_codec: codec echo_alias_format "\<lambda>a. case echo_alias_parse a of Inl _ \<Rightarrow> None | Inr i \<Rightarrow> Some i" "\<lambda>i. i \<noteq> 0"
  by unfold_locales (simp add: echo_roundtrip)

lemma canonical_idem: "canonical_operator a = Inr b \<Longrightarrow> canonical_operator b = Inr b"
proof -
  assume "canonical_operator a = Inr b"
  then obtain p where p: "from_operator a = Inr p" "b = operator_alias p"
    by (auto simp: canonical_operator_def split: sum.splits)
  from p(1) have "from_operator b = Inr p"
    unfolding p(2) by (intro alias_from_operator from_operator_dialable)
  with p(2) show ?thesis by (simp add: canonical_operator_def)
qed

lemma canonical_determines_peer:
  "canonical_operator a = Inr k \<Longrightarrow> canonical_operator b = Inr k \<Longrightarrow> from_operator a = from_operator b"
  by (auto simp: canonical_operator_def operator_codec.encode_inj split: sum.splits
      dest!: from_operator_dialable)

end
