(* ===== verification/Access_Policy.thy ===== *)
theory Access_Policy
  imports Peer_Identity
begin

text \<open>
  Incoming-link access lists of \<^verbatim>\<open>core/src/access.rs\<close>: the byte cursor parser of
  comma-separated decimal node lists and the deny-first authorization. The interface
  \<open>admission_gate\<close> is what the link manager relies on.
\<close>

section \<open>Definitions\<close>

datatype AccessListError = AccessListError

record AccessPolicy =
  ap_allow :: "string list"
  ap_deny :: "string list"

definition skip_spaces :: "string \<Rightarrow> string" where
  "skip_spaces s = dropWhile (\<lambda>b. b = CHR '' '' \<or> b = CHR 0x09) s"

text \<open>\<^verbatim>\<open>canonical_operator(node).unwrap_or_else(|_| node.to_owned())\<close>, used by both sides.\<close>

definition access_key :: "string \<Rightarrow> string" where
  "access_key node = (case canonical_operator node of Inl _ \<Rightarrow> node | Inr k \<Rightarrow> k)"

text \<open>The parser's \<^verbatim>\<open>loop\<close>: the argument is the text from the cursor on.\<close>

function parse_entries :: "string \<Rightarrow> AccessListError + string list" where
  "parse_entries s =
     (let node = takeWhile is_ascii_digit s;
          rest = skip_spaces (dropWhile is_ascii_digit s) in
      if node = [] then Inl AccessListError
      else if rest = [] then Inr [access_key node]
      else if hd rest \<noteq> CHR '','' then Inl AccessListError
      else let more = skip_spaces (tl rest) in
        if more = [] then Inl AccessListError
        else (case parse_entries more of
                Inl e \<Rightarrow> Inl e
              | Inr entries \<Rightarrow> Inr (access_key node # entries)))"
  by pat_completeness auto

lemma length_skip_spaces: "length (skip_spaces s) \<le> length s"
  by (simp add: skip_spaces_def length_dropWhile_le)

termination parse_entries
proof (relation "measure length", simp)
  fix s node rest more
  assume a: "node = takeWhile is_ascii_digit s" "rest = skip_spaces (dropWhile is_ascii_digit s)"
    "node \<noteq> []" "rest \<noteq> []" "more = skip_spaces (tl rest)"
  have "length more \<le> length (tl rest)" unfolding a(5) by (rule length_skip_spaces)
  also have "\<dots> < length rest" using a(4) by simp
  also have "\<dots> \<le> length (dropWhile is_ascii_digit s)" unfolding a(2) by (rule length_skip_spaces)
  also have "\<dots> \<le> length s" by (rule length_dropWhile_le)
  finally show "(more, s) \<in> measure length" by simp
qed

declare parse_entries.simps [simp del]

definition parse_list :: "string \<Rightarrow> AccessListError + string list" where
  "parse_list list = (let s = skip_spaces list in if s = [] then Inr [] else parse_entries s)"

definition access_policy_new :: "string \<Rightarrow> string \<Rightarrow> AccessListError + AccessPolicy" where
  "access_policy_new allow deny =
     (case parse_list allow of
        Inl e \<Rightarrow> Inl e
      | Inr a \<Rightarrow> (case parse_list deny of
                   Inl e \<Rightarrow> Inl e
                 | Inr d \<Rightarrow> Inr \<lparr>ap_allow = a, ap_deny = d\<rparr>))"

definition list_valid :: "string \<Rightarrow> bool" where
  "list_valid list = (case parse_list list of Inl _ \<Rightarrow> False | Inr _ \<Rightarrow> True)"

definition allows :: "AccessPolicy \<Rightarrow> string \<Rightarrow> bool \<Rightarrow> bool" where
  "allows p node verified =
     (let node = access_key node in
      verified
      \<and> \<not> list_ex (\<lambda>entry. entry = node) (ap_deny p)
      \<and> (ap_allow p = [] \<or> list_ex (\<lambda>entry. entry = node) (ap_allow p)))"

section \<open>Interface\<close>

text \<open>What the link manager relies on when it admits an incoming call.\<close>

locale admission_gate =
  fixes permits :: "'p \<Rightarrow> string \<Rightarrow> bool \<Rightarrow> bool"
    and key :: "string \<Rightarrow> string"
    and blocked :: "'p \<Rightarrow> string set"
  assumes unverified: "\<not> permits p n False"
    and deny_first: "key n \<in> blocked p \<Longrightarrow> \<not> permits p n v"
    and same_key: "key n = key m \<Longrightarrow> permits p n v = permits p m v"
begin

lemma permits_imp_verified: "permits p n v \<Longrightarrow> v"
  using unverified by (cases v) auto

lemma blocked_spelling: "key m \<in> blocked p \<Longrightarrow> key n = key m \<Longrightarrow> \<not> permits p n v"
  using deny_first by metis

end

interpretation gate: admission_gate allows access_key "\<lambda>p. set (ap_deny p)"
  by unfold_locales (auto simp: allows_def Let_def list_ex_iff)

section \<open>Lemmas\<close>

lemma access_key_idem: "access_key (access_key n) = access_key n"
  by (auto simp: access_key_def split: sum.splits dest: canonical_idem)

lemma allows_iff:
  "allows p n v \<longleftrightarrow> v \<and> access_key n \<notin> set (ap_deny p)
     \<and> (ap_allow p = [] \<or> access_key n \<in> set (ap_allow p))"
  by (auto simp: allows_def Let_def list_ex_iff)

lemma skip_spaces_digit [simp]: "is_ascii_digit (hd s) \<Longrightarrow> skip_spaces s = s"
  by (cases s) (auto simp: skip_spaces_def is_ascii_digit_def)

lemma takeWhile_digits [simp]:
  "list_all is_ascii_digit n \<Longrightarrow> takeWhile is_ascii_digit (n @ CHR '','' # s) = n"
  "list_all is_ascii_digit n \<Longrightarrow> dropWhile is_ascii_digit (n @ CHR '','' # s) = CHR '','' # s"
  by (induction n) (auto simp: is_ascii_digit_def [of "CHR '',''"])

lemma parse_entries_join:
  "ns \<noteq> [] \<Longrightarrow> (\<forall>n \<in> set ns. n \<noteq> [] \<and> list_all is_ascii_digit n) \<Longrightarrow>
   parse_entries (join '','' ns) = Inr (map access_key ns)"
proof (induction "'',''" ns rule: join.induct)
  case 1
  then show ?case by simp
next
  case (2 x)
  then have "takeWhile is_ascii_digit x = x" "dropWhile is_ascii_digit x = []"
    by (simp_all add: list_all_iff)
  with 2 show ?case by (subst parse_entries.simps) (simp add: skip_spaces_def del: takeWhile_eq_all_conv dropWhile_eq_Nil_conv)
next
  case (3 x y ys)
  have hd: "is_ascii_digit (hd (join '','' (y # ys)))" "join '','' (y # ys) \<noteq> []"
    using "3.prems" by (cases ys; cases y; auto)+
  have comma: "skip_spaces (CHR '','' # s) = CHR '','' # s" for s
    by (simp add: skip_spaces_def)
  from 3 have "parse_entries (join '','' (y # ys)) = Inr (map access_key (y # ys))" by simp
  with 3 hd show ?case
    by (subst parse_entries.simps) (simp add: Let_def comma)
qed

lemma parse_list_join:
  "(\<forall>n \<in> set ns. n \<noteq> [] \<and> list_all is_ascii_digit n) \<Longrightarrow> parse_list (join '','' ns) = Inr (map access_key ns)"
proof (cases ns)
  case Nil
  then show ?thesis by (simp add: parse_list_def skip_spaces_def)
next
  case (Cons n ms)
  assume all: "\<forall>n \<in> set ns. n \<noteq> [] \<and> list_all is_ascii_digit n"
  with Cons have "is_ascii_digit (hd (join '','' ns))" "join '','' ns \<noteq> []"
    by (cases ms; cases n; auto)+
  with all Cons show ?thesis
    by (simp add: parse_list_def Let_def parse_entries_join)
qed

end
