(* ===== verification/Utf8.thy ===== *)
theory Utf8
  imports Prelude
begin

text \<open>
  UTF-8 as the Rust standard library treats it, on byte lists: \<^verbatim>\<open>str::from_utf8\<close>,
  \<^verbatim>\<open>char::is_control\<close>, \<^verbatim>\<open>char::is_whitespace\<close> and \<^verbatim>\<open>str::split_at_checked\<close>.
\<close>

definition byte :: "char \<Rightarrow> nat" where
  "byte c = of_char c"

definition cont :: "char \<Rightarrow> bool" where
  "cont c \<longleftrightarrow> 128 \<le> byte c \<and> byte c \<le> 191"

definition byte_in :: "nat \<Rightarrow> nat \<Rightarrow> char \<Rightarrow> bool" where
  "byte_in lo hi c \<longleftrightarrow> lo \<le> byte c \<and> byte c \<le> hi"

fun utf8_valid :: "string \<Rightarrow> bool" where
  "utf8_valid [] = True"
| "utf8_valid (a # r) =
     (if byte a < 128 then utf8_valid r
      else if byte_in 194 223 a then
        (case r of b # r1 \<Rightarrow> cont b \<and> utf8_valid r1 | _ \<Rightarrow> False)
      else if byte_in 224 239 a then
        (case r of
           b # c # r2 \<Rightarrow>
             (if byte a = 224 then byte_in 160 191 b
              else if byte a = 237 then byte_in 128 159 b else cont b)
             \<and> cont c \<and> utf8_valid r2
         | _ \<Rightarrow> False)
      else if byte_in 240 244 a then
        (case r of
           b # c # d # r3 \<Rightarrow>
             (if byte a = 240 then byte_in 144 191 b
              else if byte a = 244 then byte_in 128 143 b else cont b)
             \<and> cont c \<and> cont d \<and> utf8_valid r3
         | _ \<Rightarrow> False)
      else False)"

text \<open>Whether a valid UTF-8 text holds a Unicode control character (category Cc).\<close>

fun has_control :: "string \<Rightarrow> bool" where
  "has_control [] \<longleftrightarrow> False"
| "has_control (a # r) \<longleftrightarrow> byte a < 32 \<or> byte a = 127
     \<or> (byte a = 194 \<and> (case r of b # _ \<Rightarrow> byte_in 128 159 b | [] \<Rightarrow> False)) \<or> has_control r"

text \<open>Rust's \<^verbatim>\<open>char::is_whitespace\<close> on UTF-8 bytes.\<close>

fun has_whitespace :: "string \<Rightarrow> bool" where
  "has_whitespace [] \<longleftrightarrow> False"
| "has_whitespace (a # r) \<longleftrightarrow> byte_in 9 13 a \<or> byte a = 32
     \<or> (byte a = 194 \<and> (case r of b # _ \<Rightarrow> byte b = 133 \<or> byte b = 160 | [] \<Rightarrow> False))
     \<or> (byte a = 225 \<and> (case r of b # c # _ \<Rightarrow> byte b = 154 \<and> byte c = 128 | _ \<Rightarrow> False))
     \<or> (byte a = 226 \<and> (case r of b # c # _ \<Rightarrow>
          (byte b = 128 \<and> (byte_in 128 138 c \<or> byte_in 168 169 c \<or> byte c = 175))
          \<or> (byte b = 129 \<and> byte c = 159) | _ \<Rightarrow> False))
     \<or> (byte a = 227 \<and> (case r of b # c # _ \<Rightarrow> byte b = 128 \<and> byte c = 128 | _ \<Rightarrow> False))
     \<or> has_whitespace r"

text \<open>\<^verbatim>\<open>str::trim\<close> on UTF-8 bytes.\<close>

function utf8_chars :: "string \<Rightarrow> string list" where
  "utf8_chars [] = []"
| "utf8_chars (a # r) = (a # takeWhile cont r) # utf8_chars (dropWhile cont r)"
  by pat_completeness auto
termination
  by (relation "measure length") (simp_all add: less_Suc_eq_le length_dropWhile_le)

definition trim_ws :: "string \<Rightarrow> string" where
  "trim_ws s = concat (rev (dropWhile has_whitespace (rev (dropWhile has_whitespace (utf8_chars s)))))"

text \<open>Rust's \<^verbatim>\<open>str::split_at_checked\<close>: the index must be a character boundary.\<close>

definition split_at_checked :: "nat \<Rightarrow> string \<Rightarrow> (string \<times> string) option" where
  "split_at_checked n s =
     (if n \<le> length s \<and> (n = length s \<or> \<not> cont (s ! n)) then Some (take n s, drop n s) else None)"

lemma split_at_checked_Some: "split_at_checked n s = Some (a, b) \<Longrightarrow> s = a @ b \<and> length a = n"
  by (auto simp: split_at_checked_def split: if_splits)

lemma digit_not_cont [simp]: "is_ascii_digit c \<Longrightarrow> \<not> cont c"
  by (auto simp: is_ascii_digit_def cont_def byte_def)

end
