(* ===== verification/Asl_Protocol.thy ===== *)
theory Asl_Protocol
  imports Peer_Identity Utf8
begin

text \<open>
  The external AllStarLink text protocol: the strict bounded parser of
  \<^verbatim>\<open>core/src/link/protocol.rs\<close> and the separation of human text from control frames in
  \<^verbatim>\<open>core/src/link/text.rs\<close>. The lemmas give the exact texts each message is parsed from, which the link
  manager's relaying relies on.
\<close>

section \<open>Messages (link/protocol.rs)\<close>

record Route =
  rt_mode :: char
  rt_node :: string

datatype Protocol =
    Topology "Route list"
  | NewKey
  | NewKey1
  | Query string
  | Key string string bool u64
  | RemoteDigit string string int char
  | IaxKey
  | Disconnect

definition parse_route :: "string \<Rightarrow> Route option" where
  "parse_route token =
     (case token of
        [] \<Rightarrow> None
      | mode # name \<Rightarrow>
          if mode \<notin> set ''TRCL'' \<or> name = [] \<or> \<not> list_all identity_char name then None
          else Some \<lparr>rt_mode = mode, rt_node = name\<rparr>)"

definition parse_fields :: "string list \<Rightarrow> Protocol option" where
  "parse_fields toks =
     (case toks of
        [kind, destination, source, keyed, age] \<Rightarrow>
          if \<not> identity source then None
          else if kind = ''K?'' \<and> destination = ''*'' \<and> keyed = ''0'' \<and> age = ''0''
          then Some (Query source)
          else if kind = ''K'' \<and> identity destination \<and> (keyed = ''0'' \<or> keyed = ''1'')
                  \<and> list_all is_ascii_digit age
          then (case parse_unsigned 64 age of
                  Some n \<Rightarrow> Some (Key destination source (keyed = ''1'') (of_nat n))
                | None \<Rightarrow> None)
          else if kind = ''D'' \<and> identity destination \<and> parse_signed 32 keyed \<noteq> None
                  \<and> length age = 1 \<and> hd age \<in> set ''0123456789*#ABCD''
          then (case parse_signed 32 keyed of
                  Some n \<Rightarrow> Some (RemoteDigit destination source n (hd age))
                | None \<Rightarrow> None)
          else None
      | _ \<Rightarrow> None)"

definition strip_nul :: "string \<Rightarrow> string" where
  "strip_nul bytes = (case strip_suffix [CHR 0x00] bytes of Some b \<Rightarrow> b | None \<Rightarrow> bytes)"

definition parse_protocol :: "string \<Rightarrow> Protocol option" where
  "parse_protocol bytes0 =
     (let bytes = strip_nul bytes0 in
      if length bytes > 10002 \<or> CHR 0x00 \<in> set bytes then None
      else if \<not> utf8_valid bytes then None
      else if bytes = ''!NEWKEY!'' then Some NewKey
      else if bytes = ''!NEWKEY1!'' then Some NewKey1
      else if bytes = ''!IAXKEY!'' then Some IaxKey
      else if bytes = ''!!DISCONNECT!!'' then Some Disconnect
      else if bytes = ''L'' \<or> bytes = ''L '' then Some (Topology [])
      else (case strip_prefix ''L '' bytes of
              Some payload \<Rightarrow>
                map_option Topology (those (map parse_route (split_on (CHR '','') payload)))
            | None \<Rightarrow> parse_fields (filter (\<lambda>t. t \<noteq> []) (split_on (CHR '' '') bytes))))"

section \<open>Human text (link/text.rs)\<close>

record TextOrigin =
  to_station_generation :: u64
  to_connection_generation :: u64
  to_peer :: string
  to_protocol :: u32

datatype TextAudience = Broadcast | NodeAudience string

record HumanMessage =
  hm_origin :: TextOrigin
  hm_source :: string
  hm_represented_source :: "PeerIdentity option"
  hm_audience :: TextAudience
  hm_body :: string

datatype ClassifiedText = Control Protocol | Human HumanMessage | UnknownText

definition parse_human :: "TextOrigin \<Rightarrow> string \<Rightarrow> HumanMessage option" where
  "parse_human origin bytes =
     (if \<not> utf8_valid bytes \<or> has_control bytes then None
      else Option.bind (strip_prefix ''M '' bytes) (\<lambda>rest0.
        Option.bind (split_once (CHR '' '') (trim_start (CHR '' '') rest0)) (\<lambda>(source, rest).
          Option.bind (split_once (CHR '' '') (trim_start (CHR '' '') rest)) (\<lambda>(destination, body0).
            let body = trim_start (CHR '' '') body0 in
            if \<not> identity source \<or> \<not> identity destination \<or> length body < 2 then None
            else Some \<lparr>hm_origin = origin, hm_source = source,
                       hm_represented_source = (case from_operator source of Inl _ \<Rightarrow> None | Inr p \<Rightarrow> Some p),
                       hm_audience = (if destination = ''0'' then Broadcast else NodeAudience destination),
                       hm_body = body\<rparr>))))"

definition classify_asl :: "TextOrigin \<Rightarrow> string \<Rightarrow> ClassifiedText" where
  "classify_asl origin bytes =
     (case parse_protocol bytes of
        Some control \<Rightarrow> Control control
      | None \<Rightarrow> (case parse_human origin (strip_nul bytes) of
                  Some m \<Rightarrow> Human m
                | None \<Rightarrow> UnknownText))"

section \<open>Texts the program sends\<close>

text \<open>The \<^verbatim>\<open>format!\<close> strings of \<^verbatim>\<open>relay_key\<close>, \<^verbatim>\<open>relay_digit\<close> (link/hub.rs)
  and \<^verbatim>\<open>Peer::query\<close> (link/peer.rs).\<close>

definition key_text :: "string \<Rightarrow> string \<Rightarrow> bool \<Rightarrow> u64 \<Rightarrow> string" where
  "key_text destination source keyed age_seconds =
     ''K '' @ destination @ '' '' @ source @ '' '' @ (if keyed then ''1'' else ''0'') @ '' ''
       @ show_nat (unat age_seconds)"

definition query_text :: "string \<Rightarrow> string" where
  "query_text requester = ''K? * '' @ requester @ '' 0 0''"

definition digit_text :: "string \<Rightarrow> string \<Rightarrow> int \<Rightarrow> char \<Rightarrow> string" where
  "digit_text destination source sequence digit =
     ''D '' @ destination @ '' '' @ source @ '' '' @ show_int sequence @ '' '' @ [digit]"

section \<open>ASCII texts\<close>

definition ascii_text :: "string \<Rightarrow> bool" where
  "ascii_text s \<longleftrightarrow> list_all (\<lambda>c. 32 \<le> byte c \<and> byte c < 127) s"

lemma ascii_append [simp]: "ascii_text (s @ t) \<longleftrightarrow> ascii_text s \<and> ascii_text t"
  by (simp add: ascii_text_def)

lemma ascii_Cons [simp]: "ascii_text (c # t) \<longleftrightarrow> 32 \<le> byte c \<and> byte c < 127 \<and> ascii_text t"
  by (simp add: ascii_text_def)

lemma ascii_Nil [simp]: "ascii_text []"
  by (simp add: ascii_text_def)

lemma ascii_utf8 [simp]: "ascii_text s \<Longrightarrow> utf8_valid s"
  by (induction s rule: utf8_valid.induct) (simp_all add: ascii_text_def)

lemma ascii_no_nul: "ascii_text s \<Longrightarrow> CHR 0x00 \<notin> set s"
  by (auto simp: ascii_text_def list_all_iff byte_def)

lemma ascii_strip_nul [simp]: "ascii_text s \<Longrightarrow> strip_nul s = s"
  using ascii_no_nul [of s]
  by (auto simp: strip_nul_def strip_suffix_def suffix_def split: option.splits)

lemma identity_char_ascii: "identity_char c \<Longrightarrow> 32 \<le> byte c \<and> byte c < 127"
  by (auto simp: identity_char_def is_ascii_alphanumeric_def is_ascii_digit_def byte_def)

lemma list_identity_ascii [simp]: "list_all identity_char s \<Longrightarrow> ascii_text s"
  by (auto simp: ascii_text_def list_all_iff dest: identity_char_ascii)

lemma digits_identity [simp]: "list_all is_ascii_digit s \<Longrightarrow> list_all identity_char s"
  by (auto simp: list_all_iff)

lemma identity_ascii [simp]: "identity s \<Longrightarrow> ascii_text s"
  by (simp add: identity_def)

lemma identity_fresh:
  "list_all identity_char s \<Longrightarrow> CHR '' '' \<notin> set s \<and> CHR '','' \<notin> set s"
  by (auto simp: list_all_iff dest: identity_char_cases)


section \<open>Round trips\<close>

lemma ascii_join [simp]: "ascii_text sep \<Longrightarrow> ascii_text (join sep xs) \<longleftrightarrow> list_all ascii_text xs"
  by (induction sep xs rule: join.induct) auto

lemma parse_join:
  assumes "toks = (c # k) # rest" "c \<noteq> CHR ''!''" "c \<noteq> CHR ''L''"
    and "list_all ascii_text toks" "\<forall>t \<in> set toks. t \<noteq> [] \<and> CHR '' '' \<notin> set t"
    and "length (join '' '' toks) \<le> 10002"
  shows "parse_protocol (join '' '' toks) = parse_fields toks"
proof -
  have a: "ascii_text (join '' '' toks)"
    using assms(4) by (simp add: byte_def)
  obtain r where r: "join '' '' toks = c # r"
    using assms(1) by (cases rest) auto
  have sp: "split_on (CHR '' '') (join '' '' toks) = toks"
    using assms(1,5) by (intro split_on_join) auto
  have "filter (\<lambda>t. t \<noteq> []) toks = toks"
    using assms(5) by (simp add: filter_id_conv)
  with a assms(2,3,6) sp show ?thesis
    using ascii_no_nul [OF a] unfolding r
    by (simp add: parse_protocol_def strip_prefix_def)
qed

lemma show_nat_ascii [simp]: "ascii_text (show_nat n)"
  using show_nat_digits [of n] by (intro list_identity_ascii digits_identity)

lemma show_nat_no_space [simp]: "CHR '' '' \<notin> set (show_nat n)"
  using show_nat_digits [of n] identity_fresh [OF digits_identity] by blast

lemma show_int_ascii [simp]: "ascii_text (show_int n)"
  by (simp add: show_int_def byte_def)

lemma show_int_no_space [simp]: "CHR '' '' \<notin> set (show_int n)" "show_int n \<noteq> []"
  by (simp_all add: show_int_def)

lemma identity_facts: "identity s \<Longrightarrow> s \<noteq> [] \<and> length s < 64 \<and> CHR '' '' \<notin> set s"
  by (auto simp: identity_def dest: identity_fresh)

lemma u64_digits: "length (show_nat (unat (n :: u64))) \<le> 20"
proof -
  have "unat n < 2 ^ 64" using unsigned_less [of n, where ?'a = nat] by simp
  then have "unat n < 10 ^ 20" by simp
  then show ?thesis by (rule show_nat_length_le) simp
qed

lemma parse_query_text: "identity r \<Longrightarrow> parse_protocol (query_text r) = Some (Query r)"
  using parse_join [of "[''K?'', ''*'', r, ''0'', ''0'']" "CHR ''K''" "''?''"] identity_facts [of r]
  by (simp add: query_text_def parse_fields_def byte_def)

lemma parse_key_text:
  assumes "identity d" "identity s"
  shows "parse_protocol (key_text d s k age) = Some (Key d s k age)"
proof -
  have lt: "unat age < 2 ^ 64" using unsigned_less [of age, where ?'a = nat] by simp
  let ?toks = "[''K'', d, s, (if k then ''1'' else ''0''), show_nat (unat age)]"
  have "parse_protocol (join '' '' ?toks) = parse_fields ?toks"
    using assms identity_facts [of d] identity_facts [of s] u64_digits [of age]
    by (intro parse_join [where c = "CHR ''K''" and k = "[]"]) (auto simp: byte_def)
  moreover have "join '' '' ?toks = key_text d s k age"
    by (simp add: key_text_def)
  ultimately show ?thesis
    using assms lt parse_unsigned_show [OF lt] by (simp add: parse_fields_def)
qed

lemma length_show_int32: "- (2 ^ 31) \<le> n \<Longrightarrow> n < 2 ^ 31 \<Longrightarrow> length (show_int n) \<le> 11"
proof -
  assume "- (2 ^ 31) \<le> n" "n < 2 ^ 31"
  then have "nat (- n) < 10 ^ 10" "nat n < 10 ^ 10" by simp_all
  then have "length (show_nat (nat (- n))) \<le> 10" "length (show_nat (nat n)) \<le> 10"
    by (auto intro!: show_nat_length_le)
  then show ?thesis by (auto simp: show_int_def)
qed

lemma valid_digit_ascii: "valid_digit c \<Longrightarrow> 32 \<le> byte c \<and> byte c < 127 \<and> c \<noteq> CHR '' ''"
  by (auto simp: valid_digit_def byte_def)

lemma parse_digit_text:
  assumes "identity d" "identity s" "- (2 ^ 31) \<le> n" "n < 2 ^ 31" "valid_digit c"
  shows "parse_protocol (digit_text d s n c) = Some (RemoteDigit d s n c)"
proof -
  let ?toks = "[''D'', d, s, show_int n, [c]]"
  have "parse_protocol (join '' '' ?toks) = parse_fields ?toks"
    using assms identity_facts [of d] identity_facts [of s] length_show_int32 [of n] valid_digit_ascii [of c]
    by (intro parse_join [where c = "CHR ''D''" and k = "[]"]) (auto simp: byte_def)
  moreover have "join '' '' ?toks = digit_text d s n c"
    by (simp add: digit_text_def)
  moreover have "parse_signed 32 (show_int n) = Some n"
    using assms by (intro parse_signed_show) simp_all
  moreover have "c \<in> set ''0123456789*#ABCD''"
    using assms(5) by (auto simp: valid_digit_def)
  ultimately show ?thesis
    using assms(1,2) by (simp add: parse_fields_def)
qed

text \<open>Topology advertisements, as \<^verbatim>\<open>TopologyManager::publish\<close> formats them.\<close>

definition route_ok :: "Route \<Rightarrow> bool" where
  "route_ok r \<longleftrightarrow> rt_mode r \<in> set ''TRCL'' \<and> rt_node r \<noteq> [] \<and> list_all identity_char (rt_node r)"

definition route_text :: "Route \<Rightarrow> string" where
  "route_text r = rt_mode r # rt_node r"

lemma parse_route_text: "route_ok r \<Longrightarrow> parse_route (route_text r) = Some r"
  by (auto simp: parse_route_def route_text_def route_ok_def)

lemma those_map_parse: "list_all route_ok rs \<Longrightarrow> those (map (parse_route \<circ> route_text) rs) = Some rs"
  by (induction rs) (auto simp: parse_route_text)

lemma route_text_facts: "route_ok r \<Longrightarrow> ascii_text (route_text r) \<and> CHR '','' \<notin> set (route_text r) \<and> route_text r \<noteq> []"
  by (auto simp: route_ok_def route_text_def byte_def dest: identity_fresh)

lemma parse_topology_text:
  assumes ok: "list_all route_ok rs" and len: "length (join '','' (map route_text rs)) \<le> 10000"
  shows "parse_protocol (''L '' @ join '','' (map route_text rs)) = Some (Topology rs)"
proof (cases rs)
  case Nil
  then show ?thesis by (simp add: parse_protocol_def byte_def)
next
  case (Cons r rs')
  let ?p = "join '','' (map route_text rs)"
  have a: "ascii_text (''L '' @ ?p)"
    using ok by (auto simp: list_all_iff byte_def dest: route_text_facts)
  have sp: "split_on (CHR '','') ?p = map route_text rs"
    using ok Cons by (intro split_on_join) (auto simp: list_all_iff dest: route_text_facts)
  have ne: "?p \<noteq> []"
    using ok Cons route_text_facts [of r] by (cases rs') auto
  show ?thesis
    using a sp ne len ascii_no_nul [OF a] those_map_parse [OF ok]
    by (simp add: parse_protocol_def strip_prefix_def comp_def)
qed

section \<open>The control texts as a codec\<close>

text \<open>The canonical text of a control message, and the messages that have one: those are
  exactly the messages \<^verbatim>\<open>Protocol::parse\<close> can return.\<close>

fun wire_text :: "Protocol \<Rightarrow> string" where
  "wire_text (Topology rs) = ''L '' @ join '','' (map route_text rs)"
| "wire_text NewKey = ''!NEWKEY!''"
| "wire_text NewKey1 = ''!NEWKEY1!''"
| "wire_text (Query r) = query_text r"
| "wire_text (Key d s k age) = key_text d s k age"
| "wire_text (RemoteDigit d s n c) = digit_text d s n c"
| "wire_text IaxKey = ''!IAXKEY!''"
| "wire_text Disconnect = ''!!DISCONNECT!!''"

fun wire_ok :: "Protocol \<Rightarrow> bool" where
  "wire_ok (Topology rs) \<longleftrightarrow> list_all route_ok rs \<and> length (join '','' (map route_text rs)) \<le> 10000"
| "wire_ok (Query r) \<longleftrightarrow> identity r"
| "wire_ok (Key d s k age) \<longleftrightarrow> identity d \<and> identity s"
| "wire_ok (RemoteDigit d s n c) \<longleftrightarrow> identity d \<and> identity s \<and> - (2 ^ 31) \<le> n \<and> n < 2 ^ 31 \<and> valid_digit c"
| "wire_ok _ \<longleftrightarrow> True"

lemma parse_fixed_texts:
  "parse_protocol ''!NEWKEY!'' = Some NewKey"
  "parse_protocol ''!NEWKEY1!'' = Some NewKey1"
  "parse_protocol ''!IAXKEY!'' = Some IaxKey"
  "parse_protocol ''!!DISCONNECT!!'' = Some Disconnect"
  by (simp_all add: parse_protocol_def byte_def)

lemma parse_wire_text: "wire_ok m \<Longrightarrow> parse_protocol (wire_text m) = Some m"
  by (cases m) (simp_all add: parse_topology_text [simplified] parse_query_text parse_key_text parse_digit_text
      parse_fixed_texts)

interpretation wire_codec: codec wire_text parse_protocol wire_ok
  by unfold_locales (rule parse_wire_text)

lemma parse_route_Some: "parse_route t = Some r \<Longrightarrow> route_ok r \<and> route_text r = t"
  by (auto simp: parse_route_def route_ok_def route_text_def split: list.splits if_splits)

lemma those_parse_routes: "those (map parse_route ts) = Some rs \<Longrightarrow> list_all route_ok rs \<and> map route_text rs = ts"
  by (induction ts arbitrary: rs) (auto dest: parse_route_Some split: option.splits)

lemma parse_signed_range: "parse_signed b s = Some n \<Longrightarrow> - (2 ^ (b - 1)) \<le> n \<and> n < 2 ^ (b - 1)"
  by (simp add: parse_signed_def Let_def split: if_splits)

lemma parse_fields_wire_ok: "parse_fields ts = Some m \<Longrightarrow> wire_ok m"
  by (auto simp: parse_fields_def valid_digit_def split: list.splits if_splits option.splits dest!: parse_signed_range)

lemma parse_wire_ok: "parse_protocol b = Some m \<Longrightarrow> wire_ok m"
  by (auto simp: parse_protocol_def Let_def strip_prefix_Some split: if_splits option.splits
      dest!: those_parse_routes intro: parse_fields_wire_ok)

end
