(* ===== verification/Group_Selection.thy ===== *)
theory Group_Selection
  imports Prelude
begin

text \<open>
  The lock-free control/audio handoff of one priority group, \<^verbatim>\<open>GroupSelection\<close> and
  \<^verbatim>\<open>GroupMemberSelection\<close> in \<^verbatim>\<open>core/src/link/audio.rs\<close>. A selection is shared
  by all members of a group (an \<^verbatim>\<open>Arc\<close> of atomics), so members hold an address and the
  cells live in a store that the link manager carries. Each atomic is written by one owner only
  (\<open>gs_desired\<close> by control, \<open>gs_active\<close> and \<open>gs_revision\<close> by the audio callback),
  so every interleaving is a sequence of the operations below.
\<close>

section \<open>Definitions\<close>

record GroupSelection =
  gs_desired :: nat
  gs_active :: nat
  gs_revision :: u64

type_synonym sel_ref = nat
type_synonym sel_store = "sel_ref \<Rightarrow> GroupSelection"

record GroupMemberSelection =
  gm_label :: string
  gm_slot :: nat
  gm_selection :: sel_ref

definition group_selection_new :: GroupSelection where
  "group_selection_new = \<lparr>gs_desired = 0, gs_active = 0, gs_revision = 0\<rparr>"

definition publish_desired :: "nat option \<Rightarrow> GroupSelection \<Rightarrow> GroupSelection" where
  "publish_desired slot gs = gs\<lparr>gs_desired := (case slot of None \<Rightarrow> 0 | Some s \<Rightarrow> s)\<rparr>"

definition gs_active_slot :: "GroupSelection \<Rightarrow> nat option" where
  "gs_active_slot gs = (if gs_active gs = 0 then None else Some (gs_active gs))"

definition callback_slot :: "bool \<Rightarrow> GroupSelection \<Rightarrow> nat \<times> GroupSelection" where
  "callback_slot inputs_idle gs =
     (if inputs_idle
      then (gs_desired gs,
            gs\<lparr>gs_active := gs_desired gs,
               gs_revision := (if gs_active gs \<noteq> gs_desired gs then gs_revision gs + 1 else gs_revision gs)\<rparr>)
      else (gs_active gs, gs))"

datatype SelectionEvent = PublishDesired "nat option" | Callback bool

definition selection_step :: "GroupSelection \<Rightarrow> SelectionEvent \<Rightarrow> GroupSelection" where
  "selection_step gs e =
     (case e of PublishDesired s \<Rightarrow> publish_desired s gs | Callback idle \<Rightarrow> snd (callback_slot idle gs))"

section \<open>Lemmas\<close>

lemma callback_busy_keeps: "snd (callback_slot False gs) = gs"
  by (simp add: callback_slot_def)

lemma callback_returns_active: "fst (callback_slot idle gs) = gs_active (snd (callback_slot idle gs))"
  by (simp add: callback_slot_def)

text \<open>While some input of the group stays busy, no publication moves the active member.\<close>

lemma busy_run_keeps_active:
  "\<forall>e \<in> set es. e \<noteq> Callback True \<Longrightarrow>
   gs_active (foldl selection_step gs es) = gs_active gs
   \<and> gs_revision (foldl selection_step gs es) = gs_revision gs"
proof (induction es arbitrary: gs)
  case Nil
  then show ?case by simp
next
  case (Cons e es)
  then have "gs_active (selection_step gs e) = gs_active gs \<and> gs_revision (selection_step gs e) = gs_revision gs"
    by (cases e) (auto simp: selection_step_def publish_desired_def callback_slot_def)
  with Cons show ?case by simp
qed

lemma idle_callback_activates:
  "gs_active (selection_step gs (Callback True)) = gs_desired gs"
  by (simp add: selection_step_def callback_slot_def)

end
