(* ===== verification/Link_Hub.thy ===== *)
theory Link_Hub
  imports Access_Policy Asl_Protocol Group_Selection
    "HOL-Library.Char_ord" "HOL-Library.List_Lexorder" "HOL-Library.Product_Lexorder"
begin

text \<open>
  The serialized link manager of \<^verbatim>\<open>core/src/link/hub.rs\<close>: direct peers, admission
  against loops and access policy, retained reconnect intent with its dial tokens, topology
  evidence, and the relaying of key and digit messages. Every method is one definition; methods
  that mutate take and return the whole manager. Shared group selections live in the store
  \<open>lm_selections\<close>, which the manager's methods update as the Rust methods write the atomics
  behind each \<^verbatim>\<open>Arc\<close>.
\<close>

section \<open>State\<close>

datatype AdmissionError = AE_Identity | AE_Loop | AE_Denied | AE_Invalid | AE_Stale | AE_UnsupportedRoute

record Mode =
  md_transmit :: bool
  md_forward :: bool

definition TRANSCEIVE :: Mode where
  "TRANSCEIVE = \<lparr>md_transmit = True, md_forward = True\<rparr>"

definition MONITOR :: Mode where
  "MONITOR = \<lparr>md_transmit = False, md_forward = True\<rparr>"

definition LOCAL_MONITOR :: Mode where
  "LOCAL_MONITOR = \<lparr>md_transmit = False, md_forward = False\<rparr>"

record Attached =
  at_name :: string
  at_mode :: Mode
  at_permanent :: bool
  at_ended :: bool
  at_routes :: "Route list"
  at_group :: "string option"
  at_group_member :: "GroupMemberSelection option"

type_synonym TopologyEvidence = "(string \<times> char) list"

record Retry =
  ry_name :: string
  ry_mode :: Mode
  ry_automatic :: bool
  ry_paused :: bool
  ry_due :: u64
  ry_delay :: u64
  ry_attempt :: "u64 option"
  ry_blocked_topology :: "TopologyEvidence option"
  ry_group :: "string option"
  ry_group_member :: "GroupMemberSelection option"

record RetryAttempt =
  ra_name :: string
  ra_mode :: Mode
  ra_serial :: u64
  ra_generation :: u64

record LinkStatus =
  ls_name :: string
  ls_mode :: Mode
  ls_local_only :: bool
  ls_permanent :: bool
  ls_ended :: bool
  ls_retrying :: bool
  ls_paused :: bool
  ls_due_ms :: "u64 option"
  ls_topology_blocked :: bool

record LinkManager =
  lm_local :: string
  lm_peers :: "Attached list"
  lm_retries :: "Retry list"
  lm_revision :: u64
  lm_generation :: u64
  lm_serial :: u64
  lm_selections :: sel_store

section \<open>Construction (config NodeId, LinkManager::new)\<close>

definition node_id_valid :: "string \<Rightarrow> bool" where
  "node_id_valid v \<longleftrightarrow> \<not> (v = [] \<or> length v > 63 \<or> has_whitespace v
     \<or> CHR ''['' \<in> set v \<or> CHR '']'' \<in> set v)"

definition link_manager_new :: "string \<Rightarrow> sel_store \<Rightarrow> AdmissionError + LinkManager" where
  "link_manager_new local selections =
     (if \<not> node_id_valid local \<or> CHR 0x00 \<in> set local then Inl AE_Identity
      else Inr \<lparr>lm_local = local, lm_peers = [], lm_retries = [], lm_revision = 1,
                lm_generation = 1, lm_serial = 0, lm_selections = selections\<rparr>)"

section \<open>Admission\<close>

definition routes_reach :: "Attached \<Rightarrow> string \<Rightarrow> bool" where
  "routes_reach peer name \<longleftrightarrow> \<not> at_ended peer \<and> list_ex (\<lambda>r. rt_node r = name) (at_routes peer)"

definition reaches :: "LinkManager \<Rightarrow> string \<Rightarrow> bool \<Rightarrow> bool" where
  "reaches lm name include_paused \<longleftrightarrow>
     list_ex (\<lambda>p. at_name p = name \<or> routes_reach p name) (lm_peers lm)
     \<or> list_ex (\<lambda>r. ry_name r = name \<and> (include_paused \<or> \<not> ry_paused r)) (lm_retries lm)"

definition check_group :: "LinkManager \<Rightarrow> string \<Rightarrow> bool \<Rightarrow> string option \<Rightarrow> AdmissionError + unit" where
  "check_group lm name retries grp =
     (if \<not> decimal_identity name then Inl AE_Identity
      else if name = lm_local lm
        \<or> list_ex (\<lambda>p. at_name p = name \<or> (grp = None \<and> routes_reach p name)) (lm_peers lm)
        \<or> (retries \<and> list_ex (\<lambda>r. ry_name r = name) (lm_retries lm))
      then Inl AE_Loop
      else Inr ())"

definition hub_check :: "LinkManager \<Rightarrow> string \<Rightarrow> bool \<Rightarrow> AdmissionError + unit" where
  "hub_check lm name retries = check_group lm name retries None"

section \<open>Group selections\<close>

definition hub_members :: "LinkManager \<Rightarrow> GroupMemberSelection list" where
  "hub_members lm = List.map_filter at_group_member (lm_peers lm)
     @ List.map_filter ry_group_member (lm_retries lm)"

definition hub_groups :: "LinkManager \<Rightarrow> GroupMemberSelection list" where
  "hub_groups lm =
     foldl (\<lambda>gs m. if list_ex (\<lambda>g. gm_label g = gm_label m) gs then gs else gs @ [m]) [] (hub_members lm)"

definition desired_slot :: "LinkManager \<Rightarrow> string \<Rightarrow> nat option" where
  "desired_slot lm label =
     (let slots = map gm_slot (filter (\<lambda>m. gm_label m = label)
        (List.map_filter at_group_member (filter (\<lambda>p. \<not> at_ended p) (lm_peers lm)))) in
      if slots = [] then None else Some (min_list slots))"

definition refresh_group_selections :: "LinkManager \<Rightarrow> LinkManager" where
  "refresh_group_selections lm =
     lm\<lparr>lm_selections :=
        foldl (\<lambda>h m. h(gm_selection m := publish_desired (desired_slot lm (gm_label m)) (h (gm_selection m))))
          (lm_selections lm) (hub_groups lm)\<rparr>"

definition reporting_state :: "LinkManager \<Rightarrow> Attached \<Rightarrow> Mode \<times> bool" where
  "reporting_state lm p =
     (case at_group_member p of
        Some m \<Rightarrow>
          (if gs_active_slot (lm_selections lm (gm_selection m)) \<noteq> Some (gm_slot m)
           then (MONITOR, True) else (at_mode p, False))
      | None \<Rightarrow> (at_mode p, False))"

section \<open>Publication\<close>

definition hub_publish ::
    "LinkManager \<Rightarrow> string \<Rightarrow> Mode \<Rightarrow> bool \<Rightarrow> string option \<Rightarrow> GroupMemberSelection option \<Rightarrow> LinkManager" where
  "hub_publish lm name mode permanent grp member =
     refresh_group_selections
       (lm\<lparr>lm_peers := lm_peers lm @ [\<lparr>at_name = name, at_mode = mode, at_permanent = permanent,
             at_ended = False, at_routes = [], at_group = grp, at_group_member = member\<rparr>],
          lm_revision := lm_revision lm + 1\<rparr>)"

definition attach_group ::
    "LinkManager \<Rightarrow> string \<Rightarrow> Mode \<Rightarrow> bool \<Rightarrow> string option \<Rightarrow> AdmissionError + LinkManager" where
  "attach_group lm name mode permanent grp =
     (case check_group lm name True grp of
        Inl e \<Rightarrow> Inl e
      | Inr _ \<Rightarrow> Inr (hub_publish lm name mode permanent grp None))"

definition attach :: "LinkManager \<Rightarrow> string \<Rightarrow> Mode \<Rightarrow> bool \<Rightarrow> AdmissionError + LinkManager" where
  "attach lm name mode permanent = attach_group lm name mode permanent None"

definition attach_member ::
    "LinkManager \<Rightarrow> string \<Rightarrow> Mode \<Rightarrow> bool \<Rightarrow> GroupMemberSelection option \<Rightarrow> AdmissionError + LinkManager" where
  "attach_member lm name mode permanent member =
     (case check_group lm name True (map_option gm_label member) of
        Inl e \<Rightarrow> Inl e
      | Inr _ \<Rightarrow> Inr (hub_publish lm name mode permanent (map_option gm_label member) member))"

definition authorize_incoming :: "LinkManager \<Rightarrow> string \<Rightarrow> bool \<Rightarrow> AccessPolicy \<Rightarrow> AdmissionError + unit" where
  "authorize_incoming lm name verified policy =
     (if \<not> allows policy name verified then Inl AE_Denied else hub_check lm name True)"

definition authorize_incoming_member ::
    "LinkManager \<Rightarrow> string \<Rightarrow> bool \<Rightarrow> AccessPolicy \<Rightarrow> GroupMemberSelection option \<Rightarrow> AdmissionError + unit" where
  "authorize_incoming_member lm name verified policy member =
     (if \<not> allows policy name verified then Inl AE_Denied
      else check_group lm name True (map_option gm_label member))"

definition admit_incoming :: "LinkManager \<Rightarrow> string \<Rightarrow> bool \<Rightarrow> AccessPolicy \<Rightarrow> AdmissionError + LinkManager" where
  "admit_incoming lm name verified policy =
     (case authorize_incoming lm name verified policy of
        Inl e \<Rightarrow> Inl e
      | Inr _ \<Rightarrow> attach lm name TRANSCEIVE False)"

definition admit_incoming_member ::
    "LinkManager \<Rightarrow> string \<Rightarrow> bool \<Rightarrow> AccessPolicy \<Rightarrow> GroupMemberSelection option \<Rightarrow> AdmissionError + LinkManager" where
  "admit_incoming_member lm name verified policy member =
     (if \<not> allows policy name verified then Inl AE_Denied
      else attach_member lm name TRANSCEIVE False member)"

definition remote_digit :: "LinkManager \<Rightarrow> string \<Rightarrow> char \<Rightarrow> AccessPolicy \<Rightarrow> bool" where
  "remote_digit lm name digit policy \<longleftrightarrow>
     valid_digit digit
     \<and> allows policy name (list_ex (\<lambda>p. at_name p = name \<and> \<not> at_ended p) (lm_peers lm))"

section \<open>Topology\<close>

definition topology_evidence :: "LinkManager \<Rightarrow> string \<Rightarrow> string option \<Rightarrow> TopologyEvidence" where
  "topology_evidence lm name grp =
     (if grp \<noteq> None
      then map (\<lambda>p. (at_name p, CHR ''D'')) (filter (\<lambda>p. at_name p = name) (lm_peers lm))
      else remdups_adj (sort (concat (map
             (\<lambda>p. map (\<lambda>r. (at_name p, rt_mode r)) (filter (\<lambda>r. rt_node r = name) (at_routes p)))
             (filter (\<lambda>p. \<not> at_ended p) (lm_peers lm))))))"

definition release_changed_topology_blocks :: "LinkManager \<Rightarrow> LinkManager" where
  "release_changed_topology_blocks lm =
     lm\<lparr>lm_retries := map (\<lambda>r.
        (case ry_blocked_topology r of
           Some e \<Rightarrow>
             (if e \<noteq> topology_evidence lm (ry_name r) (ry_group r)
              then r\<lparr>ry_blocked_topology := None, ry_attempt := None, ry_delay := 0, ry_due := 0\<rparr>
              else r)
         | None \<Rightarrow> r)) (lm_retries lm)\<rparr>"

definition update_topology :: "LinkManager \<Rightarrow> string \<Rightarrow> string \<Rightarrow> AdmissionError + (bool \<times> LinkManager)" where
  "update_topology lm name bytes =
     (case parse_protocol bytes of
        Some (Topology routes) \<Rightarrow>
          (case find (\<lambda>p. at_name p = name) (lm_peers lm) of
             None \<Rightarrow> Inl AE_Invalid
           | Some peer \<Rightarrow>
               let looped = (at_group peer = None
                     \<and> list_ex (\<lambda>p. at_name p \<noteq> name \<and> \<not> at_ended p
                          \<and> list_ex (\<lambda>r. rt_node r = at_name p) routes) (lm_peers lm));
                   lm' = (if at_routes peer = routes then lm
                          else release_changed_topology_blocks
                            (lm\<lparr>lm_peers := update_first (\<lambda>p. at_name p = name) (\<lambda>p. p\<lparr>at_routes := routes\<rparr>) (lm_peers lm),
                               lm_revision := lm_revision lm + 1\<rparr>))
               in Inr (looped, lm'))
      | _ \<Rightarrow> Inl AE_Invalid)"

section \<open>Ending and reclaiming peers\<close>

definition hub_end :: "LinkManager \<Rightarrow> string \<Rightarrow> LinkManager" where
  "hub_end lm name =
     (if list_ex (\<lambda>p. at_name p = name) (lm_peers lm)
      then refresh_group_selections
        (lm\<lparr>lm_peers := update_first (\<lambda>p. at_name p = name) (\<lambda>p. p\<lparr>at_ended := True\<rparr>) (lm_peers lm),
           lm_revision := lm_revision lm + 1\<rparr>)
      else lm)"

definition reject_loop :: "LinkManager \<Rightarrow> string \<Rightarrow> LinkManager" where
  "reject_loop lm name =
     hub_end (lm\<lparr>lm_peers := update_first (\<lambda>p. at_name p = name) (\<lambda>p. p\<lparr>at_permanent := False\<rparr>) (lm_peers lm)\<rparr>) name"

text \<open>The retry record kept for an attached peer that is being removed.\<close>

definition retained_retry :: "Attached \<Rightarrow> bool \<Rightarrow> bool \<Rightarrow> u64 \<Rightarrow> Retry" where
  "retained_retry p automatic paused due =
     \<lparr>ry_name = at_name p, ry_mode = at_mode p, ry_automatic = automatic, ry_paused = paused,
      ry_due = due, ry_delay = 0, ry_attempt = None, ry_blocked_topology = None,
      ry_group = at_group p, ry_group_member = at_group_member p\<rparr>"

definition reclaim :: "LinkManager \<Rightarrow> string \<Rightarrow> u64 \<Rightarrow> LinkManager" where
  "reclaim lm name now_ms =
     (case position (\<lambda>p. at_name p = name \<and> at_ended p) (lm_peers lm) of
        None \<Rightarrow> lm
      | Some index \<Rightarrow>
          let peer = lm_peers lm ! index in
          refresh_group_selections
            (lm\<lparr>lm_peers := remove_at index (lm_peers lm),
               lm_retries := (if at_permanent peer
                  then lm_retries lm @ [retained_retry peer True False now_ms] else lm_retries lm),
               lm_revision := lm_revision lm + 1\<rparr>))"

section \<open>Retained retries\<close>

definition new_retry ::
    "string \<Rightarrow> Mode \<Rightarrow> u64 \<Rightarrow> TopologyEvidence option \<Rightarrow> string option \<Rightarrow> GroupMemberSelection option \<Rightarrow> Retry" where
  "new_retry name mode due blocked grp member =
     \<lparr>ry_name = name, ry_mode = mode, ry_automatic = True, ry_paused = False, ry_due = due,
      ry_delay = 0, ry_attempt = None, ry_blocked_topology = blocked, ry_group = grp,
      ry_group_member = member\<rparr>"

definition retain_retry_group ::
    "LinkManager \<Rightarrow> string \<Rightarrow> Mode \<Rightarrow> u64 \<Rightarrow> string option \<Rightarrow> AdmissionError + LinkManager" where
  "retain_retry_group lm name mode now_ms grp =
     (case check_group lm name True grp of
        Inl e \<Rightarrow> Inl e
      | Inr _ \<Rightarrow> Inr (lm\<lparr>lm_retries := lm_retries lm @ [new_retry name mode now_ms None grp None]\<rparr>))"

definition retain_retry :: "LinkManager \<Rightarrow> string \<Rightarrow> Mode \<Rightarrow> u64 \<Rightarrow> AdmissionError + LinkManager" where
  "retain_retry lm name mode now_ms = retain_retry_group lm name mode now_ms None"

definition retain_retry_member ::
    "LinkManager \<Rightarrow> string \<Rightarrow> Mode \<Rightarrow> u64 \<Rightarrow> GroupMemberSelection option \<Rightarrow> AdmissionError + LinkManager" where
  "retain_retry_member lm name mode now_ms member =
     (case check_group lm name True (map_option gm_label member) of
        Inl e \<Rightarrow> Inl e
      | Inr _ \<Rightarrow> Inr (refresh_group_selections
          (lm\<lparr>lm_retries := lm_retries lm @ [new_retry name mode now_ms None (map_option gm_label member) member]\<rparr>)))"

definition retain_topology_blocked_group ::
    "LinkManager \<Rightarrow> string \<Rightarrow> Mode \<Rightarrow> string option \<Rightarrow> GroupMemberSelection option \<Rightarrow> LinkManager" where
  "retain_topology_blocked_group lm name mode grp member =
     (let evidence = topology_evidence lm name grp in
      if list_ex (\<lambda>r. ry_name r = name) (lm_retries lm)
      then lm\<lparr>lm_retries := update_first (\<lambda>r. ry_name r = name)
             (\<lambda>r. r\<lparr>ry_mode := mode, ry_automatic := True, ry_paused := False, ry_attempt := None,
                    ry_blocked_topology := Some evidence, ry_group := grp, ry_group_member := member\<rparr>)
             (lm_retries lm)\<rparr>
      else refresh_group_selections
        (lm\<lparr>lm_retries := lm_retries lm @ [new_retry name mode 0 (Some evidence) grp member]\<rparr>))"

definition retry_due :: "u64 \<Rightarrow> Retry \<Rightarrow> bool" where
  "retry_due now_ms r \<longleftrightarrow> \<not> ry_paused r \<and> ry_blocked_topology r = None \<and> ry_attempt r = None \<and> now_ms \<ge> ry_due r"

definition take_retry :: "LinkManager \<Rightarrow> u64 \<Rightarrow> RetryAttempt option \<times> LinkManager" where
  "take_retry lm now_ms =
     (case find (retry_due now_ms) (lm_retries lm) of
        None \<Rightarrow> (None, lm)
      | Some retry \<Rightarrow>
          let serial = lm_serial lm + 1 in
          (Some \<lparr>ra_name = ry_name retry, ra_mode = ry_mode retry, ra_serial = serial,
                 ra_generation = lm_generation lm\<rparr>,
           lm\<lparr>lm_serial := serial,
              lm_retries := update_first (retry_due now_ms) (\<lambda>r. r\<lparr>ry_attempt := Some serial\<rparr>) (lm_retries lm)\<rparr>))"

definition publish_retry :: "LinkManager \<Rightarrow> RetryAttempt \<Rightarrow> (AdmissionError + unit) \<times> LinkManager" where
  "publish_retry lm attempt =
     (if ra_generation attempt \<noteq> lm_generation lm then (Inl AE_Stale, lm)
      else (case position (\<lambda>r. ry_name r = ra_name attempt \<and> ry_attempt r = Some (ra_serial attempt)
                \<and> \<not> ry_paused r) (lm_retries lm) of
              None \<Rightarrow> (Inl AE_Stale, lm)
            | Some index \<Rightarrow>
                let retry = lm_retries lm ! index in
                (case check_group lm (ra_name attempt) False (ry_group retry) of
                   Inl e \<Rightarrow> (Inl e, lm\<lparr>lm_retries := (lm_retries lm)[index :=
                      retry\<lparr>ry_blocked_topology := Some (topology_evidence lm (ra_name attempt) (ry_group retry))\<rparr>]\<rparr>)
                 | Inr _ \<Rightarrow> (Inr (), hub_publish lm (ra_name attempt) (ra_mode attempt)
                      (ry_automatic retry) (ry_group retry) (ry_group_member retry)))))"

definition next_delay :: "u64 \<Rightarrow> u64" where
  "next_delay delay = clamp 1000 300000 (sat_mul delay 2)"

definition finish_retry :: "LinkManager \<Rightarrow> RetryAttempt \<Rightarrow> bool \<Rightarrow> u64 \<Rightarrow> LinkManager" where
  "finish_retry lm attempt success now_ms =
     (case position (\<lambda>r. ry_name r = ra_name attempt \<and> ry_attempt r = Some (ra_serial attempt)) (lm_retries lm) of
        None \<Rightarrow> lm
      | Some index \<Rightarrow>
          let retry = lm_retries lm ! index in
          if ry_blocked_topology retry \<noteq> None
          then lm\<lparr>lm_retries := (lm_retries lm)[index := retry\<lparr>ry_attempt := None\<rparr>]\<rparr>
          else if success \<or> ra_generation attempt \<noteq> lm_generation lm
            \<or> list_ex (\<lambda>p. at_name p = ra_name attempt) (lm_peers lm) \<or> \<not> ry_automatic retry
          then lm\<lparr>lm_retries := remove_at index (lm_retries lm)\<rparr>
          else lm\<lparr>lm_retries := (lm_retries lm)[index :=
                 (if ry_paused retry then retry\<lparr>ry_attempt := None\<rparr>
                  else retry\<lparr>ry_attempt := None, ry_delay := next_delay (ry_delay retry),
                             ry_due := sat_add now_ms (next_delay (ry_delay retry))\<rparr>)]\<rparr>)"

definition cancel_retry :: "LinkManager \<Rightarrow> string \<Rightarrow> LinkManager" where
  "cancel_retry lm name = lm\<lparr>lm_retries := filter (\<lambda>r. ry_name r \<noteq> name) (lm_retries lm)\<rparr>"

definition pause_retries :: "LinkManager \<Rightarrow> LinkManager" where
  "pause_retries lm = lm\<lparr>lm_retries := map (\<lambda>r. r\<lparr>ry_paused := True\<rparr>) (lm_retries lm)\<rparr>"

definition resume_retry :: "u64 \<Rightarrow> Retry \<Rightarrow> Retry" where
  "resume_retry now_ms r = r\<lparr>ry_paused := False, ry_delay := 0, ry_due := now_ms, ry_blocked_topology := None\<rparr>"

definition resume_retries :: "LinkManager \<Rightarrow> u64 \<Rightarrow> LinkManager" where
  "resume_retries lm now_ms = lm\<lparr>lm_retries := map (resume_retry now_ms) (lm_retries lm)\<rparr>"

definition resume_permanent_retry :: "LinkManager \<Rightarrow> string \<Rightarrow> Mode \<Rightarrow> u64 \<Rightarrow> bool \<times> LinkManager" where
  "resume_permanent_retry lm name mode now_ms =
     (let sel = (\<lambda>r. ry_name r = name \<and> ry_automatic r \<and> ry_paused r) in
      if \<not> list_ex sel (lm_retries lm) then (False, lm)
      else (True, lm\<lparr>lm_retries := update_first sel
             (\<lambda>r. r\<lparr>ry_mode := mode, ry_paused := False, ry_due := now_ms, ry_delay := 0,
                    ry_attempt := None, ry_blocked_topology := None\<rparr>) (lm_retries lm)\<rparr>))"

definition resume_permanent_retries :: "LinkManager \<Rightarrow> u64 \<Rightarrow> LinkManager" where
  "resume_permanent_retries lm now_ms =
     lm\<lparr>lm_retries := map (\<lambda>r. if ry_automatic r then resume_retry now_ms r else r) (lm_retries lm)\<rparr>"

definition invalidate_generation :: "LinkManager \<Rightarrow> LinkManager" where
  "invalidate_generation lm =
     lm\<lparr>lm_generation := lm_generation lm + 1,
        lm_retries := map (\<lambda>r. r\<lparr>ry_attempt := None, ry_due := 0, ry_delay := 0, ry_blocked_topology := None\<rparr>)
          (lm_retries lm)\<rparr>"

definition owns_permanent :: "LinkManager \<Rightarrow> string \<Rightarrow> bool" where
  "owns_permanent lm name \<longleftrightarrow>
     list_ex (\<lambda>p. at_name p = name \<and> at_permanent p \<and> \<not> at_ended p) (lm_peers lm)
     \<or> list_ex (\<lambda>r. ry_name r = name \<and> ry_automatic r) (lm_retries lm)"

section \<open>Disconnecting\<close>

definition disconnect_mode :: "LinkManager \<Rightarrow> string \<Rightarrow> bool \<Rightarrow> bool \<times> LinkManager" where
  "disconnect_mode lm name permanent =
     (let kept = filter (\<lambda>p. at_name p \<noteq> name \<or> at_permanent p \<noteq> permanent) (lm_peers lm);
          changed = (length (lm_peers lm) \<noteq> length kept);
          lm' = lm\<lparr>lm_peers := kept\<rparr> in
      (changed, if changed then refresh_group_selections (lm'\<lparr>lm_revision := lm_revision lm' + 1\<rparr>) else lm'))"

definition hub_disconnect :: "LinkManager \<Rightarrow> string \<Rightarrow> bool \<times> LinkManager" where
  "hub_disconnect lm name = disconnect_mode lm name False"

definition disconnect_permanent :: "LinkManager \<Rightarrow> string \<Rightarrow> bool \<times> LinkManager" where
  "disconnect_permanent lm name =
     (let kept = filter (\<lambda>r. ry_name r \<noteq> name \<or> \<not> ry_automatic r) (lm_retries lm);
          changed_retry = (length (lm_retries lm) \<noteq> length kept);
          (changed_peer, lm1) = disconnect_mode (lm\<lparr>lm_retries := kept\<rparr>) name True;
          lm2 = (if changed_retry then refresh_group_selections lm1 else lm1) in
      (changed_peer \<or> changed_retry, lm2))"

definition disconnect_temporary :: "LinkManager \<Rightarrow> string list \<times> LinkManager" where
  "disconnect_temporary lm =
     (map at_name (filter (\<lambda>p. \<not> at_permanent p) (lm_peers lm)),
      refresh_group_selections
        (lm\<lparr>lm_peers := filter at_permanent (lm_peers lm), lm_revision := lm_revision lm + 1\<rparr>))"

definition disconnect_permanent_all :: "LinkManager \<Rightarrow> string list \<times> LinkManager" where
  "disconnect_permanent_all lm =
     (let retries = map (\<lambda>r. if ry_automatic r then r\<lparr>ry_paused := True, ry_attempt := None\<rparr> else r) (lm_retries lm);
          gone = filter at_permanent (lm_peers lm) in
      (map at_name gone,
       refresh_group_selections
         (lm\<lparr>lm_peers := filter (\<lambda>p. \<not> at_permanent p) (lm_peers lm),
            lm_retries := retries @ map (\<lambda>p. retained_retry p True True 0) gone,
            lm_revision := lm_revision lm + 1\<rparr>)))"

definition disconnect_all :: "LinkManager \<Rightarrow> string list \<times> LinkManager" where
  "disconnect_all lm =
     (let lm1 = pause_retries lm in
      (map at_name (lm_peers lm1),
       refresh_group_selections
         (lm1\<lparr>lm_peers := [],
             lm_retries := lm_retries lm1 @ map (\<lambda>p. retained_retry p (at_permanent p) True 0) (lm_peers lm1),
             lm_revision := lm_revision lm1 + 1\<rparr>)))"

definition hub_close :: "LinkManager \<Rightarrow> string list \<times> LinkManager" where
  "hub_close lm =
     (let lm1 = invalidate_generation lm in
      (map at_name (lm_peers lm1),
       refresh_group_selections
         (lm1\<lparr>lm_retries := [], lm_revision := lm_revision lm1 + 1, lm_peers := []\<rparr>)))"

section \<open>Status and relaying\<close>

definition peer_status :: "LinkManager \<Rightarrow> Attached \<Rightarrow> LinkStatus" where
  "peer_status lm p =
     (let (mode, local_only) = reporting_state lm p in
      \<lparr>ls_name = at_name p, ls_mode = mode, ls_local_only = local_only, ls_permanent = at_permanent p,
       ls_ended = at_ended p, ls_retrying = False, ls_paused = False, ls_due_ms = None,
       ls_topology_blocked = False\<rparr>)"

definition retry_status :: "Retry \<Rightarrow> LinkStatus" where
  "retry_status r =
     \<lparr>ls_name = ry_name r, ls_mode = (if ry_group_member r \<noteq> None then MONITOR else ry_mode r),
      ls_local_only = False, ls_permanent = ry_automatic r, ls_ended = False, ls_retrying = True,
      ls_paused = ry_paused r,
      ls_due_ms = (if ry_blocked_topology r = None then Some (ry_due r) else None),
      ls_topology_blocked = (ry_blocked_topology r \<noteq> None)\<rparr>"

definition link_snapshot :: "LinkManager \<Rightarrow> LinkStatus list" where
  "link_snapshot lm = map (peer_status lm) (lm_peers lm)
     @ map retry_status (filter (\<lambda>r. \<not> list_ex (\<lambda>p. at_name p = ry_name r) (lm_peers lm)) (lm_retries lm))"

definition eligible :: "LinkManager \<Rightarrow> string \<Rightarrow> string \<Rightarrow> Attached list" where
  "eligible lm ingress source =
     filter (\<lambda>p. \<not> at_ended p \<and> at_name p \<noteq> ingress \<and> at_name p \<noteq> source) (lm_peers lm)"

definition live_peer :: "LinkManager \<Rightarrow> string \<Rightarrow> bool" where
  "live_peer lm name \<longleftrightarrow> list_ex (\<lambda>p. at_name p = name \<and> \<not> at_ended p) (lm_peers lm)"

text \<open>Direct delivery to the destination when it is an eligible peer, a flood otherwise: the
  common tail of \<^verbatim>\<open>relay_key\<close> and \<^verbatim>\<open>relay_digit\<close>.\<close>

definition deliver :: "Attached list \<Rightarrow> string \<Rightarrow> string \<Rightarrow> (string \<times> string) list" where
  "deliver peers destination txt =
     (case find (\<lambda>p. at_name p = destination) peers of
        Some p \<Rightarrow> [(at_name p, txt)]
      | None \<Rightarrow> map (\<lambda>p. (at_name p, txt)) peers)"

definition relay_key ::
    "LinkManager \<Rightarrow> string \<Rightarrow> Protocol \<Rightarrow> bool \<Rightarrow> u64 \<Rightarrow> u64 \<Rightarrow> (string \<times> string) list" where
  "relay_key lm ingress message local_receiving transitioned_ms now_ms =
     (if \<not> live_peer lm ingress then []
      else (case message of
              Query requester \<Rightarrow>
                if requester = lm_local lm then []
                else
                  let age = (if transitioned_ms = 0 then 0 else sat_sub now_ms transitioned_ms div 1000) in
                  (if identity (lm_local lm)
                   then [(ingress, key_text requester (lm_local lm) local_receiving age)] else [])
                  @ map (\<lambda>p. (at_name p, query_text requester)) (eligible lm ingress requester)
            | Key destination source keyed age_seconds \<Rightarrow>
                if destination = lm_local lm then []
                else deliver (eligible lm ingress source) destination
                       (key_text destination source keyed age_seconds)
            | _ \<Rightarrow> []))"

definition relay_digit :: "LinkManager \<Rightarrow> string \<Rightarrow> Protocol \<Rightarrow> (string \<times> string) list" where
  "relay_digit lm ingress message =
     (if ingress \<noteq> [] \<and> \<not> live_peer lm ingress then []
      else (case message of
              RemoteDigit destination source sequence digit \<Rightarrow>
                if destination = lm_local lm then []
                else deliver (eligible lm ingress source) destination
                       (digit_text destination source sequence digit)
            | _ \<Rightarrow> []))"

section \<open>The manager as a serialized machine\<close>

text \<open>Every mutating method as an event of the control owner; a rejected call leaves what the
  method leaves.\<close>

datatype HubEvent =
    EvAttachGroup string Mode bool "string option"
  | EvAttachMember string Mode bool "GroupMemberSelection option"
  | EvAdmit string bool AccessPolicy
  | EvAdmitMember string bool AccessPolicy "GroupMemberSelection option"
  | EvTopology string string
  | EvEnd string
  | EvRejectLoop string
  | EvReclaim string u64
  | EvRetainRetryGroup string Mode u64 "string option"
  | EvRetainRetryMember string Mode u64 "GroupMemberSelection option"
  | EvRetainBlocked string Mode "string option" "GroupMemberSelection option"
  | EvTakeRetry u64
  | EvPublishRetry RetryAttempt
  | EvFinishRetry RetryAttempt bool u64
  | EvCancelRetry string
  | EvPause
  | EvResume u64
  | EvResumePermanent string Mode u64
  | EvResumePermanentAll u64
  | EvInvalidate
  | EvDisconnect string
  | EvDisconnectPermanent string
  | EvDisconnectTemporary
  | EvDisconnectPermanentAll
  | EvDisconnectAll
  | EvClose
  | EvCallback sel_ref bool

definition accept :: "LinkManager \<Rightarrow> AdmissionError + LinkManager \<Rightarrow> LinkManager" where
  "accept lm r = (case r of Inl _ \<Rightarrow> lm | Inr lm' \<Rightarrow> lm')"

fun hub_step :: "LinkManager \<Rightarrow> HubEvent \<Rightarrow> LinkManager" where
  "hub_step lm (EvAttachGroup n m p g) = accept lm (attach_group lm n m p g)"
| "hub_step lm (EvAttachMember n m p g) = accept lm (attach_member lm n m p g)"
| "hub_step lm (EvAdmit n v a) = accept lm (admit_incoming lm n v a)"
| "hub_step lm (EvAdmitMember n v a g) = accept lm (admit_incoming_member lm n v a g)"
| "hub_step lm (EvTopology n b) = (case update_topology lm n b of Inl _ \<Rightarrow> lm | Inr (_, lm') \<Rightarrow> lm')"
| "hub_step lm (EvEnd n) = hub_end lm n"
| "hub_step lm (EvRejectLoop n) = reject_loop lm n"
| "hub_step lm (EvReclaim n t) = reclaim lm n t"
| "hub_step lm (EvRetainRetryGroup n m t g) = accept lm (retain_retry_group lm n m t g)"
| "hub_step lm (EvRetainRetryMember n m t g) = accept lm (retain_retry_member lm n m t g)"
| "hub_step lm (EvRetainBlocked n m g s) = retain_topology_blocked_group lm n m g s"
| "hub_step lm (EvTakeRetry t) = snd (take_retry lm t)"
| "hub_step lm (EvPublishRetry a) = snd (publish_retry lm a)"
| "hub_step lm (EvFinishRetry a ok t) = finish_retry lm a ok t"
| "hub_step lm (EvCancelRetry n) = cancel_retry lm n"
| "hub_step lm EvPause = pause_retries lm"
| "hub_step lm (EvResume t) = resume_retries lm t"
| "hub_step lm (EvResumePermanent n m t) = snd (resume_permanent_retry lm n m t)"
| "hub_step lm (EvResumePermanentAll t) = resume_permanent_retries lm t"
| "hub_step lm EvInvalidate = invalidate_generation lm"
| "hub_step lm (EvDisconnect n) = snd (hub_disconnect lm n)"
| "hub_step lm (EvDisconnectPermanent n) = snd (disconnect_permanent lm n)"
| "hub_step lm EvDisconnectTemporary = snd (disconnect_temporary lm)"
| "hub_step lm EvDisconnectPermanentAll = snd (disconnect_permanent_all lm)"
| "hub_step lm EvDisconnectAll = snd (disconnect_all lm)"
| "hub_step lm EvClose = snd (hub_close lm)"
| "hub_step lm (EvCallback ref idle) =
     lm\<lparr>lm_selections := (lm_selections lm)(ref := snd (callback_slot idle (lm_selections lm ref)))\<rparr>"

text \<open>The invariant of the peer table and of the backoff.\<close>

definition peer_ok :: "string \<Rightarrow> Attached \<Rightarrow> bool" where
  "peer_ok self p \<longleftrightarrow> decimal_identity (at_name p) \<and> at_name p \<noteq> self \<and> list_all route_ok (at_routes p)"

definition delay_ok :: "u64 \<Rightarrow> bool" where
  "delay_ok d \<longleftrightarrow> d = 0 \<or> (1000 \<le> d \<and> d \<le> 300000)"

definition hub_inv :: "LinkManager \<Rightarrow> bool" where
  "hub_inv lm \<longleftrightarrow> distinct (map at_name (lm_peers lm))
     \<and> list_all (peer_ok (lm_local lm)) (lm_peers lm)
     \<and> list_all (\<lambda>r. delay_ok (ry_delay r)) (lm_retries lm)"

end
