(* ===== verification/Link_Hub_Props.thy ===== *)
theory Link_Hub_Props
  imports Link_Hub
begin

text \<open>
  Facts about the link manager: the peer-table invariant over every event sequence, the
  admission rule, staleness of dial tokens, the retry backoff, the disconnect/reconnect round
  trip, the published group selection and the relaying of control texts.
\<close>

named_theorems hub_defs \<open>definitions of the mutating methods\<close>

lemmas [hub_defs] = attach_group_def attach_def attach_member_def admit_incoming_def
  admit_incoming_member_def hub_end_def reject_loop_def reclaim_def retain_retry_group_def
  retain_retry_def retain_retry_member_def retain_topology_blocked_group_def take_retry_def
  finish_retry_def cancel_retry_def pause_retries_def resume_retries_def resume_retry_def
  resume_permanent_retry_def resume_permanent_retries_def invalidate_generation_def
  disconnect_mode_def hub_disconnect_def disconnect_permanent_def disconnect_temporary_def
  disconnect_permanent_all_def disconnect_all_def hub_close_def update_topology_def
  release_changed_topology_blocks_def publish_retry_def hub_publish_def

section \<open>Sample states\<close>

definition sample_hub :: LinkManager where
  "sample_hub = \<lparr>lm_local = ''1999'', lm_peers = [], lm_retries = [new_retry ''2000'' TRANSCEIVE 0 None None None],
     lm_revision = 1, lm_generation = 1, lm_serial = 0, lm_selections = \<lambda>_. group_selection_new\<rparr>"

definition sample_token :: RetryAttempt where
  "sample_token = \<lparr>ra_name = ''2000'', ra_mode = TRANSCEIVE, ra_serial = 1, ra_generation = 1\<rparr>"

definition sample_mesh :: LinkManager where
  "sample_mesh = sample_hub\<lparr>lm_peers := map (\<lambda>n. \<lparr>at_name = n, at_mode = TRANSCEIVE, at_permanent = True,
     at_ended = False, at_routes = [], at_group = None, at_group_member = None\<rparr>) [''2000'', ''2001'', ''2002'']\<rparr>"

lemma sample_digits [simp]:
  "decimal_identity ''1999''" "decimal_identity ''2000''" "decimal_identity ''2001''" "decimal_identity ''2002''"
  by (simp_all add: decimal_identity_def identity_def identity_char_def is_ascii_alphanumeric_def is_ascii_digit_def)

lemma sample_identity [simp]:
  "identity ''1999''" "identity ''2000''" "identity ''2001''" "identity ''2002''"
  by (simp_all add: identity_def identity_char_def is_ascii_alphanumeric_def is_ascii_digit_def)

section \<open>Frame facts\<close>

lemma refresh_simps [simp]:
  "lm_local (refresh_group_selections lm) = lm_local lm"
  "lm_peers (refresh_group_selections lm) = lm_peers lm"
  "lm_retries (refresh_group_selections lm) = lm_retries lm"
  "lm_revision (refresh_group_selections lm) = lm_revision lm"
  "lm_generation (refresh_group_selections lm) = lm_generation lm"
  "lm_serial (refresh_group_selections lm) = lm_serial lm"
  by (simp_all add: refresh_group_selections_def)

lemma publish_simps [simp]:
  "lm_local (hub_publish lm n m p g s) = lm_local lm"
  "lm_peers (hub_publish lm n m p g s) = lm_peers lm @ [\<lparr>at_name = n, at_mode = m, at_permanent = p,
     at_ended = False, at_routes = [], at_group = g, at_group_member = s\<rparr>]"
  "lm_retries (hub_publish lm n m p g s) = lm_retries lm"
  "lm_generation (hub_publish lm n m p g s) = lm_generation lm"
  by (simp_all add: hub_publish_def)

lemma refresh_inv [simp]: "hub_inv (refresh_group_selections lm) = hub_inv lm"
  by (simp add: hub_inv_def)

lemma check_group_ok:
  "check_group lm n r g = Inr u \<longleftrightarrow> decimal_identity n \<and> n \<noteq> lm_local lm
     \<and> (\<forall>p \<in> set (lm_peers lm). at_name p \<noteq> n \<and> (g = None \<longrightarrow> \<not> routes_reach p n))
     \<and> (r \<longrightarrow> (\<forall>y \<in> set (lm_retries lm). ry_name y \<noteq> n))"
  by (auto simp: check_group_def list_ex_iff)

section \<open>The invariant\<close>

lemma delay_ok_0 [simp]: "delay_ok 0"
  by (simp add: delay_ok_def)

lemma next_delay_ok [simp]: "delay_ok (next_delay d)"
  unfolding delay_ok_def next_delay_def by (rule disjI2, rule clamp_bounds) simp

lemma publish_inv:
  "hub_inv lm \<Longrightarrow> check_group lm n r g = Inr u \<Longrightarrow> hub_inv (hub_publish lm n m p g' s)"
  by (auto simp: hub_inv_def check_group_ok peer_ok_def)

lemma inv_cong:
  "lm_local lm' = lm_local lm \<Longrightarrow> lm_peers lm' = lm_peers lm \<Longrightarrow>
   list_all (\<lambda>r. delay_ok (ry_delay r)) (lm_retries lm') \<Longrightarrow> hub_inv lm \<Longrightarrow> hub_inv lm'"
  by (simp add: hub_inv_def)

lemma inv_filter:
  "hub_inv lm \<Longrightarrow> hub_inv (lm\<lparr>lm_peers := filter P (lm_peers lm), lm_revision := v\<rparr>)"
  by (auto simp: hub_inv_def distinct_map_filter list_all_filter)

lemma inv_update_first:
  "hub_inv lm \<Longrightarrow> (\<And>p. at_name (f p) = at_name p) \<Longrightarrow> (\<And>p. peer_ok (lm_local lm) p \<Longrightarrow> peer_ok (lm_local lm) (f p)) \<Longrightarrow>
   hub_inv (lm\<lparr>lm_peers := update_first P f (lm_peers lm), lm_revision := v\<rparr>)"
  by (auto simp: hub_inv_def map_update_first list_all_update_first)

lemma inv_update_first':
  "hub_inv lm \<Longrightarrow> (\<And>p. at_name (f p) = at_name p) \<Longrightarrow> (\<And>p. peer_ok (lm_local lm) p \<Longrightarrow> peer_ok (lm_local lm) (f p)) \<Longrightarrow>
   hub_inv (lm\<lparr>lm_peers := update_first P f (lm_peers lm)\<rparr>)"
  by (auto simp: hub_inv_def map_update_first list_all_update_first)

lemma those_parse_ok: "those (map parse_route ts) = Some rs \<Longrightarrow> list_all route_ok rs"
proof (induction ts arbitrary: rs)
  case Nil
  then show ?case by simp
next
  case (Cons t ts)
  then show ?case
    by (auto simp: parse_route_def route_ok_def split: list.splits if_splits option.splits)
qed

lemma parse_fields_not_topology: "parse_fields ts \<noteq> Some (Topology rs)"
  by (auto simp: parse_fields_def split: list.splits if_splits option.splits)

lemma parse_topology_ok: "parse_protocol b = Some (Topology rs) \<Longrightarrow> list_all route_ok rs"
  by (auto simp: parse_protocol_def Let_def parse_fields_not_topology split: if_splits option.splits
      dest: those_parse_ok)

lemma release_simps [simp]:
  "lm_local (release_changed_topology_blocks lm) = lm_local lm"
  "lm_peers (release_changed_topology_blocks lm) = lm_peers lm"
  "lm_generation (release_changed_topology_blocks lm) = lm_generation lm"
  by (simp_all add: release_changed_topology_blocks_def)

lemma release_inv: "hub_inv lm \<Longrightarrow> hub_inv (release_changed_topology_blocks lm)"
  by (rule inv_cong [of _ lm])
    (auto simp: hub_inv_def release_changed_topology_blocks_def list_all_iff split: option.splits)

lemma topology_inv: "hub_inv lm \<Longrightarrow> update_topology lm n b = Inr (x, lm') \<Longrightarrow> hub_inv lm'"
  by (auto simp: update_topology_def Let_def peer_ok_def split: option.splits Protocol.splits if_splits
      intro!: release_inv inv_update_first dest: parse_topology_ok)

lemma reclaim_inv: "hub_inv lm \<Longrightarrow> hub_inv (reclaim lm n t)"
  by (auto simp: reclaim_def hub_inv_def Let_def retained_retry_def map_remove_at
      distinct_remove_at list_all_remove_at split: option.splits)

lemma finish_inv: "hub_inv lm \<Longrightarrow> hub_inv (finish_retry lm a ok t)"
  by (rule inv_cong [of _ lm])
    (auto simp: hub_inv_def finish_retry_def Let_def list_all_remove_at intro!: list_all_list_update
      dest!: position_Some dest: list_all_nth split: option.splits)

lemma publish_retry_inv: "hub_inv lm \<Longrightarrow> hub_inv (snd (publish_retry lm a))"
proof (cases "\<exists>e. fst (publish_retry lm a) = Inl e")
  case True
  then show "hub_inv lm \<Longrightarrow> ?thesis"
    by (intro inv_cong [of "snd (publish_retry lm a)" lm])
      (auto simp: publish_retry_def Let_def hub_inv_def intro!: list_all_list_update
        dest!: position_Some dest: list_all_nth split: option.splits sum.splits)
next
  case False
  then show "hub_inv lm \<Longrightarrow> ?thesis"
    by (auto simp: publish_retry_def Let_def split: option.splits sum.splits if_splits intro: publish_inv)
qed

lemma end_inv: "hub_inv lm \<Longrightarrow> hub_inv (hub_end lm n)"
  by (auto simp: hub_end_def peer_ok_def intro!: inv_update_first)

lemma disconnect_mode_inv: "hub_inv lm \<Longrightarrow> hub_inv (snd (disconnect_mode lm n b))"
  by (auto simp: disconnect_mode_def Let_def hub_inv_def distinct_map_filter list_all_filter)

lemma accept_attach_inv:
  assumes "hub_inv lm"
  shows "hub_inv (accept lm (attach_group lm n m p g))"
    and "hub_inv (accept lm (attach_member lm n m p s))"
  using assms by (auto simp: accept_def attach_group_def attach_member_def intro: publish_inv split: sum.splits)

lemma accept_admit_inv:
  assumes "hub_inv lm"
  shows "hub_inv (accept lm (admit_incoming lm n v a))"
    and "hub_inv (accept lm (admit_incoming_member lm n v a s))"
proof -
  show "hub_inv (accept lm (admit_incoming lm n v a))"
    using assms accept_attach_inv(1) [OF assms, of n TRANSCEIVE False None]
    by (auto simp: admit_incoming_def attach_def accept_def split: sum.splits)
  show "hub_inv (accept lm (admit_incoming_member lm n v a s))"
    using assms accept_attach_inv(2) [OF assms, of n TRANSCEIVE False s]
    by (auto simp: admit_incoming_member_def accept_def split: sum.splits)
qed

lemma retain_inv:
  assumes "hub_inv lm"
  shows "hub_inv (accept lm (retain_retry_group lm n m t g))"
    and "hub_inv (accept lm (retain_retry_member lm n m t s))"
    and "hub_inv (retain_topology_blocked_group lm n m g s)"
  using assms
  by (auto simp: accept_def retain_retry_group_def retain_retry_member_def Let_def new_retry_def
      retain_topology_blocked_group_def hub_inv_def list_all_update_first split: sum.splits)

lemma retry_ops_inv:
  assumes "hub_inv lm"
  shows "hub_inv (snd (take_retry lm t))"
    and "hub_inv (cancel_retry lm n)"
    and "hub_inv (pause_retries lm)"
    and "hub_inv (resume_retries lm t)"
    and "hub_inv (snd (resume_permanent_retry lm n m t))"
    and "hub_inv (resume_permanent_retries lm t)"
    and "hub_inv (invalidate_generation lm)"
  using assms
  by (auto simp: take_retry_def cancel_retry_def pause_retries_def resume_retries_def resume_retry_def
      resume_permanent_retry_def resume_permanent_retries_def invalidate_generation_def Let_def
      hub_inv_def list_all_filter list.pred_map comp_def list_all_update_first
      split: option.splits elim: list.pred_mono_strong)

lemma disconnect_inv:
  assumes "hub_inv lm"
  shows "hub_inv (snd (disconnect_permanent lm n))"
    and "hub_inv (snd (disconnect_temporary lm))"
    and "hub_inv (snd (disconnect_permanent_all lm))"
    and "hub_inv (snd (disconnect_all lm))"
    and "hub_inv (snd (hub_close lm))"
proof -
  let ?lm = "lm\<lparr>lm_retries := filter (\<lambda>r. ry_name r \<noteq> n \<or> \<not> ry_automatic r) (lm_retries lm)\<rparr>"
  have "hub_inv ?lm"
    using assms by (simp add: hub_inv_def list_all_filter)
  then have "hub_inv (snd (disconnect_mode ?lm n True))"
    by (rule disconnect_mode_inv)
  then show "hub_inv (snd (disconnect_permanent lm n))"
    unfolding disconnect_permanent_def Let_def case_prod_beta
      snd_conv if_distrib [of hub_inv] refresh_inv if_cancel .
qed (use assms in \<open>auto simp: disconnect_temporary_def disconnect_permanent_all_def disconnect_all_def
      hub_close_def pause_retries_def retained_retry_def hub_inv_def Let_def distinct_map_filter
      list_all_filter list_all_iff\<close>)

lemma reject_loop_inv: "hub_inv lm \<Longrightarrow> hub_inv (reject_loop lm n)"
  by (auto simp: reject_loop_def peer_ok_def intro!: end_inv inv_update_first')

lemma hub_step_inv: "hub_inv lm \<Longrightarrow> hub_inv (hub_step lm e)"
proof (cases e)
  case (EvTopology n b)
  then show "hub_inv lm \<Longrightarrow> ?thesis"
    by (auto split: sum.splits intro: topology_inv)
next
  case (EvCallback r idle)
  then show "hub_inv lm \<Longrightarrow> ?thesis"
    by (simp add: hub_inv_def)
qed (simp_all add: hub_disconnect_def accept_attach_inv accept_admit_inv retain_inv retry_ops_inv
      disconnect_inv disconnect_mode_inv end_inv reject_loop_inv reclaim_inv publish_retry_inv finish_inv)

lemma link_manager_new_inv: "link_manager_new self st = Inr lm \<Longrightarrow> hub_inv lm \<and> lm_local lm = self"
  by (auto simp: link_manager_new_def hub_inv_def split: if_splits)

interpretation hub_machine: machine hub_step hub_inv
  by unfold_locales (rule hub_step_inv)

section \<open>Generations and dial tokens\<close>

definition bumps :: "HubEvent \<Rightarrow> bool" where
  "bumps e \<longleftrightarrow> e = EvInvalidate \<or> e = EvClose"

definition takes :: "HubEvent \<Rightarrow> bool" where
  "takes e \<longleftrightarrow> (\<exists>t. e = EvTakeRetry t)"

definition tokens :: "LinkManager \<Rightarrow> (string \<times> u64) set" where
  "tokens lm = {(ry_name r, s) |r s. r \<in> set (lm_retries lm) \<and> ry_attempt r = Some s}"

lemma reclaim_frame [simp]:
  "lm_local (reclaim lm n t) = lm_local lm"
  "lm_generation (reclaim lm n t) = lm_generation lm"
  "lm_serial (reclaim lm n t) = lm_serial lm"
  by (simp_all add: reclaim_def Let_def split: option.splits)

lemma disconnect_mode_frame [simp]:
  "lm_local (snd (disconnect_mode lm n p)) = lm_local lm"
  "lm_generation (snd (disconnect_mode lm n p)) = lm_generation lm"
  "lm_serial (snd (disconnect_mode lm n p)) = lm_serial lm"
  "lm_retries (snd (disconnect_mode lm n p)) = lm_retries lm"
  by (simp_all add: disconnect_mode_def Let_def)

lemma hub_end_frame [simp]:
  "lm_local (hub_end lm n) = lm_local lm"
  "lm_generation (hub_end lm n) = lm_generation lm"
  "lm_serial (hub_end lm n) = lm_serial lm"
  "lm_retries (hub_end lm n) = lm_retries lm"
  by (simp_all add: hub_end_def)

lemma hub_publish_serial [simp]: "lm_serial (hub_publish lm n m p g s) = lm_serial lm"
  by (simp add: hub_publish_def)

lemma release_serial [simp]: "lm_serial (release_changed_topology_blocks lm) = lm_serial lm"
  by (simp add: release_changed_topology_blocks_def)

lemma disconnect_permanent_frame [simp]:
  "lm_local (snd (disconnect_permanent lm n)) = lm_local lm"
  "lm_generation (snd (disconnect_permanent lm n)) = lm_generation lm"
  "lm_serial (snd (disconnect_permanent lm n)) = lm_serial lm"
  "lm_retries (snd (disconnect_permanent lm n)) = filter (\<lambda>r. ry_name r \<noteq> n \<or> \<not> ry_automatic r) (lm_retries lm)"
  by (simp_all add: disconnect_permanent_def Let_def case_prod_beta del: not_imp)

lemma step_frame:
  "lm_local (hub_step lm e) = lm_local lm
   \<and> lm_generation (hub_step lm e) = lm_generation lm + (if bumps e then 1 else 0)
   \<and> lm_serial (hub_step lm e) = lm_serial lm + (if takes e \<and> lm_serial (hub_step lm e) \<noteq> lm_serial lm then 1 else 0)"
  by (cases e)
    (auto simp: bumps_def takes_def accept_def hub_disconnect_def Let_def attach_group_def attach_def attach_member_def
      admit_incoming_def admit_incoming_member_def update_topology_def reject_loop_def retain_retry_group_def
      retain_retry_member_def retain_topology_blocked_group_def take_retry_def publish_retry_def
      finish_retry_def cancel_retry_def pause_retries_def resume_retries_def resume_permanent_retry_def
      resume_permanent_retries_def invalidate_generation_def disconnect_temporary_def
      disconnect_permanent_all_def disconnect_all_def hub_close_def
      split: sum.splits option.splits Protocol.splits if_splits)

lemma local_run [simp]: "lm_local (foldl hub_step lm es) = lm_local lm"
  by (induction es arbitrary: lm) (simp_all add: step_frame)

lemma generation_run:
  "lm_generation (foldl hub_step lm es) = lm_generation lm + of_nat (length (filter bumps es))"
  by (induction es arbitrary: lm) (simp_all add: step_frame algebra_simps)

definition issued :: "LinkManager \<Rightarrow> Retry list \<Rightarrow> bool" where
  "issued lm rs \<longleftrightarrow> (\<forall>r \<in> set rs. \<forall>s. ry_attempt r = Some s \<longrightarrow> (ry_name r, s) \<in> tokens lm)"

lemma tokens_issued: "issued lm (lm_retries lm') \<longleftrightarrow> tokens lm' \<subseteq> tokens lm"
  by (auto simp: issued_def tokens_def)

lemma issued_self: "issued lm (lm_retries lm)"
  by (auto simp: issued_def tokens_def)

lemma issued_intros:
  "issued lm rs \<Longrightarrow> (\<And>r. r \<in> set rs \<Longrightarrow> ry_name (f r) = ry_name r \<and> (ry_attempt (f r) = ry_attempt r \<or> ry_attempt (f r) = None))
    \<Longrightarrow> issued lm (map f rs)"
  "issued lm rs \<Longrightarrow> issued lm (filter P rs)"
  "issued lm rs \<Longrightarrow> issued lm (remove_at i rs)"
  "issued lm rs \<Longrightarrow> issued lm rs' \<Longrightarrow> issued lm (rs @ rs')"
  "issued lm rs \<Longrightarrow> (\<And>r. r \<in> set rs \<Longrightarrow> ry_name (f r) = ry_name r \<and> (ry_attempt (f r) = ry_attempt r \<or> ry_attempt (f r) = None))
    \<Longrightarrow> issued lm (update_first P f rs)"
  "issued lm []"
proof -
  show "issued lm rs \<Longrightarrow> (\<And>r. r \<in> set rs \<Longrightarrow> ry_name (f r) = ry_name r \<and> (ry_attempt (f r) = ry_attempt r \<or> ry_attempt (f r) = None))
    \<Longrightarrow> issued lm (map f rs)"
    by (fastforce simp: issued_def)
  show "issued lm rs \<Longrightarrow> (\<And>r. r \<in> set rs \<Longrightarrow> ry_name (f r) = ry_name r \<and> (ry_attempt (f r) = ry_attempt r \<or> ry_attempt (f r) = None))
    \<Longrightarrow> issued lm (update_first P f rs)"
    unfolding issued_def using set_update_first [of P f rs] by fastforce
qed (auto simp: issued_def dest: set_remove_at [THEN subsetD])

lemma issued_update:
  "issued lm rs \<Longrightarrow> i < length rs \<Longrightarrow> ry_name r = ry_name (rs ! i) \<Longrightarrow>
   ry_attempt r = ry_attempt (rs ! i) \<or> ry_attempt r = None \<Longrightarrow> issued lm (rs[i := r])"
  unfolding issued_def by (auto dest!: set_update_subset_insert [THEN subsetD])

lemma issued_fresh: "ry_attempt r = None \<Longrightarrow> issued lm [r]"
  by (simp add: issued_def)

lemma issued_retained [simp]: "issued lm (map (\<lambda>p. retained_retry p (f p) b t) ps)"
  by (auto simp: issued_def retained_retry_def)

lemma retained_attempt [simp]: "ry_attempt (retained_retry p a b t) = None"
  by (simp add: retained_retry_def)

lemma issued_step: "\<not> takes e \<Longrightarrow> issued lm (lm_retries (hub_step lm e))"
proof (cases e)
  case (EvPublishRetry a)
  then show ?thesis
    by (auto simp: publish_retry_def Let_def issued_self intro!: issued_update dest: position_Some
        split: sum.splits option.splits)
next
  case (EvFinishRetry a ok t)
  then show ?thesis
    by (auto simp: finish_retry_def Let_def issued_self intro!: issued_update issued_intros dest: position_Some
        split: sum.splits option.splits)
qed (auto simp: takes_def accept_def hub_disconnect_def Let_def attach_group_def attach_def attach_member_def
      admit_incoming_def admit_incoming_member_def update_topology_def reject_loop_def retain_retry_group_def
      retain_retry_member_def retain_topology_blocked_group_def 
      cancel_retry_def pause_retries_def resume_retries_def resume_retry_def resume_permanent_retry_def
      resume_permanent_retries_def invalidate_generation_def disconnect_temporary_def
      disconnect_permanent_all_def disconnect_all_def hub_close_def reclaim_def new_retry_def
      release_changed_topology_blocks_def issued_self
      intro!: issued_intros issued_fresh
      split: sum.splits option.splits Protocol.splits if_splits)

lemma tokens_take:
  "tokens (snd (take_retry lm t)) \<subseteq> tokens lm \<union> {(n, lm_serial lm + 1) | n. True}
   \<and> (snd (take_retry lm t) = lm \<or> lm_serial (snd (take_retry lm t)) = lm_serial lm + 1)"
  by (auto simp: take_retry_def tokens_def Let_def dest!: set_update_first [THEN subsetD] split: option.splits)

lemma tokens_step:
  "tokens (hub_step lm e) \<subseteq> tokens lm \<union> (if takes e then {(n, lm_serial lm + 1) | n. True} else {})
   \<and> lm_serial (hub_step lm e) \<in> {lm_serial lm, lm_serial lm + (if takes e then 1 else 0)}
   \<and> (lm_serial (hub_step lm e) = lm_serial lm \<longrightarrow> tokens (hub_step lm e) \<subseteq> tokens lm)"
proof (cases "takes e")
  case True
  then obtain t where "e = EvTakeRetry t" by (auto simp: takes_def)
  then show ?thesis
    using tokens_take [of lm t] by (auto simp: takes_def)
next
  case False
  then show ?thesis
    using issued_step [OF False, of lm] step_frame [of lm e] by (simp add: tokens_issued)
qed

text \<open>A token that is not held by a retained retry never becomes valid again while fewer than
  \<open>2 ^ 64\<close> serials have been issued.\<close>

lemma serial_step:
  "unat (lm_serial lm) + length (filter takes [e]) < 2 ^ 64 \<Longrightarrow>
   unat (lm_serial lm) \<le> unat (lm_serial (hub_step lm e))
   \<and> unat (lm_serial (hub_step lm e)) \<le> unat (lm_serial lm) + length (filter takes [e])"
  using tokens_step [of lm e] by (auto simp: unat_word_ariths split: if_splits)

lemma serial_run:
  "unat (lm_serial lm) + length (filter takes es) < 2 ^ 64 \<Longrightarrow>
   unat (lm_serial lm) \<le> unat (lm_serial (foldl hub_step lm es))
   \<and> unat (lm_serial (foldl hub_step lm es)) \<le> unat (lm_serial lm) + length (filter takes es)"
proof (induction es arbitrary: lm)
  case (Cons e es)
  have e: "unat (lm_serial lm) \<le> unat (lm_serial (hub_step lm e))
   \<and> unat (lm_serial (hub_step lm e)) \<le> unat (lm_serial lm) + length (filter takes [e])"
    by (rule serial_step) (use Cons.prems in \<open>auto split: if_splits\<close>)
  with Cons.prems have "unat (lm_serial (hub_step lm e)) + length (filter takes es) < 2 ^ 64"
    by (auto split: if_splits)
  from Cons.IH [OF this] e show ?case by (auto split: if_splits)
qed simp

lemma dead_token_step:
  assumes "(n, s) \<notin> tokens lm" "unat s \<le> unat (lm_serial lm)" "unat (lm_serial lm) + length (filter takes [e]) < 2 ^ 64"
  shows "(n, s) \<notin> tokens (hub_step lm e)"
proof (cases "takes e")
  case True
  with assms have "unat (lm_serial lm + 1) = unat (lm_serial lm) + 1"
    by (simp add: unat_word_ariths)
  with assms have "s \<noteq> lm_serial lm + 1" by (metis add_le_same_cancel1 not_one_le_zero)
  with tokens_step [of lm e] assms True show ?thesis by auto
next
  case False
  with tokens_step [of lm e] assms show ?thesis by auto
qed

lemma dead_token_run:
  "(n, s) \<notin> tokens lm \<Longrightarrow> unat s \<le> unat (lm_serial lm) \<Longrightarrow>
   unat (lm_serial lm) + length (filter takes es) < 2 ^ 64 \<Longrightarrow> (n, s) \<notin> tokens (foldl hub_step lm es)"
proof (induction es arbitrary: lm)
  case (Cons e es)
  have b: "unat (lm_serial lm) + length (filter takes [e]) < 2 ^ 64"
    using Cons.prems by (auto split: if_splits)
  note dead = dead_token_step [OF Cons.prems(1,2) b] and ser = serial_step [OF b]
  have "unat (lm_serial (hub_step lm e)) + length (filter takes es) < 2 ^ 64"
    using Cons.prems(3) ser by (auto split: if_splits)
  from Cons.IH [OF dead _ this] ser Cons.prems(2) show ?case by simp
qed simp

lemma publish_dead_token:
  "(ra_name a, ra_serial a) \<notin> tokens lm \<Longrightarrow> publish_retry lm a = (Inl AE_Stale, lm)"
  by (auto simp: publish_retry_def tokens_def dest: position_Some split: option.splits)

lemma take_retry_Some:
  assumes "take_retry lm t = (Some a, lm')"
  obtains r where "find (retry_due t) (lm_retries lm) = Some r" "ra_name a = ry_name r" "ra_mode a = ry_mode r"
    "ra_serial a = lm_serial lm + 1" "ra_generation a = lm_generation lm" "lm_serial lm' = lm_serial lm + 1"
    "lm_generation lm' = lm_generation lm" "lm_peers lm' = lm_peers lm"
    "lm_retries lm' = update_first (retry_due t) (\<lambda>r. r\<lparr>ry_attempt := Some (lm_serial lm + 1)\<rparr>) (lm_retries lm)"
  using assms by (auto simp: take_retry_def Let_def split: option.splits)

section \<open>Properties of dial tokens\<close>

text \<open>C14. Once the manager's generation has been invalidated (by \<^verbatim>\<open>invalidate_generation\<close> or
  \<^verbatim>\<open>close\<close>) any number of times below the counter's period, the dial token a worker took
  before is stale after every sequence of manager operations: \<^verbatim>\<open>publish_retry\<close> refuses it and
  changes nothing.\<close>

theorem stale_after_invalidation:
  assumes "take_retry lm t = (Some a, lm1)" "0 < length (filter bumps es)" "length (filter bumps es) < 2 ^ 64"
  shows "publish_retry (foldl hub_step lm1 es) a = (Inl AE_Stale, foldl hub_step lm1 es)"
proof -
  have "of_nat (length (filter bumps es)) \<noteq> (0 :: u64)"
    using assms(2,3) by (simp add: word_of_nat_eq_0_iff nat_dvd_not_less)
  then have "ra_generation a \<noteq> lm_generation (foldl hub_step lm1 es)"
    using assms(1) by (auto simp: generation_run elim: take_retry_Some)
  then show ?thesis by (simp add: publish_retry_def)
qed

theorem stale_after_invalidation_witness:
  "take_retry sample_hub 7 = (Some sample_token, snd (take_retry sample_hub 7))
   \<and> 0 < length (filter bumps [EvInvalidate, EvTakeRetry 9]) \<and> length (filter bumps [EvInvalidate, EvTakeRetry 9]) < 2 ^ 64
   \<and> fst (publish_retry (foldl hub_step (snd (take_retry sample_hub 7)) [EvInvalidate, EvTakeRetry 9]) sample_token) = Inl AE_Stale"
proof -
  have h: "take_retry sample_hub 7 = (Some sample_token, snd (take_retry sample_hub 7))"
    by (simp add: sample_hub_def sample_token_def take_retry_def new_retry_def retry_due_def Let_def)
  have b: "length (filter bumps [EvInvalidate, EvTakeRetry 9]) = 1"
    by (simp add: bumps_def)
  show ?thesis
    using h b stale_after_invalidation [OF h, of "[EvInvalidate, EvTakeRetry 9]"] by (simp del: filter.simps)
qed

text \<open>C15. A dial token whose retained retry has been cancelled at any later point stays stale for
  ever, whatever the manager does before and after the cancellation, even when the same peer is
  retained and dialled again, as long as the serial counter has not wrapped.\<close>

theorem stale_after_cancel:
  assumes "take_retry lm t = (Some a, lm1)"
    and "unat (lm_serial lm1) + length (filter takes (es @ es')) < 2 ^ 64"
  shows "publish_retry (foldl hub_step lm1 (es @ EvCancelRetry (ra_name a) # es')) a
       = (Inl AE_Stale, foldl hub_step lm1 (es @ EvCancelRetry (ra_name a) # es'))"
proof -
  let ?lm = "foldl hub_step lm1 es"
  have ser: "ra_serial a = lm_serial lm1"
    using assms(1) by (auto elim: take_retry_Some)
  have run: "unat (lm_serial lm1) \<le> unat (lm_serial ?lm)
    \<and> unat (lm_serial ?lm) \<le> unat (lm_serial lm1) + length (filter takes es)"
    using assms(2) by (intro serial_run) simp
  have "(ra_name a, ra_serial a) \<notin> tokens (cancel_retry ?lm (ra_name a))"
    by (auto simp: tokens_def cancel_retry_def)
  moreover have "lm_serial (cancel_retry ?lm (ra_name a)) = lm_serial ?lm"
    by (simp add: cancel_retry_def)
  ultimately have "(ra_name a, ra_serial a) \<notin> tokens (foldl hub_step (cancel_retry ?lm (ra_name a)) es')"
    using run ser assms(2) by (intro dead_token_run) auto
  then show ?thesis
    by (simp add: publish_dead_token)
qed

theorem stale_after_cancel_witness:
  "take_retry sample_hub 7 = (Some sample_token, snd (take_retry sample_hub 7))
   \<and> unat (lm_serial (snd (take_retry sample_hub 7)))
       + length (filter takes ([] @ [EvRetainRetryGroup ''2000'' MONITOR 8 None, EvTakeRetry 9])) < 2 ^ 64
   \<and> fst (publish_retry (foldl hub_step (snd (take_retry sample_hub 7))
         ([] @ EvCancelRetry (ra_name sample_token) # [EvRetainRetryGroup ''2000'' MONITOR 8 None, EvTakeRetry 9])) sample_token) = Inl AE_Stale"
proof -
  have h: "take_retry sample_hub 7 = (Some sample_token, snd (take_retry sample_hub 7))"
    by (simp add: sample_hub_def sample_token_def take_retry_def new_retry_def retry_due_def Let_def)
  have b: "unat (lm_serial (snd (take_retry sample_hub 7)))
       + length (filter takes ([] @ [EvRetainRetryGroup ''2000'' MONITOR 8 None, EvTakeRetry 9])) < 2 ^ 64"
    by (simp add: takes_def sample_hub_def take_retry_def new_retry_def retry_due_def Let_def)
  show ?thesis
    using h b arg_cong [OF stale_after_cancel [OF h b], of fst] by (simp del: filter.simps foldl_Cons)
qed

lemma check_group_frame:
  "lm_local lm' = lm_local lm \<Longrightarrow> lm_peers lm' = lm_peers lm \<Longrightarrow>
   check_group lm' n False g = check_group lm n False g"
  by (simp add: check_group_def)

text \<open>C33. The token returned by \<^verbatim>\<open>take_retry\<close> belongs to the first due, unpaused, unblocked and
  unattempted retry, and publishing it at once attaches that retry's peer with the retry's mode,
  permanence and group, provided the admission rule allows the peer.\<close>

theorem fresh_token_publishes:
  assumes take: "take_retry lm t = (Some a, lm1)"
    and fresh: "\<forall>r \<in> set (lm_retries lm). ry_attempt r \<noteq> Some (lm_serial lm + 1)"
    and due: "find (retry_due t) (lm_retries lm) = Some r"
    and ok: "check_group lm (ry_name r) False (ry_group r) = Inr ()"
  shows "publish_retry lm1 a = (Inr (), hub_publish lm1 (ry_name r) (ry_mode r) (ry_automatic r)
           (ry_group r) (ry_group_member r))"
proof -
  let ?s = "lm_serial lm + 1"
  let ?Q = "\<lambda>r. ry_name r = ra_name a \<and> ry_attempt r = Some ?s \<and> \<not> ry_paused r"
  obtain i where i: "position (retry_due t) (lm_retries lm) = Some i" "lm_retries lm ! i = r"
    using due by (auto simp: find_position)
  have r: "i < length (lm_retries lm)" "\<not> ry_paused r"
    using position_Some [OF i(1)] i(2) by (auto simp: retry_due_def)
  have lm1: "ra_name a = ry_name r" "ra_mode a = ry_mode r" "ra_serial a = ?s" "ra_generation a = lm_generation lm1"
    "lm_local lm1 = lm_local lm" "lm_peers lm1 = lm_peers lm"
    "lm_retries lm1 = update_first (retry_due t) (\<lambda>r. r\<lparr>ry_attempt := Some ?s\<rparr>) (lm_retries lm)"
    using take due by (auto simp: take_retry_def Let_def)
  have "position ?Q (lm_retries lm1) = Some i"
    unfolding lm1 by (rule position_update_first [OF i(1)]) (use fresh i r in \<open>auto simp: lm1\<close>)
  moreover have "lm_retries lm1 ! i = r\<lparr>ry_attempt := Some ?s\<rparr>"
    using r i by (simp add: lm1 update_first_position)
  ultimately show ?thesis
    using ok check_group_frame [OF lm1(5,6)] lm1 by (simp add: publish_retry_def)
qed

theorem fresh_token_publishes_witness:
  "map at_name (lm_peers (snd (publish_retry (snd (take_retry sample_hub 7)) sample_token))) = [''2000'']"
proof -
  have h: "take_retry sample_hub 7 = (Some sample_token, snd (take_retry sample_hub 7))"
    "find (retry_due 7) (lm_retries sample_hub) = Some (new_retry ''2000'' TRANSCEIVE 0 None None None)"
    "\<forall>r \<in> set (lm_retries sample_hub). ry_attempt r \<noteq> Some (lm_serial sample_hub + 1)"
    by (simp_all add: sample_hub_def sample_token_def take_retry_def new_retry_def retry_due_def Let_def)
  have c: "check_group sample_hub (ry_name (new_retry ''2000'' TRANSCEIVE 0 None None None)) False
      (ry_group (new_retry ''2000'' TRANSCEIVE 0 None None None)) = Inr ()"
    by (simp add: sample_hub_def check_group_def new_retry_def decimal_identity_def identity_def
        identity_char_def is_ascii_alphanumeric_def is_ascii_digit_def)
  show ?thesis
    using fresh_token_publishes [OF h(1) h(3) h(2) c]
    by (simp add: new_retry_def sample_hub_def take_retry_def retry_due_def Let_def)
qed

section \<open>Backoff\<close>

lemma unat_next_delay: "unat (next_delay d) = clamp 1000 300000 (2 * unat d)"
proof (cases "unat d * 2 < 2 ^ 64")
  case True
  then have "unat (d * 2) = 2 * unat d"
    by (simp add: unat_word_ariths)
  with True show ?thesis
    by (simp add: next_delay_def clamp_def sat_mul_def word_less_nat_alt)
next
  case False
  then show ?thesis
    by (simp add: next_delay_def clamp_def sat_mul_def word_less_nat_alt unsigned_minus_1_eq_mask mask_eq_exp_minus_1)
qed

lemma backoff_closed_form:
  "unat ((next_delay ^^ Suc n) 0) = min (1000 * 2 ^ n) 300000"
proof (induction n)
  case 0
  then show ?case by (simp add: unat_next_delay clamp_def)
next
  case (Suc n)
  then have "unat ((next_delay ^^ Suc (Suc n)) 0) = clamp 1000 300000 (2 * min (1000 * 2 ^ n) 300000)"
    by (simp add: unat_next_delay)
  also have "\<dots> = min (1000 * 2 ^ Suc n) 300000"
    using one_le_power [of "2 :: nat" n] by (auto simp: clamp_def min_def)
  finally show ?case .
qed

text \<open>After the n-th consecutive failed attempt of an automatic retry its backoff is one second
  doubled n times and capped at five minutes, and the next attempt is due that long after the
  failure, saturating at the end of the clock.\<close>

theorem failed_attempt_backoff:
  assumes pos: "position (\<lambda>r. ry_name r = ra_name a \<and> ry_attempt r = Some (ra_serial a)) (lm_retries lm) = Some i"
    and gen: "ra_generation a = lm_generation lm"
    and peer: "\<forall>p \<in> set (lm_peers lm). at_name p \<noteq> ra_name a"
    and r: "ry_automatic (lm_retries lm ! i)" "\<not> ry_paused (lm_retries lm ! i)"
      "ry_blocked_topology (lm_retries lm ! i) = None" "ry_delay (lm_retries lm ! i) = (next_delay ^^ n) 0"
  shows "let r' = lm_retries (finish_retry lm a False t) ! i in
      length (lm_retries (finish_retry lm a False t)) = length (lm_retries lm)
      \<and> ry_attempt r' = None \<and> unat (ry_delay r') = min (1000 * 2 ^ n) 300000
      \<and> unat (ry_due r') = min (unat t + min (1000 * 2 ^ n) 300000) (2 ^ 64 - 1)"
proof -
  have i: "i < length (lm_retries lm)"
    using position_Some [OF pos] by blast
  have d: "unat (next_delay (ry_delay (lm_retries lm ! i))) = min (1000 * 2 ^ n) 300000"
    using backoff_closed_form [of n] r by simp
  have "\<not> list_ex (\<lambda>p. at_name p = ra_name a) (lm_peers lm)"
    using peer by (simp add: list_ex_iff)
  with pos gen r i d show ?thesis
    by (simp add: finish_retry_def unat_sat_add)
qed

theorem failed_attempt_backoff_witness:
  "let lm = snd (take_retry sample_hub 7) in unat (ry_delay (lm_retries (finish_retry lm sample_token False 7) ! 0)) = 1000
     \<and> unat (ry_due (lm_retries (finish_retry lm sample_token False 7) ! 0)) = 1007"
  using failed_attempt_backoff [of sample_token "snd (take_retry sample_hub 7)" 0 0 7]
  by (simp add: sample_hub_def sample_token_def take_retry_def new_retry_def retry_due_def Let_def)

section \<open>Disconnecting everything\<close>

lemma all_paused_idle:
  assumes "\<forall>r \<in> set (lm_retries lm). ry_paused r"
  shows "take_retry lm t = (None, lm)" and "publish_retry lm a = (Inl AE_Stale, lm)"
proof -
  have "find (retry_due t) (lm_retries lm) = None"
    using assms by (auto simp: find_None_iff retry_due_def)
  then show "take_retry lm t = (None, lm)" by (simp add: take_retry_def)
  have "position (\<lambda>r. ry_name r = ra_name a \<and> ry_attempt r = Some (ra_serial a) \<and> \<not> ry_paused r) (lm_retries lm) = None"
    using assms by (auto simp: position_None)
  then show "publish_retry lm a = (Inl AE_Stale, lm)" by (simp add: publish_retry_def)
qed

text \<open>\<^verbatim>\<open>disconnect_all\<close> detaches every peer, leaves nothing a dialler can take and no token it
  can publish, and keeps the whole reconnect intent: resuming gives back every retained retry and
  every peer that was attached, in order, due now, with its permanence.\<close>

theorem disconnect_all_quiesces:
  "let lm' = snd (disconnect_all lm) in
     lm_peers lm' = [] \<and> fst (disconnect_all lm) = map at_name (lm_peers lm)
     \<and> take_retry lm' t = (None, lm') \<and> publish_retry lm' a = (Inl AE_Stale, lm')
     \<and> map ry_name (lm_retries (resume_retries lm' t)) = map ry_name (lm_retries lm) @ map at_name (lm_peers lm)
     \<and> list_all (\<lambda>r. \<not> ry_paused r \<and> ry_due r = t \<and> ry_blocked_topology r = None) (lm_retries (resume_retries lm' t))
     \<and> map ry_automatic (lm_retries (resume_retries lm' t)) = map ry_automatic (lm_retries lm) @ map at_permanent (lm_peers lm)"
proof -
  have "\<forall>r \<in> set (lm_retries (snd (disconnect_all lm))). ry_paused r"
    by (auto simp: disconnect_all_def pause_retries_def Let_def retained_retry_def)
  note all_paused_idle [OF this]
  then show ?thesis
    by (auto simp: Let_def)
      (auto simp: disconnect_all_def pause_retries_def resume_retries_def resume_retry_def retained_retry_def
        list_all_iff Let_def)
qed

section \<open>The peer table at every reachable state\<close>

text \<open>C1. Whatever sequence of operations the control owner runs on a fresh link manager, its direct
  peers have distinct names, every name is a decimal node identity different from the local node,
  every learned route is one the wire grammar admits, and every retry backoff is zero or between
  one second and five minutes.\<close>

theorem hub_reachable_inv:
  assumes "link_manager_new self st = Inr lm0"
  shows "distinct (map at_name (lm_peers (foldl hub_step lm0 es)))
     \<and> list_all (\<lambda>p. decimal_identity (at_name p) \<and> at_name p \<noteq> self \<and> list_all route_ok (at_routes p))
          (lm_peers (foldl hub_step lm0 es))
     \<and> list_all (\<lambda>r. ry_delay r = 0 \<or> 1000 \<le> ry_delay r \<and> ry_delay r \<le> 300000)
          (lm_retries (foldl hub_step lm0 es))"
proof -
  have "hub_inv (foldl hub_step lm0 es)" and "lm_local lm0 = self"
    using hub_machine.run_inv link_manager_new_inv [OF assms] by blast+
  then show ?thesis
    by (simp add: hub_inv_def peer_ok_def [abs_def] delay_ok_def)
qed

theorem hub_reachable_inv_witness:
  "link_manager_new ''1999'' (\<lambda>_. group_selection_new) = Inr (sample_hub\<lparr>lm_retries := []\<rparr>)
   \<and> distinct (map at_name (lm_peers (foldl hub_step (sample_hub\<lparr>lm_retries := []\<rparr>)
        [EvAttachGroup ''2000'' TRANSCEIVE True None, EvAttachGroup ''2000'' MONITOR False None])))"
proof -
  have h: "link_manager_new ''1999'' (\<lambda>_. group_selection_new) = Inr (sample_hub\<lparr>lm_retries := []\<rparr>)"
    by (simp add: link_manager_new_def sample_hub_def node_id_valid_def byte_in_def byte_def)
  show ?thesis
    using h hub_reachable_inv [OF h] by blast
qed

section \<open>Topology blocks\<close>

lemma release_current:
  "list_all (\<lambda>r. ry_blocked_topology r = None \<or> ry_blocked_topology r = Some (topology_evidence lm (ry_name r) (ry_group r)))
     (lm_retries (release_changed_topology_blocks lm))"
  by (auto simp: release_changed_topology_blocks_def list_all_iff split: option.splits)

lemma topology_evidence_frame:
  "lm_peers lm' = lm_peers lm \<Longrightarrow> topology_evidence lm' = topology_evidence lm"
  by (intro ext) (simp add: topology_evidence_def)

text \<open>An advertisement that changes a peer's routes stores them, and afterwards a retained retry is
  still topology-blocked only if the evidence it was blocked on is the evidence of the new
  topology; all other blocked retries are due at once. The peer is reported as looping exactly
  when it is outside a group and one of its routes names another live direct peer.\<close>

theorem topology_update:
  assumes parse: "parse_protocol b = Some (Topology rs)" and p: "p \<in> set (lm_peers lm)" and inv: "hub_inv lm"
  shows "\<exists>looped lm'. update_topology lm (at_name p) b = Inr (looped, lm')
     \<and> (looped \<longleftrightarrow> at_group p = None
          \<and> (\<exists>q \<in> set (lm_peers lm). at_name q \<noteq> at_name p \<and> \<not> at_ended q \<and> at_name q \<in> rt_node ` set rs))
     \<and> lm_peers lm' = update_first (\<lambda>q. at_name q = at_name p) (\<lambda>q. q\<lparr>at_routes := rs\<rparr>) (lm_peers lm)
     \<and> (rs \<noteq> at_routes p \<longrightarrow> list_all (\<lambda>r. ry_blocked_topology r = None
          \<or> ry_blocked_topology r = Some (topology_evidence lm' (ry_name r) (ry_group r))) (lm_retries lm'))"
proof -
  let ?P = "\<lambda>q. at_name q = at_name p"
  let ?lm = "lm\<lparr>lm_peers := update_first ?P (\<lambda>q. q\<lparr>at_routes := rs\<rparr>) (lm_peers lm), lm_revision := lm_revision lm + 1\<rparr>"
  let ?lm' = "if at_routes p = rs then lm else release_changed_topology_blocks ?lm"
  have f: "find ?P (lm_peers lm) = Some p"
    using inv p by (intro find_distinct) (simp_all add: hub_inv_def)
  have peers: "lm_peers ?lm' = update_first ?P (\<lambda>q. q\<lparr>at_routes := rs\<rparr>) (lm_peers lm)"
    using update_first_same [OF f, of "\<lambda>q. q\<lparr>at_routes := rs\<rparr>"] by auto
  have ev: "topology_evidence (release_changed_topology_blocks ?lm) = topology_evidence ?lm"
    by (rule topology_evidence_frame) simp
  let ?loop = "at_group p = None \<and> list_ex (\<lambda>q. at_name q \<noteq> at_name p \<and> \<not> at_ended q
      \<and> list_ex (\<lambda>r. rt_node r = at_name q) rs) (lm_peers lm)"
  have upd: "update_topology lm (at_name p) b = Inr (?loop, ?lm')"
    by (simp add: update_topology_def parse f Let_def)
  have loop: "?loop \<longleftrightarrow> at_group p = None
          \<and> (\<exists>q \<in> set (lm_peers lm). at_name q \<noteq> at_name p \<and> \<not> at_ended q \<and> at_name q \<in> rt_node ` set rs)"
    by (simp add: list_ex_iff image_iff) metis
  have rel: "rs \<noteq> at_routes p \<longrightarrow> list_all (\<lambda>r. ry_blocked_topology r = None
          \<or> ry_blocked_topology r = Some (topology_evidence ?lm' (ry_name r) (ry_group r))) (lm_retries ?lm')"
    using release_current [of ?lm] ev by simp
  show ?thesis
    by (rule exI [of _ ?loop], rule exI [of _ ?lm']) (intro conjI upd loop peers rel)
qed

lemma sample_mesh_inv: "hub_inv sample_mesh"
  by (simp add: sample_mesh_def sample_hub_def hub_inv_def peer_ok_def new_retry_def)

theorem topology_update_witness:
  "\<exists>lm'. update_topology sample_mesh ''2000'' ''L T2001'' = Inr (True, lm')"
proof -
  have parse: "parse_protocol ''L T2001'' = Some (Topology [\<lparr>rt_mode = CHR ''T'', rt_node = ''2001''\<rparr>])"
    using parse_topology_text [of "[\<lparr>rt_mode = CHR ''T'', rt_node = ''2001''\<rparr>]"] sample_identity(3)
    by (simp add: route_text_def route_ok_def identity_def)
  have p: "hd (lm_peers sample_mesh) \<in> set (lm_peers sample_mesh)"
    by (simp add: sample_mesh_def)
  show ?thesis
    using topology_update [OF parse p sample_mesh_inv] by (auto simp: sample_mesh_def)
qed

end
