(* ===== verification/Link_Hub_Relay.thy ===== *)
theory Link_Hub_Relay
  imports Link_Hub_Props
begin

text \<open>
  Relaying of key and digit texts by the link manager: which peers get which bytes, and that the
  forwarded bytes parse back to the message that came in.
\<close>

section \<open>Relaying\<close>

lemma deliver_in: "(q, txt) \<in> set (deliver ps d t) \<Longrightarrow> txt = t \<and> q \<in> at_name ` set ps"
  by (auto simp: deliver_def dest: find_SomeD split: option.splits)

lemma deliver_live:
  "(q, txt) \<in> set (deliver (eligible lm ingress source) d t) \<Longrightarrow>
   txt = t \<and> live_peer lm q \<and> q \<noteq> ingress \<and> q \<noteq> source"
  by (auto simp: eligible_def live_peer_def list_ex_iff dest!: deliver_in)

lemma eligible_live:
  "p \<in> set (eligible lm ingress source) \<Longrightarrow> live_peer lm (at_name p) \<and> at_name p \<noteq> ingress \<and> at_name p \<noteq> source"
  by (auto simp: eligible_def live_peer_def list_ex_iff)

text \<open>What a relayed message claims as its origin.\<close>

fun claimed_source :: "Protocol \<Rightarrow> string option" where
  "claimed_source (Query r) = Some r"
| "claimed_source (Key d s k a) = Some s"
| "claimed_source (RemoteDigit d s n c) = Some s"
| "claimed_source _ = None"

text \<open>C27. Whatever the manager relays for a message that came in on the wire goes only to live direct
  peers other than the one it came from and the claimed originator, as bytes that parse back to the
  same message; the only text sent back to the ingress peer is the answer to its key query, which
  parses back as this node's key report.\<close>

theorem relay_never_echoes:
  assumes "parse_protocol bytes = Some msg"
    and "(q, txt) \<in> set (relay_key lm ingress msg receiving transitioned now) \<union> set (relay_digit lm ingress msg)"
  shows "(live_peer lm q \<and> q \<noteq> ingress \<and> claimed_source msg \<noteq> Some q \<and> parse_protocol txt = Some msg)
     \<or> (\<exists>requester age. msg = Query requester \<and> q = ingress \<and> requester \<noteq> lm_local lm \<and>
          parse_protocol txt = Some (Key requester (lm_local lm) receiving age))"
proof -
  have ok: "wire_ok msg" and rt: "parse_protocol (wire_text msg) = Some msg"
    using parse_wire_ok [OF assms(1)] parse_wire_text by blast+
  show ?thesis
    using assms(2) ok rt
    by (cases msg)
      (auto simp: relay_key_def relay_digit_def Let_def parse_key_text
        split: if_splits dest: deliver_live eligible_live)
qed

theorem relay_never_echoes_witness:
  "set (map fst (relay_key sample_mesh ''2000'' (Query ''2001'') True 0 0)) \<subseteq> {''2000'', ''2002''}
   \<and> parse_protocol (query_text ''2001'') = Some (Query ''2001'')"
proof -
  have parse: "parse_protocol (query_text ''2001'') = Some (Query ''2001'')"
    by (rule parse_query_text) simp
  have "q = ''2000'' \<or> q = ''2002''" if "(q, t) \<in> set (relay_key sample_mesh ''2000'' (Query ''2001'') True 0 0)" for q t
    using relay_never_echoes [OF parse, of q t sample_mesh "''2000''" True 0 0] that
    by (auto simp: live_peer_def sample_mesh_def)
  with parse show ?thesis by force
qed

lemma find_eligible:
  assumes "live_peer lm d" "d \<noteq> ingress" "d \<noteq> source"
  obtains p where "find (\<lambda>p. at_name p = d) (eligible lm ingress source) = Some p" "at_name p = d"
proof (cases "find (\<lambda>p. at_name p = d) (eligible lm ingress source)")
  case None
  with assms show ?thesis
    by (auto simp: find_None_iff eligible_def live_peer_def list_ex_iff)
next
  case (Some p)
  with that show ?thesis by (auto dest: find_SomeD)
qed

text \<open>A key report or remote digit addressed to a live direct peer is sent to that peer and to no
  other, unless that peer sent it or claims to be its source.\<close>

theorem relay_reaches_destination:
  assumes "live_peer lm ingress" "d \<noteq> lm_local lm" "live_peer lm d" "d \<noteq> ingress" "d \<noteq> source"
  shows "relay_key lm ingress (Key d source keyed age) receiving transitioned now = [(d, key_text d source keyed age)]
     \<and> relay_digit lm ingress (RemoteDigit d source n c) = [(d, digit_text d source n c)]"
proof -
  obtain p where "find (\<lambda>p. at_name p = d) (eligible lm ingress source) = Some p" "at_name p = d"
    using assms by (rule_tac find_eligible)
  with assms show ?thesis
    by (simp add: relay_key_def relay_digit_def deliver_def)
qed

theorem relay_reaches_destination_witness:
  "relay_key sample_mesh ''2000'' (Key ''2001'' ''2005'' True 9) False 0 0 = [(''2001'', key_text ''2001'' ''2005'' True 9)]"
  using relay_reaches_destination [of sample_mesh "''2000''" "''2001''" "''2005''"]
  by (simp add: live_peer_def sample_mesh_def sample_hub_def)

end
