(* ===== verification/Link_Hub_Groups.thy ===== *)
theory Link_Hub_Groups
  imports Link_Hub_Props
begin

text \<open>
  The link manager as publisher of the priority-group selections: at every reachable state the
  shared cell of each attached member's group asks for the lowest live slot of that group.
\<close>

section \<open>Published group selections\<close>

text \<open>The configuration gives each of its group labels \<open>L\<close> one shared selection of its own;
  \<open>ref_of\<close> names it.\<close>

definition member_ok :: "string set \<Rightarrow> (string \<Rightarrow> sel_ref) \<Rightarrow> GroupMemberSelection option \<Rightarrow> bool" where
  "member_ok L ref_of m \<longleftrightarrow> (\<forall>x. m = Some x \<longrightarrow> gm_label x \<in> L \<and> gm_selection x = ref_of (gm_label x))"

fun event_members_ok :: "string set \<Rightarrow> (string \<Rightarrow> sel_ref) \<Rightarrow> HubEvent \<Rightarrow> bool" where
  "event_members_ok L ref_of (EvAttachMember n m p s) \<longleftrightarrow> member_ok L ref_of s"
| "event_members_ok L ref_of (EvAdmitMember n v a s) \<longleftrightarrow> member_ok L ref_of s"
| "event_members_ok L ref_of (EvRetainRetryMember n m t s) \<longleftrightarrow> member_ok L ref_of s"
| "event_members_ok L ref_of (EvRetainBlocked n m g s) \<longleftrightarrow> member_ok L ref_of s"
| "event_members_ok L ref_of _ \<longleftrightarrow> True"

definition members_ok :: "string set \<Rightarrow> (string \<Rightarrow> sel_ref) \<Rightarrow> LinkManager \<Rightarrow> bool" where
  "members_ok L ref_of lm \<longleftrightarrow> list_all (\<lambda>p. member_ok L ref_of (at_group_member p)) (lm_peers lm)
     \<and> list_all (\<lambda>r. member_ok L ref_of (ry_group_member r)) (lm_retries lm)"

definition slot_value :: "nat option \<Rightarrow> nat" where
  "slot_value s = (case s of None \<Rightarrow> 0 | Some n \<Rightarrow> n)"

definition selections_published :: "LinkManager \<Rightarrow> bool" where
  "selections_published lm \<longleftrightarrow> (\<forall>p \<in> set (lm_peers lm). \<forall>m. at_group_member p = Some m \<longrightarrow>
     gs_desired (lm_selections lm (gm_selection m)) = slot_value (desired_slot lm (gm_label m)))"

definition sample_member :: GroupMemberSelection where
  "sample_member = \<lparr>gm_label = ''g'', gm_slot = 3, gm_selection = 7\<rparr>"

lemma groups_fold:
  "gm_label ` set (foldl (\<lambda>gs m. if list_ex (\<lambda>g. gm_label g = gm_label m) gs then gs else gs @ [m]) gs ms)
     = gm_label ` (set gs \<union> set ms)
   \<and> set (foldl (\<lambda>gs m. if list_ex (\<lambda>g. gm_label g = gm_label m) gs then gs else gs @ [m]) gs ms) \<subseteq> set gs \<union> set ms"
proof (induction ms arbitrary: gs)
  case Nil
  then show ?case by simp
next
  case (Cons m ms)
  show ?case
  proof (cases "list_ex (\<lambda>g. gm_label g = gm_label m) gs")
    case True
    then obtain g where g: "g \<in> set gs" "gm_label m = gm_label g"
      by (auto simp: list_ex_iff)
    have "gm_label m \<in> gm_label ` (set gs \<union> set ms)"
      using g by (intro image_eqI [where x = g]) simp_all
    with True Cons.IH [of gs] show ?thesis by auto
  next
    case False
    with Cons.IH [of "gs @ [m]"] show ?thesis by auto
  qed
qed

lemma publish_fold:
  assumes "inj_on ref_of L" "\<forall>m \<in> set ms. gm_label m \<in> L \<and> gm_selection m = ref_of (gm_label m)"
  and "l \<in> L"
  shows "gs_desired (foldl (\<lambda>h m. h(gm_selection m := publish_desired (f (gm_label m)) (h (gm_selection m)))) h ms (ref_of l))
     = (if l \<in> gm_label ` set ms then slot_value (f l) else gs_desired (h (ref_of l)))"
  using assms(2)
proof (induction ms arbitrary: h)
  case Nil
  then show ?case by simp
next
  case (Cons m ms)
  then have "ref_of l = ref_of (gm_label m) \<longleftrightarrow> l = gm_label m"
    using assms(1,3) by (simp add: inj_on_eq_iff)
  with Cons show ?case
    by (auto simp: publish_desired_def slot_value_def split: option.splits)
qed


lemma desired_slot_frame: "lm_peers lm' = lm_peers lm \<Longrightarrow> desired_slot lm' = desired_slot lm"
  by (rule ext) (simp add: desired_slot_def)

lemma members_in:
  "x \<in> set (hub_members lm) \<longleftrightarrow>
     (\<exists>p \<in> set (lm_peers lm). at_group_member p = Some x) \<or> (\<exists>r \<in> set (lm_retries lm). ry_group_member r = Some x)"
  by (simp add: hub_members_def set_map_filter)

lemma refresh_publishes:
  assumes "inj_on ref_of L" "members_ok L ref_of lm"
  shows "selections_published (refresh_group_selections lm)"
proof -
  have g: "gm_label ` set (hub_groups lm) = gm_label ` set (hub_members lm)" "set (hub_groups lm) \<subseteq> set (hub_members lm)"
    using groups_fold [of "[]" "hub_members lm"] by (simp_all add: hub_groups_def)
  have ok: "\<forall>m \<in> set (hub_members lm). gm_label m \<in> L \<and> gm_selection m = ref_of (gm_label m)"
    using assms(2) by (auto simp: members_ok_def member_ok_def list_all_iff members_in)
  have d: "desired_slot (refresh_group_selections lm) = desired_slot lm"
    by (rule desired_slot_frame) simp
  show ?thesis
    unfolding selections_published_def d
  proof (intro ballI allI impI)
    fix p m assume "p \<in> set (lm_peers (refresh_group_selections lm))" "at_group_member p = Some m"
    then have m: "m \<in> set (hub_members lm)" by (auto simp: members_in)
    with ok have "gm_selection m = ref_of (gm_label m)" by blast
    moreover have "gm_label m \<in> gm_label ` set (hub_groups lm)" using g m by auto
    moreover have "gm_label m \<in> L" using ok m by blast
    moreover have "\<forall>m \<in> set (hub_groups lm). gm_label m \<in> L \<and> gm_selection m = ref_of (gm_label m)" using g ok by auto
    ultimately show "gs_desired (lm_selections (refresh_group_selections lm) (gm_selection m))
        = slot_value (desired_slot lm (gm_label m))"
      using publish_fold [OF assms(1), of "hub_groups lm" "gm_label m" "desired_slot lm" "lm_selections lm"]
      by (simp add: refresh_group_selections_def)
  qed
qed

lemma members_ok_refresh [simp]: "members_ok L ref_of (refresh_group_selections lm) = members_ok L ref_of lm"
  by (simp add: members_ok_def)

text \<open>Changes of a peer that keep its name, its ended flag and its membership keep the
  publication; so do changes of the retries and callbacks of the audio owner.\<close>

lemma published_frame:
  assumes "map (\<lambda>p. (at_ended p, at_group_member p)) (lm_peers lm') = map (\<lambda>p. (at_ended p, at_group_member p)) (lm_peers lm)"
    and "\<And>r. gs_desired (lm_selections lm' r) = gs_desired (lm_selections lm r)"
    and "selections_published lm"
  shows "selections_published lm'"
proof -
  have slots: "List.map_filter at_group_member (filter (\<lambda>p. \<not> at_ended p) ps)
      = List.map_filter snd (filter (\<lambda>x. \<not> fst x) (map (\<lambda>p. (at_ended p, at_group_member p)) ps))" for ps
    by (simp add: List.map_filter_def filter_map comp_def)
  have d: "desired_slot lm' = desired_slot lm"
    by (rule ext) (simp add: desired_slot_def slots assms(1))
  have "(\<lambda>p. (at_ended p, at_group_member p)) ` set (lm_peers lm') = (\<lambda>p. (at_ended p, at_group_member p)) ` set (lm_peers lm)"
    using arg_cong [OF assms(1), of set] by simp
  then have "\<forall>p' \<in> set (lm_peers lm'). \<exists>p \<in> set (lm_peers lm). at_group_member p = at_group_member p'"
    by (metis (mono_tags, lifting) image_iff prod.inject)
  with assms(2,3) d show ?thesis
    unfolding selections_published_def by metis
qed

lemma publish_published:
  "inj_on ref_of L \<Longrightarrow> members_ok L ref_of lm \<Longrightarrow> member_ok L ref_of s \<Longrightarrow>
   selections_published (hub_publish lm n m p g s) \<and> members_ok L ref_of (hub_publish lm n m p g s)"
  unfolding hub_publish_def members_ok_refresh by (intro conjI refresh_publishes) (auto simp: members_ok_def)

definition sel_inv :: "string set \<Rightarrow> (string \<Rightarrow> sel_ref) \<Rightarrow> LinkManager \<Rightarrow> bool" where
  "sel_inv L ref_of lm \<longleftrightarrow> members_ok L ref_of lm \<and> selections_published lm"

lemma sel_inv_refresh:
  "inj_on ref_of L \<Longrightarrow> members_ok L ref_of lm \<Longrightarrow> sel_inv L ref_of (refresh_group_selections lm)"
  by (simp add: sel_inv_def refresh_publishes)

lemma sel_inv_publish:
  "inj_on ref_of L \<Longrightarrow> sel_inv L ref_of lm \<Longrightarrow> member_ok L ref_of s \<Longrightarrow> sel_inv L ref_of (hub_publish lm n m p g s)"
  by (simp add: sel_inv_def publish_published)

lemma member_ok_None [simp]: "member_ok L ref_of None"
  by (simp add: member_ok_def)

lemma published_updates [simp]:
  "selections_published (lm\<lparr>lm_retries := rs\<rparr>) = selections_published lm"
  "selections_published (lm\<lparr>lm_serial := n\<rparr>) = selections_published lm"
  "selections_published (lm\<lparr>lm_generation := n\<rparr>) = selections_published lm"
  "selections_published (lm\<lparr>lm_revision := n\<rparr>) = selections_published lm"
  by (simp_all add: selections_published_def desired_slot_def)

lemma sel_inv_set_retries:
  "sel_inv L ref_of lm \<Longrightarrow>
   (list_all (\<lambda>r. member_ok L ref_of (ry_group_member r)) (lm_retries lm) \<Longrightarrow> list_all (\<lambda>r. member_ok L ref_of (ry_group_member r)) rs) \<Longrightarrow>
   sel_inv L ref_of (lm\<lparr>lm_retries := rs\<rparr>)"
  by (simp add: sel_inv_def members_ok_def)

lemma sel_inv_counters:
  "sel_inv L ref_of lm \<Longrightarrow> sel_inv L ref_of (lm\<lparr>lm_serial := n\<rparr>)"
  "sel_inv L ref_of lm \<Longrightarrow> sel_inv L ref_of (lm\<lparr>lm_generation := n\<rparr>)"
  "sel_inv L ref_of lm \<Longrightarrow> sel_inv L ref_of (lm\<lparr>lm_revision := n\<rparr>)"
  by (simp_all add: sel_inv_def members_ok_def)

lemma sel_inv_retry_ops:
  assumes "sel_inv L ref_of lm"
  shows "sel_inv L ref_of (snd (take_retry lm t))"
    and "sel_inv L ref_of (cancel_retry lm n)"
    and "sel_inv L ref_of (pause_retries lm)"
    and "sel_inv L ref_of (resume_retries lm t)"
    and "sel_inv L ref_of (snd (resume_permanent_retry lm n m t))"
    and "sel_inv L ref_of (resume_permanent_retries lm t)"
    and "sel_inv L ref_of (invalidate_generation lm)"
    and "sel_inv L ref_of (accept lm (retain_retry_group lm n m t g))"
proof -
  note set = sel_inv_set_retries [OF assms] sel_inv_set_retries [OF sel_inv_counters(1) [OF assms]]
    sel_inv_set_retries [OF sel_inv_counters(2) [OF assms]]
  show "sel_inv L ref_of (snd (take_retry lm t))"
    by (auto simp: take_retry_def Let_def assms intro!: set list_all_update_first split: option.splits)
  show "sel_inv L ref_of (cancel_retry lm n)"
    unfolding cancel_retry_def by (rule set) (rule list_all_filter)
  show "sel_inv L ref_of (pause_retries lm)"
    unfolding pause_retries_def by (rule set) (erule list_all_map_keep, simp)
  show "sel_inv L ref_of (resume_retries lm t)"
    unfolding resume_retries_def by (rule set) (erule list_all_map_keep, simp add: resume_retry_def)
  show "sel_inv L ref_of (snd (resume_permanent_retry lm n m t))"
    unfolding resume_permanent_retry_def Let_def
    by (auto simp: assms intro!: set list_all_update_first)
  show "sel_inv L ref_of (resume_permanent_retries lm t)"
    unfolding resume_permanent_retries_def by (rule set) (erule list_all_map_keep, simp add: resume_retry_def)
  show "sel_inv L ref_of (invalidate_generation lm)"
    unfolding invalidate_generation_def by (rule set) (simp, erule list_all_map_keep, simp)
  show "sel_inv L ref_of (accept lm (retain_retry_group lm n m t g))"
    by (auto simp: retain_retry_group_def accept_def new_retry_def assms intro!: set split: sum.splits)
qed

lemma retry_member_ok:
  "sel_inv L ref_of lm \<Longrightarrow> position P (lm_retries lm) = Some i \<Longrightarrow> member_ok L ref_of (ry_group_member (lm_retries lm ! i))"
  using position_Some [of P "lm_retries lm" i] list_all_nth [of _ "lm_retries lm" i]
  by (auto simp: sel_inv_def members_ok_def)

lemma sel_inv_retry_update:
  "sel_inv L ref_of lm \<Longrightarrow> member_ok L ref_of (ry_group_member r) \<Longrightarrow> sel_inv L ref_of (lm\<lparr>lm_retries := (lm_retries lm)[i := r]\<rparr>)"
  by (auto simp: sel_inv_def members_ok_def intro!: list_all_list_update)

lemma sel_inv_finish:
  assumes "sel_inv L ref_of lm"
  shows "sel_inv L ref_of (finish_retry lm a ok t)"
proof -
  have "sel_inv L ref_of (lm\<lparr>lm_retries := remove_at i (lm_retries lm)\<rparr>)" for i
    using assms by (auto simp: sel_inv_def members_ok_def list_all_remove_at)
  with assms show ?thesis
    by (auto simp: finish_retry_def Let_def intro!: sel_inv_retry_update dest: retry_member_ok split: option.splits)
qed

lemma sel_inv_retain:
  assumes "inj_on ref_of L" "sel_inv L ref_of lm" "member_ok L ref_of s"
  shows "sel_inv L ref_of (accept lm (retain_retry_member lm n m t s))"
    and "sel_inv L ref_of (retain_topology_blocked_group lm n m g s)"
proof -
  show "sel_inv L ref_of (accept lm (retain_retry_member lm n m t s))"
    using assms by (auto simp: accept_def retain_retry_member_def new_retry_def sel_inv_def members_ok_def
        split: sum.splits intro!: refresh_publishes)
  have "sel_inv L ref_of (lm\<lparr>lm_retries := update_first (\<lambda>r. ry_name r = n)
      (\<lambda>r. r\<lparr>ry_mode := m, ry_automatic := True, ry_paused := False, ry_attempt := None,
        ry_blocked_topology := Some e, ry_group := g, ry_group_member := s\<rparr>) (lm_retries lm)\<rparr>)" for e
    by (rule sel_inv_set_retries [OF assms(2)]) (erule list_all_update_first, simp add: assms(3))
  moreover have "sel_inv L ref_of (refresh_group_selections (lm\<lparr>lm_retries := lm_retries lm @ [new_retry n m 0 e g s]\<rparr>))" for e
    using assms by (intro sel_inv_refresh) (auto simp: sel_inv_def members_ok_def new_retry_def)
  ultimately show "sel_inv L ref_of (retain_topology_blocked_group lm n m g s)"
    by (simp add: retain_topology_blocked_group_def Let_def)
qed

lemma sel_inv_attach:
  assumes "inj_on ref_of L" "sel_inv L ref_of lm"
  shows "sel_inv L ref_of (accept lm (attach_group lm n m p g))"
    and "sel_inv L ref_of (accept lm (admit_incoming lm n v a))"
    and "member_ok L ref_of s \<Longrightarrow> sel_inv L ref_of (accept lm (attach_member lm n m p s))"
    and "member_ok L ref_of s \<Longrightarrow> sel_inv L ref_of (accept lm (admit_incoming_member lm n v a s))"
  using assms by (auto simp: accept_def attach_group_def attach_member_def attach_def admit_incoming_def
      admit_incoming_member_def intro!: sel_inv_publish split: sum.splits)

lemma sel_inv_publish_retry:
  assumes "inj_on ref_of L" "sel_inv L ref_of lm"
  shows "sel_inv L ref_of (snd (publish_retry lm a))"
  using assms by (auto simp: publish_retry_def Let_def intro!: sel_inv_publish sel_inv_retry_update
      dest: retry_member_ok split: option.splits sum.splits)

lemma sel_inv_disconnect_mode:
  assumes "inj_on ref_of L" "sel_inv L ref_of lm"
  shows "sel_inv L ref_of (snd (disconnect_mode lm n b))"
proof (cases "fst (disconnect_mode lm n b)")
  case True
  have "members_ok L ref_of (lm\<lparr>lm_peers := filter P (lm_peers lm), lm_revision := v\<rparr>)" for P v
    using assms by (auto simp: sel_inv_def members_ok_def list_all_filter)
  with True assms show ?thesis
    by (auto simp: disconnect_mode_def Let_def intro!: sel_inv_refresh)
next
  case False
  let ?P = "\<lambda>p. at_name p \<noteq> n \<or> at_permanent p \<noteq> b"
  from False have "length (lm_peers lm) = length (filter ?P (lm_peers lm))"
    by (simp add: disconnect_mode_def Let_def)
  then have "filter ?P (lm_peers lm) = lm_peers lm"
    by (intro filter_same_length) (rule sym)
  then have "snd (disconnect_mode lm n b) = lm"
    unfolding disconnect_mode_def Let_def by simp
  with assms show ?thesis by simp
qed

lemma sel_inv_peers:
  assumes "inj_on ref_of L" "sel_inv L ref_of lm"
  shows "sel_inv L ref_of (hub_end lm n)"
    and "sel_inv L ref_of (reclaim lm n t)"
    and "sel_inv L ref_of (snd (disconnect_temporary lm))"
    and "sel_inv L ref_of (snd (disconnect_permanent_all lm))"
    and "sel_inv L ref_of (snd (disconnect_all lm))"
    and "sel_inv L ref_of (snd (hub_close lm))"
proof -
  have ok: "members_ok L ref_of lm" using assms(2) by (simp add: sel_inv_def)
  show "sel_inv L ref_of (hub_end lm n)"
    using assms ok by (auto simp: hub_end_def members_ok_def list_all_update_first intro!: sel_inv_refresh)
  show "sel_inv L ref_of (reclaim lm n t)"
    using assms ok by (auto simp: reclaim_def members_ok_def Let_def list_all_remove_at retained_retry_def
      dest!: position_Some dest: list_all_nth split: option.splits intro!: sel_inv_refresh)
  show "sel_inv L ref_of (snd (disconnect_temporary lm))"
    using assms(1) ok by (auto simp: disconnect_temporary_def members_ok_def list_all_filter intro!: sel_inv_refresh)
  show "sel_inv L ref_of (snd (disconnect_permanent_all lm))"
    using assms(1) ok by (auto simp: disconnect_permanent_all_def members_ok_def Let_def retained_retry_def
      list_all_iff intro!: sel_inv_refresh)
  show "sel_inv L ref_of (snd (disconnect_all lm))"
    using assms(1) ok by (auto simp: disconnect_all_def pause_retries_def members_ok_def Let_def retained_retry_def
      list_all_iff intro!: sel_inv_refresh)
  show "sel_inv L ref_of (snd (hub_close lm))"
    using assms(1) by (auto simp: hub_close_def members_ok_def Let_def intro!: sel_inv_refresh)
qed

lemma published_update_peers:
  "(\<And>p. at_ended (f p) = at_ended p \<and> at_group_member (f p) = at_group_member p) \<Longrightarrow>
   selections_published lm \<Longrightarrow> selections_published (lm\<lparr>lm_peers := update_first P f (lm_peers lm)\<rparr>)"
proof -
  assume f: "\<And>p. at_ended (f p) = at_ended p \<and> at_group_member (f p) = at_group_member p"
  have m: "map (\<lambda>p. (at_ended p, at_group_member p)) (update_first P f ps) = map (\<lambda>p. (at_ended p, at_group_member p)) ps" for ps
    by (rule map_update_first) (simp add: f)
  assume "selections_published lm"
  then show ?thesis
    by (rule published_frame [rotated 2]) (simp_all add: m)
qed

lemma sel_inv_update_peers:
  "(\<And>p. at_ended (f p) = at_ended p \<and> at_group_member (f p) = at_group_member p) \<Longrightarrow> sel_inv L ref_of lm \<Longrightarrow>
   sel_inv L ref_of (lm\<lparr>lm_peers := update_first P f (lm_peers lm)\<rparr>)"
  by (simp add: sel_inv_def published_update_peers members_ok_def list_all_update_first)

lemma sel_inv_reject: "inj_on ref_of L \<Longrightarrow> sel_inv L ref_of lm \<Longrightarrow> sel_inv L ref_of (reject_loop lm n)"
  by (simp add: reject_loop_def sel_inv_peers sel_inv_update_peers)

lemma sel_inv_release: "sel_inv L ref_of lm \<Longrightarrow> sel_inv L ref_of (release_changed_topology_blocks lm)"
  by (auto simp: release_changed_topology_blocks_def sel_inv_def members_ok_def list_all_iff split: option.splits)

lemma sel_inv_topology:
  assumes "sel_inv L ref_of lm" "update_topology lm n b = Inr (x, lm')"
  shows "sel_inv L ref_of lm'"
proof -
  have "sel_inv L ref_of (lm\<lparr>lm_peers := update_first (\<lambda>p. at_name p = n) (\<lambda>p. p\<lparr>at_routes := rs\<rparr>) (lm_peers lm), lm_revision := v\<rparr>)" for rs v
    by (rule sel_inv_counters, rule sel_inv_update_peers) (simp_all add: assms(1))
  with assms show ?thesis
    by (auto simp: update_topology_def Let_def split: option.splits Protocol.splits if_splits intro!: sel_inv_release)
qed

lemma sel_inv_disconnect_permanent:
  assumes "inj_on ref_of L" "sel_inv L ref_of lm"
  shows "sel_inv L ref_of (snd (disconnect_permanent lm n))"
proof -
  let ?lm = "lm\<lparr>lm_retries := filter (\<lambda>r. ry_name r \<noteq> n \<or> \<not> ry_automatic r) (lm_retries lm)\<rparr>"
  have "sel_inv L ref_of ?lm"
    using assms(2) by (simp add: sel_inv_def members_ok_def list_all_filter)
  then have d: "sel_inv L ref_of (snd (disconnect_mode ?lm n True))"
    by (rule sel_inv_disconnect_mode [OF assms(1)])
  then have "sel_inv L ref_of (refresh_group_selections (snd (disconnect_mode ?lm n True)))"
    by (intro sel_inv_refresh assms(1)) (simp add: sel_inv_def)
  with d show ?thesis
    unfolding disconnect_permanent_def Let_def case_prod_beta snd_conv by (rule_tac if_split [THEN iffD2]) blast
qed

lemma sel_inv_step:
  assumes "inj_on ref_of L" "sel_inv L ref_of lm" "event_members_ok L ref_of e"
  shows "sel_inv L ref_of (hub_step lm e)"
proof (cases e)
  case (EvTopology n b)
  with assms show ?thesis
    by (auto split: sum.splits intro: sel_inv_topology)
next
  case (EvCallback r idle)
  have "selections_published (hub_step lm e)"
    by (rule published_frame [of _ lm]) (use assms(2) EvCallback in \<open>auto simp: callback_slot_def sel_inv_def\<close>)
  with assms(2) EvCallback show ?thesis
    by (simp add: sel_inv_def members_ok_def)
qed (use assms in \<open>simp_all add: hub_disconnect_def sel_inv_retry_ops sel_inv_retain sel_inv_attach
      sel_inv_publish_retry sel_inv_finish sel_inv_disconnect_mode sel_inv_peers sel_inv_reject
      sel_inv_disconnect_permanent\<close>)


interpretation sel_machine: guarded_machine hub_step "sel_inv L ref_of"
    "\<lambda>e. inj_on ref_of L \<and> event_members_ok L ref_of e" for L ref_of
  by unfold_locales (blast intro: sel_inv_step)



end
