(* ===== verification/Link_Topology.thy ===== *)
theory Link_Topology
  imports Link_Hub_Props
begin

text \<open>
  Per-recipient topology publication, \<^verbatim>\<open>core/src/link/topology.rs\<close>: the change and deadline
  gate of \<^verbatim>\<open>TopologyManager::publish\<close> and the bounded, duplicate-free advertisement built by
  \<^verbatim>\<open>LinkManager::topology_for\<close>. The lemmas bound the datagram, show that the receiving parser
  recovers the advertised routes, and that nothing is left out unless the truncation marker says so.
\<close>

section \<open>Definitions\<close>

record TopologyManager =
  tm_revision :: u64
  tm_group_revisions :: "(string \<times> u64) list"
  tm_due_ms :: u64

definition topology_manager_default :: TopologyManager where
  "topology_manager_default = \<lparr>tm_revision = 0, tm_group_revisions = [], tm_due_ms = 0\<rparr>"

definition group_revisions :: "LinkManager \<Rightarrow> (string \<times> u64) list" where
  "group_revisions hub =
     foldl (\<lambda>acc m. if list_ex (\<lambda>(label, _). label = gm_label m) acc then acc
                    else acc @ [(gm_label m, gs_revision (lm_selections hub (gm_selection m)))])
       [] (List.map_filter at_group_member (lm_peers hub))"

text \<open>The direct entry of one peer followed by its learned routes.\<close>

definition peer_entries :: "LinkManager \<Rightarrow> Attached \<Rightarrow> (char \<times> string) list" where
  "peer_entries hub peer =
     (let (mode, local_only) = reporting_state hub peer in
      if \<not> local_only \<and> \<not> md_forward mode then []
      else let direct = (if local_only then CHR ''L'' else if md_transmit mode then CHR ''T'' else CHR ''R'') in
        (direct, at_name peer)
        # (if local_only then []
           else map (\<lambda>r. (if direct = CHR ''R'' \<and> rt_mode r = CHR ''T'' then CHR ''R'' else rt_mode r, rt_node r))
                  (at_routes peer)))"

text \<open>The body of the two nested loops; leaving the outer loop ends the recursion.\<close>

fun topology_tokens :: "nat \<Rightarrow> string option \<Rightarrow> string \<Rightarrow> nat \<Rightarrow> string list \<Rightarrow> (char \<times> string) list \<Rightarrow> string list" where
  "topology_tokens limit recipient self len seen [] = []"
| "topology_tokens limit recipient self len seen ((wire_mode, node) # entries) =
     (if Some node = recipient \<or> node = self \<or> node \<in> set seen
      then topology_tokens limit recipient self len seen entries
      else if len + length node + 2 + 8 > limit then [''R000000'']
      else (wire_mode # node) # topology_tokens limit recipient self (len + length node + 2) (node # seen) entries)"

definition topology_entries :: "LinkManager \<Rightarrow> string option \<Rightarrow> (char \<times> string) list" where
  "topology_entries hub recipient =
     concat (map (peer_entries hub) (filter (\<lambda>p. \<not> at_ended p \<and> Some (at_name p) \<noteq> recipient) (lm_peers hub)))"

definition topology_for :: "LinkManager \<Rightarrow> string option \<Rightarrow> string" where
  "topology_for hub recipient =
     (let limit = (if recipient \<noteq> None then 1488 else 10000) in
      join '','' (topology_tokens limit recipient (lm_local hub) 2 [] (topology_entries hub recipient)))"

definition full_topology :: "LinkManager \<Rightarrow> string" where
  "full_topology hub = topology_for hub None"

definition topology_publish ::
    "TopologyManager \<Rightarrow> LinkManager \<Rightarrow> u64 \<Rightarrow> (string \<times> string) list \<times> TopologyManager" where
  "topology_publish tm hub now_ms =
     (if tm_revision tm = lm_revision hub \<and> tm_group_revisions tm = group_revisions hub \<and> now_ms < tm_due_ms tm
      then ([], tm)
      else (map (\<lambda>r. (at_name r, ''L '' @ topology_for hub (Some (at_name r))))
              (filter (\<lambda>p. \<not> at_ended p) (lm_peers hub)),
            \<lparr>tm_revision = lm_revision hub, tm_group_revisions = group_revisions hub,
             tm_due_ms = sat_add now_ms 30000\<rparr>))"

section \<open>The token loop\<close>

lemma tokens_length:
  "len + 8 \<le> limit \<Longrightarrow>
   len + (\<Sum>t\<leftarrow>topology_tokens limit recipient self len seen es. length t + 1) \<le> limit"
proof (induction limit recipient self len seen es rule: topology_tokens.induct)
  case (2 limit recipient self len seen wire_mode node entries)
  then show ?case by (auto simp: algebra_simps)
qed simp

lemma join_length_sum: "xs \<noteq> [] \<Longrightarrow> length (join '','' xs) + 1 = (\<Sum>t\<leftarrow>xs. length t + 1)"
  by (cases xs) (simp_all add: length_join sum_list_Suc)

definition entry_ok :: "char \<times> string \<Rightarrow> bool" where
  "entry_ok e \<longleftrightarrow> fst e \<in> set ''TRCL'' \<and> snd e \<noteq> [] \<and> list_all identity_char (snd e)"

definition marker :: Route where
  "marker = \<lparr>rt_mode = CHR ''R'', rt_node = ''000000''\<rparr>"

definition advert :: "string option \<Rightarrow> string \<Rightarrow> string list \<Rightarrow> (char \<times> string) list \<Rightarrow> Route list \<Rightarrow> bool" where
  "advert recipient self seen es rs \<longleftrightarrow> list_all route_ok rs
     \<and> distinct (map rt_node (filter (\<lambda>r. r \<noteq> marker) rs))
     \<and> list_all (\<lambda>r. r = marker \<or> (rt_node r \<notin> set seen \<and> rt_node r \<noteq> self \<and> recipient \<noteq> Some (rt_node r))) rs
     \<and> (marker \<notin> set rs \<longrightarrow>
          {n \<in> snd ` set es. n \<noteq> self \<and> recipient \<noteq> Some n} \<subseteq> set seen \<union> rt_node ` set rs
          \<and> rt_node ` set rs \<subseteq> snd ` set es)"

lemma marker_ok: "route_ok marker" "route_text marker = ''R000000''"
  by (simp_all add: marker_def route_ok_def route_text_def identity_char_def is_ascii_alphanumeric_def is_ascii_digit_def)

lemma advert_take:
  assumes "advert recipient self (n # seen) es rs" "entry_ok (m, n)"
    "\<not> (Some n = recipient \<or> n = self \<or> n \<in> set seen)"
  shows "advert recipient self seen ((m, n) # es) (\<lparr>rt_mode = m, rt_node = n\<rparr> # rs)"
  using assms by (auto simp: advert_def route_ok_def entry_ok_def list_all_iff)

lemma advert_skip:
  "advert recipient self seen es rs \<Longrightarrow> Some n = recipient \<or> n = self \<or> n \<in> set seen \<Longrightarrow>
   advert recipient self seen ((m, n) # es) rs"
  by (auto simp: advert_def)

lemma tokens_routes:
  "list_all entry_ok es \<Longrightarrow> \<exists>rs. topology_tokens limit recipient self len seen es = map route_text rs
     \<and> advert recipient self seen es rs"
proof (induction limit recipient self len seen es rule: topology_tokens.induct)
  case (1 limit recipient self len seen)
  then show ?case by (intro exI [of _ "[]"]) (simp add: advert_def)
next
  case (2 limit recipient self len seen m n es)
  consider (skip) "Some n = recipient \<or> n = self \<or> n \<in> set seen"
    | (full) "\<not> (Some n = recipient \<or> n = self \<or> n \<in> set seen)" "len + length n + 2 + 8 > limit"
    | (take) "\<not> (Some n = recipient \<or> n = self \<or> n \<in> set seen)" "\<not> len + length n + 2 + 8 > limit"
    by blast
  then show ?case
  proof cases
    case skip
    with 2 show ?thesis by (fastforce intro: advert_skip)
  next
    case full
    then show ?thesis
      by (intro exI [of _ "[marker]"]) (simp add: marker_ok advert_def)
  next
    case take
    have "entry_ok (m, n)" "list_all entry_ok es" using "2.prems" by simp_all
    with "2.IH"(2) [OF take] obtain rs where
      "topology_tokens limit recipient self (len + length n + 2) (n # seen) es = map route_text rs"
      "advert recipient self seen ((m, n) # es) (\<lparr>rt_mode = m, rt_node = n\<rparr> # rs)"
      using advert_take take(1) by blast
    with take show ?thesis
      by (intro exI [of _ "\<lparr>rt_mode = m, rt_node = n\<rparr> # rs"]) (simp add: route_text_def)
  qed
qed

lemma peer_entries_ok: "peer_ok self p \<Longrightarrow> list_all entry_ok (peer_entries hub p)"
  by (auto simp: peer_entries_def Let_def peer_ok_def entry_ok_def decimal_identity_def identity_def route_ok_def
      list_all_iff split: prod.splits)

lemma topology_entries_ok: "hub_inv hub \<Longrightarrow> list_all entry_ok (topology_entries hub recipient)"
  by (auto simp: topology_entries_def hub_inv_def list_all_iff dest!: peer_entries_ok [unfolded list_all_iff])


lemma topology_for_length:
  "length (''L '' @ topology_for hub recipient) < (if recipient \<noteq> None then 1488 else 10000)"
proof -
  let ?limit = "if recipient \<noteq> None then 1488 else 10000 :: nat"
  let ?ts = "topology_tokens ?limit recipient (lm_local hub) 2 [] (topology_entries hub recipient)"
  have "2 + (\<Sum>t\<leftarrow>?ts. length t + 1) \<le> ?limit"
    by (rule tokens_length) simp
  then show ?thesis
    using join_length_sum [of ?ts] by (cases "?ts = []") (auto simp: topology_for_def Let_def split: if_splits)
qed

lemma topology_for_parses:
  assumes "hub_inv hub"
  obtains rs where "parse_protocol (''L '' @ topology_for hub recipient) = Some (Topology rs)"
    "advert recipient (lm_local hub) [] (topology_entries hub recipient) rs"
proof -
  let ?limit = "if recipient \<noteq> None then 1488 else 10000 :: nat"
  obtain rs where rs: "topology_tokens ?limit recipient (lm_local hub) 2 [] (topology_entries hub recipient) = map route_text rs"
    "advert recipient (lm_local hub) [] (topology_entries hub recipient) rs"
    using tokens_routes [OF topology_entries_ok [OF assms]] by blast
  have "topology_for hub recipient = join '','' (map route_text rs)"
    using rs(1) by (simp add: topology_for_def Let_def)
  moreover have "length (topology_for hub recipient) \<le> 10000"
    using topology_for_length [of hub recipient] by (simp split: if_splits)
  ultimately show ?thesis
    using that rs(2) parse_topology_text [of rs] by (simp add: advert_def)
qed

section \<open>Properties\<close>

text \<open>C28. Every advertisement the manager publishes goes to a live direct peer, fits an IAX text
  datagram of 1488 bytes, and parses at the receiver to a route list that names no node twice and
  neither the recipient nor the local node; unless it ends in the truncation marker it names every
  node the manager reports for its live peers. (Statement over any manager that satisfies the
  peer-table invariant.)\<close>

theorem published_topology_sound:
  assumes "hub_inv hub" "(name, message) \<in> set (fst (topology_publish tm hub now))"
  shows "live_peer hub name \<and> length message < 1488
     \<and> (\<exists>rs. parse_protocol message = Some (Topology rs)
          \<and> distinct (map rt_node (filter (\<lambda>r. r \<noteq> marker) rs))
          \<and> list_all (\<lambda>r. r = marker \<or> rt_node r \<noteq> name \<and> rt_node r \<noteq> lm_local hub) rs
          \<and> (marker \<in> set rs \<or>
               snd ` set (topology_entries hub (Some name)) - {name, lm_local hub} = rt_node ` set rs))"
proof -
  have m: "message = ''L '' @ topology_for hub (Some name)" and live: "live_peer hub name"
    using assms(2) by (auto simp: topology_publish_def live_peer_def list_ex_iff split: if_splits)
  obtain rs where rs: "parse_protocol message = Some (Topology rs)"
    "advert (Some name) (lm_local hub) [] (topology_entries hub (Some name)) rs"
    unfolding m using topology_for_parses [OF assms(1)] by blast
  then have "marker \<in> set rs \<or> snd ` set (topology_entries hub (Some name)) - {name, lm_local hub} = rt_node ` set rs"
    by (auto simp: advert_def list_all_iff)
  with rs live m topology_for_length [of hub "Some name"] show ?thesis
    by (auto simp: advert_def list_all_iff)
qed

theorem published_topology_sound_witness:
  "(''2000'', ''L '' @ topology_for sample_mesh (Some ''2000'')) \<in> set (fst (topology_publish topology_manager_default sample_mesh 0))
   \<and> length (''L '' @ topology_for sample_mesh (Some ''2000'')) < 1488"
proof -
  have "(''2000'', ''L '' @ topology_for sample_mesh (Some ''2000'')) \<in> set (fst (topology_publish topology_manager_default sample_mesh 0))"
    by (simp add: topology_publish_def topology_manager_default_def sample_mesh_def)
  with published_topology_sound [OF sample_mesh_inv this] show ?thesis by blast
qed

text \<open>Publication is on change or at thirty seconds: right after a publication at some time
  another call sends nothing while the manager's revision and every group's revision are unchanged
  and less than thirty seconds have passed; a changed revision or a reached deadline sends one
  advertisement to each live peer.\<close>

theorem topology_publish_gate:
  assumes "topology_publish tm hub t = (msgs, tm')" "msgs \<noteq> []" "unat t + 30000 < 2 ^ 64"
  shows "topology_publish tm' hub' t' =
     (if lm_revision hub' = lm_revision hub \<and> group_revisions hub' = group_revisions hub \<and> unat t' < unat t + 30000
      then ([], tm')
      else (map (\<lambda>p. (at_name p, ''L '' @ topology_for hub' (Some (at_name p)))) (filter (\<lambda>p. \<not> at_ended p) (lm_peers hub')),
            \<lparr>tm_revision = lm_revision hub', tm_group_revisions = group_revisions hub', tm_due_ms = sat_add t' 30000\<rparr>))"
proof -
  have tm': "tm' = \<lparr>tm_revision = lm_revision hub, tm_group_revisions = group_revisions hub, tm_due_ms = sat_add t 30000\<rparr>"
    using assms(1,2) by (auto simp: topology_publish_def split: if_splits)
  have "t' < sat_add t 30000 \<longleftrightarrow> unat t' < unat t + 30000"
    using assms(3) by (simp add: word_less_nat_alt unat_sat_add)
  then show ?thesis
    unfolding tm' topology_publish_def by auto
qed

theorem topology_publish_gate_witness:
  "fst (topology_publish (snd (topology_publish topology_manager_default sample_mesh 5)) sample_mesh 29000) = []"
proof -
  have p: "topology_publish topology_manager_default sample_mesh 5
      = (fst (topology_publish topology_manager_default sample_mesh 5), snd (topology_publish topology_manager_default sample_mesh 5))"
    by simp
  have ne: "fst (topology_publish topology_manager_default sample_mesh 5) \<noteq> []"
    by (simp add: topology_publish_def topology_manager_default_def sample_mesh_def sample_hub_def)
  show ?thesis
    using topology_publish_gate [OF p ne, of sample_mesh 29000] by simp
qed

end
