(* ===== verification/Link_Peer.thy ===== *)
theory Link_Peer
  imports Link_Hub
begin

text \<open>
  Serialized per-peer control state and receive qualification, \<^verbatim>\<open>core/src/link/peer.rs\<close>: the
  keyed-source query epochs, the completed-digit deadline and the priming/draining decision of the
  audio consumer. Each method is one definition on the state it mutates.
\<close>

section \<open>Peer (keyed-source epochs and digit deadlines)\<close>

record Peer =
  pr_direct :: string
  pr_source :: string
  pr_active :: bool
  pr_epoch :: u64
  pr_sent :: "u64 option"
  pr_requester :: string
  pr_responded :: bool
  pr_next_query :: u64
  pr_digit_deadline :: "u64 option"

definition peer_new :: "string \<Rightarrow> AdmissionError + Peer" where
  "peer_new direct =
     (if \<not> decimal_identity direct then Inl AE_Identity
      else Inr \<lparr>pr_direct = direct, pr_source = direct, pr_active = False, pr_epoch = 0, pr_sent = None,
                pr_requester = [], pr_responded = False, pr_next_query = 0, pr_digit_deadline = None\<rparr>)"

definition peer_activity :: "Peer \<Rightarrow> bool \<Rightarrow> u64 \<Rightarrow> u64 option \<times> Peer" where
  "peer_activity p active now_ms =
     (if \<not> active then (None, p\<lparr>pr_active := False, pr_sent := None\<rparr>)
      else if pr_active p \<and> now_ms < pr_next_query p then (None, p)
      else (Some (pr_epoch p + 1),
            p\<lparr>pr_source := (if \<not> pr_active p then pr_direct p else pr_source p), pr_active := True,
              pr_epoch := pr_epoch p + 1, pr_sent := None, pr_responded := False,
              pr_next_query := sat_add now_ms 1000\<rparr>))"

definition peer_query :: "Peer \<Rightarrow> u64 \<Rightarrow> string \<Rightarrow> string option \<times> Peer" where
  "peer_query p epoch requester =
     (if \<not> pr_active p \<or> epoch \<noteq> pr_epoch p \<or> \<not> identity requester then (None, p)
      else (Some (query_text requester), p\<lparr>pr_sent := Some epoch, pr_requester := requester\<rparr>))"

definition peer_accept_key :: "Peer \<Rightarrow> u64 \<Rightarrow> string \<Rightarrow> string \<Rightarrow> bool \<Rightarrow> bool \<times> Peer" where
  "peer_accept_key p epoch destination source keyed =
     (if \<not> pr_active p \<or> pr_sent p \<noteq> Some epoch \<or> pr_responded p \<or> \<not> keyed
         \<or> destination \<noteq> pr_requester p \<or> source = pr_direct p \<or> \<not> identity source
      then (False, p)
      else (True, p\<lparr>pr_responded := True, pr_source := source\<rparr>))"

definition peer_digit :: "Peer \<Rightarrow> char \<Rightarrow> u64 \<Rightarrow> bool \<times> Peer" where
  "peer_digit p digit now_ms =
     (if \<not> valid_digit digit then (False, p)
      else (True, p\<lparr>pr_digit_deadline := (if digit \<noteq> CHR ''#'' then Some (sat_add now_ms 3000) else None)\<rparr>))"

definition peer_expire_digit :: "Peer \<Rightarrow> u64 \<Rightarrow> bool \<times> Peer" where
  "peer_expire_digit p now_ms =
     (case pr_digit_deadline p of
        Some deadline \<Rightarrow> if now_ms \<ge> deadline then (True, p\<lparr>pr_digit_deadline := None\<rparr>) else (False, p)
      | None \<Rightarrow> (False, p))"

definition peer_deadline_ms :: "Peer \<Rightarrow> u64 option" where
  "peer_deadline_ms p =
     (case (if pr_active p then Some (pr_next_query p) else None, pr_digit_deadline p) of
        (Some a, Some b) \<Rightarrow> Some (min a b)
      | (Some a, None) \<Rightarrow> Some a
      | (None, d) \<Rightarrow> d)"

datatype PeerEvent =
    PeActivity bool u64
  | PeQuery u64 string
  | PeAcceptKey u64 string string bool
  | PeDigit char u64
  | PeExpire u64

definition peer_step :: "Peer \<Rightarrow> PeerEvent \<Rightarrow> Peer" where
  "peer_step p e =
     (case e of
        PeActivity a t \<Rightarrow> snd (peer_activity p a t)
      | PeQuery n r \<Rightarrow> snd (peer_query p n r)
      | PeAcceptKey n d s k \<Rightarrow> snd (peer_accept_key p n d s k)
      | PeDigit c t \<Rightarrow> snd (peer_digit p c t)
      | PeExpire t \<Rightarrow> snd (peer_expire_digit p t))"

section \<open>ReceiveState (receive qualification)\<close>

record ReceiveState =
  rs_rate :: u64
  rs_epoch :: u64
  rs_age_native_samples :: u64
  rs_primed :: bool
  rs_draining :: bool

definition receive_state_new :: "u32 \<Rightarrow> AdmissionError + ReceiveState" where
  "receive_state_new source_rate =
     (if source_rate = 0 \<or> source_rate > 48000 then Inl AE_Invalid
      else Inr \<lparr>rs_rate = ucast source_rate, rs_epoch = 0, rs_age_native_samples = 0,
                rs_primed = False, rs_draining = False\<rparr>)"

definition prime_capacity :: "u64 \<Rightarrow> u64" where
  "prime_capacity rate = max (rate * 300 div 1000) 512"

definition prime_target :: "u64 \<Rightarrow> u64 \<Rightarrow> u64" where
  "prime_target rate native_frames =
     (let source_frames = sat_mul native_frames rate div 48000;
          remaining = sat_sub (prime_capacity rate) source_frames in
      min (rate * 260 div 1000) remaining)"

definition should_render :: "ReceiveState \<Rightarrow> u64 \<Rightarrow> u64 \<Rightarrow> bool \<Rightarrow> u64 \<Rightarrow> bool \<times> ReceiveState" where
  "should_render s epoch available ended native_frames =
     (let new_pcm = (epoch \<noteq> rs_epoch s);
          age = (if new_pcm then 0 else rs_age_native_samples s);
          primed = (rs_primed s \<or> (epoch \<noteq> 0 \<and> available \<ge> prime_target (rs_rate s) native_frames));
          draining = (rs_draining s \<or> (primed \<and> (new_pcm \<or> available > 0))) in
      (\<not> ended \<and> draining,
       s\<lparr>rs_epoch := epoch, rs_age_native_samples := age, rs_primed := primed, rs_draining := draining\<rparr>))"

definition rendered :: "ReceiveState \<Rightarrow> u64 option \<Rightarrow> u64 \<Rightarrow> bool \<times> ReceiveState" where
  "rendered s real_samples native_frames =
     (let age = (if (case real_samples of Some count \<Rightarrow> count > 0 | None \<Rightarrow> False) then 0
                 else sat_add (rs_age_native_samples s) native_frames);
          draining = (real_samples \<noteq> None \<and> age < 48000 * 60 div 1000) in
      (draining, s\<lparr>rs_age_native_samples := age, rs_draining := draining\<rparr>))"

section \<open>Lemmas on Peer\<close>

definition peer_state_ok :: "Peer \<Rightarrow> bool" where
  "peer_state_ok p \<longleftrightarrow> decimal_identity (pr_direct p) \<and> identity (pr_source p)
     \<and> (case pr_sent p of Some e \<Rightarrow> e = pr_epoch p \<and> pr_active p \<and> identity (pr_requester p) | None \<Rightarrow> True)"

lemma peer_step_ok: "peer_state_ok p \<Longrightarrow> peer_state_ok (peer_step p e)"
  by (auto simp: peer_state_ok_def peer_step_def peer_activity_def peer_query_def peer_accept_key_def
      peer_digit_def peer_expire_digit_def decimal_identity_def split: PeerEvent.splits option.splits)

interpretation peer_machine: machine peer_step peer_state_ok
  by unfold_locales (rule peer_step_ok)

lemma peer_new_ok: "peer_new d = Inr p \<Longrightarrow> peer_state_ok p"
  by (auto simp: peer_new_def peer_state_ok_def decimal_identity_def split: if_splits)

text \<open>An event opens a new query epoch when it is an activity report that returns one.\<close>

definition opens_epoch :: "Peer \<Rightarrow> PeerEvent \<Rightarrow> bool" where
  "opens_epoch p e \<longleftrightarrow> (case e of PeActivity a t \<Rightarrow> fst (peer_activity p a t) \<noteq> None | _ \<Rightarrow> False)"

fun no_epoch :: "Peer \<Rightarrow> PeerEvent list \<Rightarrow> bool" where
  "no_epoch p [] \<longleftrightarrow> True"
| "no_epoch p (e # es) \<longleftrightarrow> \<not> opens_epoch p e \<and> no_epoch (peer_step p e) es"

lemma responded_kept:
  "pr_responded p \<Longrightarrow> no_epoch p es \<Longrightarrow> pr_responded (foldl peer_step p es)"
proof (induction es arbitrary: p)
  case (Cons e es)
  then have "pr_responded (peer_step p e)"
    by (auto simp: opens_epoch_def peer_step_def peer_activity_def peer_query_def peer_accept_key_def
        peer_digit_def peer_expire_digit_def split: PeerEvent.splits option.splits if_splits)
  with Cons show ?case by simp
qed simp

lemma epoch_kept:
  "no_epoch p es \<Longrightarrow> pr_epoch (foldl peer_step p es) = pr_epoch p
     \<and> pr_source (foldl peer_step p es) = (if pr_responded p then pr_source p else pr_source (foldl peer_step p es))"
proof (induction es arbitrary: p)
  case (Cons e es)
  have "pr_epoch (peer_step p e) = pr_epoch p \<and> (pr_responded p \<longrightarrow> pr_responded (peer_step p e) \<and> pr_source (peer_step p e) = pr_source p)"
    using Cons.prems by (auto simp: opens_epoch_def peer_step_def peer_activity_def peer_query_def peer_accept_key_def
        peer_digit_def peer_expire_digit_def split: PeerEvent.splits option.splits if_splits)
  with Cons.IH [of "peer_step p e"] Cons.prems show ?case by auto
qed simp

section \<open>Properties of Peer\<close>

text \<open>The first valid key response to a query wins: once a response has been accepted in a query
  epoch, no later response is accepted and the selected source does not change, whatever the owner
  does, until receive activity opens the next epoch.\<close>

theorem accept_key_once:
  assumes "peer_accept_key p n d s k = (True, p1)" "no_epoch p1 es"
  shows "peer_accept_key (foldl peer_step p1 es) n' d' s' k' = (False, foldl peer_step p1 es)
     \<and> pr_source (foldl peer_step p1 es) = s"
proof -
  have "pr_responded p1" "pr_source p1 = s"
    using assms(1) by (auto simp: peer_accept_key_def split: if_splits)
  then show ?thesis
    using responded_kept [OF _ assms(2)] epoch_kept [OF assms(2)] by (auto simp: peer_accept_key_def)
qed

definition sample_peer :: Peer where
  "sample_peer = \<lparr>pr_direct = ''2000'', pr_source = ''2000'', pr_active = True, pr_epoch = 1, pr_sent = Some 1,
     pr_requester = ''1999'', pr_responded = False, pr_next_query = 1000, pr_digit_deadline = None\<rparr>"

lemma sample_source [simp]: "identity ''2005''" "identity ''1999''" "decimal_identity ''2000''"
  by (simp_all add: decimal_identity_def identity_def identity_char_def is_ascii_alphanumeric_def is_ascii_digit_def)

theorem accept_key_once_witness:
  "fst (peer_accept_key (snd (peer_accept_key sample_peer 1 ''1999'' ''2005'' True)) 1 ''1999'' ''2006'' True) = False"
proof -
  have a: "peer_accept_key sample_peer 1 ''1999'' ''2005'' True
      = (True, sample_peer\<lparr>pr_responded := True, pr_source := ''2005''\<rparr>)"
    by (simp add: peer_accept_key_def sample_peer_def)
  show ?thesis
    using accept_key_once [OF a, of "[]" 1 "''1999''" "''2006''" True] a by simp
qed

text \<open>A key response is accepted only after a query was sent in the current epoch of an active
  receive burst: in every state reached from construction, acceptance implies that the named epoch
  is the current one, the destination is this node's own query identity, and the source is a valid
  identity other than the direct peer; and the selected source is always a valid identity.\<close>

theorem accept_key_current:
  assumes "peer_new direct = Inr p0" "p = foldl peer_step p0 es"
    and "fst (peer_accept_key p n d s k)"
  shows "pr_active p \<and> n = pr_epoch p \<and> identity d \<and> d = pr_requester p \<and> k \<and> identity s \<and> s \<noteq> direct
     \<and> identity (pr_source (snd (peer_accept_key p n d s k)))"
proof -
  have ok: "peer_state_ok p"
    unfolding assms(2) using assms(1) by (intro peer_machine.run_inv peer_new_ok)
  have "pr_direct (peer_step q e) = pr_direct q" for q e
    by (auto simp: peer_step_def peer_activity_def peer_query_def peer_accept_key_def
        peer_digit_def peer_expire_digit_def split: PeerEvent.splits option.splits)
  then have "pr_direct (foldl peer_step q es) = pr_direct q" for q es
    by (induction es arbitrary: q) simp_all
  then have "pr_direct p = direct"
    using assms(1,2) by (auto simp: peer_new_def split: if_splits)
  with ok assms(3) show ?thesis
    by (auto simp: peer_state_ok_def peer_accept_key_def split: if_splits)
qed


theorem accept_key_current_witness:
  "\<exists>p0. peer_new ''2000'' = Inr p0
     \<and> fst (peer_accept_key (foldl peer_step p0 [PeActivity True 0, PeQuery 1 ''1999'']) 1 ''1999'' ''2005'' True)
     \<and> pr_epoch (foldl peer_step p0 [PeActivity True 0, PeQuery 1 ''1999'']) = 1"
proof -
  let ?p0 = "\<lparr>pr_direct = ''2000'', pr_source = ''2000'', pr_active = False, pr_epoch = 0, pr_sent = None,
                pr_requester = [], pr_responded = False, pr_next_query = 0, pr_digit_deadline = None\<rparr>"
  have n: "peer_new ''2000'' = Inr ?p0"
    by (simp add: peer_new_def)
  have a: "fst (peer_accept_key (foldl peer_step ?p0 [PeActivity True 0, PeQuery 1 ''1999'']) 1 ''1999'' ''2005'' True)"
    by (simp add: peer_step_def peer_activity_def peer_query_def peer_accept_key_def)
  show ?thesis
    using accept_key_current [OF n refl a] n a by (intro exI [of _ ?p0]) simp
qed

text \<open>A completed digit other than \<open>#\<close> fires its automatic terminator exactly once, at the
  first poll at or after three seconds, and not before; \<open>#\<close> cancels it.\<close>

theorem digit_terminator:
  assumes "valid_digit c" "unat t + 3000 < 2 ^ 64"
  shows "(fst (peer_expire_digit (snd (peer_digit p c t)) t') \<longleftrightarrow> c \<noteq> CHR ''#'' \<and> unat t + 3000 \<le> unat t')
    \<and> (fst (peer_expire_digit (snd (peer_digit p c t)) t') \<longrightarrow>
         \<not> fst (peer_expire_digit (snd (peer_expire_digit (snd (peer_digit p c t)) t')) t''))"
  using assms by (auto simp: peer_digit_def peer_expire_digit_def word_le_nat_alt unat_sat_add split: option.splits if_splits)

theorem digit_terminator_witness:
  "fst (peer_expire_digit (snd (peer_digit sample_peer (CHR ''5'') 10)) 3010)
   \<and> \<not> fst (peer_expire_digit (snd (peer_digit sample_peer (CHR ''5'') 10)) 3009)"
  using digit_terminator [of "CHR ''5''" 10 sample_peer 3010 0] digit_terminator [of "CHR ''5''" 10 sample_peer 3009 0]
  by (simp add: valid_digit_def)

section \<open>Properties of ReceiveState\<close>

lemma rate_no_overflow:
  fixes rate :: u64
  assumes "unat rate \<le> 48000" "k \<le> 300"
  shows "unat (rate * of_nat k div 1000) = unat rate * k div 1000"
proof -
  have "unat rate * k \<le> 48000 * 300"
    using assms by (rule mult_le_mono)
  then have "unat rate * k < 2 ^ 64" by simp
  then show ?thesis
    using assms by (simp add: unat_div unat_word_ariths unat_of_nat take_bit_eq_mod)
qed

lemma unat_prime_capacity: "unat rate \<le> 48000 \<Longrightarrow> unat (prime_capacity rate) = max (unat rate * 300 div 1000) 512"
  using rate_no_overflow [of rate 300]
  by (simp add: prime_capacity_def max_def word_le_nat_alt)

text \<open>For every admitted source rate the priming threshold, computed in 64-bit arithmetic, is
  the 260 ms worth of samples or what the 300 ms ring still holds beside one block, whichever is
  less: together with the block it never exceeds the ring, so a full ring always primes.\<close>

theorem prime_target_reachable:
  assumes "receive_state_new r = Inr s" "unat n * unat r < 2 ^ 64"
  shows "unat (prime_target (rs_rate s) n)
       = min (unat r * 260 div 1000) (max (unat r * 300 div 1000) 512 - unat n * unat r div 48000)
     \<and> unat (prime_target (rs_rate s) n) \<le> unat (prime_capacity (rs_rate s))"
proof -
  have r: "rs_rate s = ucast r" "r \<le> 48000"
    using assms(1) by (auto simp: receive_state_new_def split: if_splits)
  have "unat r < 2 ^ 32" using unsigned_less [of r, where ?'a = nat] by simp
  then have eq: "unat (rs_rate s) = unat r"
    by (simp add: r unsigned_ucast_eq take_bit_eq_mod)
  with r have le: "unat (rs_rate s) \<le> 48000"
    by (simp add: word_le_nat_alt)
  have "unat (sat_mul n (rs_rate s) div 48000) = unat n * unat r div 48000"
    using assms(2) by (simp add: sat_mul_def eq unat_div unat_word_ariths)
  then show ?thesis
    using rate_no_overflow [OF le, of 260] unat_prime_capacity [OF le]
    by (auto simp: prime_target_def Let_def min_def word_le_nat_alt unat_sat_sub eq intro: le_trans)
qed

theorem prime_target_reachable_witness:
  "\<exists>s. receive_state_new 8000 = Inr s \<and> unat (prime_target (rs_rate s) 960) = 2080"
proof -
  obtain s where s: "receive_state_new 8000 = Inr s"
    by (simp add: receive_state_new_def)
  show ?thesis
    using prime_target_reachable [OF s, of 960] s by auto
qed

lemma silent_age:
  "unat (rs_age_native_samples (((\<lambda>s. snd (rendered s (Some 0) f)) ^^ n) s))
     = min (unat (rs_age_native_samples s) + n * unat f) (2 ^ 64 - 1)"
proof (induction n)
  case 0
  then show ?case using unat_le_max [of "rs_age_native_samples s"] by simp
next
  case (Suc n)
  then show ?case
    by (simp add: rendered_def Let_def unat_sat_add)
qed

text \<open>After real converted audio, receive stays active through empty blocks for exactly as long as
  they add up to less than 60 ms (2880 native samples), and a missing converter ends it at once.\<close>

theorem plc_hang:
  assumes "c > 0"
  shows "(fst (rendered (((\<lambda>s. snd (rendered s (Some 0) f)) ^^ n) (snd (rendered s (Some c) g))) (Some 0) f)
           \<longleftrightarrow> Suc n * unat f < 2880)
     \<and> \<not> fst (rendered s' None f)"
proof -
  let ?s = "((\<lambda>s. snd (rendered s (Some 0) f)) ^^ n) (snd (rendered s (Some c) g))"
  have "unat (rs_age_native_samples ?s) = min (n * unat f) (2 ^ 64 - 1)"
    using assms by (simp add: silent_age) (simp add: rendered_def Let_def)
  then have "unat (sat_add (rs_age_native_samples ?s) f) = min (Suc n * unat f) (2 ^ 64 - 1)"
    by (simp add: unat_sat_add min_def)
  then have "sat_add (rs_age_native_samples ?s) f < 2880 \<longleftrightarrow> Suc n * unat f < 2880"
    unfolding word_less_nat_alt by (simp add: min_def)
  then show ?thesis
    by (simp add: rendered_def Let_def)
qed

theorem plc_hang_witness:
  "fst (rendered (((\<lambda>s. snd (rendered s (Some 0) 960)) ^^ 1) (snd (rendered
     \<lparr>rs_rate = 8000, rs_epoch = 1, rs_age_native_samples = 0, rs_primed = True, rs_draining = True\<rparr> (Some 5) 960))) (Some 0) 960)"
  using plc_hang [where c = 5 and f = 960 and n = 1] by simp

end
