(* ===== verification/Peer_Signals.thy ===== *)
theory Peer_Signals
  imports Link_Peer
begin

text \<open>
  Lock-free snapshots between one audio consumer and one channel owner,
  \<^verbatim>\<open>core/src/link/signals.rs\<close>, and the EchoLink telemetry eligibility that lives beside them
  (\<^verbatim>\<open>core/src/link/echo_telemetry.rs\<close>). The sequential methods come first; then
  \<^verbatim>\<open>select_source\<close> and \<^verbatim>\<open>selected_source\<close> at the granularity of their single atomic
  accesses, which are sequentially consistent in the source, as a step relation in which the two
  owners interleave freely. \<open>x & 1 != 0\<close> is written \<open>odd x\<close>.
\<close>

section \<open>State\<close>

record ReplyState =
  rp_ended :: bool
  rp_radio_keyed :: bool
  rp_edge :: u64
  rp_telemetry_allowed :: bool
  rp_telemetry_until_ms :: u64

record PeerSignals =
  sg_pcm :: u64
  sg_dtmf_muted :: bool
  sg_reply :: ReplyState
  sg_source_version :: u64
  sg_source_edge :: u64
  sg_source :: "char list"

definition reply_active :: "ReplyState \<Rightarrow> bool" where
  "reply_active r \<longleftrightarrow> rp_radio_keyed r \<or> odd (rp_edge r)"

definition set_telemetry_window :: "ReplyState \<Rightarrow> u64 \<Rightarrow> ReplyState" where
  "set_telemetry_window r until_ms = r\<lparr>rp_telemetry_until_ms := until_ms\<rparr>"

definition peer_signals_new :: PeerSignals where
  "peer_signals_new = \<lparr>sg_pcm = 0, sg_dtmf_muted = False,
     sg_reply = \<lparr>rp_ended = False, rp_radio_keyed = False, rp_edge = 0, rp_telemetry_allowed = True,
                 rp_telemetry_until_ms = 0\<rparr>,
     sg_source_version = 0, sg_source_edge = 0, sg_source = replicate 64 (CHR 0x00)\<rparr>"

section \<open>Sequential methods\<close>

definition publish_pcm :: "PeerSignals \<Rightarrow> PeerSignals" where
  "publish_pcm g = g\<lparr>sg_pcm := sg_pcm g + 1\<rparr>"

definition set_dtmf_muted :: "PeerSignals \<Rightarrow> bool \<Rightarrow> PeerSignals" where
  "set_dtmf_muted g muted = g\<lparr>sg_dtmf_muted := muted\<rparr>"

definition set_telemetry_allowed :: "PeerSignals \<Rightarrow> bool \<Rightarrow> PeerSignals" where
  "set_telemetry_allowed g allowed = g\<lparr>sg_reply := (sg_reply g)\<lparr>rp_telemetry_allowed := allowed\<rparr>\<rparr>"

definition signals_end :: "PeerSignals \<Rightarrow> PeerSignals" where
  "signals_end g = g\<lparr>sg_reply := (sg_reply g)\<lparr>rp_ended := True\<rparr>\<rparr>"

definition set_radio_keyed :: "PeerSignals \<Rightarrow> bool \<Rightarrow> PeerSignals" where
  "set_radio_keyed g keyed = g\<lparr>sg_reply := (sg_reply g)\<lparr>rp_radio_keyed := keyed\<rparr>\<rparr>"

definition set_active :: "PeerSignals \<Rightarrow> bool \<Rightarrow> u64 \<times> PeerSignals" where
  "set_active g active =
     (let edge = rp_edge (sg_reply g) in
      if odd edge = active then (edge, g)
      else (edge + 1, g\<lparr>sg_reply := (sg_reply g)\<lparr>rp_edge := edge + 1\<rparr>\<rparr>))"

definition activity_edge :: "PeerSignals \<Rightarrow> u64" where
  "activity_edge g = rp_edge (sg_reply g)"

text \<open>The 64 bytes stored for a source: its bytes, then zeros.\<close>

definition source_byte :: "string \<Rightarrow> nat \<Rightarrow> char" where
  "source_byte source index = (if index < length source then source ! index else CHR 0x00)"

definition source_bytes :: "string \<Rightarrow> char list" where
  "source_bytes source = map (source_byte source) [0..<64]"

definition select_source :: "PeerSignals \<Rightarrow> u64 \<Rightarrow> string \<Rightarrow> bool \<times> PeerSignals" where
  "select_source g edge source =
     (if \<not> odd edge \<or> activity_edge g \<noteq> edge \<or> \<not> identity source then (False, g)
      else (True, g\<lparr>sg_source_version := sg_source_version g + 1 + 1, sg_source := source_bytes source,
                    sg_source_edge := edge\<rparr>))"

definition decode_source :: "char list \<Rightarrow> string option" where
  "decode_source storage =
     (case position (\<lambda>b. b = CHR 0x00) storage of
        None \<Rightarrow> None
      | Some len \<Rightarrow> (if utf8_valid (take len storage) then Some (take len storage) else None))"

definition selected_source :: "PeerSignals \<Rightarrow> u64 \<Rightarrow> string option" where
  "selected_source g edge =
     (if odd (sg_source_version g) \<or> sg_source_edge g \<noteq> edge then None else decode_source (sg_source g))"

section \<open>EchoLink telemetry eligibility\<close>

datatype EchoLinkTelemetry = ET_Off | ET_On | ET_Follow | ET_Demand

record EchoTelemetryPolicy =
  et_mode :: EchoLinkTelemetry
  et_dynamic :: bool
  et_selected_until_ms :: u64

definition DEMAND_MS :: u64 where
  "DEMAND_MS = 120000"

definition echo_telemetry_new :: "EchoLinkTelemetry \<Rightarrow> bool \<Rightarrow> EchoTelemetryPolicy" where
  "echo_telemetry_new mode dynamic = \<lparr>et_mode = mode, et_dynamic = dynamic, et_selected_until_ms = 0\<rparr>"

definition echo_telemetry_select :: "EchoTelemetryPolicy \<Rightarrow> EchoLinkTelemetry \<Rightarrow> u64 \<Rightarrow> bool \<times> EchoTelemetryPolicy" where
  "echo_telemetry_select p mode now_ms =
     (if \<not> et_dynamic p then (False, p)
      else (True, p\<lparr>et_mode := mode,
                    et_selected_until_ms := (if mode = ET_Demand then sat_add now_ms DEMAND_MS else 0)\<rparr>))"

definition echo_telemetry_requested :: "EchoTelemetryPolicy \<Rightarrow> ReplyState \<Rightarrow> u64 \<Rightarrow> ReplyState" where
  "echo_telemetry_requested p reply now_ms =
     (if et_mode p = ET_Demand \<and> \<not> rp_ended reply
      then set_telemetry_window reply (sat_add now_ms DEMAND_MS) else reply)"

definition echo_telemetry_allows :: "EchoTelemetryPolicy \<Rightarrow> ReplyState \<Rightarrow> u64 \<Rightarrow> bool \<Rightarrow> bool" where
  "echo_telemetry_allows p reply now_ms local_enabled \<longleftrightarrow>
     \<not> rp_ended reply
     \<and> (case et_mode p of
          ET_Off \<Rightarrow> False
        | ET_On \<Rightarrow> True
        | ET_Follow \<Rightarrow> local_enabled
        | ET_Demand \<Rightarrow> now_ms < et_selected_until_ms p \<or> now_ms < rp_telemetry_until_ms reply)"

section \<open>Interleaved source publication\<close>

datatype WriterPc =
    W_Idle
  | W_Bytes string u64 nat
  | W_Commit string u64

datatype ReaderPc =
    R_Idle
  | R_Version u64 u64
  | R_Bytes u64 u64 "char list"
  | R_Done u64 "string option"

text \<open>\<open>sq_published\<close> records the completed publications (the initial cells count as one), in order.\<close>

record SeqState =
  sq_signals :: PeerSignals
  sq_writer :: WriterPc
  sq_reader :: ReaderPc
  sq_published :: "(u64 \<times> string) list"

definition seq_init :: SeqState where
  "seq_init = \<lparr>sq_signals = peer_signals_new, sq_writer = W_Idle, sq_reader = R_Idle, sq_published = [(0, [])]\<rparr>"

inductive seq_step :: "SeqState \<Rightarrow> SeqState \<Rightarrow> bool" where
  audio_edge: "seq_step s (s\<lparr>sq_signals := snd (set_active (sq_signals s) active)\<rparr>)"
| write_begin: "sq_writer s = W_Idle \<Longrightarrow> odd edge \<Longrightarrow> activity_edge (sq_signals s) = edge \<Longrightarrow> identity source \<Longrightarrow>
    seq_step s (s\<lparr>sq_signals := (sq_signals s)\<lparr>sg_source_version := sg_source_version (sq_signals s) + 1\<rparr>,
                  sq_writer := W_Bytes source edge 0\<rparr>)"
| write_byte: "sq_writer s = W_Bytes source edge i \<Longrightarrow> i < 64 \<Longrightarrow>
    seq_step s (s\<lparr>sq_signals := (sq_signals s)\<lparr>sg_source := (sg_source (sq_signals s))[i := source_byte source i]\<rparr>,
                  sq_writer := W_Bytes source edge (Suc i)\<rparr>)"
| write_edge: "sq_writer s = W_Bytes source edge 64 \<Longrightarrow>
    seq_step s (s\<lparr>sq_signals := (sq_signals s)\<lparr>sg_source_edge := edge\<rparr>, sq_writer := W_Commit source edge\<rparr>)"
| write_commit: "sq_writer s = W_Commit source edge \<Longrightarrow>
    seq_step s (s\<lparr>sq_signals := (sq_signals s)\<lparr>sg_source_version := sg_source_version (sq_signals s) + 1\<rparr>,
                  sq_writer := W_Idle, sq_published := sq_published s @ [(edge, source)]\<rparr>)"
| read_version: "sq_reader s = R_Idle \<or> sq_reader s = R_Done e' res \<Longrightarrow>
    seq_step s (s\<lparr>sq_reader := (if odd (sg_source_version (sq_signals s)) then R_Done edge None
                                 else R_Version edge (sg_source_version (sq_signals s)))\<rparr>)"
| read_edge: "sq_reader s = R_Version edge v \<Longrightarrow>
    seq_step s (s\<lparr>sq_reader := (if sg_source_edge (sq_signals s) \<noteq> edge then R_Done edge None else R_Bytes edge v [])\<rparr>)"
| read_byte: "sq_reader s = R_Bytes edge v buf \<Longrightarrow> length buf < 64 \<Longrightarrow>
    seq_step s (s\<lparr>sq_reader := R_Bytes edge v (buf @ [sg_source (sq_signals s) ! length buf])\<rparr>)"
| read_check: "sq_reader s = R_Bytes edge v buf \<Longrightarrow> length buf = 64 \<Longrightarrow>
    seq_step s (s\<lparr>sq_reader := R_Done edge
       (if sg_source_version (sq_signals s) \<noteq> v then None else decode_source buf)\<rparr>)"

section \<open>Invariants of the interleaving\<close>

definition completed :: "SeqState \<Rightarrow> nat" where
  "completed s = length (sq_published s) - 1"

definition writer_ok :: "SeqState \<Rightarrow> bool" where
  "writer_ok s \<longleftrightarrow> sq_published s \<noteq> [] \<and> length (sg_source (sq_signals s)) = 64
     \<and> (\<forall>(e, src) \<in> set (sq_published s). src = [] \<and> e = 0 \<or> identity src \<and> odd e)
     \<and> (case sq_writer s of
          W_Idle \<Rightarrow> sg_source_version (sq_signals s) = of_nat (2 * completed s)
            \<and> sg_source (sq_signals s) = source_bytes (snd (last (sq_published s)))
            \<and> sg_source_edge (sq_signals s) = fst (last (sq_published s))
        | W_Bytes src e i \<Rightarrow> sg_source_version (sq_signals s) = of_nat (2 * completed s + 1)
            \<and> i \<le> 64 \<and> identity src \<and> odd e \<and> take i (sg_source (sq_signals s)) = take i (source_bytes src)
        | W_Commit src e \<Rightarrow> sg_source_version (sq_signals s) = of_nat (2 * completed s + 1)
            \<and> identity src \<and> odd e \<and> sg_source (sq_signals s) = source_bytes src \<and> sg_source_edge (sq_signals s) = e)"

definition snapshot_current :: "SeqState \<Rightarrow> nat \<Rightarrow> bool" where
  "snapshot_current s j \<longleftrightarrow> j = completed s \<and> sq_writer s = W_Idle"

definition reader_ok :: "SeqState \<Rightarrow> bool" where
  "reader_ok s \<longleftrightarrow>
     (case sq_reader s of
        R_Idle \<Rightarrow> True
      | R_Version e v \<Rightarrow> (\<exists>j \<le> completed s. v = of_nat (2 * j))
      | R_Bytes e v buf \<Rightarrow> length buf \<le> 64 \<and> (\<exists>j \<le> completed s. v = of_nat (2 * j)
          \<and> (snapshot_current s j \<longrightarrow> sg_source_edge (sq_signals s) = e
               \<and> buf = take (length buf) (sg_source (sq_signals s))))
      | R_Done e res \<Rightarrow> (case res of Some src \<Rightarrow> (e, src) \<in> set (sq_published s) | None \<Rightarrow> True))"

section \<open>Lemmas\<close>

lemma source_bytes_length [simp]: "length (source_bytes s) = 64"
  by (simp add: source_bytes_def)

lemma source_bytes_pad: "length s < 64 \<Longrightarrow> source_bytes s = s @ replicate (64 - length s) (CHR 0x00)"
  by (rule nth_equalityI) (auto simp: source_bytes_def source_byte_def nth_append)

lemma decode_source_bytes: 
  assumes "identity s \<or> s = []" shows "decode_source (source_bytes s) = Some s"
proof -
  have len: "length s < 64" and a: "ascii_text s"
    using assms identity_facts identity_ascii by fastforce+
  have "position (\<lambda>b. b = CHR 0x00) (replicate (64 - length s) (CHR 0x00)) = Some 0"
    using len by (cases "64 - length s") auto
  then have "position (\<lambda>b. b = CHR 0x00) (source_bytes s) = Some (length s)"
    using ascii_no_nul [OF a] by (subst source_bytes_pad [OF len], subst position_append_none) auto
  then show ?thesis
    using a by (simp add: decode_source_def source_bytes_pad [OF len])
qed
lemma set_active_frame [simp]:
  "sg_source (snd (set_active g a)) = sg_source g" "sg_source_edge (snd (set_active g a)) = sg_source_edge g"
  "sg_source_version (snd (set_active g a)) = sg_source_version g"
  by (simp_all add: set_active_def Let_def)

lemma completed_simps [simp]:
  "completed (s\<lparr>sq_signals := g\<rparr>) = completed s" "completed (s\<lparr>sq_writer := w\<rparr>) = completed s"
  "completed (s\<lparr>sq_reader := r\<rparr>) = completed s"
  by (simp_all add: completed_def)

lemma writer_ok_step: "seq_step s s' \<Longrightarrow> writer_ok s \<Longrightarrow> writer_ok s'"
proof (induction rule: seq_step.induct)
  case (write_byte s source edge i)
  then have l: "i < length (sg_source (sq_signals s))" "take i (sg_source (sq_signals s)) = take i (source_bytes source)"
    by (auto simp: writer_ok_def)
  then have "take (Suc i) ((sg_source (sq_signals s))[i := source_byte source i]) = take (Suc i) (source_bytes source)"
    using write_byte by (simp add: take_Suc_conv_app_nth source_bytes_def)
  with write_byte show ?case by (auto simp: writer_ok_def)
next
  case (write_commit s source edge)
  then have "of_nat (length (sq_published s)) = (1 + of_nat (completed s) :: u64)"
    by (cases "sq_published s") (simp_all add: writer_ok_def completed_def)
  with write_commit show ?case
    by (auto simp: writer_ok_def completed_def)
qed (auto simp: writer_ok_def split: WriterPc.splits)

lemma version_current:
  assumes "writer_ok s" "2 * length (sq_published s) < 2 ^ 64" "j \<le> completed s"
    "sg_source_version (sq_signals s) = of_nat (2 * j)"
  shows "snapshot_current s j"
proof -
  obtain n where n: "sg_source_version (sq_signals s) = of_nat n" "n < 2 ^ 64" "sq_writer s = W_Idle \<longrightarrow> n = 2 * completed s"
    "sq_writer s \<noteq> W_Idle \<longrightarrow> n = 2 * completed s + 1"
  proof (rule that [of "if sq_writer s = W_Idle then 2 * completed s else 2 * completed s + 1"])
    have "0 < length (sq_published s)" using assms(1) by (simp add: writer_ok_def)
    then show "(if sq_writer s = W_Idle then 2 * completed s else 2 * completed s + 1) < 2 ^ 64"
      using assms(2) by (auto simp: completed_def)
  qed (use assms(1) in \<open>auto simp: writer_ok_def split: WriterPc.splits\<close>)
  have "2 * j < 2 ^ 64"
    using assms(2,3) by (simp add: completed_def)
  then have "unat (of_nat (2 * j) :: u64) = 2 * j" "unat (of_nat n :: u64) = n"
    using n(2) by (simp_all only: unat_of_nat take_bit_eq_mod) simp_all
  with n(1) assms(4) have "n = 2 * j" by metis
  with n show ?thesis
    by (cases "sq_writer s = W_Idle") (auto simp: snapshot_current_def, presburger)
qed

lemma published_last:
  assumes "writer_ok s"
  shows "identity (snd (last (sq_published s))) \<or> snd (last (sq_published s)) = []"
proof -
  have mem: "last (sq_published s) \<in> set (sq_published s)"
    using assms by (simp add: writer_ok_def)
  have all: "\<forall>x \<in> set (sq_published s). case x of (e, src) \<Rightarrow> src = [] \<and> e = 0 \<or> identity src \<and> odd e"
    using assms by (simp add: writer_ok_def)
  show ?thesis
    using bspec [OF all mem] by (cases "last (sq_published s)") auto
qed

lemma reader_ok_step:
  "seq_step s s' \<Longrightarrow> writer_ok s \<Longrightarrow> 2 * length (sq_published s) < 2 ^ 64 \<Longrightarrow> reader_ok s \<Longrightarrow> reader_ok s'"
proof (induction rule: seq_step.induct)
  case (write_begin s edge source)
  then show ?case by (auto simp: reader_ok_def snapshot_current_def split: ReaderPc.splits option.splits)
next
  case (write_byte s source edge i)
  then show ?case by (auto simp: reader_ok_def snapshot_current_def split: ReaderPc.splits option.splits)
next
  case (write_edge s source edge)
  then show ?case by (auto simp: reader_ok_def snapshot_current_def split: ReaderPc.splits option.splits)
next
  case (write_commit s source edge)
  let ?s = "s\<lparr>sq_signals := (sq_signals s)\<lparr>sg_source_version := sg_source_version (sq_signals s) + 1\<rparr>,
                  sq_writer := W_Idle, sq_published := sq_published s @ [(edge, source)]\<rparr>"
  have c: "completed ?s = Suc (completed s)"
    using write_commit by (cases "sq_published s") (simp_all add: writer_ok_def completed_def)
  with write_commit have "\<not> snapshot_current ?s j" if "j \<le> completed s" for j
    using that by (simp add: snapshot_current_def)
  with c write_commit show ?case
    by (auto simp: reader_ok_def split: ReaderPc.splits option.splits intro: le_SucI)
next
  case (read_version s e' res edge)
  have "\<exists>j \<le> completed s. sg_source_version (sq_signals s) = of_nat (2 * j)" if "even (sg_source_version (sq_signals s))"
    using read_version(2) that by (auto simp: writer_ok_def split: WriterPc.splits)
  then show ?case by (auto simp: reader_ok_def)
next
  case (read_edge s edge v)
  then show ?case by (auto simp: reader_ok_def snapshot_current_def split: ReaderPc.splits option.splits)
next
  case (read_byte s edge v buf)
  then show ?case by (auto simp: reader_ok_def snapshot_current_def writer_ok_def take_Suc_conv_app_nth split: ReaderPc.splits option.splits)
next
  case (read_check s edge v buf)
  then obtain j where j: "j \<le> completed s" "v = of_nat (2 * j)"
    "snapshot_current s j \<longrightarrow> sg_source_edge (sq_signals s) = edge \<and> buf = take (length buf) (sg_source (sq_signals s))"
    by (auto simp: reader_ok_def)
  have "(edge, src) \<in> set (sq_published s)"
    if "sg_source_version (sq_signals s) = v" "decode_source buf = Some src" for src
  proof -
    have cur: "snapshot_current s j"
      using version_current [OF read_check(3,4) j(1)] that(1) j(2) by simp
    then have last: "buf = source_bytes (snd (last (sq_published s)))" "edge = fst (last (sq_published s))"
      using j(3) read_check(2,3) by (auto simp: snapshot_current_def writer_ok_def)
    have ne: "sq_published s \<noteq> []"
      using read_check(3) by (simp add: writer_ok_def)
    have l: "identity (snd (last (sq_published s))) \<or> snd (last (sq_published s)) = []"
      using read_check(3) published_last by blast
    have "src = snd (last (sq_published s))"
      using that(2) decode_source_bytes [OF l] last(1) by simp
    then show ?thesis
      using last(2) ne by (simp add: last_in_set)
  qed
  then show ?case
    by (auto simp: reader_ok_def split: option.splits)
qed (auto simp: reader_ok_def snapshot_current_def split: ReaderPc.splits option.splits)

lemma published_grows: "seq_step s s' \<Longrightarrow> length (sq_published s) \<le> length (sq_published s')"
  by (induction rule: seq_step.induct) auto

lemma seq_init_ok: "writer_ok seq_init" "reader_ok seq_init"
  by (simp_all add: seq_init_def writer_ok_def reader_ok_def peer_signals_new_def completed_def source_bytes_pad)

lemma seq_reachable_ok:
  "seq_step\<^sup>*\<^sup>* seq_init s \<Longrightarrow> writer_ok s \<and> (2 * length (sq_published s) < 2 ^ 64 \<longrightarrow> reader_ok s)"
proof (induction rule: rtranclp_induct)
  case base
  then show ?case using seq_init_ok by simp
next
  case (step s s')
  then show ?case
    using writer_ok_step reader_ok_step published_grows by fastforce
qed

text \<open>Undisturbed runs of the two owners take exactly the sequential methods' steps.\<close>

lemma read_bytes_run:
  assumes "length (sg_source (sq_signals s)) = 64" "n \<le> 64"
  shows "seq_step\<^sup>*\<^sup>* (s\<lparr>sq_reader := R_Bytes e v []\<rparr>) (s\<lparr>sq_reader := R_Bytes e v (take n (sg_source (sq_signals s)))\<rparr>)"
  using assms(2)
proof (induction n)
  case (Suc n)
  let ?t = "s\<lparr>sq_reader := R_Bytes e v (take n (sg_source (sq_signals s)))\<rparr>"
  have "seq_step ?t (?t\<lparr>sq_reader := R_Bytes e v (take n (sg_source (sq_signals s))
      @ [sg_source (sq_signals ?t) ! length (take n (sg_source (sq_signals s)))])\<rparr>)"
    by (rule seq_step.read_byte) (use Suc.prems assms(1) in auto)
  then have "seq_step ?t (s\<lparr>sq_reader := R_Bytes e v (take (Suc n) (sg_source (sq_signals s)))\<rparr>)"
    using Suc.prems assms(1) by (simp add: take_Suc_conv_app_nth)
  with Suc show ?case by (simp add: rtranclp.rtrancl_into_rtrancl)
qed simp

lemma undisturbed_read:
  assumes "length (sg_source (sq_signals s)) = 64" "sq_reader s = R_Idle"
  shows "seq_step\<^sup>*\<^sup>* s (s\<lparr>sq_reader := R_Done e (selected_source (sq_signals s) e)\<rparr>)"
proof -
  let ?v = "sg_source_version (sq_signals s)"
  have 1: "seq_step s (s\<lparr>sq_reader := (if odd ?v then R_Done e None else R_Version e ?v)\<rparr>)"
    by (rule seq_step.read_version) (simp add: assms)
  have 2: "seq_step (s\<lparr>sq_reader := R_Version e ?v\<rparr>)
      (s\<lparr>sq_reader := (if sg_source_edge (sq_signals s) \<noteq> e then R_Done e None else R_Bytes e ?v [])\<rparr>)"
    using seq_step.read_edge [of "s\<lparr>sq_reader := R_Version e ?v\<rparr>" e ?v] by simp
  have 3: "seq_step\<^sup>*\<^sup>* (s\<lparr>sq_reader := R_Bytes e ?v []\<rparr>) (s\<lparr>sq_reader := R_Bytes e ?v (sg_source (sq_signals s))\<rparr>)"
    using read_bytes_run [OF assms(1), of 64 e ?v] assms(1) by simp
  have 4: "seq_step (s\<lparr>sq_reader := R_Bytes e ?v (sg_source (sq_signals s))\<rparr>)
      (s\<lparr>sq_reader := R_Done e (decode_source (sg_source (sq_signals s)))\<rparr>)"
    using seq_step.read_check [of "s\<lparr>sq_reader := R_Bytes e ?v (sg_source (sq_signals s))\<rparr>" e ?v] assms(1) by simp
  consider "odd ?v" | "even ?v" "sg_source_edge (sq_signals s) \<noteq> e" | "even ?v" "sg_source_edge (sq_signals s) = e"
    by blast
  then show ?thesis
  proof cases
    case 1
    with \<open>seq_step s _\<close> show ?thesis by (simp add: selected_source_def r_into_rtranclp)
  next
    case b: 2
    have "seq_step\<^sup>*\<^sup>* s (s\<lparr>sq_reader := R_Done e None\<rparr>)"
      using b 1 2 by (auto intro: converse_rtranclp_into_rtranclp)
    with b show ?thesis by (simp add: selected_source_def)
  next
    case c: 3
    have "seq_step\<^sup>*\<^sup>* s (s\<lparr>sq_reader := R_Bytes e ?v []\<rparr>)"
      using c 1 2 by (auto intro: converse_rtranclp_into_rtranclp)
    with 3 4 have "seq_step\<^sup>*\<^sup>* s (s\<lparr>sq_reader := R_Done e (decode_source (sg_source (sq_signals s)))\<rparr>)"
      by (meson rtranclp.rtrancl_into_rtrancl rtranclp_trans)
    with c show ?thesis by (simp add: selected_source_def)
  qed
qed

lemma write_bytes_run:
  assumes "length (sg_source (sq_signals s)) = 64" "n \<le> 64"
  shows "seq_step\<^sup>*\<^sup>* (s\<lparr>sq_writer := W_Bytes src e 0\<rparr>)
     (s\<lparr>sq_signals := (sq_signals s)\<lparr>sg_source := take n (source_bytes src) @ drop n (sg_source (sq_signals s))\<rparr>,
        sq_writer := W_Bytes src e n\<rparr>)"
  using assms(2)
proof (induction n)
  case (Suc n)
  let ?b = "\<lambda>n. take n (source_bytes src) @ drop n (sg_source (sq_signals s))"
  let ?t = "\<lambda>n. s\<lparr>sq_signals := (sq_signals s)\<lparr>sg_source := ?b n\<rparr>, sq_writer := W_Bytes src e n\<rparr>"
  have "(?b n)[n := source_byte src n] = ?b (Suc n)"
    using Suc.prems assms(1)
    by (intro nth_equalityI) (auto simp: nth_list_update nth_append source_bytes_def less_Suc_eq)
  with seq_step.write_byte [of "?t n" src e n] Suc.prems have "seq_step (?t n) (?t (Suc n))" by simp
  with Suc show ?case by (simp add: rtranclp.rtrancl_into_rtrancl)
qed simp

lemma undisturbed_write:
  assumes "length (sg_source (sq_signals s)) = 64" "sq_writer s = W_Idle" "fst (select_source (sq_signals s) e src)"
  shows "seq_step\<^sup>*\<^sup>* s (s\<lparr>sq_signals := snd (select_source (sq_signals s) e src),
     sq_published := sq_published s @ [(e, src)]\<rparr>)"
proof -
  let ?g = "(sq_signals s)\<lparr>sg_source_version := sg_source_version (sq_signals s) + 1\<rparr>"
  have a: "odd e" "activity_edge (sq_signals s) = e" "identity src"
    using assms(3) by (auto simp: select_source_def split: if_splits)
  have "seq_step s (s\<lparr>sq_signals := ?g, sq_writer := W_Bytes src e 0\<rparr>)"
    by (rule seq_step.write_begin) (use a assms(2) in auto)
  also have "seq_step\<^sup>*\<^sup>* \<dots> (s\<lparr>sq_signals := ?g\<lparr>sg_source := source_bytes src\<rparr>, sq_writer := W_Bytes src e 64\<rparr>)"
    using write_bytes_run [of "s\<lparr>sq_signals := ?g\<rparr>" 64 src e] assms(1) by simp
  also have "seq_step \<dots> (s\<lparr>sq_signals := ?g\<lparr>sg_source := source_bytes src, sg_source_edge := e\<rparr>, sq_writer := W_Commit src e\<rparr>)"
    using seq_step.write_edge [of "s\<lparr>sq_signals := ?g\<lparr>sg_source := source_bytes src\<rparr>, sq_writer := W_Bytes src e 64\<rparr>" src e] by simp
  also have "seq_step \<dots> (s\<lparr>sq_signals := snd (select_source (sq_signals s) e src),
     sq_published := sq_published s @ [(e, src)]\<rparr>)"
    using seq_step.write_commit [of "s\<lparr>sq_signals := ?g\<lparr>sg_source := source_bytes src, sg_source_edge := e\<rparr>, sq_writer := W_Commit src e\<rparr>" src e] a assms(2)
    by (cases s, cases "sq_signals s") (simp add: select_source_def activity_edge_def)
  finally show ?thesis .
qed

section \<open>Properties\<close>

text \<open>C2. However the audio reader and the channel owner interleave at the granularity of single
  atomic accesses, a reader that gets a source back gets one that was published completely and for
  exactly the burst it asked about, never a mixture of two publications: the pair it reads is one
  of the completed publications, with an odd (active) edge and a valid identity, or the initial
  empty cells. (Below the period of the version counter.)\<close>

theorem selected_source_atomic:
  assumes "seq_step\<^sup>*\<^sup>* seq_init s" "2 * length (sq_published s) < 2 ^ 64" "sq_reader s = R_Done edge (Some src)"
  shows "(edge, src) \<in> set (sq_published s) \<and> (edge = 0 \<and> src = [] \<or> odd edge \<and> identity src)"
proof -
  have ok: "writer_ok s" "reader_ok s"
    using seq_reachable_ok [OF assms(1)] assms(2) by blast+
  then have mem: "(edge, src) \<in> set (sq_published s)"
    using assms(3) by (simp add: reader_ok_def)
  have all: "\<forall>x \<in> set (sq_published s). case x of (e, src) \<Rightarrow> src = [] \<and> e = 0 \<or> identity src \<and> odd e"
    using ok(1) by (simp add: writer_ok_def)
  show ?thesis
    using bspec [OF all mem] mem by auto
qed

lemma sample_run:
  "\<exists>s. seq_step\<^sup>*\<^sup>* seq_init s \<and> sq_published s = [(0, []), (1, ''2005'')] \<and> sq_reader s = R_Done 1 (Some ''2005'')"
proof -
  let ?a = "seq_init\<lparr>sq_signals := snd (set_active (sq_signals seq_init) True)\<rparr>"
  let ?w = "?a\<lparr>sq_signals := snd (select_source (sq_signals ?a) 1 ''2005''),
     sq_published := sq_published ?a @ [(1, ''2005'')]\<rparr>"
  let ?r = "?w\<lparr>sq_reader := R_Done 1 (selected_source (sq_signals ?w) 1)\<rparr>"
  have a: "seq_step seq_init ?a" by (rule seq_step.audio_edge)
  have w: "seq_step\<^sup>*\<^sup>* ?a ?w"
    by (rule undisturbed_write)
      (simp_all add: seq_init_def peer_signals_new_def set_active_def select_source_def activity_edge_def)
  have r: "seq_step\<^sup>*\<^sup>* ?w ?r"
    by (rule undisturbed_read)
      (simp_all add: seq_init_def peer_signals_new_def set_active_def select_source_def activity_edge_def)
  have "selected_source (sq_signals ?w) 1 = Some ''2005''"
    using decode_source_bytes [of "''2005''"]
    by (simp add: seq_init_def peer_signals_new_def set_active_def select_source_def activity_edge_def selected_source_def)
  moreover have "seq_step\<^sup>*\<^sup>* seq_init ?r"
    using converse_rtranclp_into_rtranclp [OF a rtranclp_trans [OF w r]] .
  ultimately show ?thesis
    by (intro exI [of _ ?r]) (simp add: seq_init_def)
qed

theorem selected_source_atomic_witness:
  "\<exists>s. seq_step\<^sup>*\<^sup>* seq_init s \<and> (1, ''2005'') \<in> set (sq_published s) \<and> odd (1 :: u64) \<and> identity ''2005''"
proof -
  obtain s where s: "seq_step\<^sup>*\<^sup>* seq_init s" "sq_published s = [(0, []), (1, ''2005'')]" "sq_reader s = R_Done 1 (Some ''2005'')"
    using sample_run by blast
  show ?thesis
    using selected_source_atomic [OF s(1) _ s(3)] s by auto
qed

text \<open>A publication accepted for a burst is what a read returns for that burst, and a read for any
  other burst returns nothing; the version counter is left even, so later reads are not blocked.\<close>

theorem source_roundtrip:
  assumes "select_source g edge src = (True, g')" "even (sg_source_version g)"
  shows "selected_source g' edge = Some src \<and> (edge' \<noteq> edge \<longrightarrow> selected_source g' edge' = None)
     \<and> even (sg_source_version g')"
proof -
  have g': "identity src" "g' = g\<lparr>sg_source_version := sg_source_version g + 1 + 1, sg_source := source_bytes src, sg_source_edge := edge\<rparr>"
    using assms(1) by (auto simp: select_source_def split: if_splits)
  with assms(2) show ?thesis
    using decode_source_bytes [of src] by (simp add: selected_source_def)
qed

theorem source_roundtrip_witness:
  "selected_source (snd (select_source (snd (set_active peer_signals_new True)) 1 ''2005'')) 1 = Some ''2005''"
proof -
  let ?g = "snd (set_active peer_signals_new True)"
  have "select_source ?g 1 ''2005'' = (True, snd (select_source ?g 1 ''2005''))"
    by (simp add: peer_signals_new_def set_active_def select_source_def activity_edge_def)
  moreover have "even (sg_source_version ?g)"
    by (simp add: peer_signals_new_def)
  ultimately show ?thesis
    using source_roundtrip by blast
qed

text \<open>Under the demand policy a telemetry-producing command opens a window of exactly two minutes
  on the connection it came from; a connection that has ended, or that has issued no command since
  the policy was loaded, gets nothing, so a reconnect does not inherit a previous permission.\<close>

theorem demand_window:
  assumes "et_mode p = ET_Demand" "et_selected_until_ms p = 0" "unat t + 120000 < 2 ^ 64"
  shows "(echo_telemetry_allows p (echo_telemetry_requested p r t) t' enabled
           \<longleftrightarrow> \<not> rp_ended r \<and> unat t' < unat t + 120000)
     \<and> \<not> echo_telemetry_allows p (sg_reply peer_signals_new) t' enabled"
  using assms by (auto simp: echo_telemetry_allows_def echo_telemetry_requested_def set_telemetry_window_def
      DEMAND_MS_def word_less_nat_alt unat_sat_add peer_signals_new_def)

theorem demand_window_witness:
  "echo_telemetry_allows (echo_telemetry_new ET_Demand True)
     (echo_telemetry_requested (echo_telemetry_new ET_Demand True) (sg_reply peer_signals_new) 5) 120004 False"
  using demand_window [of "echo_telemetry_new ET_Demand True" 5 "sg_reply peer_signals_new" 120004 False]
  by (simp add: echo_telemetry_new_def peer_signals_new_def)

end
