(* ===== verification/Remote_Base.thy ===== *)
theory Remote_Base
  imports Utf8
begin

text \<open>
  Typed remote-base DTMF payloads, \<^verbatim>\<open>core/src/remote_base_command.rs\<close>, and their pointer-free
  wire record, \<^verbatim>\<open>core/src/remote_base_command_wire.rs\<close>. Unsigned fields are naturals; every
  bound the Rust types and checked operations impose is a test of the definitions, and the lemmas
  show that parsed commands stay within the widths of the record.
\<close>

section \<open>Commands\<close>

datatype RemoteDtmfAccess = RA_Open | RA_Locked | RA_Disabled

datatype RemoteOffset = Minus | Simplex | Plus

datatype CatalogKind = Capabilities | Memories | ScanLists

record DecimalValue =
  dv_negative :: bool
  dv_magnitude :: nat
  dv_decimal_places :: nat

text \<open>\<^verbatim>\<open>checked_mul\<close> and \<^verbatim>\<open>try_into\<close> as range tests; the remainder is zero for truncating
  and flooring division alike, and then both quotients agree.\<close>

definition in_i128 :: "int \<Rightarrow> bool" where
  "in_i128 v \<longleftrightarrow> - (2 ^ 127) \<le> v \<and> v < 2 ^ 127"

definition in_i64 :: "int \<Rightarrow> bool" where
  "in_i64 v \<longleftrightarrow> - (2 ^ 63) \<le> v \<and> v < 2 ^ 63"

definition at_decimal_places :: "DecimalValue \<Rightarrow> nat \<Rightarrow> int option" where
  "at_decimal_places v places =
     (if dv_decimal_places v > 6 \<or> places > 6 then None
      else
        let value = (if dv_negative v then - int (dv_magnitude v) else int (dv_magnitude v)) in
        Option.bind
          (if places \<ge> dv_decimal_places v
           then (let product = value * 10 ^ (places - dv_decimal_places v) in
                 if in_i128 product then Some product else None)
           else (let divisor = 10 ^ (dv_decimal_places v - places) in
                 if value mod divisor \<noteq> 0 then None else Some (value div divisor)))
          (\<lambda>r. if in_i64 r then Some r else None))"

datatype RemoteCommand =
    Recall nat
  | Frequency nat RemoteOffset
  | Tone bool nat
  | ToneEnabled bool bool
  | PowerPreset nat
  | StatusCmd bool
  | ModeCmd nat
  | Step int
  | ScanPreset bool nat
  | Tune
  | GetSetting nat
  | SetSetting nat DecimalValue
  | StartScan nat
  | PauseScan
  | ResumeScan
  | StopScan
  | ScanDirection bool
  | Skip
  | MemoryCmd nat
  | Catalog CatalogKind nat
  | ScanStatus nat
  | Inhibit bool
  | Dwell nat
  | ResumeDelay nat
  | Priority "nat option"
  | CurrentStatus
  | Invoke nat

fun administrative :: "RemoteCommand \<Rightarrow> bool" where
  "administrative (StatusCmd _) = False"
| "administrative (GetSetting _) = False"
| "administrative (MemoryCmd _) = False"
| "administrative (Catalog _ _) = False"
| "administrative (ScanStatus _) = False"
| "administrative CurrentStatus = False"
| "administrative _ = True"

section \<open>Parser\<close>

definition number :: "nat \<Rightarrow> string \<Rightarrow> nat option" where
  "number bits s = (if s \<noteq> [] \<and> list_all is_ascii_digit s then parse_unsigned bits s else None)"

definition nonzero :: "nat option \<Rightarrow> nat option" where
  "nonzero n = Option.bind n (\<lambda>v. if v \<noteq> 0 then Some v else None)"

definition selector :: "string \<Rightarrow> nat option" where
  "selector s = nonzero (number 32 s)"

definition parts :: "nat \<Rightarrow> string \<Rightarrow> string list option" where
  "parts n s =
     (let input = split_on (CHR ''*'') s;
          fields = take n (input @ replicate n []) in
      if \<not> list_ex (\<lambda>f. f = []) fields \<and> length input \<le> n then Some fields else None)"

definition fixed_commands :: "(string \<times> RemoteCommand) list" where
  "fixed_commands =
     [(''40'', ToneEnabled False False), (''41'', ToneEnabled False True),
      (''42'', ToneEnabled True False), (''43'', ToneEnabled True True),
      (''44'', PowerPreset 0), (''45'', PowerPreset 1), (''46'', PowerPreset 2),
      (''51'', StatusCmd True), (''52'', StatusCmd False),
      (''61'', ModeCmd 1), (''62'', ModeCmd 3), (''63'', ModeCmd 4), (''64'', ModeCmd 2),
      (''711'', Step (- 20)), (''714'', Step (- 100)), (''717'', Step (- 500)),
      (''713'', Step 20), (''716'', Step 100), (''719'', Step 500),
      (''721'', ScanPreset False 0), (''724'', ScanPreset False 1), (''727'', ScanPreset False 2),
      (''723'', ScanPreset True 0), (''726'', ScanPreset True 1), (''729'', ScanPreset True 2),
      (''79'', Tune), (''93'', PauseScan), (''94'', ResumeScan), (''95'', StopScan),
      (''960'', ScanDirection False), (''961'', ScanDirection True), (''97'', Skip),
      (''9940'', Inhibit False), (''9941'', Inhibit True), (''998'', CurrentStatus)]"

text \<open>The three prefix matches. \<open>None\<close> falls through to the next; \<open>Some r\<close> is the early
  \<^verbatim>\<open>return\<close> of \<open>r\<close>.\<close>

definition parse_prefix3 :: "string \<Rightarrow> RemoteCommand option option" where
  "parse_prefix3 s =
     (case split_at_checked 3 s of
        None \<Rightarrow> None
      | Some (pre, rest) \<Rightarrow>
          if pre = ''990'' then Some (map_option (Catalog Capabilities) (selector rest))
          else if pre = ''991'' then Some (map_option (Catalog Memories) (selector rest))
          else if pre = ''992'' then Some (map_option (Catalog ScanLists) (selector rest))
          else if pre = ''993'' then Some (map_option ScanStatus (selector rest))
          else if pre = ''995'' then Some (map_option Dwell (nonzero (number 64 rest)))
          else if pre = ''996'' then Some (map_option ResumeDelay (number 64 rest))
          else if pre = ''997''
          then Some (map_option (\<lambda>v. Priority (if v \<noteq> 0 then Some v else None)) (number 32 rest))
          else if pre = ''999'' then Some (map_option Invoke (selector rest))
          else None)"

definition parse_setting :: "string \<Rightarrow> RemoteCommand option" where
  "parse_setting rest =
     (case parts 4 rest of
        Some [setting, sign, digits, places] \<Rightarrow>
          Option.bind (if sign = ''0'' then Some False else if sign = ''1'' then Some True else None) (\<lambda>negative.
          Option.bind (number 64 digits) (\<lambda>magnitude.
          Option.bind (number 32 places) (\<lambda>decimal_places.
            let value = \<lparr>dv_negative = negative, dv_magnitude = magnitude, dv_decimal_places = decimal_places\<rparr> in
            Option.bind (at_decimal_places value decimal_places) (\<lambda>_.
            Option.bind (selector setting) (\<lambda>sel. Some (SetSetting sel value))))))
      | _ \<Rightarrow> None)"

definition parse_prefix2 :: "string \<Rightarrow> RemoteCommand option option" where
  "parse_prefix2 s =
     (case split_at_checked 2 s of
        None \<Rightarrow> None
      | Some (pre, rest) \<Rightarrow>
          if pre = ''90'' then Some (map_option GetSetting (selector rest))
          else if pre = ''91'' then Some (parse_setting rest)
          else if pre = ''92'' then Some (map_option StartScan (selector rest))
          else if pre = ''98'' then Some (map_option MemoryCmd (selector rest))
          else None)"

definition checked :: "nat \<Rightarrow> nat \<Rightarrow> nat option" where
  "checked bits v = (if v < 2 ^ bits then Some v else None)"

definition parse_frequency :: "string \<Rightarrow> RemoteCommand option" where
  "parse_frequency rest =
     (case parts 3 rest of
        Some [whole, fraction, offset] \<Rightarrow>
          if \<not> (1 \<le> length fraction \<and> length fraction \<le> 5) then None
          else Option.bind (number 64 whole) (\<lambda>w.
               Option.bind (checked 64 (w * 1000000)) (\<lambda>base.
               Option.bind (number 64 fraction) (\<lambda>f.
               Option.bind (checked 64 (f * 10 ^ (6 - length fraction))) (\<lambda>part.
               Option.bind (checked 64 (base + part)) (\<lambda>hertz.
                 if hertz = 0 then None
                 else if offset = ''1'' then Some (Frequency hertz Minus)
                 else if offset = ''2'' then Some (Frequency hertz Simplex)
                 else if offset = ''3'' then Some (Frequency hertz Plus)
                 else None)))))
      | _ \<Rightarrow> None)"

definition parse_tone :: "bool \<Rightarrow> string \<Rightarrow> RemoteCommand option" where
  "parse_tone encode rest =
     (case parts 2 rest of
        Some [whole, tenth] \<Rightarrow>
          if length tenth \<noteq> 1 then None
          else Option.bind (number 32 whole) (\<lambda>w.
               Option.bind (checked 32 (w * 10)) (\<lambda>base.
               Option.bind (number 32 tenth) (\<lambda>t.
               Option.bind (checked 32 (base + t)) (\<lambda>tone.
                 if 500 \<le> tone \<and> tone \<le> 3000 then Some (Tone encode tone) else None))))
      | _ \<Rightarrow> None)"

definition parse_prefix1 :: "string \<Rightarrow> RemoteCommand option" where
  "parse_prefix1 s =
     (case split_at_checked 1 s of
        None \<Rightarrow> None
      | Some (pre, rest) \<Rightarrow>
          if pre = ''0'' then map_option Recall (selector rest)
          else if pre = ''1'' then parse_frequency rest
          else if pre = ''2'' \<or> pre = ''3'' then parse_tone (pre = ''3'') rest
          else None)"

definition parse_remote_command :: "string \<Rightarrow> RemoteCommand option" where
  "parse_remote_command s =
     (case map_of fixed_commands s of
        Some c \<Rightarrow> Some c
      | None \<Rightarrow>
          (case parse_prefix3 s of
             Some r \<Rightarrow> r
           | None \<Rightarrow> (case parse_prefix2 s of Some r \<Rightarrow> r | None \<Rightarrow> parse_prefix1 s)))"

section \<open>Wire record\<close>

record RemoteOperation =
  ro_struct_size :: nat
  ro_abi_version :: nat
  ro_operation :: nat
  ro_selector :: nat
  ro_signed_value :: int
  ro_magnitude :: nat
  ro_decimal_places :: nat
  ro_flags :: nat

definition wire_base :: RemoteOperation where
  "wire_base = \<lparr>ro_struct_size = 40, ro_abi_version = 1, ro_operation = 0, ro_selector = 0,
     ro_signed_value = 0, ro_magnitude = 0, ro_decimal_places = 0, ro_flags = 0\<rparr>"

fun wire :: "RemoteCommand \<Rightarrow> RemoteOperation" where
  "wire (Recall s) = wire_base\<lparr>ro_operation := 1, ro_selector := s\<rparr>"
| "wire (Frequency hertz offset) = wire_base\<lparr>ro_operation := 2, ro_magnitude := hertz,
     ro_flags := (case offset of Minus \<Rightarrow> 1 | Simplex \<Rightarrow> 2 | Plus \<Rightarrow> 3)\<rparr>"
| "wire (Tone encode tenths_hz) = wire_base\<lparr>ro_operation := 3, ro_magnitude := tenths_hz, ro_flags := of_bool encode\<rparr>"
| "wire (ToneEnabled encode enabled) = wire_base\<lparr>ro_operation := 4, ro_flags := or (of_bool encode) (push_bit 1 (of_bool enabled))\<rparr>"
| "wire (PowerPreset s) = wire_base\<lparr>ro_operation := 5, ro_selector := s\<rparr>"
| "wire (StatusCmd long) = wire_base\<lparr>ro_operation := 6, ro_flags := of_bool long\<rparr>"
| "wire (ModeCmd s) = wire_base\<lparr>ro_operation := 7, ro_selector := s\<rparr>"
| "wire (Step v) = wire_base\<lparr>ro_operation := 8, ro_signed_value := v\<rparr>"
| "wire (ScanPreset up preset) = wire_base\<lparr>ro_operation := 9, ro_selector := preset, ro_flags := of_bool up\<rparr>"
| "wire Tune = wire_base\<lparr>ro_operation := 10\<rparr>"
| "wire (GetSetting s) = wire_base\<lparr>ro_operation := 11, ro_selector := s\<rparr>"
| "wire (SetSetting s v) = wire_base\<lparr>ro_operation := 12, ro_selector := s, ro_magnitude := dv_magnitude v,
     ro_decimal_places := dv_decimal_places v, ro_flags := of_bool (dv_negative v)\<rparr>"
| "wire (StartScan s) = wire_base\<lparr>ro_operation := 13, ro_selector := s\<rparr>"
| "wire PauseScan = wire_base\<lparr>ro_operation := 14\<rparr>"
| "wire ResumeScan = wire_base\<lparr>ro_operation := 15\<rparr>"
| "wire StopScan = wire_base\<lparr>ro_operation := 16\<rparr>"
| "wire (ScanDirection up) = wire_base\<lparr>ro_operation := 17, ro_flags := of_bool up\<rparr>"
| "wire Skip = wire_base\<lparr>ro_operation := 18\<rparr>"
| "wire (MemoryCmd s) = wire_base\<lparr>ro_operation := 19, ro_selector := s\<rparr>"
| "wire (Catalog kind page) = wire_base\<lparr>ro_operation := 20, ro_magnitude := page,
     ro_selector := (case kind of Capabilities \<Rightarrow> 1 | Memories \<Rightarrow> 2 | ScanLists \<Rightarrow> 3)\<rparr>"
| "wire (ScanStatus s) = wire_base\<lparr>ro_operation := 21, ro_selector := s\<rparr>"
| "wire (Inhibit enabled) = wire_base\<lparr>ro_operation := 22, ro_flags := of_bool enabled\<rparr>"
| "wire (Dwell m) = wire_base\<lparr>ro_operation := 23, ro_magnitude := m\<rparr>"
| "wire (ResumeDelay m) = wire_base\<lparr>ro_operation := 24, ro_magnitude := m\<rparr>"
| "wire (Priority s) = wire_base\<lparr>ro_operation := 25, ro_selector := (case s of None \<Rightarrow> 0 | Some v \<Rightarrow> v)\<rparr>"
| "wire CurrentStatus = wire_base\<lparr>ro_operation := 26\<rparr>"
| "wire (Invoke s) = wire_base\<lparr>ro_operation := 27, ro_selector := s\<rparr>"


section \<open>Well-formed commands\<close>

definition sel_ok :: "nat \<Rightarrow> bool" where
  "sel_ok s \<longleftrightarrow> 0 < s \<and> s < 2 ^ 32"

fun remote_ok :: "RemoteCommand \<Rightarrow> bool" where
  "remote_ok (Recall s) \<longleftrightarrow> sel_ok s"
| "remote_ok (Frequency h _) \<longleftrightarrow> 0 < h \<and> h < 2 ^ 64"
| "remote_ok (Tone _ t) \<longleftrightarrow> 500 \<le> t \<and> t \<le> 3000"
| "remote_ok (PowerPreset p) \<longleftrightarrow> p \<le> 2"
| "remote_ok (ModeCmd m) \<longleftrightarrow> 1 \<le> m \<and> m \<le> 4"
| "remote_ok (Step v) \<longleftrightarrow> in_i64 v"
| "remote_ok (ScanPreset _ p) \<longleftrightarrow> p \<le> 2"
| "remote_ok (GetSetting s) \<longleftrightarrow> sel_ok s"
| "remote_ok (SetSetting s v) \<longleftrightarrow> sel_ok s \<and> dv_decimal_places v \<le> 6 \<and> dv_magnitude v \<le> 2 ^ 63"
| "remote_ok (StartScan s) \<longleftrightarrow> sel_ok s"
| "remote_ok (MemoryCmd s) \<longleftrightarrow> sel_ok s"
| "remote_ok (Catalog _ p) \<longleftrightarrow> sel_ok p"
| "remote_ok (ScanStatus s) \<longleftrightarrow> sel_ok s"
| "remote_ok (Dwell m) \<longleftrightarrow> 0 < m \<and> m < 2 ^ 64"
| "remote_ok (ResumeDelay m) \<longleftrightarrow> m < 2 ^ 64"
| "remote_ok (Priority s) \<longleftrightarrow> (case s of None \<Rightarrow> True | Some v \<Rightarrow> sel_ok v)"
| "remote_ok (Invoke s) \<longleftrightarrow> sel_ok s"
| "remote_ok _ \<longleftrightarrow> True"

lemma number_lt: "number b s = Some n \<Longrightarrow> n < 2 ^ b"
  by (auto simp: number_def parse_unsigned_lt split: if_splits)

lemma nonzero_Some: "nonzero n = Some v \<longleftrightarrow> n = Some v \<and> v \<noteq> 0"
  by (cases n) (auto simp: nonzero_def)

lemma selector_ok: "selector s = Some n \<Longrightarrow> sel_ok n"
  by (auto simp: selector_def nonzero_Some sel_ok_def dest: number_lt)

lemma fixed_ok: "map_of fixed_commands s = Some c \<Longrightarrow> remote_ok c"
proof -
  have "list_all (\<lambda>(_, c). remote_ok c) fixed_commands"
    by (simp add: fixed_commands_def in_i64_def)
  then show "map_of fixed_commands s = Some c \<Longrightarrow> ?thesis"
    by (auto simp: list_all_iff dest!: map_of_SomeD)
qed

lemma prefix3_ok: "parse_prefix3 s = Some (Some c) \<Longrightarrow> remote_ok c"
  by (auto simp: parse_prefix3_def nonzero_Some split: option.splits if_splits
      dest!: selector_ok number_lt) (simp_all add: sel_ok_def)

lemma same_places:
  "at_decimal_places v (dv_decimal_places v) = Some n \<Longrightarrow> dv_decimal_places v \<le> 6 \<and> dv_magnitude v \<le> 2 ^ 63"
  by (auto simp: at_decimal_places_def in_i64_def Let_def split: if_splits)

lemma setting_ok: "parse_setting s = Some c \<Longrightarrow> remote_ok c"
  by (auto simp: parse_setting_def Let_def bind_eq_Some_conv split: option.splits list.splits if_splits
      dest: selector_ok dest!: same_places [of "\<lparr>dv_negative = _, dv_magnitude = _, dv_decimal_places = _\<rparr>", simplified])

lemma prefix2_ok: "parse_prefix2 s = Some (Some c) \<Longrightarrow> remote_ok c"
  by (auto simp: parse_prefix2_def split: option.splits if_splits dest!: selector_ok setting_ok)

lemma frequency_ok: "parse_frequency s = Some c \<Longrightarrow> remote_ok c"
  by (auto simp: parse_frequency_def bind_eq_Some_conv checked_def split: option.splits list.splits if_splits)

lemma tone_ok: "parse_tone e s = Some c \<Longrightarrow> remote_ok c"
  by (auto simp: parse_tone_def bind_eq_Some_conv checked_def split: option.splits list.splits if_splits)

lemma prefix1_ok: "parse_prefix1 s = Some c \<Longrightarrow> remote_ok c"
  by (auto simp: parse_prefix1_def split: option.splits if_splits dest!: selector_ok frequency_ok tone_ok)

lemma parse_remote_ok: "parse_remote_command s = Some c \<Longrightarrow> remote_ok c"
  by (auto simp: parse_remote_command_def split: option.splits
      intro: fixed_ok prefix3_ok prefix2_ok prefix1_ok)

section \<open>Exact decimal conversion\<close>

definition signed_magnitude :: "DecimalValue \<Rightarrow> int" where
  "signed_magnitude v = (if dv_negative v then - int (dv_magnitude v) else int (dv_magnitude v))"

lemma product_in_i128:
  assumes "dv_magnitude v < 2 ^ 64" "k \<le> 6"
  shows "in_i128 (signed_magnitude v * 10 ^ k)"
proof -
  have k: "(10 :: int) ^ k \<le> 10 ^ 6"
    using assms(2) by (intro power_increasing) simp_all
  have m: "\<bar>signed_magnitude v\<bar> < 2 ^ 64"
    using assms(1) by (auto simp: signed_magnitude_def)
  have "\<bar>signed_magnitude v * 10 ^ k\<bar> = \<bar>signed_magnitude v\<bar> * 10 ^ k"
    by (simp add: abs_mult)
  also have "\<dots> \<le> 2 ^ 64 * 10 ^ 6"
    using k m by (intro mult_mono) simp_all
  also have "\<dots> < 2 ^ 127" by simp
  finally show ?thesis by (auto simp: in_i128_def)
qed

lemma div_exact_iff: "d \<noteq> 0 \<Longrightarrow> x mod d = 0 \<and> n = x div d \<longleftrightarrow> n * d = x" for d x n :: int
  by (metis div_mult_mod_eq add.right_neutral mod_mult_self2_is_0 nonzero_mult_div_cancel_right)

text \<open>Converting an entered decimal value to the units of a declared control is exact: it
  succeeds with \<open>n\<close> precisely when both precisions are at most six, \<open>n\<close> fits the 64-bit
  field and \<open>n\<close> at the control's precision is the same rational number as the entry; nothing is
  ever rounded, and no intermediate product overflows.\<close>

theorem at_decimal_places_exact:
  assumes "dv_magnitude v < 2 ^ 64"
  shows "at_decimal_places v places = Some n \<longleftrightarrow>
     dv_decimal_places v \<le> 6 \<and> places \<le> 6 \<and> in_i64 n
     \<and> n * 10 ^ dv_decimal_places v = signed_magnitude v * 10 ^ places"
proof (cases "dv_decimal_places v > 6 \<or> places > 6")
  case True
  then show ?thesis by (auto simp: at_decimal_places_def)
next
  case False
  let ?d = "dv_decimal_places v"
  show ?thesis
  proof (cases "?d \<le> places")
    case True
    have "in_i128 (signed_magnitude v * 10 ^ (places - ?d))"
      using assms False by (intro product_in_i128) auto
    then have "at_decimal_places v places = Some n \<longleftrightarrow> n = signed_magnitude v * 10 ^ (places - ?d) \<and> in_i64 n"
      using False True by (auto simp: at_decimal_places_def signed_magnitude_def Let_def)
    moreover have "n * 10 ^ ?d = signed_magnitude v * 10 ^ places \<longleftrightarrow> n = signed_magnitude v * 10 ^ (places - ?d)"
      using True power_add [of "10 :: int" "places - ?d" ?d] by auto
    ultimately show ?thesis using False by auto
  next
    case less: False
    let ?div = "10 ^ (?d - places) :: int"
    have "at_decimal_places v places = Some n \<longleftrightarrow>
        signed_magnitude v mod ?div = 0 \<and> n = signed_magnitude v div ?div \<and> in_i64 n"
      using False less by (auto simp: at_decimal_places_def signed_magnitude_def Let_def)
    also have "\<dots> \<longleftrightarrow> n * ?div = signed_magnitude v \<and> in_i64 n"
      using div_exact_iff [of ?div "signed_magnitude v" n] by auto
    also have "\<dots> \<longleftrightarrow> n * 10 ^ ?d = signed_magnitude v * 10 ^ places \<and> in_i64 n"
      using less power_add [of "10 :: int" "?d - places" places] by auto
    finally show ?thesis using False by auto
  qed
qed

theorem at_decimal_places_exact_witness:
  "at_decimal_places \<lparr>dv_negative = True, dv_magnitude = 1250, dv_decimal_places = 3\<rparr> 2 = Some (- 125)"
  using at_decimal_places_exact [of "\<lparr>dv_negative = True, dv_magnitude = 1250, dv_decimal_places = 3\<rparr>" 2 "- 125"]
  by (simp add: in_i64_def signed_magnitude_def)

section \<open>The wire record as a codec\<close>

text \<open>A reference decoder of the wire record: what the receiving owner can tell from it.\<close>

definition unwire :: "RemoteOperation \<Rightarrow> RemoteCommand option" where
  "unwire r =
     (let s = ro_selector r; m = ro_magnitude r; f = ro_flags r; o1 = odd f in
      map_of
        [(1, Recall s),
         (2, Frequency m (if f = 1 then Minus else if f = 2 then Simplex else Plus)),
         (3, Tone o1 m), (4, ToneEnabled o1 (2 \<le> f)), (5, PowerPreset s), (6, StatusCmd o1), (7, ModeCmd s),
         (8, Step (ro_signed_value r)), (9, ScanPreset o1 s), (10, Tune), (11, GetSetting s),
         (12, SetSetting s \<lparr>dv_negative = o1, dv_magnitude = m, dv_decimal_places = ro_decimal_places r\<rparr>),
         (13, StartScan s), (14, PauseScan), (15, ResumeScan), (16, StopScan), (17, ScanDirection o1), (18, Skip),
         (19, MemoryCmd s), (20, Catalog (if s = 1 then Capabilities else if s = 2 then Memories else ScanLists) m),
         (21, ScanStatus s), (22, Inhibit o1), (23, Dwell m), (24, ResumeDelay m),
         (25, Priority (if s = 0 then None else Some s)), (26, CurrentStatus), (27, Invoke s)]
        (ro_operation r))"

lemma unwire_wire: "remote_ok c \<Longrightarrow> unwire (wire c) = Some c"
  by (cases c) (auto simp: unwire_def wire_base_def Let_def sel_ok_def split: RemoteOffset.splits CatalogKind.splits option.splits)

interpretation remote_codec: codec wire unwire remote_ok
  by unfold_locales (rule unwire_wire)

text \<open>C32. Parsed commands stay within the wire record's fields, and the record determines the
  command: two payloads that parse to commands with equal records are the same command.\<close>

theorem parsed_wire_injective:
  assumes "parse_remote_command s = Some c" "parse_remote_command t = Some d"
  shows "(wire c = wire d \<longleftrightarrow> c = d)
     \<and> 1 \<le> ro_operation (wire c) \<and> ro_operation (wire c) \<le> 27 \<and> ro_selector (wire c) < 2 ^ 32
     \<and> ro_magnitude (wire c) < 2 ^ 64 \<and> ro_decimal_places (wire c) \<le> 6 \<and> ro_flags (wire c) \<le> 3
     \<and> in_i64 (ro_signed_value (wire c))"
proof -
  have ok: "remote_ok c" "remote_ok d"
    using assms by (auto intro: parse_remote_ok)
  have "1 \<le> ro_operation (wire c) \<and> ro_operation (wire c) \<le> 27 \<and> ro_selector (wire c) < 2 ^ 32
     \<and> ro_magnitude (wire c) < 2 ^ 64 \<and> ro_decimal_places (wire c) \<le> 6 \<and> ro_flags (wire c) \<le> 3
     \<and> in_i64 (ro_signed_value (wire c))"
    using ok(1) by (cases c) (auto simp: wire_base_def sel_ok_def in_i64_def split: RemoteOffset.splits CatalogKind.splits option.splits)
  then show ?thesis
    using remote_codec.encode_inj [OF ok] by blast
qed


theorem parsed_wire_injective_witness:
  "wire (Recall 5) \<noteq> wire (Priority None)"
proof -
  have "parse_remote_command ''05'' = Some (Recall 5)"
    by (simp add: parse_remote_command_def fixed_commands_def parse_prefix3_def parse_prefix2_def parse_prefix1_def
        split_at_checked_def selector_def nonzero_def number_def parse_unsigned_def is_ascii_digit_def digits_val_def
        digit_val_def cont_def byte_def)
  moreover have "parse_remote_command ''9970'' = Some (Priority None)"
    by (simp add: parse_remote_command_def fixed_commands_def parse_prefix3_def
        split_at_checked_def number_def parse_unsigned_def is_ascii_digit_def digits_val_def
        digit_val_def cont_def byte_def)
  ultimately show ?thesis
    using parsed_wire_injective by blast
qed

section \<open>Frequency entry\<close>

lemma parts3:
  "CHR ''*'' \<notin> set a \<Longrightarrow> CHR ''*'' \<notin> set b \<Longrightarrow> CHR ''*'' \<notin> set c \<Longrightarrow> a \<noteq> [] \<Longrightarrow> b \<noteq> [] \<Longrightarrow> c \<noteq> [] \<Longrightarrow>
   parts 3 (a @ CHR ''*'' # b @ CHR ''*'' # c) = Some [a, b, c]"
  by (simp add: parts_def split_on_append_sep numeral_3_eq_3)

lemma digits_no_star: "list_all is_ascii_digit s \<Longrightarrow> CHR ''*'' \<notin> set s"
proof -
  have "\<not> is_ascii_digit (CHR ''*'')" by (simp add: is_ascii_digit_def)
  then show "list_all is_ascii_digit s \<Longrightarrow> ?thesis" by (metis list_all_iff)
qed

lemma number_digits: "list_all is_ascii_digit s \<Longrightarrow> s \<noteq> [] \<Longrightarrow> digits_val s < 2 ^ b \<Longrightarrow> number b s = Some (digits_val s)"
  by (simp add: number_def parse_unsigned_digits)

definition offset_digit :: "RemoteOffset \<Rightarrow> string" where
  "offset_digit f = (case f of Minus \<Rightarrow> ''1'' | Simplex \<Rightarrow> ''2'' | Plus \<Rightarrow> ''3'')"

lemma parse_leading_1:
  assumes "is_ascii_digit c"
  shows "parse_remote_command (CHR ''1'' # c # s) = parse_frequency (c # s)"
proof -
  have "map_of fixed_commands (CHR ''1'' # c # s) = None"
    by (simp add: fixed_commands_def)
  moreover have "parse_prefix3 (CHR ''1'' # c # s) = None" "parse_prefix2 (CHR ''1'' # c # s) = None"
    by (auto simp: parse_prefix3_def parse_prefix2_def dest!: split_at_checked_Some split: option.splits)
  moreover have "parse_prefix1 (CHR ''1'' # c # s) = parse_frequency (c # s)"
    using assms by (simp add: parse_prefix1_def split_at_checked_def)
  ultimately show ?thesis
    by (simp add: parse_remote_command_def)
qed

text \<open>A frequency keyed as megahertz, star, one to five decimals, star, offset is understood as
  exactly that many hertz: the whole and fractional parts as entered, whatever the number of
  decimals, for every frequency that is not zero and fits 64 bits.\<close>

theorem frequency_entry:
  assumes w: "list_all is_ascii_digit w" "w \<noteq> []" and f: "list_all is_ascii_digit f" "1 \<le> length f" "length f \<le> 5"
    and pos: "0 < digits_val (w @ f)"
    and fits: "digits_val w * 1000000 + digits_val f * 10 ^ (6 - length f) < 2 ^ 64"
  shows "\<exists>hertz. parse_remote_command (''1'' @ w @ ''*'' @ f @ ''*'' @ offset_digit off) = Some (Frequency hertz off)
     \<and> hertz * 10 ^ length f = digits_val (w @ f) * 1000000"
proof -
  let ?h = "digits_val w * 1000000 + digits_val f * 10 ^ (6 - length f)"
  have split: "(10 :: nat) ^ (6 - length f) * 10 ^ length f = 1000000"
    using f(3) by (simp flip: power_add)
  have h: "?h * 10 ^ length f = digits_val (w @ f) * 1000000"
    using split by (simp add: digits_val_append algebra_simps)
  have ne: "f \<noteq> []" using f(2) by auto
  have nz: "?h \<noteq> 0" using h pos by (metis mult_is_0 neq0_conv zero_neq_numeral)
  have fv: "digits_val f \<le> digits_val f * 10 ^ (6 - length f)" by simp
  then have small: "digits_val w < 2 ^ 64" "digits_val f < 2 ^ 64"
    using fits by linarith+
  have num: "number 64 w = Some (digits_val w)" "number 64 f = Some (digits_val f)"
    using small w f(1) ne by (simp_all add: number_digits)
  have ok: "checked 64 (digits_val w * 1000000) = Some (digits_val w * 1000000)"
    "checked 64 (digits_val f * 10 ^ (6 - length f)) = Some (digits_val f * 10 ^ (6 - length f))"
    "checked 64 ?h = Some ?h"
    using fits by (simp_all add: checked_def)
  have "parts 3 (w @ CHR ''*'' # f @ CHR ''*'' # offset_digit off) = Some [w, f, offset_digit off]"
    using w f(1) ne by (intro parts3) (auto simp: digits_no_star offset_digit_def split: RemoteOffset.splits)
  then have "parse_frequency (w @ CHR ''*'' # f @ CHR ''*'' # offset_digit off) = Some (Frequency ?h off)"
    using f(2,3) num ok nz by (cases off) (simp_all add: parse_frequency_def offset_digit_def)
  moreover obtain c w' where "w = c # w'" "is_ascii_digit c"
    using w by (cases w) auto
  ultimately have "parse_remote_command (''1'' @ w @ ''*'' @ f @ ''*'' @ offset_digit off) = Some (Frequency ?h off)"
    using parse_leading_1 by simp
  with h show ?thesis by blast
qed

theorem frequency_entry_witness:
  "parse_remote_command ''1146*52*2'' = Some (Frequency 146520000 Simplex)"
proof -
  have d: "list_all is_ascii_digit ''146''" "list_all is_ascii_digit ''52''"
    by (simp_all add: is_ascii_digit_def)
  have v: "digits_val ''146'' = 146" "digits_val ''52'' = 52" "digits_val (''146'' @ ''52'') = 14652"
    by (simp_all add: digits_val_def digit_val_def)
  show ?thesis
    using frequency_entry [OF d(1) _ d(2), of Simplex] v by (auto simp: offset_digit_def)
qed

end
