(* ===== verification/Dtmf_Command.thy ===== *)
theory Dtmf_Command
  imports Remote_Base
begin

text \<open>
  Configurable DTMF command recognition and bounded collection, \<^verbatim>\<open>core/src/command.rs\<close>. The
  lemmas show that the validation rule makes recognition independent of the order of the mapping
  table, that the shipped table passes it, and that the collector returns what was keyed.
\<close>

section \<open>Definitions\<close>

datatype LinkAction =
    ActDisconnect | ActMonitor | ActTransceive | ActCommand | ActStatus | ActDisconnectAll
  | ActDisconnectPermanentAll | ActLastKeyed | ActLocalMonitor | ActDisconnectPermanent
  | ActPermanentMonitor | ActPermanentTransceive | ActFullStatus | ActReconnectAll
  | ActReconnectPermanentAll | ActPermanentLocalMonitor | ActDisconnectNonPermanentAll | ActTime
  | ActAdminUnlock | ActAdminLock | ActParrotEnable | ActParrotDisable | ActPadTest | ActMessage
  | ActSiteStatus | ActCancelMessage | ActEchoTelemetry | ActRemoteBase

record CommandMapping =
  cm_digits :: string
  cm_action :: LinkAction

record Command =
  cd_action :: LinkAction
  cd_node :: string

datatype CommandMapError = UnknownAction | InvalidPrefix | AmbiguousPrefix

definition takes_node :: "LinkAction \<Rightarrow> bool" where
  "takes_node a \<longleftrightarrow> a \<notin> {ActStatus, ActDisconnectAll, ActDisconnectPermanentAll, ActLastKeyed, ActFullStatus,
     ActReconnectAll, ActReconnectPermanentAll, ActDisconnectNonPermanentAll, ActTime, ActParrotEnable,
     ActParrotDisable, ActPadTest, ActCancelMessage, ActRemoteBase}"

definition prefix_char :: "char \<Rightarrow> bool" where
  "prefix_char c \<longleftrightarrow> is_ascii_digit c \<or> c \<in> set ''ABCD''"

definition mapping_invalid :: "CommandMapping \<Rightarrow> bool" where
  "mapping_invalid m \<longleftrightarrow> length (cm_digits m) > 63
     \<or> (cm_digits m \<noteq> [] \<and> \<not> list_all prefix_char (cm_digits m))"

definition pair_ambiguous :: "CommandMapping \<Rightarrow> CommandMapping \<Rightarrow> bool" where
  "pair_ambiguous l r \<longleftrightarrow>
     (if cm_digits l = [] \<or> cm_digits r = []
         \<or> (\<not> prefix (cm_digits r) (cm_digits l) \<and> \<not> prefix (cm_digits l) (cm_digits r))
      then False
      else
        let equal = (cm_digits l = cm_digits r);
            longer = (if length (cm_digits l) > length (cm_digits r) then l else r) in
        equal \<or> takes_node (cm_action longer)
        \<or> cm_action l = ActMessage \<or> cm_action l = ActSiteStatus
        \<or> cm_action r = ActMessage \<or> cm_action r = ActSiteStatus
        \<or> cm_action l = ActRemoteBase \<or> cm_action r = ActRemoteBase)"

fun pairs_ambiguous :: "CommandMapping list \<Rightarrow> bool" where
  "pairs_ambiguous [] \<longleftrightarrow> False"
| "pairs_ambiguous (l # ms) \<longleftrightarrow> list_ex (pair_ambiguous l) ms \<or> pairs_ambiguous ms"

definition command_map_validate :: "CommandMapping list \<Rightarrow> CommandMapError + unit" where
  "command_map_validate mappings =
     (if list_ex mapping_invalid mappings then Inl InvalidPrefix
      else if pairs_ambiguous mappings then Inl AmbiguousPrefix
      else Inr ())"

type_synonym DtmfCommandMap = "CommandMapping list"

definition command_map_new :: "CommandMapping list \<Rightarrow> CommandMapError + DtmfCommandMap" where
  "command_map_new mappings =
     (case command_map_validate mappings of Inl e \<Rightarrow> Inl e | Inr _ \<Rightarrow> Inr mappings)"

definition exact_match :: "string \<Rightarrow> CommandMapping \<Rightarrow> bool" where
  "exact_match digits m \<longleftrightarrow> cm_digits m \<noteq> [] \<and> cm_action m \<noteq> ActRemoteBase
     \<and> \<not> takes_node (cm_action m) \<and> cm_digits m = digits"

definition node_match :: "string \<Rightarrow> CommandMapping \<Rightarrow> Command option" where
  "node_match digits m =
     (if cm_digits m = [] \<or> \<not> prefix (cm_digits m) digits \<or> \<not> takes_node (cm_action m) then None
      else let node = drop (length (cm_digits m)) digits in
        if node = [] \<or> \<not> list_all is_ascii_digit node then None
        else Some \<lparr>cd_action = cm_action m, cd_node = node\<rparr>)"

definition command_parse :: "DtmfCommandMap \<Rightarrow> string \<Rightarrow> Command option" where
  "command_parse mappings digits =
     (case find (exact_match digits) mappings of
        Some m \<Rightarrow> Some \<lparr>cd_action = cm_action m, cd_node = []\<rparr>
      | None \<Rightarrow> find_map (node_match digits) mappings)"

definition parse_remote :: "DtmfCommandMap \<Rightarrow> string \<Rightarrow> RemoteCommand option" where
  "parse_remote mappings digits =
     (case find (\<lambda>m. cm_action m = ActRemoteBase \<and> cm_digits m \<noteq> []) mappings of
        None \<Rightarrow> None
      | Some m \<Rightarrow> (case strip_prefix (cm_digits m) digits of
                    None \<Rightarrow> None
                  | Some payload \<Rightarrow> parse_remote_command payload))"

definition all_actions :: "LinkAction list" where
  "all_actions = [ActDisconnect, ActMonitor, ActTransceive, ActCommand, ActStatus, ActDisconnectPermanentAll,
     ActLastKeyed, ActLocalMonitor, ActDisconnectPermanent, ActPermanentMonitor, ActPermanentTransceive,
     ActFullStatus, ActReconnectPermanentAll, ActPermanentLocalMonitor, ActDisconnectNonPermanentAll, ActTime,
     ActAdminUnlock, ActAdminLock, ActParrotEnable, ActParrotDisable, ActPadTest, ActMessage, ActSiteStatus,
     ActCancelMessage, ActEchoTelemetry, ActRemoteBase]"

definition standard_mappings :: "CommandMapping list" where
  "standard_mappings =
     map (\<lambda>(d, a). \<lparr>cm_digits = d, cm_action = a\<rparr>)
       (zip [''1'', ''2'', ''3'', ''4'', ''70'', ''806'', ''72'', ''75'', ''811'', ''812'', ''813'', ''73'',
             ''816'', ''818'', ''10'', ''722'', ''800'', ''801'', ''804'', ''805'', ''82'', ''77'', ''76'',
             ''78'', '''', ''''] all_actions)"

record CommandCollector =
  cc_mappings :: DtmfCommandMap
  cc_digits :: string
  cc_last_ms :: u64
  cc_active :: bool

definition collector :: "DtmfCommandMap \<Rightarrow> CommandCollector" where
  "collector mappings = \<lparr>cc_mappings = mappings, cc_digits = [], cc_last_ms = 0, cc_active = False\<rparr>"

definition may_extend :: "CommandMapping list \<Rightarrow> string \<Rightarrow> bool" where
  "may_extend mappings digits \<longleftrightarrow>
     list_ex (\<lambda>m. \<not> takes_node (cm_action m) \<and> length (cm_digits m) > length digits \<and> prefix digits (cm_digits m)) mappings"

definition remote_family :: "CommandCollector \<Rightarrow> bool" where
  "remote_family c \<longleftrightarrow>
     list_ex (\<lambda>m. cm_action m = ActRemoteBase \<and> cm_digits m \<noteq> [] \<and> prefix (cm_digits m) (cc_digits c)) (cc_mappings c)"

definition completes :: "DtmfCommandMap \<Rightarrow> string \<Rightarrow> bool" where
  "completes mappings digits \<longleftrightarrow>
     (case command_parse mappings digits of
        Some command \<Rightarrow> cd_node command = [] \<and> \<not> may_extend mappings digits
      | None \<Rightarrow> False)"

text \<open>\<^verbatim>\<open>feed\<close>: the tail after the digit has been taken.\<close>

definition feed_finish :: "CommandCollector \<Rightarrow> bool \<Rightarrow> string option \<times> CommandCollector" where
  "feed_finish c finish =
     (if \<not> finish then (None, c)
      else (if cc_digits c \<noteq> [] then Some (cc_digits c) else None, c\<lparr>cc_active := False\<rparr>))"

definition feed :: "CommandCollector \<Rightarrow> char \<Rightarrow> u64 \<Rightarrow> string option \<times> CommandCollector" where
  "feed c digit now_ms =
     (let remote = cc_active c \<and> remote_family c in
      if digit = CHR ''*'' \<and> \<not> remote
      then (None, c\<lparr>cc_digits := [], cc_active := True, cc_last_ms := now_ms\<rparr>)
      else if \<not> cc_active c then (None, c)
      else if digit \<noteq> CHR 0x00 \<and> digit \<noteq> CHR ''#''
      then (if \<not> (is_ascii_digit digit \<or> digit \<in> set ''ABCD'' \<or> digit = CHR ''*'') \<or> length (cc_digits c) = 127
            then (None, c\<lparr>cc_active := False\<rparr>)
            else let c' = c\<lparr>cc_digits := cc_digits c @ [digit], cc_last_ms := now_ms\<rparr> in
              feed_finish c' (completes (cc_mappings c') (cc_digits c')))
      else feed_finish c (digit = CHR ''#'' \<or> (digit = CHR 0x00 \<and> now_ms - cc_last_ms c \<ge> 3000)))"

definition remote_candidate :: "CommandCollector \<Rightarrow> string option" where
  "remote_candidate c =
     (if \<not> cc_active c then None
      else find_map (\<lambda>m.
        if cm_action m \<noteq> ActCommand \<or> cm_digits m = [] then None
        else (case strip_prefix (cm_digits m) (cc_digits c) of
                None \<Rightarrow> None
              | Some destination \<Rightarrow>
                  if destination \<noteq> [] \<and> list_all is_ascii_digit destination then Some destination else None))
        (cc_mappings c))"

section \<open>Recognition\<close>

definition unambiguous :: "CommandMapping list \<Rightarrow> bool" where
  "unambiguous ms \<longleftrightarrow> sorted_wrt (\<lambda>l r. \<not> pair_ambiguous l r) ms"

lemma pair_ambiguous_commute: "pair_ambiguous l r = pair_ambiguous r l"
proof (cases "strict_prefix (cm_digits l) (cm_digits r) \<or> strict_prefix (cm_digits r) (cm_digits l)")
  case True
  then have "length (cm_digits l) < length (cm_digits r) \<or> length (cm_digits r) < length (cm_digits l)"
    using prefix_length_less [of "cm_digits l" "cm_digits r"] prefix_length_less [of "cm_digits r" "cm_digits l"] by argo
  then have longer: "(if length (cm_digits l) > length (cm_digits r) then l else r)
      = (if length (cm_digits r) > length (cm_digits l) then r else l)"
    by auto
  show ?thesis
    unfolding pair_ambiguous_def Let_def longer by argo
next
  case False
  then have "cm_digits l = cm_digits r \<or> \<not> prefix (cm_digits l) (cm_digits r) \<and> \<not> prefix (cm_digits r) (cm_digits l)"
    by (auto simp: strict_prefix_def)
  then show ?thesis
    unfolding pair_ambiguous_def Let_def by (elim disjE conjE) simp_all
qed

lemma pairs_ambiguous_iff: "\<not> pairs_ambiguous ms \<longleftrightarrow> unambiguous ms"
  by (induction ms) (auto simp: unambiguous_def list_ex_iff)

lemma unambiguous_unique:
  "unambiguous ms \<Longrightarrow> l \<in> set ms \<Longrightarrow> r \<in> set ms \<Longrightarrow> pair_ambiguous l r \<Longrightarrow> l = r"
proof (induction ms)
  case (Cons m ms)
  then show ?case
    using pair_ambiguous_commute [of l r] by (auto simp: unambiguous_def)
qed simp

lemma exact_unique:
  assumes "unambiguous ms" "l \<in> set ms" "r \<in> set ms" "exact_match d l" "exact_match d r"
  shows "l = r"
  using assms by (intro unambiguous_unique [OF assms(1-3)]) (auto simp: exact_match_def pair_ambiguous_def Let_def)

lemma node_unique:
  assumes "unambiguous ms" "l \<in> set ms" "r \<in> set ms" "node_match d l = Some x" "node_match d r = Some y"
  shows "l = r"
proof (rule unambiguous_unique [OF assms(1-3)])
  have m: "cm_digits l \<noteq> []" "cm_digits r \<noteq> []" "prefix (cm_digits l) d" "prefix (cm_digits r) d"
    "takes_node (cm_action l)" "takes_node (cm_action r)"
    using assms(4,5) by (auto simp: node_match_def Let_def split: if_splits)
  then have "prefix (cm_digits l) (cm_digits r) \<or> prefix (cm_digits r) (cm_digits l)"
    using prefix_same_cases by blast
  with m show "pair_ambiguous l r"
    by (auto simp: pair_ambiguous_def Let_def)
qed

lemma find_exact_some: "(\<exists>m \<in> set ms. exact_match d m) \<longleftrightarrow> (\<exists>m. find (exact_match d) ms = Some m)"
  by (cases "find (exact_match d) ms") (auto simp: find_None_iff dest: find_SomeD)

lemma parse_exact:
  assumes "unambiguous ms" "m \<in> set ms" "exact_match d m"
  shows "command_parse ms d = Some \<lparr>cd_action = cm_action m, cd_node = []\<rparr>"
proof -
  obtain m' where m': "find (exact_match d) ms = Some m'"
    using assms(2,3) find_exact_some by blast
  then have "m' = m"
    using find_SomeD [OF m'] exact_unique [OF assms(1)] assms(2,3) by blast
  with m' show ?thesis by (simp add: command_parse_def)
qed

lemma parse_node:
  assumes "unambiguous ms" "m \<in> set ms" "node_match d m = Some c" "\<forall>m \<in> set ms. \<not> exact_match d m"
  shows "command_parse ms d = Some c"
proof -
  have "find_map (node_match d) ms \<noteq> None"
    using assms(2,3) find_map_None [of "node_match d" ms] by auto
  then obtain c' where c': "find_map (node_match d) ms = Some c'" by blast
  then obtain m' where m': "m' \<in> set ms" "node_match d m' = Some c'"
    using find_map_Some [OF c'] by blast
  have "m' = m" by (rule node_unique [OF assms(1) m'(1) assms(2) m'(2) assms(3)])
  with m' assms(3) have "c' = c" by simp
  moreover have "find (exact_match d) ms = None"
    using assms(4) by (simp add: find_None_iff)
  ultimately show ?thesis using c' by (simp add: command_parse_def)
qed

lemma parse_none:
  "\<forall>m \<in> set ms. \<not> exact_match d m \<and> node_match d m = None \<Longrightarrow> command_parse ms d = None"
  by (simp add: command_parse_def find_map_None find_None_iff [THEN iffD2])

lemma validate_unambiguous: "command_map_validate ms = Inr u \<Longrightarrow> unambiguous ms"
  by (simp add: command_map_validate_def pairs_ambiguous_iff split: if_splits)

text \<open>C29. Recognition does not depend on the order of a validated table: two validated tables with
  the same mappings recognise every digit string as the same command.\<close>

theorem parse_order_independent:
  assumes "command_map_validate ms = Inr ()" "command_map_validate ms' = Inr ()" "set ms = set ms'"
  shows "command_parse ms d = command_parse ms' d"
proof -
  note u = assms(1,2) [THEN validate_unambiguous]
  consider m where "m \<in> set ms" "exact_match d m"
    | m c where "\<forall>m \<in> set ms. \<not> exact_match d m" "m \<in> set ms" "node_match d m = Some c"
    | "\<forall>m \<in> set ms. \<not> exact_match d m \<and> node_match d m = None"
    by (metis not_None_eq)
  then show ?thesis
  proof cases
    case 1
    with assms(3) show ?thesis using parse_exact [OF u(1)] parse_exact [OF u(2)] by simp
  next
    case 2
    with assms(3) show ?thesis using parse_node [OF u(1)] parse_node [OF u(2)] by simp
  next
    case 3
    with assms(3) show ?thesis using parse_none by simp
  qed
qed

text \<open>The standard table that \<^verbatim>\<open>standard\<close> builds passes validation, so its
  \<^verbatim>\<open>expect\<close> never panics, and it recognises the documented commands.\<close>

lemma standard_map_valid:
  "command_map_new standard_mappings = Inr standard_mappings \<and> length standard_mappings = 26
   \<and> command_parse standard_mappings ''32000'' = Some \<lparr>cd_action = ActTransceive, cd_node = ''2000''\<rparr>
   \<and> command_parse standard_mappings ''10'' = Some \<lparr>cd_action = ActDisconnectNonPermanentAll, cd_node = []\<rparr>
   \<and> command_parse standard_mappings ''806'' = Some \<lparr>cd_action = ActDisconnectPermanentAll, cd_node = []\<rparr>"
  by code_simp

section \<open>Collection\<close>

fun feed_all :: "CommandCollector \<Rightarrow> (char \<times> u64) list \<Rightarrow> string option list \<times> CommandCollector" where
  "feed_all c [] = ([], c)"
| "feed_all c ((d, t) # xs) =
     (let (out, c') = feed c d t; (outs, c'') = feed_all c' xs in (out # outs, c''))"

lemma prefix_char_facts:
  "prefix_char d \<Longrightarrow> d \<noteq> CHR ''*'' \<and> d \<noteq> CHR ''#'' \<and> d \<noteq> CHR 0x00"
  by (auto simp: prefix_char_def is_ascii_digit_def)

lemma feed_digit:
  assumes "cc_active c" "prefix_char d" "length (cc_digits c) < 127"
  shows "feed c d t = feed_finish (c\<lparr>cc_digits := cc_digits c @ [d], cc_last_ms := t\<rparr>)
           (completes (cc_mappings c) (cc_digits c @ [d]))"
  using assms prefix_char_facts [OF assms(2)] by (auto simp: feed_def Let_def prefix_char_def)

lemma collect_run:
  assumes "cc_active c" "list_all prefix_char ds" "length (cc_digits c) + length ds \<le> 127" "length ts = length ds"
    and "\<forall>k. 0 < k \<and> k \<le> length ds \<longrightarrow> \<not> completes (cc_mappings c) (cc_digits c @ take k ds)"
  shows "\<exists>t. feed_all c (zip ds ts) = (replicate (length ds) None, c\<lparr>cc_digits := cc_digits c @ ds, cc_last_ms := t\<rparr>)"
  using assms
proof (induction ds arbitrary: c ts)
  case Nil
  then show ?case by (intro exI [of _ "cc_last_ms c"]) simp
next
  case (Cons d ds)
  then obtain t ts' where ts: "ts = t # ts'" by (cases ts) auto
  let ?c = "c\<lparr>cc_digits := cc_digits c @ [d], cc_last_ms := t\<rparr>"
  have "\<not> completes (cc_mappings c) (cc_digits c @ [d])"
    using Cons.prems(5) by (metis One_nat_def Suc_le_mono le0 length_Cons less_Suc0 take_Suc_Cons take0)
  then have f: "feed c d t = (None, ?c)"
    using Cons.prems feed_digit [of c d t] by (simp add: feed_finish_def)
  have nc: "\<forall>k. 0 < k \<and> k \<le> length ds \<longrightarrow> \<not> completes (cc_mappings ?c) (cc_digits ?c @ take k ds)"
    using Cons.prems(5) by (auto dest: spec [of _ "Suc _"])
  obtain t' where "feed_all ?c (zip ds ts') = (replicate (length ds) None, ?c\<lparr>cc_digits := cc_digits ?c @ ds, cc_last_ms := t'\<rparr>)"
    using Cons.IH [of ?c ts'] Cons.prems nc ts by auto
  with f ts show ?case by auto
qed

theorem parse_order_independent_witness:
  "command_parse (rev standard_mappings) ''32000'' = command_parse standard_mappings ''32000''"
proof -
  have "command_map_validate (rev standard_mappings) = Inr ()" "command_map_validate standard_mappings = Inr ()"
    by code_simp+
  then show ?thesis
    by (rule parse_order_independent) simp
qed

lemma feed_all_append:
  "feed_all c (xs @ ys) = (let (o1, c1) = feed_all c xs; (o2, c2) = feed_all c1 ys in (o1 @ o2, c2))"
  by (induction xs arbitrary: c) (auto simp: Let_def split: prod.splits)

lemma feed_star: "feed (collector ms) (CHR ''*'') t = (None, (collector ms)\<lparr>cc_active := True, cc_last_ms := t\<rparr>)"
  by (simp add: feed_def collector_def)

lemma exact_prefix_not_complete:
  assumes "m \<in> set ms" "exact_match d m" "strict_prefix p d"
  shows "\<not> completes ms p"
proof -
  have "may_extend ms p"
    using assms prefix_length_less [OF assms(3)]
    by (auto simp: may_extend_def list_ex_iff exact_match_def strict_prefix_def intro!: bexI [of _ m])
  then show ?thesis by (simp add: completes_def split: option.splits)
qed

lemma strict_take: "k < length d \<Longrightarrow> strict_prefix (take k d) d"
  by (auto simp: strict_prefix_def take_is_prefix take_all_iff)

text \<open>Keying star and the digits of an argument-free command that no other one extends returns
  exactly those digits with the last digit, and nothing before, whatever the times; the collector is
  idle again, and the digits are recognised as that command.\<close>

theorem exact_command_collected:
  assumes valid: "command_map_validate ms = Inr ()" and m: "m \<in> set ms" "exact_match d m" "\<not> may_extend ms d"
    and ts: "length ts = length d"
  shows "fst (feed_all (collector ms) ((CHR ''*'', t) # zip d ts)) = replicate (length d) None @ [Some d]
     \<and> \<not> cc_active (snd (feed_all (collector ms) ((CHR ''*'', t) # zip d ts)))
     \<and> command_parse ms d = Some \<lparr>cd_action = cm_action m, cd_node = []\<rparr>"
proof -
  let ?c = "(collector ms)\<lparr>cc_active := True, cc_last_ms := t\<rparr>"
  have dm: "d = cm_digits m" "d \<noteq> []" using m(2) by (auto simp: exact_match_def)
  have "\<not> mapping_invalid m"
    using valid m(1) by (auto simp: command_map_validate_def list_ex_iff split: if_splits)
  then have d: "list_all prefix_char d" "length d \<le> 63"
    using dm by (auto simp: mapping_invalid_def)
  have parse: "command_parse ms d = Some \<lparr>cd_action = cm_action m, cd_node = []\<rparr>"
    using parse_exact [OF validate_unambiguous [OF valid] m(1,2)] .
  then have fin: "completes ms d"
    using m(3) by (simp add: completes_def)
  obtain e l where e: "d = e @ [l]" using dm(2) by (cases d rule: rev_cases) auto
  obtain ts' tl where ts': "ts = ts' @ [tl]" "length ts' = length e"
    using ts e by (cases ts rule: rev_cases) auto
  have c: "cc_active ?c" "cc_digits ?c = []" "cc_mappings ?c = ms" by (simp_all add: collector_def)
  have "\<not> completes ms (take k e)" if "k \<le> length e" for k
    using that exact_prefix_not_complete [OF m(1,2) strict_take, of k] e by simp
  then obtain t' where run: "feed_all ?c (zip e ts') = (replicate (length e) None, ?c\<lparr>cc_digits := e, cc_last_ms := t'\<rparr>)"
    using collect_run [of ?c e ts'] c d e ts' by auto
  have "feed (?c\<lparr>cc_digits := e, cc_last_ms := t'\<rparr>) l tl
      = feed_finish (?c\<lparr>cc_digits := d, cc_last_ms := tl\<rparr>) (completes ms d)"
    using feed_digit [of "?c\<lparr>cc_digits := e, cc_last_ms := t'\<rparr>" l tl] c d e by (simp add: collector_def)
  also have "\<dots> = (Some d, ?c\<lparr>cc_digits := d, cc_last_ms := tl, cc_active := False\<rparr>)"
    using fin dm by (simp add: feed_finish_def)
  finally have last: "feed (?c\<lparr>cc_digits := e, cc_last_ms := t'\<rparr>) l tl
      = (Some d, ?c\<lparr>cc_digits := d, cc_last_ms := tl, cc_active := False\<rparr>)" .
  have "feed_all ?c (zip d ts) = (replicate (length e) None @ [Some d], ?c\<lparr>cc_digits := d, cc_last_ms := tl, cc_active := False\<rparr>)"
    using run last e ts' by (simp add: feed_all_append)
  then show ?thesis
    using parse e feed_star by (simp add: replicate_append_same)
qed

theorem exact_command_collected_witness:
  "fst (feed_all (collector standard_mappings) ((CHR ''*'', 0) # zip ''70'' [5, 900])) = [None, None, Some ''70'']"
proof -
  have v: "command_map_validate standard_mappings = Inr ()" by code_simp
  have m: "standard_mappings ! 4 \<in> set standard_mappings" "exact_match ''70'' (standard_mappings ! 4)"
    "\<not> may_extend standard_mappings ''70''"
    by code_simp+
  show ?thesis
    using exact_command_collected [OF v m, of "[5, 900]" 0] by (simp add: numeral_2_eq_2)
qed

text \<open>Keying star, a link command's digits, a decimal node and the hash returns the whole entry
  at the hash and nothing before, provided no argument-free command is a prefix of the entry and it
  is at most 127 digits long; the entry is recognised as that command with that node.\<close>

theorem node_command_collected:
  assumes valid: "command_map_validate ms = Inr ()" and m: "m \<in> set ms" "takes_node (cm_action m)" "cm_digits m \<noteq> []"
    and node: "node \<noteq> []" "list_all is_ascii_digit node"
    and free: "\<forall>k. \<forall>x \<in> set ms. \<not> exact_match (take k (cm_digits m @ node)) x"
    and len: "length (cm_digits m @ node) \<le> 127" and ts: "length ts = length (cm_digits m @ node)"
  shows "fst (feed_all (collector ms) ((CHR ''*'', t) # zip (cm_digits m @ node) ts @ [(CHR ''#'', t')]))
       = replicate (Suc (length (cm_digits m @ node))) None @ [Some (cm_digits m @ node)]
     \<and> command_parse ms (cm_digits m @ node) = Some \<lparr>cd_action = cm_action m, cd_node = node\<rparr>"
proof -
  let ?d = "cm_digits m @ node"
  let ?c = "(collector ms)\<lparr>cc_active := True, cc_last_ms := t\<rparr>"
  have "\<not> mapping_invalid m"
    using valid m(1) by (auto simp: command_map_validate_def list_ex_iff split: if_splits)
  then have d: "list_all prefix_char ?d"
    using m(3) node(2) by (auto simp: mapping_invalid_def prefix_char_def list_all_iff)
  have nc: "\<not> completes ms (take k ?d)" for k
    using free by (auto simp: completes_def command_parse_def find_None_iff node_match_def Let_def
      dest!: find_map_Some find_SomeD split: option.splits if_splits)
  obtain t1 where run: "feed_all ?c (zip ?d ts) = (replicate (length ?d) None, ?c\<lparr>cc_digits := ?d, cc_last_ms := t1\<rparr>)"
    using collect_run [of ?c ?d ts] d len ts nc by (auto simp: collector_def)
  have hash: "feed (?c\<lparr>cc_digits := ?d, cc_last_ms := t1\<rparr>) (CHR ''#'') t'
      = (Some ?d, ?c\<lparr>cc_digits := ?d, cc_last_ms := t1, cc_active := False\<rparr>)"
    using node by (simp add: feed_def Let_def feed_finish_def collector_def)
  have "node_match ?d m = Some \<lparr>cd_action = cm_action m, cd_node = node\<rparr>"
    using m node by (simp add: node_match_def Let_def)
  moreover have "\<forall>x \<in> set ms. \<not> exact_match ?d x"
    using free by (metis order.refl take_all)
  ultimately have "command_parse ms ?d = Some \<lparr>cd_action = cm_action m, cd_node = node\<rparr>"
    using parse_node [OF validate_unambiguous [OF valid] m(1)] by blast
  with run hash feed_star [of ms t] show ?thesis
    by (simp add: feed_all_append replicate_append_same)
qed


theorem node_command_collected_witness:
  "fst (feed_all (collector standard_mappings) ((CHR ''*'', 0) # zip (''3'' @ ''2000'') [1, 2, 3, 4, 5] @ [(CHR ''#'', 6)]))
     = [None, None, None, None, None, None, Some ''32000'']"
proof -
  let ?m = "standard_mappings ! 2"
  have v: "command_map_validate standard_mappings = Inr ()" by code_simp
  have m: "?m \<in> set standard_mappings" "takes_node (cm_action ?m)" "cm_digits ?m \<noteq> []" "cm_digits ?m = ''3''"
    by code_simp+
  have n: "''2000'' \<noteq> []" "list_all is_ascii_digit ''2000''" by code_simp+
  have all: "list_all (\<lambda>k. list_all (\<lambda>x. \<not> exact_match (take k (''3'' @ ''2000'')) x) standard_mappings) [0..<6]"
    by code_simp
  have f: "\<forall>k. \<forall>x \<in> set standard_mappings. \<not> exact_match (take k (cm_digits ?m @ ''2000'')) x"
  proof
    fix k
    have "take k (''3'' @ ''2000'') = take (min k 5) (''3'' @ ''2000'')"
      by (cases "k \<le> 5") simp_all
    moreover have "min k 5 \<in> set [0..<6]" by auto
    ultimately show "\<forall>x \<in> set standard_mappings. \<not> exact_match (take k (cm_digits ?m @ ''2000'')) x"
      unfolding m(4) using all unfolding list_all_iff by metis
  qed
  show ?thesis
    using node_command_collected [OF v m(1-3) n f, of "[1, 2, 3, 4, 5]" 0 6] by (simp add: m(4))
qed

end
