(* ===== verification/Tx_Policy.thy ===== *)
theory Tx_Policy
  imports Prelude
begin

text \<open>
  Transmitter policy: the duplex hang of \<^verbatim>\<open>core/src/policy/duplex.rs\<close>, identifier selection of
  \<^verbatim>\<open>core/src/policy/identifier.rs\<close> and the traffic watchdog \<^verbatim>\<open>TimeoutPolicy\<close> of
  \<^verbatim>\<open>core/src/controller/timeout.rs\<close>. Plain subtraction on times is the wrapping subtraction of
  64-bit words.
\<close>

section \<open>Duplex policy\<close>

record DuplexPolicy =
  dp_keyed :: bool
  dp_last_audio_ms :: u64
  dp_release_hang_ms :: u64

definition duplex_default :: DuplexPolicy where
  "duplex_default = \<lparr>dp_keyed = False, dp_last_audio_ms = 0, dp_release_hang_ms = 0\<rparr>"

definition duplex_update :: "DuplexPolicy \<Rightarrow> bool \<Rightarrow> bool \<Rightarrow> bool \<Rightarrow> u64 \<Rightarrow> u64 \<Rightarrow> bool \<times> DuplexPolicy" where
  "duplex_update p full_duplex receiver_active transmit_active now_ms hang_ms =
     (let p' = (if \<not> full_duplex \<and> receiver_active then p\<lparr>dp_keyed := False\<rparr>
                else if transmit_active \<or> (full_duplex \<and> receiver_active)
                then p\<lparr>dp_keyed := True, dp_last_audio_ms := now_ms, dp_release_hang_ms := hang_ms\<rparr>
                else if dp_keyed p \<and> now_ms - dp_last_audio_ms p \<ge> dp_release_hang_ms p
                then p\<lparr>dp_keyed := False\<rparr>
                else p) in
      (dp_keyed p', p'))"

section \<open>Identifier policy\<close>

record IdentifierState =
  is_satisfied_ms :: u64
  is_retry_after_ms :: u64
  is_activity :: bool
  is_first_key_pending :: bool

record IdentifierRule =
  ir_interval_ms :: u64
  ir_priority :: int
  ir_first_key_only :: bool
  ir_regardless_of_activity :: bool

record IdentifierPolicy =
  ip_states :: "IdentifierState list"
  ip_next_first_key :: nat
  ip_first_key_completed :: bool
  ip_first_key_completed_ms :: u64

definition identifier_state_default :: IdentifierState where
  "identifier_state_default = \<lparr>is_satisfied_ms = 0, is_retry_after_ms = 0, is_activity = False,
     is_first_key_pending = False\<rparr>"

definition identifier_new :: "IdentifierRule list \<Rightarrow> IdentifierPolicy" where
  "identifier_new rules = \<lparr>ip_states = replicate (length rules) identifier_state_default,
     ip_next_first_key = 0, ip_first_key_completed = False, ip_first_key_completed_ms = 0\<rparr>"

definition identifier_activity :: "IdentifierPolicy \<Rightarrow> IdentifierPolicy" where
  "identifier_activity p = p\<lparr>ip_first_key_completed := False,
     ip_states := map (\<lambda>s. s\<lparr>is_activity := True\<rparr>) (ip_states p)\<rparr>"

definition first_key_eligible :: "IdentifierPolicy \<Rightarrow> IdentifierRule list \<Rightarrow> u64 \<Rightarrow> u64 \<Rightarrow> nat \<Rightarrow> bool" where
  "first_key_eligible p rules idle_ms now_ms index \<longleftrightarrow>
     ir_first_key_only (rules ! index) \<and> idle_ms \<ge> ir_interval_ms (rules ! index)
     \<and> sat_sub now_ms (ip_first_key_completed_ms p) \<ge> ir_interval_ms (rules ! index)"

definition identifier_first_key ::
    "IdentifierPolicy \<Rightarrow> IdentifierRule list \<Rightarrow> u64 \<Rightarrow> u64 \<Rightarrow> nat option \<times> IdentifierPolicy" where
  "identifier_first_key p rules idle_ms now_ms =
     (if ip_first_key_completed p \<or> list_ex is_first_key_pending (ip_states p) then (None, p)
      else (case find (first_key_eligible p rules idle_ms now_ms)
                   ([ip_next_first_key p..<length rules] @ [0..<ip_next_first_key p]) of
              None \<Rightarrow> (None, p)
            | Some selected \<Rightarrow>
                (Some selected,
                 p\<lparr>ip_states := (ip_states p)[selected := (ip_states p ! selected)\<lparr>is_first_key_pending := True\<rparr>],
                   ip_next_first_key := (selected + 1) mod length rules\<rparr>)))"

definition identifier_due :: "u64 \<Rightarrow> IdentifierRule \<Rightarrow> IdentifierState \<Rightarrow> bool" where
  "identifier_due now_ms rule state \<longleftrightarrow>
     (if ir_first_key_only rule then is_first_key_pending state
      else now_ms - is_satisfied_ms state \<ge> ir_interval_ms rule
           \<and> (ir_regardless_of_activity rule \<or> is_activity state))"

text \<open>The loop of \<^verbatim>\<open>select_where\<close> over the zipped rules and states.\<close>

fun select_loop ::
    "IdentifierRule list \<Rightarrow> u64 \<Rightarrow> (nat \<Rightarrow> bool) \<Rightarrow> nat \<Rightarrow> (IdentifierRule \<times> IdentifierState) list \<Rightarrow> nat option \<Rightarrow> nat option" where
  "select_loop rules now_ms elig index [] selected = selected"
| "select_loop rules now_ms elig index ((rule, state) # xs) selected =
     select_loop rules now_ms elig (Suc index) xs
       (if identifier_due now_ms rule state \<and> elig index \<and> now_ms \<ge> is_retry_after_ms state
           \<and> (case selected of None \<Rightarrow> True | Some current \<Rightarrow> ir_priority rule > ir_priority (rules ! current))
        then Some index else selected)"

definition identifier_select_where ::
    "IdentifierPolicy \<Rightarrow> IdentifierRule list \<Rightarrow> u64 \<Rightarrow> bool \<Rightarrow> bool \<Rightarrow> (nat \<Rightarrow> bool) \<Rightarrow> nat option" where
  "identifier_select_where p rules now_ms receiver_active full_duplex elig =
     (if receiver_active \<and> \<not> full_duplex then None
      else select_loop rules now_ms elig 0 (zip rules (ip_states p)) None)"

definition identifier_select :: "IdentifierPolicy \<Rightarrow> IdentifierRule list \<Rightarrow> u64 \<Rightarrow> bool \<Rightarrow> bool \<Rightarrow> nat option" where
  "identifier_select p rules now_ms receiver_active full_duplex =
     identifier_select_where p rules now_ms receiver_active full_duplex (\<lambda>_. True)"

definition identifier_defer :: "IdentifierPolicy \<Rightarrow> IdentifierRule list \<Rightarrow> nat \<Rightarrow> u64 \<Rightarrow> IdentifierPolicy" where
  "identifier_defer p rules selected now_ms =
     (if selected < length rules \<and> selected < length (ip_states p)
      then p\<lparr>ip_states := (ip_states p)[selected := (ip_states p ! selected)
             \<lparr>is_retry_after_ms := sat_add now_ms (ir_interval_ms (rules ! selected))\<rparr>]\<rparr>
      else p)"

definition identifier_satisfies :: "IdentifierRule list \<Rightarrow> nat \<Rightarrow> nat \<Rightarrow> bool" where
  "identifier_satisfies rules selected index \<longleftrightarrow>
     index = selected \<or> ir_priority (rules ! index) < ir_priority (rules ! selected)"

definition identifier_complete :: "IdentifierPolicy \<Rightarrow> IdentifierRule list \<Rightarrow> nat \<Rightarrow> u64 \<Rightarrow> IdentifierPolicy" where
  "identifier_complete p rules selected now_ms =
     (if \<not> selected < length rules then p
      else
        let hit = filter (identifier_satisfies rules selected) [0..<min (length rules) (length (ip_states p))];
            first = list_ex (\<lambda>i. is_first_key_pending (ip_states p ! i) \<or> ir_first_key_only (rules ! selected)) hit in
        p\<lparr>ip_states := map (\<lambda>i. if i \<in> set hit then identifier_state_default\<lparr>is_satisfied_ms := now_ms\<rparr>
                                 else ip_states p ! i) [0..<length (ip_states p)],
          ip_first_key_completed := (if first then True else ip_first_key_completed p),
          ip_first_key_completed_ms := (if first then now_ms else ip_first_key_completed_ms p)\<rparr>)"

section \<open>Traffic watchdog\<close>

datatype Phase = Normal | Expired | Waiting | Cleared

record TimeoutPolicy =
  to_key :: u64
  to_phase :: Phase

definition timeout_default :: TimeoutPolicy where
  "timeout_default = \<lparr>to_key = 0, to_phase = Normal\<rparr>"

definition allows_playback :: "TimeoutPolicy \<Rightarrow> bool \<Rightarrow> u64 \<Rightarrow> u64 \<Rightarrow> bool" where
  "allows_playback p was_keyed now timeout \<longleftrightarrow> \<not> was_keyed \<or> timeout = 0 \<or> sat_sub now (to_key p) < timeout"

definition timeout_blocked :: "TimeoutPolicy \<Rightarrow> bool" where
  "timeout_blocked p \<longleftrightarrow> to_phase p \<noteq> Normal"

definition timeout_unkey :: "TimeoutPolicy \<Rightarrow> u64 \<Rightarrow> TimeoutPolicy" where
  "timeout_unkey p now = p\<lparr>to_key := now\<rparr>"

definition timeout_apply :: "TimeoutPolicy \<Rightarrow> bool \<Rightarrow> bool \<Rightarrow> u64 \<Rightarrow> u64 \<Rightarrow> bool \<times> TimeoutPolicy" where
  "timeout_apply p requested was_keyed now timeout =
     (if requested \<and> \<not> was_keyed then (requested, p\<lparr>to_key := now\<rparr>)
      else if requested \<and> timeout \<noteq> 0 \<and> sat_sub now (to_key p) \<ge> timeout
      then (False, p\<lparr>to_phase := Expired\<rparr>)
      else (requested, p))"

section \<open>Duplex lemmas\<close>

lemma unat_sub_mono: "b \<le> a \<Longrightarrow> unat (a - b) = unat a - unat b" for a b :: u64
  by (simp add: unat_sub word_le_nat_alt)

fun idle_run :: "DuplexPolicy \<Rightarrow> bool \<Rightarrow> u64 list \<Rightarrow> bool list \<times> DuplexPolicy" where
  "idle_run p fd [] = ([], p)"
| "idle_run p fd (t # ts) =
     (let (k, p') = duplex_update p fd False False t 0; (ks, p'') = idle_run p' fd ts in (k # ks, p''))"

lemma idle_run_spec:
  assumes "sorted (t0 # ts)" "dp_last_audio_ms p = t0" "dp_release_hang_ms p = h"
  shows "fst (idle_run p fd ts) =
     (if dp_keyed p then map (\<lambda>t. unat t < unat t0 + unat h) ts else map (\<lambda>_. False) ts)"
  using assms
proof (induction ts arbitrary: p)
  case (Cons t ts)
  have lt: "t - t0 \<ge> h \<longleftrightarrow> \<not> unat t < unat t0 + unat h"
    using Cons.prems(1) by (auto simp: word_le_nat_alt unat_sub_mono)
  have later: "\<not> unat t < unat t0 + unat h \<Longrightarrow> \<forall>x \<in> set ts. \<not> unat x < unat t0 + unat h"
    using Cons.prems(1) by (auto simp: word_le_nat_alt)
  let ?p' = "snd (duplex_update p fd False False t 0)"
  have u: "fst (duplex_update p fd False False t 0) = dp_keyed ?p'"
    "dp_keyed ?p' \<longleftrightarrow> dp_keyed p \<and> unat t < unat t0 + unat h"
    "dp_last_audio_ms ?p' = t0" "dp_release_hang_ms ?p' = h"
    using Cons.prems lt by (auto simp: duplex_update_def Let_def)
  have "sorted (t0 # ts)" using Cons.prems(1) by auto
  from Cons.IH [OF this u(3,4)] u(1,2) later show ?case
    by (auto simp: case_prod_beta Let_def)
qed simp


section \<open>Properties of the duplex policy\<close>

text \<open>After program audio the transmitter stays keyed through idle polls for exactly the hang time
  captured with the last audio, whatever the poll times, and a half-duplex transmitter is unkeyed at
  once whenever its receiver is active.\<close>

theorem duplex_hang:
  assumes "sorted (t0 # ts)"
  shows "fst (idle_run (snd (duplex_update p fd r True t0 h)) fd ts)
       = (if \<not> fd \<and> r then map (\<lambda>_. False) ts else map (\<lambda>t. unat t < unat t0 + unat h) ts)
     \<and> \<not> fst (duplex_update p False True a t0 h)"
proof -
  have "fst (idle_run (p\<lparr>dp_keyed := False\<rparr>) fd ts) = map (\<lambda>_. False) ts" for p
    by (induction ts) (auto simp: duplex_update_def Let_def case_prod_beta)
  moreover have "fst (idle_run (p\<lparr>dp_keyed := True, dp_last_audio_ms := t0, dp_release_hang_ms := h\<rparr>) fd ts)
      = map (\<lambda>t. unat t < unat t0 + unat h) ts"
    using idle_run_spec [OF assms] by simp
  ultimately show ?thesis
    by (auto simp: duplex_update_def Let_def)
qed

theorem duplex_hang_witness:
  "fst (idle_run (snd (duplex_update duplex_default True False True 100 50)) True [120, 149, 150, 160])
     = [True, True, False, False]"
  using duplex_hang [of 100 "[120, 149, 150, 160]" duplex_default True False 50 False] by simp

section \<open>Identifier lemmas\<close>

definition candidate :: "IdentifierPolicy \<Rightarrow> IdentifierRule list \<Rightarrow> u64 \<Rightarrow> (nat \<Rightarrow> bool) \<Rightarrow> nat \<Rightarrow> bool" where
  "candidate p rules now_ms elig i \<longleftrightarrow> i < length rules \<and> i < length (ip_states p)
     \<and> identifier_due now_ms (rules ! i) (ip_states p ! i) \<and> elig i \<and> now_ms \<ge> is_retry_after_ms (ip_states p ! i)"

definition best :: "IdentifierRule list \<Rightarrow> (nat \<Rightarrow> bool) \<Rightarrow> nat \<Rightarrow> nat option \<Rightarrow> bool" where
  "best rules C n sel \<longleftrightarrow>
     (case sel of
        None \<Rightarrow> \<forall>i < n. \<not> C i
      | Some k \<Rightarrow> k < n \<and> C k \<and> (\<forall>i < n. C i \<longrightarrow> ir_priority (rules ! i) < ir_priority (rules ! k)
                    \<or> ir_priority (rules ! i) = ir_priority (rules ! k) \<and> k \<le> i))"

lemma best_step:
  "best rules C n sel \<Longrightarrow>
   best rules C (Suc n) (if C n \<and> (case sel of None \<Rightarrow> True | Some c \<Rightarrow> ir_priority (rules ! n) > ir_priority (rules ! c))
     then Some n else sel)"
  by (auto simp: best_def less_Suc_eq split: option.splits)

lemma select_loop_best:
  assumes "best rules (candidate p rules now_ms elig) n sel" "n \<le> length (zip rules (ip_states p))"
  shows "best rules (candidate p rules now_ms elig) (length (zip rules (ip_states p)))
    (select_loop rules now_ms elig n (drop n (zip rules (ip_states p))) sel)"
  using assms
proof (induction "length (zip rules (ip_states p)) - n" arbitrary: n sel)
  case 0
  then have "n = length (zip rules (ip_states p))" by linarith
  with 0 show ?case by simp
next
  case (Suc d)
  then have n: "n < length rules" "n < length (ip_states p)" by auto
  have d: "drop n (zip rules (ip_states p)) = (rules ! n, ip_states p ! n) # drop (Suc n) (zip rules (ip_states p))"
    using n by (simp add: Cons_nth_drop_Suc [symmetric])
  have c: "candidate p rules now_ms elig n \<longleftrightarrow> identifier_due now_ms (rules ! n) (ip_states p ! n) \<and> elig n
      \<and> now_ms \<ge> is_retry_after_ms (ip_states p ! n)"
    using n by (simp add: candidate_def)
  show ?case
    using Suc.hyps(1) [of "Suc n"] Suc.hyps(2) n best_step [OF Suc.prems(1)] unfolding d select_loop.simps c
    by (simp add: conj_ac)
qed

text \<open>C34. Identifier selection returns the first of the highest-priority rules that are due, past their
  retry time and allowed by the caller, and nothing exactly when no rule is; during a half-duplex
  receive it returns nothing.\<close>

theorem identifier_select_best:
  assumes "length (ip_states p) = length rules"
  shows "case identifier_select_where p rules now rx fd elig of
     None \<Rightarrow> rx \<and> \<not> fd \<or> (\<forall>i < length rules. \<not> (identifier_due now (rules ! i) (ip_states p ! i) \<and> elig i
                 \<and> is_retry_after_ms (ip_states p ! i) \<le> now))
   | Some k \<Rightarrow> \<not> (rx \<and> \<not> fd) \<and> k < length rules \<and> identifier_due now (rules ! k) (ip_states p ! k) \<and> elig k
       \<and> is_retry_after_ms (ip_states p ! k) \<le> now
       \<and> (\<forall>i < length rules. identifier_due now (rules ! i) (ip_states p ! i) \<and> elig i
            \<and> is_retry_after_ms (ip_states p ! i) \<le> now \<longrightarrow>
            ir_priority (rules ! i) < ir_priority (rules ! k)
            \<or> ir_priority (rules ! i) = ir_priority (rules ! k) \<and> k \<le> i)"
proof -
  have "best rules (candidate p rules now elig) 0 None" by (simp add: best_def)
  from select_loop_best [OF this] assms
  have "best rules (candidate p rules now elig) (length rules)
      (select_loop rules now elig 0 (zip rules (ip_states p)) None)"
    by simp
  with assms show ?thesis
    by (auto simp: identifier_select_where_def best_def candidate_def split: option.splits)
qed

definition sample_rules :: "IdentifierRule list" where
  "sample_rules = [\<lparr>ir_interval_ms = 600000, ir_priority = 1, ir_first_key_only = False, ir_regardless_of_activity = True\<rparr>,
     \<lparr>ir_interval_ms = 300000, ir_priority = 2, ir_first_key_only = False, ir_regardless_of_activity = True\<rparr>]"

theorem identifier_select_best_witness:
  "identifier_select_where (identifier_new sample_rules) sample_rules 700000 False False (\<lambda>_. True) = Some 1
   \<and> identifier_due 700000 (sample_rules ! 1) (ip_states (identifier_new sample_rules) ! 1)"
proof -
  have len: "length (ip_states (identifier_new sample_rules)) = length sample_rules"
    by (simp add: identifier_new_def)
  have sel: "identifier_select_where (identifier_new sample_rules) sample_rules 700000 False False (\<lambda>_. True) = Some 1"
    by (simp add: identifier_select_where_def identifier_new_def sample_rules_def identifier_due_def
        identifier_state_default_def)
  show ?thesis
    using identifier_select_best [OF len, where now = 700000 and rx = False and fd = False and elig = "\<lambda>_. True"]
    unfolding sel by simp
qed

subsection \<open>Spacing\<close>

lemma complete_length: "length (ip_states (identifier_complete p rules k t)) = length (ip_states p)"
  by (simp add: identifier_complete_def Let_def)

lemma complete_state:
  assumes "length (ip_states p) = length rules" "k < length rules" "j < length rules"
  shows "ip_states (identifier_complete p rules k t) ! j =
     (if identifier_satisfies rules k j then identifier_state_default\<lparr>is_satisfied_ms := t\<rparr> else ip_states p ! j)"
  using assms by (auto simp: identifier_complete_def Let_def)

lemma activity_length [simp]: "length (ip_states (identifier_activity p)) = length (ip_states p)"
  by (simp add: identifier_activity_def)

lemma activity_nth:
  "j < length (ip_states p) \<Longrightarrow>
   is_satisfied_ms (ip_states (identifier_activity p) ! j) = is_satisfied_ms (ip_states p ! j)
   \<and> is_first_key_pending (ip_states (identifier_activity p) ! j) = is_first_key_pending (ip_states p ! j)"
  by (simp add: identifier_activity_def)

lemma activity_run_length [simp]: "length (ip_states ((identifier_activity ^^ n) p)) = length (ip_states p)"
  by (induction n) simp_all



subsection \<open>First-key opportunities\<close>

datatype IdentifierEvent = IdActivity | IdFirstKey u64 u64 | IdDefer nat u64 | IdComplete nat u64

fun identifier_step :: "IdentifierRule list \<Rightarrow> IdentifierPolicy \<Rightarrow> IdentifierEvent \<Rightarrow> IdentifierPolicy" where
  "identifier_step rules p IdActivity = identifier_activity p"
| "identifier_step rules p (IdFirstKey idle now) = snd (identifier_first_key p rules idle now)"
| "identifier_step rules p (IdDefer k now) = identifier_defer p rules k now"
| "identifier_step rules p (IdComplete k now) = identifier_complete p rules k now"

definition identifier_inv :: "IdentifierRule list \<Rightarrow> IdentifierPolicy \<Rightarrow> bool" where
  "identifier_inv rules p \<longleftrightarrow> length (ip_states p) = length rules \<and> ip_next_first_key p \<le> length rules
     \<and> (\<forall>i < length rules. is_first_key_pending (ip_states p ! i) \<longrightarrow> ir_first_key_only (rules ! i))
     \<and> (\<forall>i < length rules. \<forall>j < length rules. is_first_key_pending (ip_states p ! i) \<longrightarrow>
          is_first_key_pending (ip_states p ! j) \<longrightarrow> i = j)"

lemma first_key_inv:
  assumes "identifier_inv rules p"
  shows "identifier_inv rules (snd (identifier_first_key p rules idle now))"
proof (cases "find (first_key_eligible p rules idle now) ([ip_next_first_key p..<length rules] @ [0..<ip_next_first_key p])")
  case None
  with assms show ?thesis by (simp add: identifier_first_key_def)
next
  case (Some k)
  have k: "k < length rules" "ir_first_key_only (rules ! k)"
    using find_SomeD [OF Some] assms by (auto simp: first_key_eligible_def identifier_inv_def)
  then have "(k + 1) mod length rules \<le> length rules"
    by (metis less_imp_le less_nat_zero_code mod_less_divisor neq0_conv)
  with assms Some k show ?thesis
    by (auto simp: identifier_first_key_def identifier_inv_def nth_list_update list_ex_length)
qed

lemma identifier_step_inv: "identifier_inv rules p \<Longrightarrow> identifier_inv rules (identifier_step rules p e)"
proof (cases e)
  case (IdFirstKey idle now)
  then show "identifier_inv rules p \<Longrightarrow> ?thesis" by (simp add: first_key_inv)
next
  case (IdComplete k now)
  then show "identifier_inv rules p \<Longrightarrow> ?thesis"
  proof (cases "k < length rules")
    case True
    assume inv: "identifier_inv rules p"
    have st: "ip_states (identifier_complete p rules k now) ! j =
       (if identifier_satisfies rules k j then identifier_state_default\<lparr>is_satisfied_ms := now\<rparr> else ip_states p ! j)"
      if "j < length rules" for j
      using complete_state inv that True by (simp add: identifier_inv_def)
    have "\<not> is_first_key_pending (identifier_state_default\<lparr>is_satisfied_ms := now\<rparr>)"
      by (simp add: identifier_state_default_def)
    moreover have "length (ip_states (identifier_complete p rules k now)) = length rules"
      "ip_next_first_key (identifier_complete p rules k now) = ip_next_first_key p"
      using complete_length [of p rules k now] inv True by (simp_all add: identifier_inv_def identifier_complete_def Let_def)
    ultimately show ?thesis
      using inv IdComplete by (auto simp: identifier_inv_def st split: if_splits)
  qed (simp add: identifier_complete_def)
qed (auto simp: identifier_inv_def identifier_activity_def identifier_defer_def nth_list_update)

interpretation identifier_machine: machine "identifier_step rules" "identifier_inv rules" for rules
  by unfold_locales (rule identifier_step_inv)

text \<open>C36. At every state reached from a fresh policy at most one first-key identifier is pending, it is
  a first-key rule, and while one is pending, or after one completed without fresh activity, a new
  receive edge arms nothing.\<close>

theorem first_key_single:
  assumes "p = foldl (identifier_step rules) (identifier_new rules) es"
  shows "(\<forall>i < length rules. \<forall>j < length rules. is_first_key_pending (ip_states p ! i) \<longrightarrow>
           is_first_key_pending (ip_states p ! j) \<longrightarrow> i = j \<and> ir_first_key_only (rules ! i))
     \<and> (fst (identifier_first_key p rules idle now) = Some k \<longrightarrow>
          k < length rules \<and> ir_first_key_only (rules ! k) \<and> \<not> ip_first_key_completed p
          \<and> (\<forall>i < length rules. \<not> is_first_key_pending (ip_states p ! i)) \<and> ir_interval_ms (rules ! k) \<le> idle)"
proof -
  have "identifier_inv rules (identifier_new rules)"
    by (simp add: identifier_inv_def identifier_new_def identifier_state_default_def)
  then have inv: "identifier_inv rules p"
    unfolding assms by (rule identifier_machine.run_inv)
  have "k < length rules \<and> ir_first_key_only (rules ! k) \<and> \<not> ip_first_key_completed p
      \<and> (\<forall>i < length rules. \<not> is_first_key_pending (ip_states p ! i)) \<and> ir_interval_ms (rules ! k) \<le> idle"
    if "fst (identifier_first_key p rules idle now) = Some k"
    using that inv
    by (auto simp: identifier_first_key_def first_key_eligible_def identifier_inv_def list_ex_length
        dest!: find_SomeD split: if_splits option.splits)
  with inv show ?thesis by (auto simp: identifier_inv_def)
qed

definition first_key_rules :: "IdentifierRule list" where
  "first_key_rules = [(sample_rules ! 0)\<lparr>ir_first_key_only := True, ir_interval_ms := 100\<rparr>]"

theorem first_key_single_witness:
  "fst (identifier_first_key (foldl (identifier_step first_key_rules) (identifier_new first_key_rules) [IdActivity])
     first_key_rules 500 500) = Some 0
   \<and> \<not> ip_first_key_completed (foldl (identifier_step first_key_rules) (identifier_new first_key_rules) [IdActivity])
   \<and> ir_interval_ms (first_key_rules ! 0) \<le> 500"
proof -
  have "fst (identifier_first_key (foldl (identifier_step first_key_rules) (identifier_new first_key_rules) [IdActivity])
     first_key_rules 500 500) = Some 0"
    by code_simp
  then show ?thesis
    using first_key_single [OF refl, of first_key_rules "[IdActivity]" 500 500 0] by blast
qed

section \<open>Properties of the watchdog\<close>

text \<open>The watchdog cuts a transmitter keyed at some time exactly from the configured timeout on, a
  zero timeout never cuts, and the playback gate predicts it: telemetry is consumed in a tick exactly
  when the watchdog will let that tick through.\<close>

theorem watchdog_exact:
  assumes "t0 \<le> t"
  shows "(let (k0, p0) = timeout_apply p True False t0 limit; (k1, p1) = timeout_apply p0 True True t limit in
           k0 \<and> (k1 \<longleftrightarrow> limit = 0 \<or> unat t < unat t0 + unat limit)
           \<and> (\<not> k1 \<longrightarrow> timeout_blocked p1))
     \<and> (fst (timeout_apply q True wk now limit) \<longleftrightarrow> allows_playback q wk now limit)"
  using assms
  by (auto simp: timeout_apply_def allows_playback_def timeout_blocked_def word_le_nat_alt word_less_nat_alt
      unat_sat_sub unat_eq_zero not_less)

theorem watchdog_exact_witness:
  "\<not> fst (timeout_apply (snd (timeout_apply timeout_default True False 10 100)) True True 110 100)"
proof -
  have "(10 :: u64) \<le> 110" by simp
  from watchdog_exact [OF this, where p = timeout_default and limit = 100 and q = timeout_default and wk = False and now = 0]
  show ?thesis unfolding case_prod_beta Let_def by (elim conjE) simp
qed

end
