(* ===== verification/Site_Policy.thy ===== *)
theory Site_Policy
  imports Prelude Complex_Main
begin

text \<open>
  Site policy owned by station control: the alarm state of \<^verbatim>\<open>core/src/site/alarm.rs\<close> and the
  logical output pulses of \<^verbatim>\<open>core/src/site/output.rs\<close>, with the observation types of
  \<^verbatim>\<open>core/src/site/mod.rs\<close>. The policy only compares floating-point values and asks whether they
  are finite, so a \<^verbatim>\<open>f64\<close> is a rational, an infinity or NaN with IEEE comparisons; no
  arithmetic on them occurs.
\<close>

section \<open>Values and observations\<close>

datatype f64 = FFin rat | FInf bool | FNaN

fun f64_finite :: "f64 \<Rightarrow> bool" where
  "f64_finite (FFin _) = True"
| "f64_finite _ = False"

text \<open>\<open>FInf True\<close> is the positive infinity; comparisons with NaN are false.\<close>

fun f64_less :: "f64 \<Rightarrow> f64 \<Rightarrow> bool" where
  "f64_less (FFin a) (FFin b) = (a < b)"
| "f64_less (FFin _) (FInf s) = s"
| "f64_less (FInf s) (FFin _) = (\<not> s)"
| "f64_less (FInf s) (FInf t) = (\<not> s \<and> t)"
| "f64_less _ _ = False"

fun f64_le :: "f64 \<Rightarrow> f64 \<Rightarrow> bool" where
  "f64_le (FFin a) (FFin b) = (a \<le> b)"
| "f64_le (FFin _) (FInf s) = s"
| "f64_le (FInf s) (FFin _) = (\<not> s)"
| "f64_le (FInf s) (FInf t) = (\<not> s \<or> t)"
| "f64_le _ _ = False"

datatype SiteError = UnknownName | SiteUnavailable | Unsafe | InvalidValue

datatype ReadingQuality = RqValid | RqStale | RqUnavailable | RqFault

record 'a Observation =
  ob_value :: "'a option"
  ob_observed_at_ms :: "u64 option"
  ob_quality :: ReadingQuality

section \<open>Alarms\<close>

datatype AlarmValue = Number f64 | Digital bool

datatype AlarmEvent = Trip | Clear | Repeat

datatype AlarmCondition = Above | Below | CondActive | CondInactive | CondUnavailable

datatype OutputRequest = OutOn | OutOff | OutPulse

datatype SiteAction =
  ActMacro string
| ActOutput string OutputRequest
| ActFan string "f64 option"
| ActInhibit bool

record AlarmSettings =
  as_name :: string
  as_enabled :: bool
  as_source :: string
  as_condition :: AlarmCondition
  as_trip_value :: "f64 option"
  as_clear_value :: "f64 option"
  as_smoothed :: bool
  as_trip_delay_ms :: u64
  as_clear_delay_ms :: u64
  as_latched :: bool
  as_repeat_interval_ms :: u64
  as_on_trip :: "SiteAction list"
  as_on_clear :: "SiteAction list"
  as_trip_message :: string
  as_clear_message :: string
  as_repeat_message :: string

record AlarmSnapshot =
  sn_active :: bool
  sn_acknowledged :: bool
  sn_unsafe_condition :: "bool option"
  sn_reset_ready :: bool

record AlarmState =
  al_settings :: AlarmSettings
  al_state :: AlarmSnapshot
  al_pending_since :: "u64 option"
  al_repeat_at :: "u64 option"

definition alarm_new :: "AlarmSettings \<Rightarrow> AlarmState" where
  "alarm_new settings = \<lparr>al_settings = settings,
     al_state = \<lparr>sn_active = False, sn_acknowledged = False, sn_unsafe_condition = None, sn_reset_ready = False\<rparr>,
     al_pending_since = None, al_repeat_at = None\<rparr>"

definition alarm_condition :: "AlarmState \<Rightarrow> AlarmValue Observation \<Rightarrow> bool option" where
  "alarm_condition a reading =
     (let value = (if ob_quality reading = RqValid then ob_value reading else None);
          s = al_settings a in
      if as_condition s = CondUnavailable then Some (value = None)
      else (case value of
              None \<Rightarrow> None
            | Some v \<Rightarrow>
                (case (as_condition s, v) of
                   (Above, Number x) \<Rightarrow>
                     if f64_finite x
                     then (if sn_active (al_state a) then map_option (\<lambda>c. f64_less c x) (as_clear_value s)
                           else map_option (\<lambda>c. f64_le c x) (as_trip_value s))
                     else None
                 | (Below, Number x) \<Rightarrow>
                     if f64_finite x
                     then (if sn_active (al_state a) then map_option (\<lambda>c. f64_less x c) (as_clear_value s)
                           else map_option (\<lambda>c. f64_le x c) (as_trip_value s))
                     else None
                 | (CondActive, Digital x) \<Rightarrow> Some x
                 | (CondInactive, Digital x) \<Rightarrow> Some (\<not> x)
                 | _ \<Rightarrow> None)))"

definition alarm_clear :: "AlarmState \<Rightarrow> AlarmState" where
  "alarm_clear a = a\<lparr>al_state := (al_state a)\<lparr>sn_active := False, sn_acknowledged := False, sn_reset_ready := False\<rparr>,
     al_pending_since := None, al_repeat_at := None\<rparr>"

definition alarm_trip :: "AlarmState \<Rightarrow> u64 \<Rightarrow> AlarmState" where
  "alarm_trip a now_ms = a\<lparr>al_state := (al_state a)\<lparr>sn_active := True, sn_acknowledged := False\<rparr>,
     al_pending_since := None,
     al_repeat_at := (if as_repeat_interval_ms (al_settings a) > 0
        then Some (sat_add now_ms (as_repeat_interval_ms (al_settings a))) else None)\<rparr>"

text \<open>The \<^verbatim>\<open>match\<close> on the freshly evaluated condition.\<close>

definition alarm_transition :: "AlarmState \<Rightarrow> u64 \<Rightarrow> AlarmEvent list \<times> AlarmState" where
  "alarm_transition a now_ms =
     (case sn_unsafe_condition (al_state a) of
        Some unsafe_now \<Rightarrow>
          if unsafe_now \<noteq> sn_active (al_state a)
          then
            let since = (case al_pending_since a of Some s \<Rightarrow> s | None \<Rightarrow> now_ms);
                a1 = a\<lparr>al_pending_since := Some since\<rparr>;
                delay = (if unsafe_now then as_trip_delay_ms (al_settings a) else as_clear_delay_ms (al_settings a)) in
            if sat_sub now_ms since \<ge> delay
            then (if unsafe_now then ([Trip], alarm_trip a1 now_ms)
                  else if as_latched (al_settings a)
                  then ([], a1\<lparr>al_state := (al_state a1)\<lparr>sn_reset_ready := True\<rparr>\<rparr>)
                  else ([Clear], alarm_clear a1))
            else ([], a1)
          else ([], a\<lparr>al_pending_since := None\<rparr>)
      | None \<Rightarrow> ([], a\<lparr>al_pending_since := None\<rparr>))"

definition alarm_repeat :: "AlarmState \<Rightarrow> u64 \<Rightarrow> AlarmEvent list \<times> AlarmState" where
  "alarm_repeat a now_ms =
     (if sn_active (al_state a) \<and> \<not> sn_acknowledged (al_state a)
         \<and> (case al_repeat_at a of Some deadline \<Rightarrow> now_ms \<ge> deadline | None \<Rightarrow> False)
      then ([Repeat], a\<lparr>al_repeat_at := Some (sat_add now_ms (as_repeat_interval_ms (al_settings a)))\<rparr>)
      else ([], a))"

definition alarm_advance :: "AlarmState \<Rightarrow> u64 \<Rightarrow> AlarmValue Observation \<Rightarrow> AlarmEvent list \<times> AlarmState" where
  "alarm_advance a now_ms reading =
     (if \<not> as_enabled (al_settings a) then ([], a)
      else
        let a0 = a\<lparr>al_state := (al_state a)\<lparr>sn_unsafe_condition := alarm_condition a reading, sn_reset_ready := False\<rparr>\<rparr>;
            (events, a1) = alarm_transition a0 now_ms;
            (repeats, a2) = alarm_repeat a1 now_ms in
        (events @ repeats, a2))"

definition alarm_acknowledge :: "AlarmState \<Rightarrow> AlarmState" where
  "alarm_acknowledge a = a\<lparr>al_state := (al_state a)\<lparr>sn_acknowledged := True\<rparr>\<rparr>"

definition alarm_reset :: "AlarmState \<Rightarrow> (SiteError + AlarmEvent option) \<times> AlarmState" where
  "alarm_reset a =
     (if \<not> sn_active (al_state a) then (Inr None, a)
      else if \<not> sn_reset_ready (al_state a) then (Inl Unsafe, a)
      else (Inr (Some Clear), alarm_clear a))"

section \<open>Outputs\<close>

datatype SiteBackend = BkCm119 | BkParallel | BkGpiod | BkHwmon | BkIio

record SiteEndpoint =
  ep_backend :: SiteBackend
  ep_device :: string
  ep_channel :: string

record OutputSettings =
  os_name :: string
  os_enabled :: bool
  os_endpoint :: "SiteEndpoint option"
  os_active_high :: bool
  os_startup_on :: bool
  os_safe_on :: bool
  os_pulse_ms :: u64

record OutputSnapshot =
  ou_requested_on :: bool
  ou_fault :: bool
  ou_pulse_deadline_ms :: "u64 option"

record OutputState =
  ot_settings :: OutputSettings
  ot_state :: OutputSnapshot
  ot_prior_on :: bool

definition output_new :: "OutputSettings \<Rightarrow> OutputState" where
  "output_new settings = \<lparr>ot_settings = settings,
     ot_state = \<lparr>ou_requested_on = os_startup_on settings, ou_fault = True, ou_pulse_deadline_ms = None\<rparr>,
     ot_prior_on = False\<rparr>"

definition output_reconfigure :: "OutputState \<Rightarrow> OutputSettings \<Rightarrow> OutputState" where
  "output_reconfigure o1 settings =
     (if os_endpoint (ot_settings o1) \<noteq> os_endpoint settings \<or> os_active_high (ot_settings o1) \<noteq> os_active_high settings
      then output_new settings
      else o1\<lparr>ot_settings := settings\<rparr>)"

definition output_command :: "OutputState \<Rightarrow> OutputRequest \<Rightarrow> u64 \<Rightarrow> (SiteError + unit) \<times> OutputState" where
  "output_command o1 request now_ms =
     (if \<not> os_enabled (ot_settings o1) \<or> ou_fault (ot_state o1) then (Inl SiteUnavailable, o1)
      else (Inr (),
        if request = OutPulse
        then o1\<lparr>ot_prior_on := (if ou_pulse_deadline_ms (ot_state o1) = None then ou_requested_on (ot_state o1) else ot_prior_on o1),
                ot_state := (ot_state o1)\<lparr>ou_requested_on := True,
                  ou_pulse_deadline_ms := Some (sat_add now_ms (os_pulse_ms (ot_settings o1)))\<rparr>\<rparr>
        else o1\<lparr>ot_state := (ot_state o1)\<lparr>ou_pulse_deadline_ms := None, ou_requested_on := (request = OutOn)\<rparr>\<rparr>))"

definition output_advance :: "OutputState \<Rightarrow> u64 \<Rightarrow> bool \<Rightarrow> OutputState" where
  "output_advance o1 now_ms available =
     (let fault = (\<not> available \<or> \<not> os_enabled (ot_settings o1));
          o2 = o1\<lparr>ot_state := (ot_state o1)\<lparr>ou_fault := fault\<rparr>\<rparr> in
      if fault
      then o2\<lparr>ot_state := (ot_state o2)\<lparr>ou_requested_on := os_safe_on (ot_settings o2), ou_pulse_deadline_ms := None\<rparr>\<rparr>
      else if (case ou_pulse_deadline_ms (ot_state o2) of Some deadline \<Rightarrow> now_ms \<ge> deadline | None \<Rightarrow> False)
      then o2\<lparr>ot_state := (ot_state o2)\<lparr>ou_requested_on := ot_prior_on o2, ou_pulse_deadline_ms := None\<rparr>\<rparr>
      else o2)"

section \<open>Alarm runs\<close>

datatype AlarmStep = AlAdvance u64 "AlarmValue Observation" | AlAcknowledge | AlReset

fun alarm_step :: "AlarmState \<Rightarrow> AlarmStep \<Rightarrow> AlarmEvent list \<times> AlarmState" where
  "alarm_step a (AlAdvance t r) = alarm_advance a t r"
| "alarm_step a AlAcknowledge = ([], alarm_acknowledge a)"
| "alarm_step a AlReset =
     (case alarm_reset a of (Inr (Some e), a') \<Rightarrow> ([e], a') | (_, a') \<Rightarrow> ([], a'))"

fun alarm_run :: "AlarmState \<Rightarrow> AlarmStep list \<Rightarrow> AlarmEvent list \<times> AlarmState" where
  "alarm_run a [] = ([], a)"
| "alarm_run a (s # ss) =
     (let (es, a') = alarm_step a s; (fs, a'') = alarm_run a' ss in (es @ fs, a''))"

definition transitions :: "AlarmEvent list \<Rightarrow> AlarmEvent list" where
  "transitions es = filter (\<lambda>e. e \<noteq> Repeat) es"

text \<open>Trip and clear alternate, starting with the one \<open>active\<close> calls for.\<close>

fun alternates :: "bool \<Rightarrow> AlarmEvent list \<Rightarrow> bool" where
  "alternates active [] = True"
| "alternates active (e # es) = (e = (if active then Clear else Trip) \<and> alternates (\<not> active) es)"

lemma transition_events:
  "fst (alarm_transition a t) =
     (if sn_active (al_state a) = sn_active (al_state (snd (alarm_transition a t))) then []
      else [if sn_active (al_state a) then Clear else Trip])"
  by (cases "sn_unsafe_condition (al_state a)")
    (simp_all add: alarm_transition_def alarm_trip_def alarm_clear_def Let_def)

lemma repeat_events:
  "fst (alarm_repeat a t) \<in> {[], [Repeat]}" "al_state (snd (alarm_repeat a t)) = al_state a"
  by (simp_all add: alarm_repeat_def)

lemma transitions_simps [simp]:
  "transitions [] = []" "transitions (es @ fs) = transitions es @ transitions fs" "transitions [Repeat] = []"
  "transitions [Trip] = [Trip]" "transitions [Clear] = [Clear]"
  by (simp_all add: transitions_def)

lemma advance_transitions:
  "transitions (fst (alarm_advance a t r)) =
     (if sn_active (al_state a) = sn_active (al_state (snd (alarm_advance a t r))) then []
      else [if sn_active (al_state a) then Clear else Trip])"
proof -
  let ?a0 = "a\<lparr>al_state := (al_state a)\<lparr>sn_unsafe_condition := alarm_condition a r, sn_reset_ready := False\<rparr>\<rparr>"
  define a0 where "a0 = ?a0"
  define a1 where "a1 = snd (alarm_transition a0 t)"
  have adv: "alarm_advance a t r =
      (if as_enabled (al_settings a)
       then (fst (alarm_transition a0 t) @ fst (alarm_repeat a1 t), snd (alarm_repeat a1 t)) else ([], a))"
    by (simp add: alarm_advance_def a0_def a1_def Let_def case_prod_beta)
  have rep: "transitions (fst (alarm_repeat a1 t)) = []"
    using repeat_events(1) [of a1 t] by auto
  have act: "sn_active (al_state a0) = sn_active (al_state a)"
    by (simp add: a0_def)
  have ev: "fst (alarm_transition a0 t) =
      (if sn_active (al_state a) = sn_active (al_state a1) then [] else [if sn_active (al_state a) then Clear else Trip])"
    using transition_events [of a0 t] unfolding act a1_def [symmetric] .
  show ?thesis
  proof (cases "as_enabled (al_settings a)")
    case True
    then show ?thesis
      unfolding adv if_P [OF True] fst_conv snd_conv transitions_simps rep repeat_events(2) ev append_Nil2
      by (simp only: transitions_simps split: if_split) simp
  next
    case False
    then show ?thesis by (simp add: adv)
  qed
qed

lemma step_transitions:
  "transitions (fst (alarm_step a s)) =
     (if sn_active (al_state a) = sn_active (al_state (snd (alarm_step a s))) then []
      else [if sn_active (al_state a) then Clear else Trip])"
  by (cases s) (simp_all add: advance_transitions alarm_acknowledge_def alarm_reset_def alarm_clear_def)

text \<open>In every run of an alarm, whatever readings, acknowledgements and resets occur, trip and clear
  events strictly alternate starting with a trip, and the alarm is active exactly between a trip and
  the next clear: equipment actions are never replayed.\<close>

theorem alarm_alternates:
  "alternates (sn_active (al_state a)) (transitions (fst (alarm_run a ss)))
   \<and> sn_active (al_state (snd (alarm_run a ss)))
       = (sn_active (al_state a) \<noteq> odd (length (transitions (fst (alarm_run a ss)))))"
proof (induction ss arbitrary: a)
  case Nil
  then show ?case by (simp add: transitions_def)
next
  case (Cons s ss)
  let ?a = "snd (alarm_step a s)"
  have "transitions (fst (alarm_run a (s # ss))) = transitions (fst (alarm_step a s)) @ transitions (fst (alarm_run ?a ss))"
    by (simp add: transitions_def case_prod_beta Let_def)
  moreover have "snd (alarm_run a (s # ss)) = snd (alarm_run ?a ss)"
    by (simp add: case_prod_beta Let_def)
  ultimately show ?case
    using Cons.IH [of ?a] step_transitions [of a s] by (auto split: if_splits)
qed

lemma advance_enabled:
  assumes "as_enabled (al_settings a)"
  shows "alarm_advance a t r =
    (let a0 = a\<lparr>al_state := (al_state a)\<lparr>sn_unsafe_condition := alarm_condition a r, sn_reset_ready := False\<rparr>\<rparr>;
         a1 = snd (alarm_transition a0 t)
     in (fst (alarm_transition a0 t) @ fst (alarm_repeat a1 t), snd (alarm_repeat a1 t)))"
  using assms by (simp add: alarm_advance_def Let_def case_prod_beta)

lemma transition_settings [simp]:
  "al_settings (snd (alarm_transition a t)) = al_settings a"
  by (cases "sn_unsafe_condition (al_state a)")
    (simp_all add: alarm_transition_def alarm_trip_def alarm_clear_def Let_def)

lemma repeat_keeps [simp]:
  "al_settings (snd (alarm_repeat a t)) = al_settings a"
  "al_pending_since (snd (alarm_repeat a t)) = al_pending_since a"
  "al_state (snd (alarm_repeat a t)) = al_state a"
  by (simp_all add: alarm_repeat_def)

lemma advance_settings [simp]: "al_settings (snd (alarm_advance a t r)) = al_settings a"
  by (cases "as_enabled (al_settings a)") (simp_all add: advance_enabled Let_def, simp add: alarm_advance_def)

subsection \<open>Latched alarms\<close>

lemma transition_latched:
  assumes "as_latched (al_settings a)" "sn_active (al_state a)"
  shows "sn_active (al_state (snd (alarm_transition a t)))"
  using assms by (cases "sn_unsafe_condition (al_state a)") (simp_all add: alarm_transition_def alarm_trip_def Let_def)

lemma advance_latched:
  assumes "as_latched (al_settings a)" "sn_active (al_state a)"
  shows "sn_active (al_state (snd (alarm_advance a t r)))"
  using assms transition_latched [of "a\<lparr>al_state := (al_state a)\<lparr>sn_unsafe_condition := alarm_condition a r, sn_reset_ready := False\<rparr>\<rparr>" t]
  by (cases "as_enabled (al_settings a)") (simp_all add: advance_enabled Let_def, simp add: alarm_advance_def)

lemma step_latched:
  assumes "as_latched (al_settings a)" "sn_active (al_state a)" "s \<noteq> AlReset"
  shows "sn_active (al_state (snd (alarm_step a s)))" "al_settings (snd (alarm_step a s)) = al_settings a"
  using assms by (cases s; simp add: advance_latched alarm_acknowledge_def)+

lemma run_latched:
  assumes "as_latched (al_settings a)" "sn_active (al_state a)" "AlReset \<notin> set ss"
  shows "sn_active (al_state (snd (alarm_run a ss))) \<and> al_settings (snd (alarm_run a ss)) = al_settings a
    \<and> transitions (fst (alarm_run a ss)) = []"
  using assms
proof (induction ss arbitrary: a)
  case (Cons s ss)
  let ?a = "snd (alarm_step a s)"
  have keep: "sn_active (al_state ?a)" "al_settings ?a = al_settings a"
    using step_latched [of a s] Cons.prems by auto
  then have "transitions (fst (alarm_step a s)) = []"
    using step_transitions [of a s] Cons.prems(2) by simp
  then show ?case
    using Cons.IH [of ?a] Cons.prems keep by (simp add: case_prod_beta Let_def)
qed simp

lemma alarm_run_snoc: "snd (alarm_run a (ss @ [s])) = snd (alarm_step (snd (alarm_run a ss)) s)"
  by (induction ss arbitrary: a) (simp_all add: case_prod_beta Let_def)

lemma alarm_condition_cong:
  assumes "al_settings a = al_settings b" "sn_active (al_state a) = sn_active (al_state b)"
  shows "alarm_condition a r = alarm_condition b r"
  unfolding alarm_condition_def assms ..

lemma transition_reset_ready:
  assumes "sn_active (al_state a)" "\<not> sn_reset_ready (al_state a)"
    "sn_reset_ready (al_state (snd (alarm_transition a t)))"
  shows "sn_unsafe_condition (al_state a) = Some False
    \<and> sat_sub t (case al_pending_since a of Some s \<Rightarrow> s | None \<Rightarrow> t) \<ge> as_clear_delay_ms (al_settings a)"
  using assms by (cases "sn_unsafe_condition (al_state a)")
    (auto simp: alarm_transition_def alarm_trip_def alarm_clear_def Let_def split: if_splits)

text \<open>A latched alarm that is active stays active through every sequence of readings and
  acknowledgements: no reading, however healthy and however long, emits a clear. Only an operator reset
  can end it, and after any such sequence and one more reading a reset is refused as unsafe, leaving the
  alarm as it was, unless that latest reading is a valid healthy one.\<close>

theorem alarm_latch:
  assumes "as_latched (al_settings a)" "sn_active (al_state a)" "AlReset \<notin> set ss" "as_enabled (al_settings a)"
  shows "sn_active (al_state (snd (alarm_run a ss))) \<and> transitions (fst (alarm_run a ss)) = []
    \<and> (let b = snd (alarm_run a (ss @ [AlAdvance t r]))
       in alarm_reset b = (Inl Unsafe, b) \<or> alarm_condition a r = Some False)"
proof -
  define b where "b = snd (alarm_run a ss)"
  define b0 where "b0 = b\<lparr>al_state := (al_state b)\<lparr>sn_unsafe_condition := alarm_condition b r, sn_reset_ready := False\<rparr>\<rparr>"
  define c where "c = snd (alarm_advance b t r)"
  have b: "sn_active (al_state b)" "al_settings b = al_settings a" "transitions (fst (alarm_run a ss)) = []"
    using run_latched [OF assms(1-3)] by (simp_all add: b_def)
  have cond: "alarm_condition b r = alarm_condition a r"
    using alarm_condition_cong [of b a r] b assms(2) by simp
  have c: "al_state c = al_state (snd (alarm_transition b0 t))" "sn_active (al_state c)"
    using assms b advance_latched [of b t r] by (simp_all add: c_def advance_enabled Let_def b0_def)
  have "alarm_reset c = (Inl Unsafe, c) \<or> alarm_condition a r = Some False"
  proof (cases "sn_reset_ready (al_state c)")
    case True
    then show ?thesis
      using transition_reset_ready [of b0 t] b(1) c(1) cond by (simp add: b0_def)
  qed (use c in \<open>simp add: alarm_reset_def\<close>)
  then show ?thesis
    using b by (simp add: alarm_run_snoc b_def [symmetric] c_def [symmetric])
qed

definition sample_alarm :: AlarmSettings where
  "sample_alarm = \<lparr>as_name = ''heat'', as_enabled = True, as_source = ''pa'', as_condition = Above, as_trip_value = Some (FFin 80), as_clear_value = Some (FFin 70), as_smoothed = False,
     as_trip_delay_ms = 100, as_clear_delay_ms = 50, as_latched = True, as_repeat_interval_ms = 0,
     as_on_trip = [ActInhibit True], as_on_clear = [ActInhibit False], as_trip_message = [], as_clear_message = [], as_repeat_message = []\<rparr>"

definition number_reading :: "rat \<Rightarrow> AlarmValue Observation" where
  "number_reading x = \<lparr>ob_value = Some (Number (FFin x)), ob_observed_at_ms = None, ob_quality = RqValid\<rparr>"

definition tripped_alarm :: AlarmState where
  "tripped_alarm = alarm_trip (alarm_new sample_alarm) 10"

theorem alarm_latch_witness:
  "as_latched (al_settings tripped_alarm) \<and> sn_active (al_state tripped_alarm) \<and> as_enabled (al_settings tripped_alarm)
   \<and> sn_active (al_state (snd (alarm_run tripped_alarm [AlAdvance 20 (number_reading 60), AlAcknowledge])))"
proof -
  have "as_latched (al_settings tripped_alarm)" "sn_active (al_state tripped_alarm)" "as_enabled (al_settings tripped_alarm)"
    by (simp_all add: tripped_alarm_def alarm_trip_def alarm_new_def sample_alarm_def)
  then show ?thesis
    using alarm_latch [of tripped_alarm "[AlAdvance 20 (number_reading 60), AlAcknowledge]" 90 "number_reading 60"] by simp
qed

subsection \<open>Persistence\<close>

definition advances :: "(u64 \<times> AlarmValue Observation) list \<Rightarrow> AlarmStep list" where
  "advances xs = map (\<lambda>(t, r). AlAdvance t r) xs"

definition unsafe_reading :: "AlarmSettings \<Rightarrow> AlarmValue Observation \<Rightarrow> bool" where
  "unsafe_reading s r = (alarm_condition (alarm_new s) r = Some True)"

text \<open>The history behind a pending trip: an unbroken run of unsafe readings since the recorded time.\<close>

definition pending_history :: "AlarmState \<Rightarrow> (u64 \<times> AlarmValue Observation) list \<Rightarrow> bool" where
  "pending_history a xs =
     (sn_active (al_state a) \<or>
      (case al_pending_since a of None \<Rightarrow> True
       | Some s \<Rightarrow> \<exists>us vs. xs = us @ vs \<and> vs \<noteq> [] \<and> fst (hd vs) = s
                      \<and> list_all (\<lambda>(_, r). unsafe_reading (al_settings a) r) vs))"

lemma advances_settings: "al_settings (snd (alarm_run a (advances xs))) = al_settings a"
  by (induction xs rule: rev_induct) (auto simp: advances_def alarm_run_snoc)

lemma condition_inactive:
  assumes "\<not> sn_active (al_state a)"
  shows "unsafe_reading (al_settings a) r = (alarm_condition a r = Some True)"
proof -
  have "alarm_condition (alarm_new (al_settings a)) r = alarm_condition a r"
    using assms by (intro alarm_condition_cong) (simp_all add: alarm_new_def)
  then show ?thesis by (simp add: unsafe_reading_def)
qed

text \<open>What one transition of an inactive alarm does to the pending time.\<close>

lemma transition_inactive:
  assumes "\<not> sn_active (al_state a)"
  shows "Trip \<in> set (fst (alarm_transition a t)) \<longleftrightarrow>
      sn_unsafe_condition (al_state a) = Some True
      \<and> sat_sub t (case al_pending_since a of Some s \<Rightarrow> s | None \<Rightarrow> t) \<ge> as_trip_delay_ms (al_settings a)"
    and "\<not> sn_active (al_state (snd (alarm_transition a t))) \<Longrightarrow>
      al_pending_since (snd (alarm_transition a t)) =
        (if sn_unsafe_condition (al_state a) = Some True
         then Some (case al_pending_since a of Some s \<Rightarrow> s | None \<Rightarrow> t) else None)"
  using assms by (cases "sn_unsafe_condition (al_state a)";
      auto simp: alarm_transition_def alarm_trip_def alarm_clear_def Let_def split: if_splits)+

lemma transition_active_clear:
  assumes "sn_active (al_state a)" "\<not> sn_active (al_state (snd (alarm_transition a t)))"
  shows "al_pending_since (snd (alarm_transition a t)) = None"
  using assms by (cases "sn_unsafe_condition (al_state a)")
    (auto simp: alarm_transition_def alarm_trip_def alarm_clear_def Let_def split: if_splits)

lemma pending_history_extend:
  assumes "pending_history a xs" "\<not> sn_active (al_state a)" "alarm_condition a r = Some True"
  shows "\<exists>us vs. xs @ [(t, r)] = us @ vs \<and> vs \<noteq> []
    \<and> fst (hd vs) = (case al_pending_since a of Some s \<Rightarrow> s | None \<Rightarrow> t)
    \<and> list_all (\<lambda>(_, r). unsafe_reading (al_settings a) r) vs"
proof (cases "al_pending_since a")
  case None
  then have "xs @ [(t, r)] = xs @ [(t, r)] \<and> [(t, r)] \<noteq> []
    \<and> fst (hd [(t, r)]) = (case al_pending_since a of Some s \<Rightarrow> s | None \<Rightarrow> t)
    \<and> list_all (\<lambda>(_, r). unsafe_reading (al_settings a) r) [(t, r)]"
    using assms condition_inactive [of a r] by simp
  then show ?thesis by blast
next
  case (Some s)
  then obtain us vs where "xs = us @ vs" "vs \<noteq> []" "fst (hd vs) = s"
    "list_all (\<lambda>(_, r). unsafe_reading (al_settings a) r) vs"
    using assms(1,2) by (auto simp: pending_history_def)
  then have "xs @ [(t, r)] = us @ (vs @ [(t, r)]) \<and> vs @ [(t, r)] \<noteq> []
    \<and> fst (hd (vs @ [(t, r)])) = (case al_pending_since a of Some s \<Rightarrow> s | None \<Rightarrow> t)
    \<and> list_all (\<lambda>(_, r). unsafe_reading (al_settings a) r) (vs @ [(t, r)])"
    using assms(2,3) Some condition_inactive [of a r] by simp
  then show ?thesis by blast
qed

lemma pending_history_advance:
  assumes "pending_history a xs" "as_enabled (al_settings a)"
  shows "pending_history (snd (alarm_advance a t r)) (xs @ [(t, r)])"
proof (cases "sn_active (al_state (snd (alarm_advance a t r)))")
  case False
  define a0 where "a0 = a\<lparr>al_state := (al_state a)\<lparr>sn_unsafe_condition := alarm_condition a r, sn_reset_ready := False\<rparr>\<rparr>"
  let ?a1 = "snd (alarm_transition a0 t)"
  have a': "al_state (snd (alarm_advance a t r)) = al_state ?a1"
    "al_pending_since (snd (alarm_advance a t r)) = al_pending_since ?a1"
    using assms(2) by (simp_all add: advance_enabled Let_def a0_def)
  have a0: "sn_active (al_state a0) = sn_active (al_state a)" "sn_unsafe_condition (al_state a0) = alarm_condition a r"
    "al_pending_since a0 = al_pending_since a"
    by (simp_all add: a0_def)
  show ?thesis
  proof (cases "sn_active (al_state a)")
    case True
    then show ?thesis
      using transition_active_clear [of a0 t] False by (simp add: pending_history_def a' a0)
  next
    case inactive: False
    show ?thesis
    proof (cases "alarm_condition a r = Some True")
      case True
      then show ?thesis
        using transition_inactive(2) [of a0 t] pending_history_extend [OF assms(1) inactive True, of t] False inactive
        by (simp add: pending_history_def a' a0)
    next
      case safe: False
      then show ?thesis
        using transition_inactive(2) [of a0 t] False inactive by (simp add: pending_history_def a' a0)
    qed
  qed
qed (simp add: pending_history_def)

lemma pending_history_run:
  assumes "as_enabled s"
  shows "pending_history (snd (alarm_run (alarm_new s) (advances xs))) xs"
proof (induction xs rule: rev_induct)
  case Nil
  then show ?case by (simp add: pending_history_def advances_def alarm_new_def)
next
  case (snoc x xs)
  have "as_enabled (al_settings (snd (alarm_run (alarm_new s) (advances xs))))"
    using assms by (simp add: advances_settings) (simp add: alarm_new_def)
  then show ?case
    using pending_history_advance [OF snoc.IH] by (cases x) (simp add: advances_def alarm_run_snoc)
qed

lemma advance_trip_from:
  assumes "Trip \<in> set (fst (alarm_advance a t r))"
  shows "as_enabled (al_settings a) \<and> \<not> sn_active (al_state a) \<and> alarm_condition a r = Some True
    \<and> sat_sub t (case al_pending_since a of Some s \<Rightarrow> s | None \<Rightarrow> t) \<ge> as_trip_delay_ms (al_settings a)"
proof -
  define a0 where "a0 = a\<lparr>al_state := (al_state a)\<lparr>sn_unsafe_condition := alarm_condition a r, sn_reset_ready := False\<rparr>\<rparr>"
  have en: "as_enabled (al_settings a)"
    using assms by (auto simp: alarm_advance_def split: if_splits)
  then have trip: "Trip \<in> set (fst (alarm_transition a0 t))"
    using assms repeat_events(1) [of "snd (alarm_transition a0 t)" t]
    by (auto simp: advance_enabled Let_def a0_def)
  then have "\<not> sn_active (al_state a0)"
    using transition_events [of a0 t] by (auto split: if_splits)
  then show ?thesis
    using en trip transition_inactive(1) [of a0 t] by (simp add: a0_def)
qed



section \<open>Output runs\<close>

datatype OutputStep = OuCommand OutputRequest u64 | OuAdvance u64 bool

fun output_step :: "OutputState \<Rightarrow> OutputStep \<Rightarrow> OutputState" where
  "output_step o1 (OuCommand r t) = snd (output_command o1 r t)"
| "output_step o1 (OuAdvance t av) = output_advance o1 t av"

text \<open>The specification knows no deadlines: an output is a fault flag and the standing demand.\<close>

record DemandState =
  dm_fault :: bool
  dm_on :: bool

definition output_abs :: "OutputState \<Rightarrow> DemandState" where
  "output_abs o1 = \<lparr>dm_fault = ou_fault (ot_state o1),
     dm_on = (if ou_pulse_deadline_ms (ot_state o1) = None then ou_requested_on (ot_state o1) else ot_prior_on o1)\<rparr>"

fun demand_step :: "OutputSettings \<Rightarrow> DemandState \<Rightarrow> OutputStep \<Rightarrow> DemandState" where
  "demand_step s d (OuCommand r t) =
     (if \<not> os_enabled s \<or> dm_fault d \<or> r = OutPulse then d else d\<lparr>dm_on := (r = OutOn)\<rparr>)"
| "demand_step s d (OuAdvance t av) =
     (let fault = (\<not> av \<or> \<not> os_enabled s) in \<lparr>dm_fault = fault, dm_on = (if fault then os_safe_on s else dm_on d)\<rparr>)"

lemma output_step_settings [simp]: "ot_settings (output_step o1 s) = ot_settings o1"
  by (cases s) (simp_all add: output_command_def output_advance_def Let_def)

lemma output_step_refines: "output_abs (output_step o1 s) = demand_step (ot_settings o1) (output_abs o1) s"
  by (cases s)
    (auto simp: output_command_def output_advance_def output_abs_def Let_def split: option.splits)

lemma output_run_settings [simp]: "ot_settings (foldl output_step o1 ss) = ot_settings o1"
  by (induction ss arbitrary: o1) simp_all

lemma output_step_pulse_on:
  assumes "ou_pulse_deadline_ms (ot_state o1) \<noteq> None \<longrightarrow> ou_requested_on (ot_state o1)"
  shows "ou_pulse_deadline_ms (ot_state (output_step o1 s)) \<noteq> None \<longrightarrow> ou_requested_on (ot_state (output_step o1 s))"
  using assms by (cases s) (auto simp: output_command_def output_advance_def Let_def split: option.splits)

lemma output_run_pulse_on:
  assumes "ou_pulse_deadline_ms (ot_state o1) \<noteq> None \<longrightarrow> ou_requested_on (ot_state o1)"
  shows "ou_pulse_deadline_ms (ot_state (foldl output_step o1 ss)) \<noteq> None \<longrightarrow> ou_requested_on (ot_state (foldl output_step o1 ss))"
  using assms
proof (induction ss arbitrary: o1)
  case (Cons s ss)
  then show ?case using Cons.IH [OF output_step_pulse_on] by simp
qed simp


text \<open>When a pulse ends: at the first available advance at or after the latest deadline.\<close>

lemma output_pulse_end:
  assumes "ou_pulse_deadline_ms (ot_state o1) = Some d" "os_enabled (ot_settings o1)"
  shows "ou_pulse_deadline_ms (ot_state (output_advance o1 t True)) = (if d \<le> t then None else Some d)"
  using assms by (simp add: output_advance_def Let_def)

end
