(* ===== verification/Event_Scheduler.thy ===== *)
theory Event_Scheduler
  imports Dtmf_Command
begin

text \<open>
  Civil-time events: the reservations of \<^verbatim>\<open>core/src/runtime/scheduler.rs\<close> with the trigger types
  of \<^verbatim>\<open>core/src/schedule.rs\<close> and the occurrence cell of \<^verbatim>\<open>core/src/controller/telemetry.rs\<close>.
  An \<^verbatim>\<open>Arc<MessageOccurrence>\<close> is shared with queued audio, so occurrences live in a store
  and reservations hold addresses; a fresh allocation is the next address. The schedule provider
  behind the foreign interface and the caller's \<^verbatim>\<open>render\<close> closure are arguments. A panic
  of the code (an \<^verbatim>\<open>expect\<close> on a missing occurrence) is the result \<open>None\<close>.
\<close>

section \<open>Triggers\<close>

datatype Weekday = Sunday | Monday | Tuesday | Wednesday | Thursday | Friday | Saturday

record CivilTime =
  cv_year :: "16 word"
  cv_month :: "8 word"
  cv_day :: "8 word"
  cv_weekday :: Weekday
  cv_hour :: "8 word"
  cv_minute :: "8 word"

datatype ScheduledEvent =
  Daily "8 word" "8 word"
| Weekly Weekday "8 word" "8 word"
| Once "16 word" "8 word" "8 word" "8 word" "8 word"

record 'w EventTrigger =
  et_events :: "ScheduledEvent list"
  et_days :: "'w option"

text \<open>What the trigger asks of the provider.\<close>

record 'w ScheduleProvider =
  pv_event_occurrence :: "ScheduledEvent \<Rightarrow> CivilTime \<Rightarrow> u64 option"
  pv_window_matches :: "'w \<Rightarrow> CivilTime \<Rightarrow> bool"

definition trigger_occurrence :: "'w ScheduleProvider \<Rightarrow> 'w EventTrigger \<Rightarrow> CivilTime \<Rightarrow> u64 option" where
  "trigger_occurrence pv trig now =
     (if (case et_days trig of Some days \<Rightarrow> \<not> pv_window_matches pv days now | None \<Rightarrow> False) then None
      else find_map (\<lambda>event. pv_event_occurrence pv event now) (et_events trig))"

section \<open>Occurrence cells\<close>

datatype MessageOccurrence = OcPending | OcAudible | OcCancelled

type_synonym occ_store = "MessageOccurrence list"

definition cancel_pending :: "MessageOccurrence \<Rightarrow> MessageOccurrence" where
  "cancel_pending m = (if m = OcPending then OcCancelled else m)"

definition occ_cancelled :: "MessageOccurrence \<Rightarrow> bool" where
  "occ_cancelled m \<longleftrightarrow> m = OcCancelled"

definition occ_begin :: "MessageOccurrence \<Rightarrow> bool \<times> MessageOccurrence" where
  "occ_begin m = (if m = OcPending then (True, OcAudible) else (False, m))"

definition cancel_at :: "occ_store \<Rightarrow> nat \<Rightarrow> occ_store" where
  "cancel_at st a = st[a := cancel_pending (st ! a)]"

section \<open>Scheduler state\<close>

record 'w EventSpec =
  sp_local :: string
  sp_name :: string
  sp_trigger :: "'w EventTrigger"
  sp_media :: bool

datatype SchedulerError = SchedInvalid | SchedRender

record DispatchContent =
  dc_message :: "string option"
  dc_operation :: "Command option"

record Occurrence =
  oc_key :: u64
  oc_civil :: CivilTime
  oc_due_ms :: int
  oc_media :: "nat option"

record 'w EventState =
  ev_spec :: "'w EventSpec"
  ev_completed :: "u64 option"
  ev_ready :: "Occurrence option"
  ev_pending :: "Occurrence option"
  ev_message_queued :: bool
  ev_message_required :: bool
  ev_admitted :: "nat option"

record 'w ScheduledDispatch =
  di_generation :: u64
  di_index :: nat
  di_occurrence :: Occurrence
  di_spec :: "'w EventSpec"
  di_content :: DispatchContent

record 'w EventScheduler =
  es_generation :: u64
  es_events :: "'w EventState list"
  es_last_tick :: "int option"

text \<open>\<^verbatim>\<open>Option::or\<close>.\<close>

fun option_or :: "'a option \<Rightarrow> 'a option \<Rightarrow> 'a option" where
  "option_or (Some x) _ = Some x"
| "option_or None y = y"

section \<open>Construction and reload\<close>

definition specs_invalid :: "'w EventSpec list \<Rightarrow> bool" where
  "specs_invalid specs = list_ex (\<lambda>index.
     sp_local (specs ! index) = [] \<or> sp_name (specs ! index) = []
     \<or> list_ex (\<lambda>other. sp_local other = sp_local (specs ! index) \<and> sp_name other = sp_name (specs ! index)) (take index specs))
     [0..<length specs]"

definition carry_event :: "'w EventState option \<Rightarrow> 'w EventSpec \<Rightarrow> 'w EventState" where
  "carry_event prior spec = \<lparr>
     ev_spec = spec,
     ev_completed = Option.bind prior (\<lambda>old.
        if ev_message_queued old then option_or (map_option oc_key (ev_pending old)) (ev_completed old) else ev_completed old),
     ev_ready = Option.bind prior (\<lambda>old.
        option_or (ev_ready old) (if ev_message_queued old then None else ev_pending old)),
     ev_pending = None, ev_message_queued = False, ev_message_required = False,
     ev_admitted = Option.bind prior ev_admitted\<rparr>"

definition scheduler_new ::
    "u64 \<Rightarrow> 'w EventSpec list \<Rightarrow> 'w EventScheduler option \<Rightarrow> SchedulerError + 'w EventScheduler" where
  "scheduler_new generation specs previous =
     (if generation = 0 \<or> (case previous of Some old \<Rightarrow> generation \<le> es_generation old | None \<Rightarrow> False)
         \<or> specs_invalid specs
      then Inl SchedInvalid
      else Inr \<lparr>es_generation = generation,
        es_events = map (\<lambda>spec. carry_event
          (Option.bind previous (\<lambda>old. find (\<lambda>event. ev_spec event = spec) (es_events old))) spec) specs,
        es_last_tick = Option.bind previous es_last_tick\<rparr>)"

section \<open>Capture and selection\<close>

definition newest_seen :: "'w EventState \<Rightarrow> u64 option" where
  "newest_seen event =
     (case option_list (ev_completed event) @ option_list (map_option oc_key (ev_pending event))
           @ option_list (map_option oc_key (ev_ready event)) of
        [] \<Rightarrow> None | k # ks \<Rightarrow> Some (foldl max k ks))"

text \<open>Cancel the outstanding media of one event; every one of them must hold its occurrence.\<close>

fun cancel_outstanding :: "occ_store \<Rightarrow> Occurrence list \<Rightarrow> occ_store option" where
  "cancel_outstanding st [] = Some st"
| "cancel_outstanding st (oc # ocs) =
     (case oc_media oc of None \<Rightarrow> None | Some a \<Rightarrow> cancel_outstanding (cancel_at st a) ocs)"

definition capture_due ::
    "int \<Rightarrow> CivilTime \<Rightarrow> u64 \<Rightarrow> occ_store \<Rightarrow> 'w EventState \<Rightarrow> (occ_store \<times> 'w EventState) option" where
  "capture_due scheduled_ms now key st event =
     (if sp_media (ev_spec event)
      then (case cancel_outstanding st (option_list (ev_pending event) @ option_list (ev_ready event)) of
              None \<Rightarrow> None
            | Some st1 \<Rightarrow>
                let st2 = (case ev_admitted event of Some a \<Rightarrow> cancel_at st1 a | None \<Rightarrow> st1) in
                Some (st2 @ [OcPending],
                  event\<lparr>ev_ready := Some \<lparr>oc_key = key, oc_civil = now, oc_due_ms = scheduled_ms, oc_media = Some (length st2)\<rparr>\<rparr>))
      else Some (st, event\<lparr>ev_ready := Some \<lparr>oc_key = key, oc_civil = now, oc_due_ms = scheduled_ms, oc_media = None\<rparr>\<rparr>))"

definition capture_event ::
    "'w ScheduleProvider \<Rightarrow> int \<Rightarrow> CivilTime \<Rightarrow> occ_store \<Rightarrow> 'w EventState \<Rightarrow> (occ_store \<times> 'w EventState) option" where
  "capture_event pv scheduled_ms now st event =
     (if \<not> sp_media (ev_spec event) \<and> (ev_pending event \<noteq> None \<or> ev_ready event \<noteq> None) then Some (st, event)
      else (case trigger_occurrence pv (sp_trigger (ev_spec event)) now of
              None \<Rightarrow> Some (st, event)
            | Some key \<Rightarrow>
                if (if sp_media (ev_spec event)
                    then (case newest_seen event of None \<Rightarrow> True | Some seen \<Rightarrow> key > seen)
                    else ev_completed event \<noteq> Some key)
                then capture_due scheduled_ms now key st event
                else Some (st, event)))"

fun capture_events ::
    "'w ScheduleProvider \<Rightarrow> int \<Rightarrow> CivilTime \<Rightarrow> occ_store \<Rightarrow> 'w EventState list \<Rightarrow> (occ_store \<times> 'w EventState list) option" where
  "capture_events pv scheduled_ms now st [] = Some (st, [])"
| "capture_events pv scheduled_ms now st (event # events) =
     (case capture_event pv scheduled_ms now st event of
        None \<Rightarrow> None
      | Some (st1, event1) \<Rightarrow>
          (case capture_events pv scheduled_ms now st1 events of
             None \<Rightarrow> None
           | Some (st2, events1) \<Rightarrow> Some (st2, event1 # events1)))"

text \<open>\<^verbatim>\<open>min_by_key\<close>: the first of the least.\<close>

fun min_by_key :: "('a \<Rightarrow> 'k::linorder) \<Rightarrow> 'a list \<Rightarrow> 'a option" where
  "min_by_key f [] = None"
| "min_by_key f (x # xs) =
     (case min_by_key f xs of None \<Rightarrow> Some x | Some y \<Rightarrow> if f y < f x then Some y else Some x)"

definition outstanding :: "'w EventState \<Rightarrow> Occurrence option" where
  "outstanding event = option_or (ev_pending event) (ev_ready event)"

definition selection :: "'w EventState list \<Rightarrow> (nat \<times> Occurrence) option" where
  "selection events = min_by_key (\<lambda>(_, oc). oc_key oc)
     (List.map_filter (\<lambda>(index, event). map_option (\<lambda>oc. (index, oc)) (outstanding event))
        (zip [0..<length events] events))"

definition render_failed :: "Occurrence \<Rightarrow> 'w EventState \<Rightarrow> 'w EventState" where
  "render_failed oc event = event\<lparr>
     ev_ready := (case ev_ready event of Some ready \<Rightarrow> if oc_key ready = oc_key oc then None else Some ready | None \<Rightarrow> None),
     ev_pending := None, ev_message_queued := False, ev_completed := Some (oc_key oc)\<rparr>"

definition reserve :: "Occurrence \<Rightarrow> DispatchContent \<Rightarrow> 'w EventState \<Rightarrow> 'w EventState" where
  "reserve oc content event =
     (let event1 = (if ev_pending event = None
                    then event\<lparr>ev_ready := None, ev_pending := Some oc, ev_message_queued := False\<rparr> else event)
      in event1\<lparr>ev_message_required := (dc_message content \<noteq> None)\<rparr>)"

definition scheduler_next ::
    "'w ScheduleProvider \<Rightarrow> ('w EventSpec \<Rightarrow> CivilTime \<Rightarrow> SchedulerError + DispatchContent) \<Rightarrow> int \<Rightarrow> int \<Rightarrow> CivilTime
     \<Rightarrow> occ_store \<Rightarrow> 'w EventScheduler
     \<Rightarrow> ((SchedulerError + 'w ScheduledDispatch option) \<times> occ_store \<times> 'w EventScheduler) option" where
  "scheduler_next pv render captured_time scheduled_ms now st s =
     (case (if (case es_last_tick s of None \<Rightarrow> True | Some prev \<Rightarrow> captured_time \<ge> prev)
            then map_option (\<lambda>(st1, events). (st1, s\<lparr>es_events := events, es_last_tick := Some captured_time\<rparr>))
                   (capture_events pv scheduled_ms now st (es_events s))
            else Some (st, s)) of
        None \<Rightarrow> None
      | Some (st1, s1) \<Rightarrow>
          (case selection (es_events s1) of
             None \<Rightarrow> Some (Inr None, st1, s1)
           | Some (index, oc) \<Rightarrow>
               let event = es_events s1 ! index in
               (case render (ev_spec event) (oc_civil oc) of
                  Inl error \<Rightarrow> Some (Inl error, st1, s1\<lparr>es_events := (es_events s1)[index := render_failed oc event]\<rparr>)
                | Inr content \<Rightarrow>
                    Some (Inr (Some \<lparr>di_generation = es_generation s1, di_index = index, di_occurrence = oc,
                                     di_spec = ev_spec event, di_content = content\<rparr>),
                          st1, s1\<lparr>es_events := (es_events s1)[index := reserve oc content event]\<rparr>))))"

section \<open>Results\<close>

definition dispatch_pending :: "'w EventScheduler \<Rightarrow> 'w ScheduledDispatch \<Rightarrow> bool" where
  "dispatch_pending s d \<longleftrightarrow> di_generation d = es_generation s \<and> di_index d < length (es_events s)
     \<and> ev_spec (es_events s ! di_index d) = di_spec d
     \<and> (case ev_pending (es_events s ! di_index d) of Some pending \<Rightarrow> oc_key pending = oc_key (di_occurrence d) | None \<Rightarrow> False)"

definition scheduler_current :: "'w EventScheduler \<Rightarrow> 'w ScheduledDispatch \<Rightarrow> bool" where
  "scheduler_current s d = dispatch_pending s d"

definition is_message_queued :: "'w EventScheduler \<Rightarrow> 'w ScheduledDispatch \<Rightarrow> bool" where
  "is_message_queued s d \<longleftrightarrow> dispatch_pending s d \<and> ev_message_queued (es_events s ! di_index d)"

definition message_queued :: "'w EventScheduler \<Rightarrow> 'w ScheduledDispatch \<Rightarrow> bool \<times> 'w EventScheduler" where
  "message_queued s d =
     (if \<not> dispatch_pending s d then (False, s)
      else (True, s\<lparr>es_events := (es_events s)[di_index d := (es_events s ! di_index d)
              \<lparr>ev_message_queued := True, ev_admitted := oc_media (di_occurrence d)\<rparr>]\<rparr>))"

definition scheduler_complete :: "'w EventScheduler \<Rightarrow> 'w ScheduledDispatch \<Rightarrow> bool \<times> 'w EventScheduler" where
  "scheduler_complete s d =
     (let event = es_events s ! di_index d in
      if \<not> dispatch_pending s d then (False, s)
      else if ev_message_required event \<and> \<not> ev_message_queued event then (False, s)
      else (True, s\<lparr>es_events := (es_events s)[di_index d := event
              \<lparr>ev_completed := Some (oc_key (di_occurrence d)), ev_pending := None, ev_message_queued := False\<rparr>]\<rparr>))"

section \<open>Progress\<close>

text \<open>The minute an event has used up: its completed one, or the pending one once its message is queued.\<close>

definition consumed :: "'w EventState \<Rightarrow> u64 option" where
  "consumed e = (if ev_message_queued e then option_or (map_option oc_key (ev_pending e)) (ev_completed e) else ev_completed e)"

definition newer :: "u64 option \<Rightarrow> u64 option \<Rightarrow> bool" where
  "newer a b \<longleftrightarrow> (\<forall>c. a = Some c \<longrightarrow> (\<exists>c'. b = Some c' \<and> c \<le> c'))"

lemma newer_refl [simp]: "newer a a"
  by (simp add: newer_def)

lemma newer_Some [simp]: "newer (Some a) (Some b) \<longleftrightarrow> a \<le> b" "newer None m"
  by (auto simp: newer_def)

lemma newer_trans: "newer a b \<Longrightarrow> newer b c \<Longrightarrow> newer a c"
  by (fastforce simp: newer_def)

text \<open>Progress of one event: same specification, and for media neither minute goes back.\<close>

definition progresses :: "'w EventState \<Rightarrow> 'w EventState \<Rightarrow> bool" where
  "progresses e e' \<longleftrightarrow> ev_spec e' = ev_spec e
     \<and> (sp_media (ev_spec e) \<longrightarrow> newer (ev_completed e) (ev_completed e') \<and> newer (consumed e) (consumed e'))"

definition media_ok :: "nat \<Rightarrow> 'w ScheduledDispatch \<Rightarrow> bool" where
  "media_ok n d \<longleftrightarrow> (case oc_media (di_occurrence d) of Some a \<Rightarrow> a < n | None \<Rightarrow> True)"

lemma progresses_refl [simp]: "progresses e e"
  by (simp add: progresses_def)

lemma progresses_same:
  "ev_spec e' = ev_spec e \<Longrightarrow> ev_completed e' = ev_completed e \<Longrightarrow> consumed e' = consumed e \<Longrightarrow> progresses e e'"
  by (simp add: progresses_def)

lemma progresses_trans: "progresses a b \<Longrightarrow> progresses b c \<Longrightarrow> progresses a c"
  by (auto simp: progresses_def intro: newer_trans)

lemma list_progresses_update:
  assumes "i < length es" "progresses (es ! i) e"
  shows "list_all2 progresses es (es[i := e])"
  using assms by (auto simp: list_all2_conv_all_nth nth_list_update)

lemma list_progresses_trans:
  "list_all2 progresses as bs \<Longrightarrow> list_all2 progresses bs cs \<Longrightarrow> list_all2 progresses as cs"
  by (erule (1) list_all2_trans [rotated]) (rule progresses_trans)

lemma list_progresses_specs: "list_all2 progresses es es' \<Longrightarrow> map ev_spec es' = map ev_spec es"
  by (auto simp: list_all2_conv_all_nth progresses_def intro!: nth_equalityI)

section \<open>Invariant of an event\<close>

definition event_keys :: "'w EventState \<Rightarrow> u64 list" where
  "event_keys e = option_list (ev_completed e) @ option_list (map_option oc_key (ev_pending e))
     @ option_list (map_option oc_key (ev_ready e))"

text \<open>\<open>n\<close> is the size of the occurrence store.\<close>

definition held :: "nat \<Rightarrow> Occurrence \<Rightarrow> bool" where
  "held n oc \<longleftrightarrow> (case oc_media oc of Some a \<Rightarrow> a < n | None \<Rightarrow> False)"

definition event_ok :: "nat \<Rightarrow> 'w EventState \<Rightarrow> bool" where
  "event_ok n e \<longleftrightarrow>
     (case ev_admitted e of Some a \<Rightarrow> a < n | None \<Rightarrow> True)
     \<and> (if sp_media (ev_spec e)
        then list_all (held n) (option_list (ev_pending e) @ option_list (ev_ready e)) \<and> sorted_wrt (<) (event_keys e)
        else distinct (event_keys e) \<and> (ev_pending e = None \<or> ev_ready e = None)
             \<and> list_all (\<lambda>oc. oc_media oc = None) (option_list (ev_pending e) @ option_list (ev_ready e)))"

lemma held_mono: "held n oc \<Longrightarrow> n \<le> m \<Longrightarrow> held m oc"
  by (auto simp: held_def split: option.splits)

lemma event_ok_mono: "event_ok n e \<Longrightarrow> n \<le> m \<Longrightarrow> event_ok m e"
  by (auto simp: event_ok_def list_all_iff split: option.splits if_splits intro: held_mono)

lemma foldl_max_ge: "x \<le> foldl max (x::'a::linorder) ys" "y \<in> set ys \<Longrightarrow> y \<le> foldl max x ys"
proof (induction ys arbitrary: x)
  case (Cons z zs)
  { case 1 show ?case using Cons.IH(1) [of "max x z"] by (simp add: max.bounded_iff) }
  { case 2 then show ?case using Cons.IH(1) [of "max x z"] Cons.IH(2) [of "max x z"]
      by (auto simp: max.bounded_iff) }
qed simp_all

lemma newest_seen_ge:
  assumes "case newest_seen e of None \<Rightarrow> True | Some seen \<Rightarrow> k > seen" "x \<in> set (event_keys e)"
  shows "x < k"
proof (cases "event_keys e")
  case (Cons y ys)
  then have "newest_seen e = Some (foldl max y ys)"
    by (simp add: newest_seen_def event_keys_def)
  then show ?thesis
    using assms Cons foldl_max_ge(1) [of y ys] foldl_max_ge(2) [of x ys y] by auto
qed (use assms in simp)

lemma cancel_outstanding_ok:
  "list_all (held n) ocs \<Longrightarrow> \<exists>st'. cancel_outstanding st ocs = Some st' \<and> length st' = length st"
proof (induction ocs arbitrary: st)
  case (Cons oc ocs)
  then obtain a where "oc_media oc = Some a" by (auto simp: held_def split: option.splits)
  then show ?case
    using Cons.IH [of "cancel_at st a"] Cons.prems by (simp add: cancel_at_def)
qed simp

lemma capture_event_ok:
  assumes "event_ok (length st) e"
  shows "\<exists>st' e'. capture_event pv ms now st e = Some (st', e') \<and> length st \<le> length st' \<and> event_ok (length st') e'
    \<and> progresses e e'"
proof (cases "capture_event pv ms now st e = Some (st, e)")
  case True
  then show ?thesis using assms by auto
next
  case False
  then obtain key where key: "capture_event pv ms now st e = capture_due ms now key st e"
    and new: "if sp_media (ev_spec e) then (case newest_seen e of None \<Rightarrow> True | Some seen \<Rightarrow> key > seen)
              else ev_completed e \<noteq> Some key \<and> ev_pending e = None \<and> ev_ready e = None"
    by (auto simp: capture_event_def split: if_splits option.splits)
  show ?thesis
  proof (cases "sp_media (ev_spec e)")
    case True
    then have held: "list_all (held (length st)) (option_list (ev_pending e) @ option_list (ev_ready e))"
      and sorted: "sorted_wrt (<) (event_keys e)"
      using assms by (simp_all add: event_ok_def)
    obtain st1 where st1: "cancel_outstanding st (option_list (ev_pending e) @ option_list (ev_ready e)) = Some st1"
      "length st1 = length st"
      using cancel_outstanding_ok [OF held] by blast
    have held': "list_all (held (Suc (length st))) (option_list (ev_pending e))"
      using held held_mono [of "length st" _ "Suc (length st)"] by (auto simp: list_all_iff)
    have adm: "case ev_admitted e of Some a \<Rightarrow> a < Suc (length st) | None \<Rightarrow> True"
      using assms by (auto simp: event_ok_def split: option.splits)
    have "\<forall>x \<in> set (event_keys e). x < key"
      using newest_seen_ge [where e = e and k = key] new True by auto
    then have "event_ok (Suc (length st)) (e\<lparr>ev_ready := Some \<lparr>oc_key = key, oc_civil = now, oc_due_ms = ms, oc_media = Some (length st)\<rparr>\<rparr>)"
      using True sorted held' adm by (simp add: event_ok_def event_keys_def held_def sorted_wrt_append)
    then show ?thesis
      using True st1 by (auto simp: key capture_due_def Let_def cancel_at_def progresses_def consumed_def split: option.splits)
  next
    case False
    then show ?thesis
      using assms new by (cases "ev_completed e") (auto simp: key capture_due_def event_ok_def event_keys_def progresses_def)
  qed
qed

lemma capture_events_ok:
  assumes "list_all (event_ok (length st)) es"
  shows "\<exists>st' es'. capture_events pv ms now st es = Some (st', es') \<and> length st \<le> length st'
    \<and> list_all (event_ok (length st')) es' \<and> list_all2 progresses es es'"
  using assms
proof (induction es arbitrary: st)
  case (Cons e es)
  obtain st1 e1 where e1: "capture_event pv ms now st e = Some (st1, e1)" "length st \<le> length st1" "event_ok (length st1) e1"
    "progresses e e1"
    using capture_event_ok [of st e pv ms now] Cons.prems by auto
  have "list_all (event_ok (length st1)) es"
    using Cons.prems e1(2) by (auto simp: list_all_iff intro: event_ok_mono)
  then obtain st2 es2 where es2: "capture_events pv ms now st1 es = Some (st2, es2)" "length st1 \<le> length st2"
    "list_all (event_ok (length st2)) es2" "list_all2 progresses es es2"
    using Cons.IH [of st1] by blast
  then show ?case
    using e1 event_ok_mono [OF e1(3) es2(2)] by simp
qed simp

lemma min_by_key_Some: "min_by_key f xs = Some x \<Longrightarrow> x \<in> set xs \<and> (\<forall>y \<in> set xs. f x \<le> f y)"
proof (induction xs arbitrary: x)
  case (Cons a xs)
  show ?case
  proof (cases "min_by_key f xs")
    case None
    then have "xs = []" by (cases xs) (auto split: option.splits if_splits)
    then show ?thesis using Cons.prems by simp
  next
    case (Some y)
    then show ?thesis using Cons.IH [OF Some] Cons.prems by (auto split: if_splits intro: order_trans less_imp_le)
  qed
qed simp

lemma selection_Some:
  assumes "selection es = Some (i, oc)"
  shows "i < length es" "outstanding (es ! i) = Some oc"
    "\<forall>j < length es. \<forall>oc'. outstanding (es ! j) = Some oc' \<longrightarrow> oc_key oc \<le> oc_key oc'"
proof -
  let ?xs = "List.map_filter (\<lambda>(index, event). map_option (\<lambda>oc. (index, oc)) (outstanding event)) (zip [0..<length es] es)"
  have mem: "(j, oc') \<in> set ?xs \<longleftrightarrow> j < length es \<and> outstanding (es ! j) = Some oc'" for j oc'
  proof
    assume "(j, oc') \<in> set ?xs"
    then show "j < length es \<and> outstanding (es ! j) = Some oc'"
      by (auto simp: set_map_filter in_set_zip)
  next
    assume j: "j < length es \<and> outstanding (es ! j) = Some oc'"
    then have "(j, es ! j) \<in> set (zip [0..<length es] es)"
      by (force simp: in_set_zip)
    then show "(j, oc') \<in> set ?xs"
      using j unfolding set_map_filter by (intro bexI [of _ "(j, es ! j)"]) simp_all
  qed
  have "(i, oc) \<in> set ?xs \<and> (\<forall>y \<in> set ?xs. (\<lambda>(_, oc). oc_key oc) (i, oc) \<le> (\<lambda>(_, oc). oc_key oc) y)"
    by (rule min_by_key_Some) (use assms in \<open>simp only: selection_def\<close>)
  then have least: "(i, oc) \<in> set ?xs" "(j, oc') \<in> set ?xs \<Longrightarrow> oc_key oc \<le> oc_key oc'" for j oc'
    by (blast, force)
  then show "i < length es" "outstanding (es ! i) = Some oc"
    "\<forall>j < length es. \<forall>oc'. outstanding (es ! j) = Some oc' \<longrightarrow> oc_key oc \<le> oc_key oc'"
    unfolding mem by blast+
qed

lemma reserve_ok:
  assumes "event_ok n e" "outstanding e = Some oc"
  shows "event_ok n (reserve oc content e)" "ev_spec (reserve oc content e) = ev_spec e"
    "progresses e (reserve oc content e)" "ev_pending (reserve oc content e) = Some oc"
proof -
  show "event_ok n (reserve oc content e)"
    using assms by (cases "ev_pending e"; cases "sp_media (ev_spec e)")
      (auto simp: reserve_def outstanding_def event_ok_def event_keys_def Let_def)
  show "ev_spec (reserve oc content e) = ev_spec e"
    by (simp add: reserve_def Let_def)
  show "progresses e (reserve oc content e)"
    by (intro progresses_same) (simp_all add: reserve_def consumed_def Let_def)
  show "ev_pending (reserve oc content e) = Some oc"
    using assms by (cases "ev_pending e") (simp_all add: reserve_def outstanding_def Let_def)
qed

lemma render_failed_ok:
  assumes "event_ok n e" "outstanding e = Some oc"
  shows "event_ok n (render_failed oc e)" "ev_spec (render_failed oc e) = ev_spec e"
proof -
  show "event_ok n (render_failed oc e)"
    using assms by (cases "ev_pending e"; cases "ev_ready e"; cases "ev_completed e")
      (simp_all add: render_failed_def outstanding_def event_ok_def event_keys_def split: if_splits)
  show "ev_spec (render_failed oc e) = ev_spec e" by (simp add: render_failed_def)
qed

lemma carry_ok: "event_ok n e \<Longrightarrow> event_ok n (carry_event (Some e) (ev_spec e))"
  by (cases "ev_pending e"; cases "ev_ready e"; cases "ev_completed e"; cases "ev_message_queued e")
    (simp_all add: carry_event_def event_ok_def event_keys_def split: if_splits)

section \<open>Operations preserve the invariant\<close>

lemma outstanding_key_newer:
  assumes "event_ok n e" "outstanding e = Some oc" "sp_media (ev_spec e)" "ev_completed e = Some c"
  shows "c < oc_key oc"
  using assms by (cases "ev_pending e") (auto simp: event_ok_def event_keys_def outstanding_def)

lemma render_failed_progresses:
  assumes "event_ok n e" "outstanding e = Some oc"
  shows "progresses e (render_failed oc e)"
  using outstanding_key_newer [OF assms] assms(2)
  by (cases "ev_completed e"; cases "ev_pending e")
    (auto simp: progresses_def render_failed_def consumed_def outstanding_def intro: less_imp_le)

lemma outstanding_media:
  assumes "event_ok n e" "outstanding e = Some oc"
  shows "case oc_media oc of Some a \<Rightarrow> a < n | None \<Rightarrow> True"
  using assms by (cases "ev_pending e"; cases "sp_media (ev_spec e)")
    (auto simp: event_ok_def outstanding_def held_def split: option.splits)

lemma captured_ok:
  assumes "list_all (event_ok (length st)) (es_events s)"
  shows "\<exists>st1 s1. (if (case es_last_tick s of None \<Rightarrow> True | Some prev \<Rightarrow> t \<ge> prev)
            then map_option (\<lambda>(st1, events). (st1, s\<lparr>es_events := events, es_last_tick := Some t\<rparr>))
                   (capture_events pv ms now st (es_events s))
            else Some (st, s)) = Some (st1, s1)
    \<and> length st \<le> length st1 \<and> list_all (event_ok (length st1)) (es_events s1)
    \<and> es_generation s1 = es_generation s \<and> list_all2 progresses (es_events s) (es_events s1)"
proof -
  obtain st' es' where es: "capture_events pv ms now st (es_events s) = Some (st', es')" "length st \<le> length st'"
    "list_all (event_ok (length st')) es'" "list_all2 progresses (es_events s) es'"
    using capture_events_ok [OF assms, of pv ms now] by blast
  then show ?thesis
    using es assms by (auto simp: list.rel_refl)
qed

lemma next_ok:
  assumes "list_all (event_ok (length st)) (es_events s)"
  shows "\<exists>r st' s'. scheduler_next pv render t ms now st s = Some (r, st', s') \<and> length st \<le> length st'
    \<and> list_all (event_ok (length st')) (es_events s') \<and> es_generation s' = es_generation s
    \<and> list_all2 progresses (es_events s) (es_events s')
    \<and> (case r of Inr (Some d) \<Rightarrow>
          media_ok (length st') d \<and> dispatch_pending s' d
          \<and> (\<forall>j < length (es_events s'). \<forall>oc. outstanding (es_events s' ! j) = Some oc \<longrightarrow>
               oc_key (di_occurrence d) \<le> oc_key oc)
        | _ \<Rightarrow> True)"
proof -
  obtain st1 s1 where s1: "(if (case es_last_tick s of None \<Rightarrow> True | Some prev \<Rightarrow> t \<ge> prev)
            then map_option (\<lambda>(st1, events). (st1, s\<lparr>es_events := events, es_last_tick := Some t\<rparr>))
                   (capture_events pv ms now st (es_events s))
            else Some (st, s)) = Some (st1, s1)"
    "length st \<le> length st1" "list_all (event_ok (length st1)) (es_events s1)"
    "es_generation s1 = es_generation s" "list_all2 progresses (es_events s) (es_events s1)"
    using captured_ok [OF assms] by blast
  show ?thesis
  proof (cases "selection (es_events s1)")
    case None
    then show ?thesis using s1 by (simp add: scheduler_next_def)
  next
    case (Some sel)
    obtain i oc where sel: "selection (es_events s1) = Some (i, oc)" using Some by (cases sel) auto
    note i = selection_Some [OF sel]
    let ?e = "es_events s1 ! i"
    have ok: "event_ok (length st1) ?e" using s1(3) i(1) by (rule list_all_nth)
    show ?thesis
    proof (cases "render (ev_spec ?e) (oc_civil oc)")
      case (Inl err)
      have "list_all2 progresses (es_events s) ((es_events s1)[i := render_failed oc ?e])"
        using list_progresses_trans [OF s1(5) list_progresses_update [OF i(1) render_failed_progresses [OF ok i(2)]]] .
      then show ?thesis
        using s1 sel Inl render_failed_ok(1) [OF ok i(2)] by (simp add: scheduler_next_def list_all_list_update)
    next
      case (Inr content)
      note res = reserve_ok [OF ok i(2), of content]
      have prog: "list_all2 progresses (es_events s) ((es_events s1)[i := reserve oc content ?e])"
        using list_progresses_trans [OF s1(5) list_progresses_update [OF i(1) res(3)]] .
      have least: "oc_key oc \<le> oc_key oc'"
        if "j < length (es_events s1)" "outstanding ((es_events s1)[i := reserve oc content ?e] ! j) = Some oc'" for j oc'
        using that i res(4) by (cases "j = i") (auto simp: outstanding_def)
      show ?thesis
        using s1 sel Inr res(1,2,4) outstanding_media [OF ok i(2)] i(1) prog least
        by (simp add: scheduler_next_def Let_def list_all_list_update media_ok_def dispatch_pending_def)
    qed
  qed
qed

lemma queued_ok:
  assumes "list_all (event_ok n) (es_events s)" "media_ok n d"
  shows "list_all (event_ok n) (es_events (snd (message_queued s d)))"
    "list_all2 progresses (es_events s) (es_events (snd (message_queued s d)))"
    "es_generation (snd (message_queued s d)) = es_generation s"
proof -
  let ?e = "es_events s ! di_index d"
  let ?e' = "?e\<lparr>ev_message_queued := True, ev_admitted := oc_media (di_occurrence d)\<rparr>"
  have "event_ok n ?e'" if "di_index d < length (es_events s)"
    using list_all_nth [OF assms(1) that] assms(2)
    by (cases "sp_media (ev_spec ?e)") (simp_all add: event_ok_def event_keys_def media_ok_def)
  then show "list_all (event_ok n) (es_events (snd (message_queued s d)))"
    using assms(1) by (auto simp: message_queued_def dispatch_pending_def intro: list_all_list_update)
  have "progresses ?e ?e'" if "di_index d < length (es_events s)"
    using outstanding_key_newer [OF list_all_nth [OF assms(1) that]]
    by (cases "ev_pending ?e"; cases "ev_completed ?e")
      (auto simp: progresses_def consumed_def outstanding_def intro: less_imp_le)
  then show "list_all2 progresses (es_events s) (es_events (snd (message_queued s d)))"
    using list_progresses_update [of "di_index d" "es_events s" ?e']
    by (auto simp: message_queued_def dispatch_pending_def list.rel_refl)
  show "es_generation (snd (message_queued s d)) = es_generation s" by (simp add: message_queued_def)
qed

lemma complete_ok:
  assumes "list_all (event_ok n) (es_events s)"
  shows "list_all (event_ok n) (es_events (snd (scheduler_complete s d)))"
    "list_all2 progresses (es_events s) (es_events (snd (scheduler_complete s d)))"
    "es_generation (snd (scheduler_complete s d)) = es_generation s"
    "fst (scheduler_complete s d) \<Longrightarrow> di_index d < length (es_events s)
      \<and> ev_completed (es_events (snd (scheduler_complete s d)) ! di_index d) = Some (oc_key (di_occurrence d))
      \<and> (\<forall>c. ev_completed (es_events s ! di_index d) = Some c \<longrightarrow> c \<noteq> oc_key (di_occurrence d)
            \<and> (sp_media (ev_spec (es_events s ! di_index d)) \<longrightarrow> c < oc_key (di_occurrence d)))"
proof -
  let ?e = "es_events s ! di_index d"
  let ?k = "oc_key (di_occurrence d)"
  let ?e' = "?e\<lparr>ev_completed := Some ?k, ev_pending := None, ev_message_queued := False\<rparr>"
  have e: "event_ok n ?e' \<and> (\<forall>c. ev_completed ?e = Some c \<longrightarrow> c \<noteq> ?k \<and> (sp_media (ev_spec ?e) \<longrightarrow> c < ?k))"
    if cur: "dispatch_pending s d"
  proof -
    obtain p where p: "ev_pending ?e = Some p" "oc_key p = ?k" "di_index d < length (es_events s)"
      using cur by (auto simp: dispatch_pending_def split: option.splits)
    then show ?thesis
      using list_all_nth [OF assms p(3)]
      by (cases "sp_media (ev_spec ?e)"; cases "ev_completed ?e") (auto simp: event_ok_def event_keys_def)
  qed
  have prog: "progresses ?e ?e'" if "dispatch_pending s d"
    using e [OF that] that by (cases "ev_completed ?e")
      (auto simp: progresses_def consumed_def dispatch_pending_def intro: less_imp_le split: option.splits)
  show "list_all (event_ok n) (es_events (snd (scheduler_complete s d)))"
    using assms e by (auto simp: scheduler_complete_def Let_def intro: list_all_list_update)
  show "list_all2 progresses (es_events s) (es_events (snd (scheduler_complete s d)))"
    using list_progresses_update [of "di_index d" "es_events s" ?e'] prog
    by (auto simp: scheduler_complete_def Let_def dispatch_pending_def list.rel_refl)
  show "es_generation (snd (scheduler_complete s d)) = es_generation s" by (simp add: scheduler_complete_def Let_def)
  show "fst (scheduler_complete s d) \<Longrightarrow> di_index d < length (es_events s)
      \<and> ev_completed (es_events (snd (scheduler_complete s d)) ! di_index d) = Some ?k
      \<and> (\<forall>c. ev_completed ?e = Some c \<longrightarrow> c \<noteq> ?k \<and> (sp_media (ev_spec ?e) \<longrightarrow> c < ?k))"
    using e by (auto simp: scheduler_complete_def Let_def dispatch_pending_def split: if_splits)
qed

lemma carry_progresses:
  assumes "event_ok n e"
  shows "progresses e (carry_event (Some e) (ev_spec e))"
  using outstanding_key_newer [OF assms]
  by (cases "ev_pending e"; cases "ev_completed e")
    (auto simp: progresses_def carry_event_def consumed_def outstanding_def intro: less_imp_le)

lemma reload_events:
  assumes "scheduler_new g (map ev_spec (es_events s)) (Some s) = Inr s'" "distinct (map ev_spec (es_events s))"
  shows "es_events s' = map (\<lambda>e. carry_event (Some e) (ev_spec e)) (es_events s)"
proof -
  have "find (\<lambda>event. ev_spec event = ev_spec e) (es_events s) = Some e" if "e \<in> set (es_events s)" for e
    using find_distinct [OF assms(2) that] .
  then show ?thesis
    using assms(1) by (auto simp: scheduler_new_def split: if_splits)
qed

lemma reload_ok:
  assumes "scheduler_new g (map ev_spec (es_events s)) (Some s) = Inr s'" "distinct (map ev_spec (es_events s))"
    "list_all (event_ok n) (es_events s)"
  shows "list_all (event_ok n) (es_events s')" "list_all2 progresses (es_events s) (es_events s')"
  unfolding reload_events [OF assms(1,2)]
  using assms(3) carry_ok [of n] carry_progresses [of n]
  by (auto simp: list_all_length list_all2_conv_all_nth)

lemma valid_specs_distinct: "\<not> specs_invalid specs \<Longrightarrow> distinct specs"
proof (induction specs rule: rev_induct)
  case (snoc x xs)
  have "\<not> specs_invalid xs"
    using snoc.prems unfolding specs_invalid_def list_ex_iff
    by (auto simp: nth_append)
  moreover have "x \<notin> set xs"
    using snoc.prems by (auto simp: specs_invalid_def list_ex_iff nth_append)
  ultimately show ?case using snoc.IH by simp
qed simp

section \<open>Runs\<close>

text \<open>
  A run interleaves ticks, results reported for dispatches issued earlier (in any order and as often as
  the caller likes), reloads of the same configuration and the audio owner starting an occurrence. The
  logs record, per event, the minutes whose message was admitted and the minutes completed.
\<close>

record 'w SchedulerWorld =
  w_store :: occ_store
  w_sched :: "'w EventScheduler"
  w_issued :: "'w ScheduledDispatch list"
  w_admitted :: "(nat \<times> u64) list"
  w_completed :: "(nat \<times> u64) list"
  w_panicked :: bool

datatype 'w SchedulerStep =
  SkNext "'w EventSpec \<Rightarrow> CivilTime \<Rightarrow> SchedulerError + DispatchContent" int int CivilTime
| SkQueued nat
| SkComplete nat
| SkReload u64
| SkBegin nat

definition world_init :: "'w EventScheduler \<Rightarrow> 'w SchedulerWorld" where
  "world_init s = \<lparr>w_store = [], w_sched = s, w_issued = [], w_admitted = [], w_completed = [], w_panicked = False\<rparr>"

definition log_entry :: "'w ScheduledDispatch \<Rightarrow> nat \<times> u64" where
  "log_entry d = (di_index d, oc_key (di_occurrence d))"

fun scheduler_step :: "'w ScheduleProvider \<Rightarrow> 'w SchedulerWorld \<Rightarrow> 'w SchedulerStep \<Rightarrow> 'w SchedulerWorld" where
  "scheduler_step pv w (SkNext render t ms now) =
     (case scheduler_next pv render t ms now (w_store w) (w_sched w) of
        None \<Rightarrow> w\<lparr>w_panicked := True\<rparr>
      | Some (r, st, s) \<Rightarrow> w\<lparr>w_store := st, w_sched := s,
          w_issued := w_issued w @ (case r of Inr (Some d) \<Rightarrow> [d] | _ \<Rightarrow> [])\<rparr>)"
| "scheduler_step pv w (SkQueued n) =
     (if n < length (w_issued w)
      then let d = w_issued w ! n; (ok, s) = message_queued (w_sched w) d in
           w\<lparr>w_sched := s, w_admitted := w_admitted w
               @ (if ok \<and> \<not> is_message_queued (w_sched w) d then [log_entry d] else [])\<rparr>
      else w)"
| "scheduler_step pv w (SkComplete n) =
     (if n < length (w_issued w)
      then let d = w_issued w ! n; (ok, s) = scheduler_complete (w_sched w) d in
           w\<lparr>w_sched := s, w_completed := w_completed w @ (if ok then [log_entry d] else [])\<rparr>
      else w)"
| "scheduler_step pv w (SkReload g) =
     (case scheduler_new g (map ev_spec (es_events (w_sched w))) (Some (w_sched w)) of
        Inl _ \<Rightarrow> w | Inr s \<Rightarrow> w\<lparr>w_sched := s\<rparr>)"
| "scheduler_step pv w (SkBegin a) =
     (if a < length (w_store w) then w\<lparr>w_store := (w_store w)[a := snd (occ_begin (w_store w ! a))]\<rparr> else w)"

definition log_keys :: "(nat \<times> u64) list \<Rightarrow> nat \<Rightarrow> u64 list" where
  "log_keys log i = map snd (filter (\<lambda>(j, _). j = i) log)"

text \<open>A log that is strictly increasing per media event and bounded by the minute \<open>f\<close> reports.\<close>

definition log_ok :: "('w EventState \<Rightarrow> u64 option) \<Rightarrow> 'w EventState list \<Rightarrow> (nat \<times> u64) list \<Rightarrow> bool" where
  "log_ok f es log \<longleftrightarrow> (\<forall>i < length es. sp_media (ev_spec (es ! i)) \<longrightarrow>
     sorted_wrt (<) (log_keys log i) \<and> (\<forall>k \<in> set (log_keys log i). newer (Some k) (f (es ! i))))"

definition world_ok :: "'w SchedulerWorld \<Rightarrow> bool" where
  "world_ok w \<longleftrightarrow> \<not> w_panicked w \<and> list_all (event_ok (length (w_store w))) (es_events (w_sched w))
     \<and> distinct (map ev_spec (es_events (w_sched w))) \<and> list_all (media_ok (length (w_store w))) (w_issued w)
     \<and> log_ok consumed (es_events (w_sched w)) (w_admitted w)
     \<and> log_ok ev_completed (es_events (w_sched w)) (w_completed w)"

lemma log_ok_mono:
  assumes "log_ok f es log" "list_all2 progresses es es'" "f = consumed \<or> f = ev_completed"
  shows "log_ok f es' log"
  unfolding log_ok_def
proof (intro allI impI)
  fix i
  assume i: "i < length es'" "sp_media (ev_spec (es' ! i))"
  then have p: "progresses (es ! i) (es' ! i)" "i < length es"
    using assms(2) by (auto simp: list_all2_conv_all_nth)
  then have "sp_media (ev_spec (es ! i))" "newer (f (es ! i)) (f (es' ! i))"
    using i(2) assms(3) by (auto simp: progresses_def)
  then show "sorted_wrt (<) (log_keys log i) \<and> (\<forall>k \<in> set (log_keys log i). newer (Some k) (f (es' ! i)))"
    using assms(1) p(2) by (auto simp: log_ok_def intro: newer_trans)
qed

lemma log_ok_snoc:
  assumes "log_ok f es' log" "j < length es'" "sp_media (ev_spec (es' ! j)) \<Longrightarrow> f (es' ! j) = Some k"
    "sp_media (ev_spec (es' ! j)) \<Longrightarrow> list_all (\<lambda>x. x < k) (log_keys log j)"
  shows "log_ok f es' (log @ [(j, k)])"
  using assms by (auto simp: log_ok_def log_keys_def sorted_wrt_append list_all_iff)

lemma media_ok_mono: "media_ok n d \<Longrightarrow> n \<le> m \<Longrightarrow> media_ok m d"
  by (auto simp: media_ok_def split: option.splits)

lemma step_next_ok:
  assumes "world_ok w"
  shows "world_ok (scheduler_step pv w (SkNext render t ms now))"
proof -
  have ok: "list_all (event_ok (length (w_store w))) (es_events (w_sched w))"
    using assms by (simp add: world_ok_def)
  obtain r st s where n: "scheduler_next pv render t ms now (w_store w) (w_sched w) = Some (r, st, s)"
    "length (w_store w) \<le> length st" "list_all (event_ok (length st)) (es_events s)"
    "list_all2 progresses (es_events (w_sched w)) (es_events s)"
    "case r of Inr (Some d) \<Rightarrow> media_ok (length st) d | _ \<Rightarrow> True"
    using next_ok [OF ok, of pv render t ms now] by (fastforce split: sum.splits option.splits)
  have "list_all (media_ok (length st)) (w_issued w)"
    using assms n(2) by (auto simp: world_ok_def list_all_iff intro: media_ok_mono)
  then show ?thesis
    using assms n list_progresses_specs [OF n(4)] log_ok_mono [OF _ n(4)]
    by (auto simp: world_ok_def split: sum.splits option.splits)
qed

lemma step_queued_ok:
  assumes "world_ok w"
  shows "world_ok (scheduler_step pv w (SkQueued n))"
proof (cases "n < length (w_issued w)")
  case True
  let ?d = "w_issued w ! n" and ?es = "es_events (w_sched w)"
  let ?s = "snd (message_queued (w_sched w) ?d)"
  have ok: "list_all (event_ok (length (w_store w))) ?es" "media_ok (length (w_store w)) ?d"
    and logs: "log_ok consumed ?es (w_admitted w)" "log_ok ev_completed ?es (w_completed w)"
    using assms True by (simp_all add: world_ok_def list_all_nth)
  note q = queued_ok [OF ok]
  have adm: "log_ok consumed (es_events ?s) (w_admitted w)"
    using log_ok_mono [OF logs(1) q(2)] by simp
  have "log_ok consumed (es_events ?s) (w_admitted w @ [log_entry ?d])"
    if cur: "dispatch_pending (w_sched w) ?d" and fresh: "\<not> ev_message_queued (?es ! di_index ?d)"
    unfolding log_entry_def
  proof (rule log_ok_snoc [OF adm])
    obtain p where p: "ev_pending (?es ! di_index ?d) = Some p" "oc_key p = oc_key (di_occurrence ?d)" "di_index ?d < length ?es"
      using cur by (auto simp: dispatch_pending_def split: option.splits)
    show "di_index ?d < length (es_events ?s)"
      using p(3) by (simp add: message_queued_def cur)
    show "consumed (es_events ?s ! di_index ?d) = Some (oc_key (di_occurrence ?d))"
      using p cur by (simp add: message_queued_def consumed_def)
    assume "sp_media (ev_spec (es_events ?s ! di_index ?d))"
    then have media: "sp_media (ev_spec (?es ! di_index ?d))"
      using p(3) cur by (simp add: message_queued_def)
    have unused: "consumed (?es ! di_index ?d) = ev_completed (?es ! di_index ?d)"
      using fresh by (simp add: consumed_def)
    have "\<forall>k \<in> set (log_keys (w_admitted w) (di_index ?d)). newer (Some k) (ev_completed (?es ! di_index ?d))"
      using logs(1) p(3) media unfolding unused [symmetric] by (simp add: log_ok_def)
    then show "list_all (\<lambda>x. x < oc_key (di_occurrence ?d)) (log_keys (w_admitted w) (di_index ?d))"
      using outstanding_key_newer [OF list_all_nth [OF ok(1) p(3)] _ media] p(1,2)
      by (fastforce simp: list_all_iff newer_def outstanding_def)
  qed
  then show ?thesis
    using True assms adm q log_ok_mono [OF logs(2) q(2)] list_progresses_specs [OF q(2)]
    by (auto simp: world_ok_def Let_def case_prod_beta is_message_queued_def message_queued_def)
qed (use assms in simp)

lemma step_complete_ok:
  assumes "world_ok w"
  shows "world_ok (scheduler_step pv w (SkComplete n))"
proof (cases "n < length (w_issued w)")
  case True
  let ?d = "w_issued w ! n" and ?es = "es_events (w_sched w)"
  let ?s = "snd (scheduler_complete (w_sched w) ?d)"
  have ok: "list_all (event_ok (length (w_store w))) ?es"
    and logs: "log_ok consumed ?es (w_admitted w)" "log_ok ev_completed ?es (w_completed w)"
    using assms by (simp_all add: world_ok_def)
  note c = complete_ok [OF ok, of ?d]
  have done': "log_ok ev_completed (es_events ?s) (w_completed w)"
    using log_ok_mono [OF logs(2) c(2)] by simp
  have "log_ok ev_completed (es_events ?s) (w_completed w @ [log_entry ?d])" if f: "fst (scheduler_complete (w_sched w) ?d)"
    unfolding log_entry_def
  proof (rule log_ok_snoc [OF done'])
    note k = c(4) [OF f]
    have len: "length (es_events ?s) = length ?es"
      using list_all2_lengthD [OF c(2)] by simp
    then show "di_index ?d < length (es_events ?s)" using k by simp
    show "ev_completed (es_events ?s ! di_index ?d) = Some (oc_key (di_occurrence ?d))" using k by simp
    assume "sp_media (ev_spec (es_events ?s ! di_index ?d))"
    then have media: "sp_media (ev_spec (?es ! di_index ?d))"
      using list_all2_nthD [OF c(2), of "di_index ?d"] k by (simp add: progresses_def)
    have "\<forall>k \<in> set (log_keys (w_completed w) (di_index ?d)). newer (Some k) (ev_completed (?es ! di_index ?d))"
      using logs(2) k media by (simp add: log_ok_def)
    then show "list_all (\<lambda>x. x < oc_key (di_occurrence ?d)) (log_keys (w_completed w) (di_index ?d))"
      using k media by (fastforce simp: list_all_iff newer_def)
  qed
  then show ?thesis
    using True assms done' c log_ok_mono [OF logs(1) c(2)] list_progresses_specs [OF c(2)]
    by (auto simp: world_ok_def Let_def case_prod_beta)
qed (use assms in simp)

lemma step_reload_ok:
  assumes "world_ok w"
  shows "world_ok (scheduler_step pv w (SkReload g))"
proof (cases "scheduler_new g (map ev_spec (es_events (w_sched w))) (Some (w_sched w))")
  case (Inr s)
  have "distinct (map ev_spec (es_events (w_sched w)))" "list_all (event_ok (length (w_store w))) (es_events (w_sched w))"
    using assms by (simp_all add: world_ok_def)
  note r = reload_ok [OF Inr this]
  show ?thesis
    using assms Inr r(1) log_ok_mono [OF _ r(2)] list_progresses_specs [OF r(2)] by (simp add: world_ok_def)
qed (use assms in simp)

lemma scheduler_step_ok: "world_ok w \<Longrightarrow> world_ok (scheduler_step pv w s)"
  by (cases s) (simp_all only: step_next_ok step_queued_ok step_complete_ok step_reload_ok, simp add: world_ok_def)

lemma scheduler_step_specs:
  assumes "world_ok w"
  shows "map ev_spec (es_events (w_sched (scheduler_step pv w s))) = map ev_spec (es_events (w_sched w))"
proof (cases s)
  case (SkNext render t ms now)
  have "list_all (event_ok (length (w_store w))) (es_events (w_sched w))"
    using assms by (simp add: world_ok_def)
  then show ?thesis
    using next_ok [of "w_store w" "w_sched w" pv render t ms now] SkNext list_progresses_specs by fastforce
next
  case (SkQueued n)
  then show ?thesis
    using list_progresses_specs [OF queued_ok(2) [of "length (w_store w)" "w_sched w" "w_issued w ! n"]] assms
    by (simp add: world_ok_def list_all_nth Let_def case_prod_beta)
next
  case (SkComplete n)
  then show ?thesis
    using list_progresses_specs [OF complete_ok(2) [of "length (w_store w)" "w_sched w" "w_issued w ! n"]] assms
    by (simp add: world_ok_def Let_def case_prod_beta)
next
  case (SkReload g)
  then show ?thesis
    using assms list_progresses_specs [OF reload_ok(2) [of g "w_sched w" _ "length (w_store w)"]]
    by (auto simp: world_ok_def split: sum.splits)
qed simp

interpretation scheduler_machine: machine "scheduler_step pv" world_ok for pv
  by unfold_locales (rule scheduler_step_ok)

lemma world_init_ok:
  assumes "scheduler_new g specs None = Inr s"
  shows "world_ok (world_init s)" "map ev_spec (es_events s) = specs"
proof -
  have s: "es_events s = map (carry_event None) specs" and "\<not> specs_invalid specs"
    using assms by (auto simp: scheduler_new_def split: if_splits)
  then show specs: "map ev_spec (es_events s) = specs"
    by (simp add: comp_def carry_event_def)
  have "event_ok 0 (carry_event None spec)" for spec :: "'a EventSpec"
    by (simp add: event_ok_def carry_event_def event_keys_def)
  then show "world_ok (world_init s)"
    using s specs valid_specs_distinct [OF \<open>\<not> specs_invalid specs\<close>]
    by (simp add: world_ok_def world_init_def log_ok_def log_keys_def list_all_iff)
qed

lemma world_specs:
  assumes "scheduler_new g specs None = Inr s"
  shows "map ev_spec (es_events (w_sched (foldl (scheduler_step pv) (world_init s) steps))) = specs"
proof (induction steps rule: rev_induct)
  case Nil
  then show ?case using world_init_ok(2) [OF assms] by (simp add: world_init_def)
next
  case (snoc x xs)
  have "world_ok (foldl (scheduler_step pv) (world_init s) xs)"
    by (rule scheduler_machine.run_inv [OF world_init_ok(1) [OF assms]])
  then show ?case using snoc.IH by (simp add: scheduler_step_specs)
qed

lemma complete_once:
  assumes "scheduler_complete s d = (True, s')"
  shows "scheduler_complete s' d = (False, s')" "dispatch_pending s d"
    "ev_message_required (es_events s ! di_index d) \<longrightarrow> ev_message_queued (es_events s ! di_index d)"
proof -
  show cur: "dispatch_pending s d"
    "ev_message_required (es_events s ! di_index d) \<longrightarrow> ev_message_queued (es_events s ! di_index d)"
    using assms by (simp_all add: scheduler_complete_def Let_def split: if_splits)
  then have "s' = s\<lparr>es_events := (es_events s)[di_index d := (es_events s ! di_index d)
      \<lparr>ev_completed := Some (oc_key (di_occurrence d)), ev_pending := None, ev_message_queued := False\<rparr>]\<rparr>"
    using assms by (simp add: scheduler_complete_def Let_def split: if_splits)
  then have "\<not> dispatch_pending s' d"
    using cur(1) by (simp add: dispatch_pending_def)
  then show "scheduler_complete s' d = (False, s')"
    by (simp add: scheduler_complete_def Let_def)
qed

section \<open>Properties\<close>


definition sample_provider :: "unit ScheduleProvider" where
  "sample_provider = \<lparr>pv_event_occurrence = (\<lambda>e c. case e of Daily h m \<Rightarrow>
       if cv_hour c = h \<and> cv_minute c = m then Some (ucast (cv_day c) * 1440 + ucast h * 60 + ucast m) else None | _ \<Rightarrow> None),
     pv_window_matches = (\<lambda>_ _. True)\<rparr>"

definition sample_civil :: "8 word \<Rightarrow> CivilTime" where
  "sample_civil m = \<lparr>cv_year = 2026, cv_month = 9, cv_day = 15, cv_weekday = Tuesday, cv_hour = 12, cv_minute = m\<rparr>"

definition sample_spec :: "unit EventSpec" where
  "sample_spec = \<lparr>sp_local = ''524950'', sp_name = ''clock'',
     sp_trigger = \<lparr>et_events = [Daily 12 0, Daily 12 1], et_days = None\<rparr>, sp_media = True\<rparr>"

definition sample_scheduler :: "unit EventScheduler" where
  "sample_scheduler = \<lparr>es_generation = 1, es_events = [carry_event None sample_spec], es_last_tick = None\<rparr>"

definition sample_render :: "unit EventSpec \<Rightarrow> CivilTime \<Rightarrow> SchedulerError + DispatchContent" where
  "sample_render s c = Inr \<lparr>dc_message = Some ''test'', dc_operation = None\<rparr>"

definition sample_steps :: "unit SchedulerStep list" where
  "sample_steps = [SkNext sample_render 100 (-50) (sample_civil 0), SkNext sample_render 160 59950 (sample_civil 1),
     SkQueued 1, SkComplete 1, SkReload 2, SkNext sample_render 161 60950 (sample_civil 0), SkQueued 2, SkComplete 2,
     SkNext sample_render 220 99999 (sample_civil 0)]"

lemma sample_scheduler_new: "scheduler_new 1 [sample_spec] None = Inr sample_scheduler"
  by (simp add: scheduler_new_def specs_invalid_def sample_scheduler_def sample_spec_def)


text \<open>Whatever happened before, a tick that yields a dispatch yields a current one with the oldest
  occurrence among all events outstanding, and its completion is accepted at most once, only after a
  required message was admitted, and never for the minute the event completed last.\<close>

theorem scheduler_dispatch_once:
  assumes "scheduler_new g specs None = Inr s0"
    "w = foldl (scheduler_step pv) (world_init s0) steps"
    "scheduler_next pv render t ms now (w_store w) (w_sched w) = Some (Inr (Some d), st, s)"
    "steps' = steps @ SkNext render t ms now # rest"
    "w' = foldl (scheduler_step pv) (world_init s0) steps'"
    "scheduler_complete (w_sched w') d = (True, s')"
  shows "dispatch_pending s d \<and> scheduler_complete s' d = (False, s')
    \<and> (\<forall>j < length (es_events s). \<forall>oc. outstanding (es_events s ! j) = Some oc \<longrightarrow> oc_key (di_occurrence d) \<le> oc_key oc)
    \<and> ev_completed (es_events (w_sched w') ! di_index d) \<noteq> Some (oc_key (di_occurrence d))
    \<and> (ev_message_required (es_events (w_sched w') ! di_index d) \<longrightarrow> is_message_queued (w_sched w') d)"
proof -
  have ok: "world_ok w" "world_ok w'"
    using scheduler_machine.run_inv [OF world_init_ok(1) [OF assms(1)]] assms(2,5) by simp_all
  have events: "list_all (event_ok (length (w_store w))) (es_events (w_sched w))"
    using ok(1) by (simp add: world_ok_def)
  have d: "dispatch_pending s d \<and> (\<forall>j < length (es_events s). \<forall>oc. outstanding (es_events s ! j) = Some oc \<longrightarrow>
      oc_key (di_occurrence d) \<le> oc_key oc)"
    using next_ok [OF events, of pv render t ms now] unfolding assms(3) by simp
  have c: "ev_completed (es_events (w_sched w') ! di_index d) \<noteq> Some (oc_key (di_occurrence d))"
    using complete_ok(4) [of "length (w_store w')" "w_sched w'" d] ok(2) assms(6) by (auto simp: world_ok_def)
  note once = complete_once [OF assms(6)]
  then show ?thesis
    unfolding is_message_queued_def using d c by blast
qed

definition sample_dispatch :: "unit ScheduledDispatch" where
  "sample_dispatch = \<lparr>di_generation = 1, di_index = 0,
     di_occurrence = \<lparr>oc_key = 22320, oc_civil = sample_civil 0, oc_due_ms = -50, oc_media = Some 0\<rparr>,
     di_spec = sample_spec, di_content = \<lparr>dc_message = Some ''test'', dc_operation = None\<rparr>\<rparr>"

definition sample_first :: "((SchedulerError + unit ScheduledDispatch option) \<times> occ_store \<times> unit EventScheduler) option" where
  "sample_first = scheduler_next sample_provider sample_render 100 (-50) (sample_civil 0)
     (w_store (world_init sample_scheduler)) (w_sched (world_init sample_scheduler))"

definition sample_world :: "unit SchedulerWorld" where
  "sample_world = foldl (scheduler_step sample_provider) (world_init sample_scheduler)
     [SkNext sample_render 100 (-50) (sample_civil 0), SkQueued 0]"

lemma sample_first_dispatch: "map_option fst sample_first = Some (Inr (Some sample_dispatch))"
  by code_simp

lemma sample_completes: "fst (scheduler_complete (w_sched sample_world) sample_dispatch)"
  by code_simp

theorem scheduler_dispatch_once_witness:
  "(\<exists>s'. scheduler_complete (w_sched sample_world) sample_dispatch = (True, s')
      \<and> scheduler_complete s' sample_dispatch = (False, s'))
   \<and> is_message_queued (w_sched sample_world) sample_dispatch"
proof -
  obtain st s where n: "sample_first = Some (Inr (Some sample_dispatch), st, s)"
    using sample_first_dispatch by (cases sample_first) auto
  obtain s' where c: "scheduler_complete (w_sched sample_world) sample_dispatch = (True, s')"
    using sample_completes by (cases "scheduler_complete (w_sched sample_world) sample_dispatch") auto
  have "ev_message_required (es_events (w_sched sample_world) ! di_index sample_dispatch)"
    by code_simp
  then show ?thesis
    using scheduler_dispatch_once [OF sample_scheduler_new refl, where steps = "[]" and rest = "[SkQueued 0]",
        simplified foldl.simps append_Nil, OF n [unfolded sample_first_def] refl sample_world_def c] c by blast
qed

text \<open>A reload to any later configuration makes every earlier dispatch stale, and an event whose
  specification is unchanged keeps its state: with its message admitted the minute counts as consumed
  and is not outstanding again, and otherwise the newest reservation stays outstanding with its civil
  minute, deadline and media identity.\<close>

theorem scheduler_reload:
  assumes "scheduler_new g specs (Some s) = Inr s'" "distinct (map ev_spec (es_events s))"
    "e \<in> set (es_events s)" "j < length specs" "ev_spec e = specs ! j" "di_generation d \<le> es_generation s"
  shows "\<not> scheduler_current s' d \<and> ev_spec (es_events s' ! j) = specs ! j
    \<and> ev_completed (es_events s' ! j) = consumed e \<and> es_last_tick s' = es_last_tick s
    \<and> outstanding (es_events s' ! j)
        = (if ev_message_queued e then ev_ready e else if ev_ready e = None then ev_pending e else ev_ready e)"
proof -
  have g: "g > es_generation s" "es_generation s' = g" "es_last_tick s' = es_last_tick s"
    "es_events s' ! j = carry_event (find (\<lambda>event. ev_spec event = specs ! j) (es_events s)) (specs ! j)"
    using assms(1,4) by (auto simp: scheduler_new_def split: if_splits)
  have "find (\<lambda>event. ev_spec event = specs ! j) (es_events s) = Some e"
    using find_distinct [OF assms(2,3)] assms(5) by simp
  then show ?thesis
    using g assms(5,6) by (cases "ev_ready e")
      (auto simp: carry_event_def consumed_def outstanding_def scheduler_current_def dispatch_pending_def)
qed

theorem scheduler_reload_witness:
  "(\<exists>s'. scheduler_new 2 [sample_spec] (Some (w_sched sample_world)) = Inr s' \<and> \<not> scheduler_current s' sample_dispatch
      \<and> ev_completed (es_events s' ! 0) = Some 22320)"
proof -
  let ?s = "w_sched sample_world" and ?e = "es_events (w_sched sample_world) ! 0"
  have len: "length (es_events ?s) = 1" and spec: "ev_spec ?e = sample_spec" and gen: "es_generation ?s = 1"
    and used: "consumed ?e = Some 22320" and valid: "\<not> specs_invalid [sample_spec]"
    by code_simp+
  obtain s' where s': "scheduler_new 2 [sample_spec] (Some ?s) = Inr s'"
    using gen valid by (simp add: scheduler_new_def word_le_nat_alt)
  have "distinct (map ev_spec (es_events ?s))" "?e \<in> set (es_events ?s)"
    using len by (auto simp: length_Suc_conv)
  then show ?thesis
    using scheduler_reload [OF s', of ?e 0 sample_dispatch] s' spec gen used by (simp add: sample_dispatch_def)
qed

end
