(* ===== verification/Node_Host.thy ===== *)
theory Node_Host
  imports Prelude
begin

text \<open>
  Prepared generations of a node and their safe reclamation: \<^verbatim>\<open>core/src/runtime/generation.rs\<close> and
  \<^verbatim>\<open>core/src/runtime/node_host.rs\<close>, each operation as one function. A \<^verbatim>\<open>Box\<close> is an
  address of a heap; the allocator is the argument \<open>a\<close> of the operations that box a candidate, any address
  not in use, so addresses may be reused. A null pointer is \<open>None\<close>. Reading through a pointer that
  is not allocated is a result \<open>None\<close>. The interleaving of these operations with the audio
  callbacks is the subject of \<open>Node_Host_Atomic\<close>.
\<close>

section \<open>Generations\<close>

record GenerationSettings =
  gs_node :: string
  gs_device :: string
  gs_receive_maximum :: nat
  gs_transmit_maximum :: nat
  gs_squelch_delay_ms :: u64
  gs_status_snapshot_interval_ms :: u64

datatype LifecycleError =
  InvalidGeneration | LeRetirementPending | LeStopped | UnknownGeneration | CallbacksActive
| HandoffRequired | HandoffRestored | HandoffFailed

text \<open>The work state is shared with the permits; it lives as long as its generation or a permit.\<close>

record ('r, 't) RuntimeGeneration =
  rg_id :: u64
  rg_settings :: GenerationSettings
  rg_receive :: 'r
  rg_transmit :: 't
  rg_admitted :: bool
  rg_outstanding :: nat
  rg_detached :: bool

definition generation_prepare ::
    "u64 \<Rightarrow> GenerationSettings \<Rightarrow> 'r \<Rightarrow> 't \<Rightarrow> LifecycleError + ('r, 't) RuntimeGeneration" where
  "generation_prepare gid settings receive transmit =
     (if gid = 0 \<or> gs_node settings = [] \<or> CHR 0x00 \<in> set (gs_node settings)
         \<or> gs_device settings = [] \<or> CHR 0x00 \<in> set (gs_device settings)
         \<or> gs_receive_maximum settings = 0 \<or> gs_transmit_maximum settings = 0
      then Inl InvalidGeneration
      else Inr \<lparr>rg_id = gid, rg_settings = settings, rg_receive = receive, rg_transmit = transmit,
                rg_admitted = True, rg_outstanding = 0, rg_detached = False\<rparr>)"

section \<open>The host\<close>

datatype Slot = SlotReceive | SlotTransmit

datatype LifecycleState = Running | AdoptionPending | RetirementPending | Stopping | Stopped

record ('r, 't) NodeHost =
  nh_heap :: "nat \<Rightarrow> ('r, 't) RuntimeGeneration option"
  nh_published :: "nat option"
  nh_hazards :: "Slot \<Rightarrow> nat option"
  nh_adopted :: "Slot \<Rightarrow> u64"
  nh_active :: "nat option"
  nh_retired :: "nat option"
  nh_changed_ms :: u64
  nh_stopping :: bool
  nh_reported_timeout :: "(u64 option \<times> LifecycleState) option"
  nh_timeouts :: u64
  nh_registered :: bool

definition node_host_new :: "nat \<Rightarrow> ('r, 't) RuntimeGeneration \<Rightarrow> ('r, 't) NodeHost" where
  "node_host_new a g = \<lparr>nh_heap = (\<lambda>_. None)(a := Some g), nh_published = Some a, nh_hazards = (\<lambda>_. None),
     nh_adopted = (\<lambda>_. 0), nh_active = Some a, nh_retired = None, nh_changed_ms = 0, nh_stopping = False,
     nh_reported_timeout = None, nh_timeouts = 0, nh_registered = False\<rparr>"

definition register_audio :: "('r, 't) NodeHost \<Rightarrow> bool \<times> ('r, 't) NodeHost" where
  "register_audio h = (if nh_registered h then (False, h) else (True, h\<lparr>nh_registered := True\<rparr>))"

text \<open>The generation a boxed pointer owns.\<close>

definition boxed :: "('r, 't) NodeHost \<Rightarrow> nat option \<Rightarrow> ('r, 't) RuntimeGeneration option" where
  "boxed h p = Option.bind p (nh_heap h)"

definition set_gen :: "nat option \<Rightarrow> (('r, 't) RuntimeGeneration \<Rightarrow> ('r, 't) RuntimeGeneration) \<Rightarrow> ('r, 't) NodeHost \<Rightarrow> ('r, 't) NodeHost" where
  "set_gen p f h = (case p of None \<Rightarrow> h | Some a \<Rightarrow> h\<lparr>nh_heap := (nh_heap h)(a := map_option f (nh_heap h a))\<rparr>)"

section \<open>Callback owners\<close>

definition candidate_is_current :: "nat option \<Rightarrow> nat option \<Rightarrow> bool" where
  "candidate_is_current candidate active \<longleftrightarrow> candidate \<noteq> None \<and> candidate = active"

definition set_hazard :: "Slot \<Rightarrow> nat option \<Rightarrow> ('r, 't) NodeHost \<Rightarrow> ('r, 't) NodeHost" where
  "set_hazard slot p h = h\<lparr>nh_hazards := (nh_hazards h)(slot := p)\<rparr>"

definition set_adopted :: "Slot \<Rightarrow> u64 \<Rightarrow> ('r, 't) NodeHost \<Rightarrow> ('r, 't) NodeHost" where
  "set_adopted slot gid h = h\<lparr>nh_adopted := (nh_adopted h)(slot := gid)\<rparr>"

text \<open>The bounded retry of \<^verbatim>\<open>Shared::acquire\<close>; \<open>n\<close> counts the remaining rounds.\<close>

fun acquire_rounds :: "nat \<Rightarrow> Slot \<Rightarrow> ('r, 't) NodeHost \<Rightarrow> nat option \<times> ('r, 't) NodeHost" where
  "acquire_rounds 0 slot h = (None, h)"
| "acquire_rounds (Suc n) slot h =
     (let candidate = nh_published h; h1 = set_hazard slot candidate h in
      if candidate_is_current candidate (nh_published h1)
      then (candidate, case boxed h1 candidate of Some g \<Rightarrow> set_adopted slot (rg_id g) h1 | None \<Rightarrow> h1)
      else acquire_rounds n slot (set_hazard slot None h1))"

definition host_acquire :: "Slot \<Rightarrow> ('r, 't) NodeHost \<Rightarrow> nat option \<times> ('r, 't) NodeHost" where
  "host_acquire slot h = acquire_rounds 2 slot h"

definition acquire_pair :: "('r, 't) NodeHost \<Rightarrow> nat option \<times> ('r, 't) NodeHost" where
  "acquire_pair h =
     (case host_acquire SlotReceive h of
        (None, h1) \<Rightarrow> (None, h1)
      | (Some p, h1) \<Rightarrow>
          let h2 = set_hazard SlotTransmit (Some p) h1 in
          (Some p, case nh_heap h2 p of Some g \<Rightarrow> set_adopted SlotTransmit (rg_id g) h2 | None \<Rightarrow> h2))"

definition guard_drop :: "Slot \<Rightarrow> ('r, 't) NodeHost \<Rightarrow> ('r, 't) NodeHost" where
  "guard_drop slot h = set_hazard slot None h"

definition pair_drop :: "('r, 't) NodeHost \<Rightarrow> ('r, 't) NodeHost" where
  "pair_drop h = set_hazard SlotTransmit None (set_hazard SlotReceive None h)"

section \<open>Control\<close>

definition gate_callbacks :: "('r, 't) NodeHost \<Rightarrow> ('r, 't) NodeHost" where
  "gate_callbacks h = h\<lparr>nh_published := None\<rparr>"

definition restore_callbacks :: "('r, 't) NodeHost \<Rightarrow> ('r, 't) NodeHost" where
  "restore_callbacks h =
     (if nh_stopping h then h
      else (case nh_active h of Some a \<Rightarrow> h\<lparr>nh_published := Some a\<rparr> | None \<Rightarrow> h))"

definition publish_prepared ::
    "nat \<Rightarrow> ('r, 't) RuntimeGeneration \<Rightarrow> u64 \<Rightarrow> ('r, 't) NodeHost \<Rightarrow> (LifecycleError + unit) \<times> ('r, 't) NodeHost" where
  "publish_prepared a generation now_ms h =
     (if nh_stopping h then (Inl LeStopped, h)
      else if nh_retired h \<noteq> None then (Inl LeRetirementPending, h)
      else if (case boxed h (nh_active h) of
                 Some old \<Rightarrow> rg_id generation \<le> rg_id old \<or> gs_node (rg_settings generation) \<noteq> gs_node (rg_settings old)
               | None \<Rightarrow> False)
      then (Inl InvalidGeneration, h)
      else
        let h1 = set_gen (nh_active h) (\<lambda>old. old\<lparr>rg_admitted := False\<rparr>) h in
        (Inr (), h1\<lparr>nh_heap := (nh_heap h1)(a := Some generation), nh_retired := nh_active h, nh_active := Some a,
                    nh_published := Some a, nh_changed_ms := now_ms\<rparr>))"

definition host_publish ::
    "nat \<Rightarrow> ('r, 't) RuntimeGeneration \<Rightarrow> u64 \<Rightarrow> ('r, 't) NodeHost \<Rightarrow> (LifecycleError + unit) \<times> ('r, 't) NodeHost" where
  "host_publish a generation now_ms h =
     (if (case boxed h (nh_active h) of
            Some old \<Rightarrow> gs_device (rg_settings old) \<noteq> gs_device (rg_settings generation) | None \<Rightarrow> False)
      then (Inl HandoffRequired, h)
      else publish_prepared a generation now_ms h)"

definition any_hazard :: "('r, 't) NodeHost \<Rightarrow> bool" where
  "any_hazard h \<longleftrightarrow> nh_hazards h SlotReceive \<noteq> None \<or> nh_hazards h SlotTransmit \<noteq> None"

text \<open>What \<^verbatim>\<open>transfer\<close> does to the two pairs of states.\<close>

type_synonym ('r, 't) transfer = "'r \<Rightarrow> 't \<Rightarrow> 'r \<Rightarrow> 't \<Rightarrow> ('r \<times> 't) \<times> ('r \<times> 't)"

definition transferred ::
    "('r, 't) transfer \<Rightarrow> ('r, 't) RuntimeGeneration \<Rightarrow> ('r, 't) RuntimeGeneration
     \<Rightarrow> ('r, 't) RuntimeGeneration \<times> ('r, 't) RuntimeGeneration" where
  "transferred transfer old new =
     (let ((r, t), (r', t')) = transfer (rg_receive old) (rg_transmit old) (rg_receive new) (rg_transmit new) in
      (old\<lparr>rg_receive := r, rg_transmit := t\<rparr>, new\<lparr>rg_receive := r', rg_transmit := t'\<rparr>))"

definition publish_transferring ::
    "nat \<Rightarrow> ('r, 't) RuntimeGeneration \<Rightarrow> u64 \<Rightarrow> ('r, 't) transfer \<Rightarrow> ('r, 't) NodeHost
     \<Rightarrow> (LifecycleError + unit) \<times> ('r, 't) NodeHost" where
  "publish_transferring a generation now_ms transfer h =
     (if nh_stopping h then (Inl LeStopped, h)
      else if nh_retired h \<noteq> None then (Inl LeRetirementPending, h)
      else (case boxed h (nh_active h) of
              None \<Rightarrow> (Inl LeStopped, h)
            | Some old \<Rightarrow>
                if rg_id generation \<le> rg_id old \<or> rg_settings generation \<noteq> rg_settings old
                then (Inl InvalidGeneration, h)
                else if any_hazard h then (Inl CallbacksActive, h\<lparr>nh_published := nh_active h\<rparr>)
                else
                  let (old', new') = transferred transfer old generation in
                  publish_prepared a new' now_ms (set_gen (nh_active h) (\<lambda>_. old') (h\<lparr>nh_published := None\<rparr>))))"

text \<open>A work permit names the generation it was admitted for.\<close>

definition host_work :: "('r, 't) NodeHost \<Rightarrow> nat option \<times> ('r, 't) NodeHost" where
  "host_work h =
     (if nh_stopping h then (None, h)
      else (nh_active h, set_gen (nh_active h) (\<lambda>g. g\<lparr>rg_outstanding := rg_outstanding g + 1\<rparr>) h))"

definition work_drop :: "nat \<Rightarrow> ('r, 't) NodeHost \<Rightarrow> ('r, 't) NodeHost" where
  "work_drop p h = set_gen (Some p) (\<lambda>g. g\<lparr>rg_outstanding := rg_outstanding g - 1\<rparr>) h"

definition work_is_current :: "nat \<Rightarrow> ('r, 't) NodeHost \<Rightarrow> bool" where
  "work_is_current p h \<longleftrightarrow> (case nh_heap h p of Some g \<Rightarrow> rg_admitted g | None \<Rightarrow> False)"

definition detachable :: "u64 \<Rightarrow> ('r, 't) NodeHost \<Rightarrow> nat option \<Rightarrow> bool" where
  "detachable gid h p \<longleftrightarrow> (case boxed h p of Some g \<Rightarrow> rg_id g = gid \<and> \<not> rg_admitted g | None \<Rightarrow> False)"

definition mark_detached :: "u64 \<Rightarrow> ('r, 't) NodeHost \<Rightarrow> (LifecycleError + unit) \<times> ('r, 't) NodeHost" where
  "mark_detached gid h =
     (if detachable gid h (nh_active h) then (Inr (), set_gen (nh_active h) (\<lambda>g. g\<lparr>rg_detached := True\<rparr>) h)
      else if detachable gid h (nh_retired h) then (Inr (), set_gen (nh_retired h) (\<lambda>g. g\<lparr>rg_detached := True\<rparr>) h)
      else (Inl UnknownGeneration, h))"

section \<open>Reclamation\<close>

definition reclaim_adopted :: "('r, 't) NodeHost \<Rightarrow> bool" where
  "reclaim_adopted h \<longleftrightarrow> nh_stopping h
     \<or> (case boxed h (nh_active h) of
          Some active \<Rightarrow> nh_adopted h SlotReceive = rg_id active \<and> nh_adopted h SlotTransmit = rg_id active
        | None \<Rightarrow> True)"

definition gen_idle :: "('r, 't) NodeHost \<Rightarrow> nat option \<Rightarrow> bool" where
  "gen_idle h p \<longleftrightarrow> (case boxed h p of Some g \<Rightarrow> rg_detached g \<and> rg_outstanding g = 0 | None \<Rightarrow> False)"

definition reclaim_ready :: "('r, 't) NodeHost \<Rightarrow> nat option \<Rightarrow> bool" where
  "reclaim_ready h p \<longleftrightarrow> gen_idle h p \<and> nh_hazards h SlotReceive \<noteq> p \<and> nh_hazards h SlotTransmit \<noteq> p"

datatype Place = PlaceRetired | PlaceActive

fun place_ptr :: "Place \<Rightarrow> ('r, 't) NodeHost \<Rightarrow> nat option" where
  "place_ptr PlaceRetired h = nh_retired h"
| "place_ptr PlaceActive h = nh_active h"

text \<open>Dropping the box: the address is free again.\<close>

definition free_box :: "nat option \<Rightarrow> ('r, 't) NodeHost \<Rightarrow> ('r, 't) NodeHost" where
  "free_box p h = (case p of None \<Rightarrow> h | Some a \<Rightarrow> h\<lparr>nh_heap := (nh_heap h)(a := None)\<rparr>)"

fun free_place :: "Place \<Rightarrow> ('r, 't) NodeHost \<Rightarrow> ('r, 't) NodeHost" where
  "free_place PlaceRetired h = (free_box (nh_retired h) h)\<lparr>nh_retired := None\<rparr>"
| "free_place PlaceActive h = (free_box (nh_active h) h)\<lparr>nh_active := None\<rparr>"

definition reclaim_place :: "Place \<Rightarrow> bool \<times> ('r, 't) NodeHost \<Rightarrow> bool \<times> ('r, 't) NodeHost" where
  "reclaim_place pl = (\<lambda>(released, h). if reclaim_ready h (place_ptr pl h) then (True, free_place pl h) else (released, h))"

definition control_reclaim :: "('r, 't) NodeHost \<Rightarrow> bool \<times> ('r, 't) NodeHost" where
  "control_reclaim h =
     (if \<not> reclaim_adopted h then (False, h)
      else reclaim_place PlaceActive (reclaim_place PlaceRetired (False, h)))"

definition host_reclaim :: "('r, 't) NodeHost \<Rightarrow> bool \<times> ('r, 't) NodeHost" where
  "host_reclaim h =
     control_reclaim (if nh_registered h then h
       else (case boxed h (nh_active h) of
               Some active \<Rightarrow> h\<lparr>nh_adopted := (\<lambda>_. rg_id active)\<rparr> | None \<Rightarrow> h))"

section \<open>Stop, drop and status\<close>

definition host_stop :: "u64 \<Rightarrow> ('r, 't) NodeHost \<Rightarrow> (LifecycleError + unit) \<times> ('r, 't) NodeHost" where
  "host_stop now_ms h =
     (let revoke = (\<lambda>g. g\<lparr>rg_admitted := False\<rparr>);
          h1 = set_gen (nh_retired h) revoke (set_gen (nh_active h) revoke h) in
      (Inr (), h1\<lparr>nh_stopping := True, nh_published := None, nh_changed_ms := now_ms\<rparr>))"

text \<open>Destruction keeps (forgets) every box that is still attached, has work or is protected.\<close>

fun forget_place :: "Place \<Rightarrow> ('r, 't) NodeHost \<Rightarrow> ('r, 't) NodeHost" where
  "forget_place PlaceRetired h = h\<lparr>nh_retired := None\<rparr>"
| "forget_place PlaceActive h = h\<lparr>nh_active := None\<rparr>"

definition drop_place :: "Place \<Rightarrow> ('r, 't) NodeHost \<Rightarrow> ('r, 't) NodeHost" where
  "drop_place pl h =
     (let h1 = set_gen (place_ptr pl h) (\<lambda>g. g\<lparr>rg_admitted := False\<rparr>) h in
      if reclaim_ready h1 (place_ptr pl h1) then free_place pl h1 else forget_place pl h1)"

definition host_drop :: "('r, 't) NodeHost \<Rightarrow> ('r, 't) NodeHost" where
  "host_drop h = drop_place PlaceRetired (drop_place PlaceActive (h\<lparr>nh_published := None\<rparr>))"

record LifecycleStatus =
  ls_active :: "u64 option"
  ls_retiring :: "u64 option"
  ls_state :: LifecycleState
  ls_age_ms :: u64
  ls_receive_adopted :: u64
  ls_transmit_adopted :: u64
  ls_protected_owners :: nat
  ls_outstanding_work :: nat
  ls_quiescence_timeouts :: u64

definition lifecycle_state :: "('r, 't) NodeHost \<Rightarrow> u64 option \<Rightarrow> u64 option \<Rightarrow> LifecycleState" where
  "lifecycle_state h active retiring =
     (if nh_stopping h then (if nh_active h = None \<and> nh_retired h = None then Stopped else Stopping)
      else if retiring \<noteq> None
      then (if active = Some (nh_adopted h SlotReceive) \<and> active = Some (nh_adopted h SlotTransmit)
            then RetirementPending else AdoptionPending)
      else Running)"

definition host_status :: "u64 \<Rightarrow> ('r, 't) NodeHost \<Rightarrow> LifecycleStatus" where
  "host_status now_ms h =
     (let active = (if nh_stopping h then None else map_option rg_id (boxed h (nh_active h)));
          retiring = map_option rg_id (boxed h
            (case nh_retired h of Some p \<Rightarrow> Some p | None \<Rightarrow> if nh_stopping h then nh_active h else None)) in
      \<lparr>ls_active = active, ls_retiring = retiring, ls_state = lifecycle_state h active retiring,
       ls_age_ms = sat_sub now_ms (nh_changed_ms h),
       ls_receive_adopted = nh_adopted h SlotReceive, ls_transmit_adopted = nh_adopted h SlotTransmit,
       ls_protected_owners = length (filter (\<lambda>s. nh_hazards h s \<noteq> None) [SlotReceive, SlotTransmit]),
       ls_outstanding_work = (case boxed h (nh_active h) of Some g \<Rightarrow> rg_outstanding g | None \<Rightarrow> 0)
         + (case boxed h (nh_retired h) of Some g \<Rightarrow> rg_outstanding g | None \<Rightarrow> 0),
       ls_quiescence_timeouts = nh_timeouts h\<rparr>)"

definition report_timeout :: "u64 \<Rightarrow> u64 \<Rightarrow> ('r, 't) NodeHost \<Rightarrow> bool \<times> ('r, 't) NodeHost" where
  "report_timeout now_ms timeout_ms h =
     (let status = host_status now_ms h; key = (ls_retiring status, ls_state status) in
      if ls_state status = Running \<or> ls_state status = Stopped \<or> ls_age_ms status < timeout_ms
         \<or> nh_reported_timeout h = Some key
      then (False, h)
      else (True, h\<lparr>nh_reported_timeout := Some key, nh_timeouts := sat_add (nh_timeouts h) 1\<rparr>))"

section \<open>Device handoff\<close>

text \<open>The adapter's lease operations, with its own state \<open>'d\<close>.\<close>

record 'd DeviceHandoff =
  dh_quiesce :: "'d \<Rightarrow> bool \<times> 'd"
  dh_close :: "'d \<Rightarrow> 'd"
  dh_open :: "GenerationSettings \<Rightarrow> 'd \<Rightarrow> bool \<times> 'd"

definition set_detached :: "('r, 't) NodeHost \<Rightarrow> ('r, 't) NodeHost" where
  "set_detached h = set_gen (nh_active h) (\<lambda>g. g\<lparr>rg_detached := True\<rparr>) h"

text \<open>After the gate closed and no callback and no work was found.\<close>

definition handoff_switch ::
    "'d DeviceHandoff \<Rightarrow> nat \<Rightarrow> ('r, 't) RuntimeGeneration \<Rightarrow> GenerationSettings \<Rightarrow> u64 \<Rightarrow> 'd \<Rightarrow> ('r, 't) NodeHost
     \<Rightarrow> (LifecycleError + unit) \<times> 'd \<times> ('r, 't) NodeHost" where
  "handoff_switch dev a generation old_settings now_ms d h =
     (let d1 = dh_close dev d; (opened, d2) = dh_open dev (rg_settings generation) d1 in
      if opened
      then (let (r, h1) = publish_prepared a generation now_ms (set_detached h) in (r, d2, h1))
      else
        let (restored, d3) = dh_open dev old_settings d2 in
        if restored then (Inl HandoffRestored, d3, h\<lparr>nh_published := nh_active h\<rparr>)
        else (Inl HandoffFailed, d3, snd (host_stop now_ms (set_detached h))))"

definition host_handoff ::
    "'d DeviceHandoff \<Rightarrow> nat \<Rightarrow> ('r, 't) RuntimeGeneration \<Rightarrow> u64 \<Rightarrow> 'd \<Rightarrow> ('r, 't) NodeHost
     \<Rightarrow> (LifecycleError + unit) \<times> 'd \<times> ('r, 't) NodeHost" where
  "host_handoff dev a generation now_ms d h =
     (if nh_stopping h then (Inl LeStopped, d, h)
      else if nh_retired h \<noteq> None then (Inl LeRetirementPending, d, h)
      else (case boxed h (nh_active h) of
              None \<Rightarrow> (Inl LeStopped, d, h)
            | Some old \<Rightarrow>
                if rg_id generation \<le> rg_id old \<or> gs_node (rg_settings generation) \<noteq> gs_node (rg_settings old)
                then (Inl InvalidGeneration, d, h)
                else
                  let (quiet, d1) = dh_quiesce dev d in
                  if \<not> quiet then (Inl CallbacksActive, d1, h)
                  else if any_hazard h \<or> rg_outstanding old \<noteq> 0
                  then (Inl CallbacksActive, d1, h\<lparr>nh_published := nh_active h\<rparr>)
                  else handoff_switch dev a generation (rg_settings old) now_ms d1 (h\<lparr>nh_published := None\<rparr>)))"

end
