(* ===== verification/Node_Host_Atomic.thy ===== *)
theory Node_Host_Atomic
  imports Node_Host
begin

text \<open>
  The hazard-slot protocol of \<^verbatim>\<open>core/src/runtime/node_host.rs\<close> under every interleaving of single
  atomic accesses. The two callback owners run \<^verbatim>\<open>Shared::acquire\<close>, their guards and the shared-clock
  pair; the control thread runs one operation at a time. Each access to the published pointer or a
  hazard slot is one step; the accesses are sequentially consistent, as the code requests with
  \<^verbatim>\<open>SeqCst\<close>. Between them the allocator may hand out any free address again, the device may
  answer anything and permits may be returned at any time.
\<close>

section \<open>Program counters\<close>

text \<open>
  An owner: \<open>n\<close> counts the rounds left; \<open>OLoaded\<close> has read the published pointer, \<open>OStored\<close> has stored its
  hazard, \<open>OValid\<close> has validated it, \<open>OHeld\<close> has the guard. The receive owner may extend its guard to a pair,
  which borrows the transmit owner; \<open>OUnpair\<close> has cleared the first of the two slots.
\<close>

datatype OwnerPc =
  OIdle
| OLoaded nat "nat option"
| OStored nat "nat option"
| OFailed nat
| OValid nat
| OHeld nat
| OPairing nat
| OPaired nat
| OUnpair nat
| OBorrowed

text \<open>
  Control: scanning the slots for the box of a place, with the slots already seen clear, then freeing it;
  and the gated scan of \<^verbatim>\<open>publish_transferring\<close> and \<^verbatim>\<open>handoff\<close>, which continue only when both slots
  are clear.
\<close>

datatype ('r, 't) ControlPc =
  CIdle
| CCheck Place
| CScan Place Slot
| CFree Place
| CGateScan Slot "('r, 't) RuntimeGeneration"
| CExclusive "('r, 't) RuntimeGeneration"
| CUngate

record ('r, 't) World =
  wd_host :: "('r, 't) NodeHost"
  wd_owner :: "Slot \<Rightarrow> OwnerPc"
  wd_control :: "('r, 't) ControlPc"
  wd_permits :: "nat list"

fun next_place :: "Place \<Rightarrow> ('r, 't) ControlPc" where
  "next_place PlaceRetired = CCheck PlaceActive"
| "next_place PlaceActive = CIdle"

definition set_owner :: "Slot \<Rightarrow> OwnerPc \<Rightarrow> ('r, 't) World \<Rightarrow> ('r, 't) World" where
  "set_owner slot pc w = w\<lparr>wd_owner := (wd_owner w)(slot := pc)\<rparr>"

section \<open>Steps of the owners\<close>

inductive owner_step :: "('r, 't) World \<Rightarrow> ('r, 't) World \<Rightarrow> bool" where
  load: "wd_owner w slot = OIdle \<Longrightarrow>
    owner_step w (set_owner slot (OLoaded 1 (nh_published (wd_host w))) w)"
| hazard: "wd_owner w slot = OLoaded n p \<Longrightarrow>
    owner_step w ((set_owner slot (OStored n p) w)\<lparr>wd_host := set_hazard slot p (wd_host w)\<rparr>)"
| validate: "wd_owner w slot = OStored n p \<Longrightarrow>
    owner_step w (set_owner slot
      (if candidate_is_current p (nh_published (wd_host w)) then OValid (the p) else OFailed n) w)"
| adopt: "wd_owner w slot = OValid p \<Longrightarrow> nh_heap (wd_host w) p = Some g \<Longrightarrow>
    owner_step w ((set_owner slot (OHeld p) w)\<lparr>wd_host := set_adopted slot (rg_id g) (wd_host w)\<rparr>)"
| failed: "wd_owner w slot = OFailed n \<Longrightarrow>
    owner_step w ((set_owner slot (if n = 0 then OIdle else OLoaded (n - 1) (nh_published (wd_host w))) w)
      \<lparr>wd_host := set_hazard slot None (wd_host w)\<rparr>)"
| use: "wd_owner w slot = OHeld p \<Longrightarrow> nh_heap (wd_host w) p = Some g \<Longrightarrow>
    owner_step w (w\<lparr>wd_host := set_gen (Some p)
      (case slot of SlotReceive \<Rightarrow> (\<lambda>g. g\<lparr>rg_receive := r\<rparr>) | SlotTransmit \<Rightarrow> (\<lambda>g. g\<lparr>rg_transmit := t\<rparr>)) (wd_host w)\<rparr>)"
| release: "wd_owner w slot = OHeld p \<Longrightarrow>
    owner_step w ((set_owner slot OIdle w)\<lparr>wd_host := guard_drop slot (wd_host w)\<rparr>)"
| pair: "wd_owner w SlotReceive = OHeld p \<Longrightarrow> wd_owner w SlotTransmit = OIdle \<Longrightarrow>
    owner_step w ((set_owner SlotReceive (OPairing p) (set_owner SlotTransmit OBorrowed w))
      \<lparr>wd_host := set_hazard SlotTransmit (Some p) (wd_host w)\<rparr>)"
| pair_adopt: "wd_owner w SlotReceive = OPairing p \<Longrightarrow> nh_heap (wd_host w) p = Some g \<Longrightarrow>
    owner_step w ((set_owner SlotReceive (OPaired p) w)
      \<lparr>wd_host := set_adopted SlotTransmit (rg_id g) (wd_host w)\<rparr>)"
| pair_use: "wd_owner w SlotReceive = OPaired p \<Longrightarrow> nh_heap (wd_host w) p = Some g \<Longrightarrow>
    owner_step w (w\<lparr>wd_host := set_gen (Some p) (\<lambda>g. g\<lparr>rg_receive := r, rg_transmit := t\<rparr>) (wd_host w)\<rparr>)"
| pair_release: "wd_owner w SlotReceive = OPaired p \<Longrightarrow>
    owner_step w ((set_owner SlotReceive (OUnpair p) w)\<lparr>wd_host := set_hazard SlotReceive None (wd_host w)\<rparr>)"
| unpair: "wd_owner w SlotReceive = OUnpair p \<Longrightarrow>
    owner_step w ((set_owner SlotReceive OIdle (set_owner SlotTransmit OIdle w))
      \<lparr>wd_host := set_hazard SlotTransmit None (wd_host w)\<rparr>)"

section \<open>Steps of control\<close>

text \<open>An address the allocator may return.\<close>

definition free_address :: "('r, 't) NodeHost \<Rightarrow> nat \<Rightarrow> bool" where
  "free_address h a \<longleftrightarrow> nh_heap h a = None"

text \<open>A prepared generation, as \<open>generation_prepare\<close> makes it.\<close>

definition prepared :: "('r, 't) RuntimeGeneration \<Rightarrow> bool" where
  "prepared g \<longleftrightarrow> rg_admitted g \<and> rg_outstanding g = 0 \<and> \<not> rg_detached g"

text \<open>The guards of the exclusive operations before they close the gate.\<close>

definition exclusive_allowed :: "('r, 't) NodeHost \<Rightarrow> ('r, 't) RuntimeGeneration \<Rightarrow> bool" where
  "exclusive_allowed h g \<longleftrightarrow> \<not> nh_stopping h \<and> nh_retired h = None
     \<and> (case boxed h (nh_active h) of
          Some old \<Rightarrow> rg_id old < rg_id g \<and> gs_node (rg_settings g) = gs_node (rg_settings old) | None \<Rightarrow> False)"

inductive control_step :: "('r, 't) World \<Rightarrow> ('r, 't) World \<Rightarrow> bool" where
  c_publish: "wd_control w = CIdle \<Longrightarrow> free_address (wd_host w) a \<Longrightarrow> prepared g \<Longrightarrow>
    control_step w (w\<lparr>wd_host := snd (host_publish a g now (wd_host w))\<rparr>)"
| c_gate: "wd_control w = CIdle \<Longrightarrow> control_step w (w\<lparr>wd_host := gate_callbacks (wd_host w)\<rparr>)"
| c_restore: "wd_control w = CIdle \<Longrightarrow> control_step w (w\<lparr>wd_host := restore_callbacks (wd_host w)\<rparr>)"
| c_work: "wd_control w = CIdle \<Longrightarrow> host_work (wd_host w) = (r, h) \<Longrightarrow>
    control_step w (w\<lparr>wd_host := h, wd_permits := (case r of Some p \<Rightarrow> p # wd_permits w | None \<Rightarrow> wd_permits w)\<rparr>)"
| c_detach: "wd_control w = CIdle \<Longrightarrow> control_step w (w\<lparr>wd_host := snd (mark_detached gid (wd_host w))\<rparr>)"
| c_stop: "wd_control w = CIdle \<Longrightarrow> control_step w (w\<lparr>wd_host := snd (host_stop now (wd_host w))\<rparr>)"
| c_timeout: "wd_control w = CIdle \<Longrightarrow> control_step w (w\<lparr>wd_host := snd (report_timeout now limit (wd_host w))\<rparr>)"
| c_reclaim: "wd_control w = CIdle \<Longrightarrow>
    control_step w (w\<lparr>wd_control := (if reclaim_adopted (wd_host w) then CCheck PlaceRetired else CIdle)\<rparr>)"
| c_check: "wd_control w = CCheck pl \<Longrightarrow>
    control_step w (w\<lparr>wd_control :=
      (if gen_idle (wd_host w) (place_ptr pl (wd_host w)) then CScan pl SlotReceive else next_place pl)\<rparr>)"
| c_scan: "wd_control w = CScan pl slot \<Longrightarrow>
    control_step w (w\<lparr>wd_control :=
      (if nh_hazards (wd_host w) slot = place_ptr pl (wd_host w) then next_place pl
       else case slot of SlotReceive \<Rightarrow> CScan pl SlotTransmit | SlotTransmit \<Rightarrow> CFree pl)\<rparr>)"
| c_free: "wd_control w = CFree pl \<Longrightarrow>
    control_step w (w\<lparr>wd_host := free_place pl (wd_host w), wd_control := next_place pl\<rparr>)"
| c_close: "wd_control w = CIdle \<Longrightarrow> exclusive_allowed (wd_host w) g \<Longrightarrow> prepared g \<Longrightarrow>
    control_step w (w\<lparr>wd_host := gate_callbacks (wd_host w), wd_control := CGateScan SlotReceive g\<rparr>)"
| c_gate_scan: "wd_control w = CGateScan slot g \<Longrightarrow>
    control_step w (w\<lparr>wd_control :=
      (if nh_hazards (wd_host w) slot \<noteq> None then CUngate
       else case slot of SlotReceive \<Rightarrow> CGateScan SlotTransmit g | SlotTransmit \<Rightarrow> CExclusive g)\<rparr>)"
| c_ungate: "wd_control w = CUngate \<Longrightarrow>
    control_step w (w\<lparr>wd_host := (wd_host w)\<lparr>nh_published := nh_active (wd_host w)\<rparr>, wd_control := CIdle\<rparr>)"
| c_transfer: "wd_control w = CExclusive g \<Longrightarrow> boxed (wd_host w) (nh_active (wd_host w)) = Some old \<Longrightarrow>
    rg_settings g = rg_settings old \<Longrightarrow> free_address (wd_host w) a \<Longrightarrow> transferred tr old g = (old', g') \<Longrightarrow>
    control_step w (w\<lparr>wd_host := snd (publish_prepared a g' now (set_gen (nh_active (wd_host w)) (\<lambda>_. old') (wd_host w))),
      wd_control := CIdle\<rparr>)"
| c_busy: "wd_control w = CExclusive g \<Longrightarrow> boxed (wd_host w) (nh_active (wd_host w)) = Some old \<Longrightarrow>
    rg_outstanding old \<noteq> 0 \<Longrightarrow> control_step w (w\<lparr>wd_control := CUngate\<rparr>)"
| c_switch: "wd_control w = CExclusive g \<Longrightarrow> boxed (wd_host w) (nh_active (wd_host w)) = Some old \<Longrightarrow>
    rg_outstanding old = 0 \<Longrightarrow> free_address (wd_host w) a \<Longrightarrow>
    control_step w (w\<lparr>wd_host := snd (snd (handoff_switch (dev :: nat DeviceHandoff) a g (rg_settings old) now d (wd_host w))), wd_control := CIdle\<rparr>)"

inductive world_step :: "('r, 't) World \<Rightarrow> ('r, 't) World \<Rightarrow> bool" where
  owner: "owner_step w w' \<Longrightarrow> world_step w w'"
| control: "control_step w w' \<Longrightarrow> world_step w w'"
| permit: "wd_permits w = ps @ p # qs \<Longrightarrow>
    world_step w (w\<lparr>wd_host := work_drop p (wd_host w), wd_permits := ps @ qs\<rparr>)"

definition world_start :: "nat \<Rightarrow> ('r, 't) RuntimeGeneration \<Rightarrow> ('r, 't) World" where
  "world_start a g = \<lparr>wd_host = node_host_new a g, wd_owner = (\<lambda>_. OIdle), wd_control = CIdle, wd_permits = []\<rparr>"

section \<open>The invariant\<close>

fun holding :: "OwnerPc \<Rightarrow> nat option" where
  "holding (OValid p) = Some p"
| "holding (OHeld p) = Some p"
| "holding (OPairing p) = Some p"
| "holding (OPaired p) = Some p"
| "holding _ = None"

text \<open>What an owner's counter says about its slot.\<close>

fun slot_ok :: "OwnerPc \<Rightarrow> nat option \<Rightarrow> bool" where
  "slot_ok OIdle z \<longleftrightarrow> z = None"
| "slot_ok (OLoaded _ _) z \<longleftrightarrow> z = None"
| "slot_ok (OStored _ p) z \<longleftrightarrow> z = p"
| "slot_ok (OFailed _) z \<longleftrightarrow> True"
| "slot_ok (OValid p) z \<longleftrightarrow> z = Some p"
| "slot_ok (OHeld p) z \<longleftrightarrow> z = Some p"
| "slot_ok (OPairing p) z \<longleftrightarrow> z = Some p"
| "slot_ok (OPaired p) z \<longleftrightarrow> z = Some p"
| "slot_ok (OUnpair p) z \<longleftrightarrow> z = None"
| "slot_ok OBorrowed z \<longleftrightarrow> True"

fun pairing :: "OwnerPc \<Rightarrow> bool" where
  "pairing (OPairing _) = True"
| "pairing (OPaired _) = True"
| "pairing (OUnpair _) = True"
| "pairing _ = False"

definition slots_ok :: "('r, 't) World \<Rightarrow> bool" where
  "slots_ok w \<longleftrightarrow> (\<forall>s. slot_ok (wd_owner w s) (nh_hazards (wd_host w) s))
     \<and> wd_owner w SlotReceive \<noteq> OBorrowed \<and> \<not> pairing (wd_owner w SlotTransmit)
     \<and> (wd_owner w SlotTransmit = OBorrowed \<longleftrightarrow> pairing (wd_owner w SlotReceive))"

definition host_ok :: "('r, 't) NodeHost \<Rightarrow> bool" where
  "host_ok h \<longleftrightarrow>
     (\<forall>p. nh_active h = Some p \<longrightarrow> nh_heap h p \<noteq> None \<and> nh_retired h \<noteq> Some p)
     \<and> (\<forall>p. nh_retired h = Some p \<longrightarrow> nh_heap h p \<noteq> None)
     \<and> (\<forall>p. nh_published h = Some p \<longrightarrow> nh_active h = Some p \<and> \<not> nh_stopping h)
     \<and> (\<forall>g. boxed h (nh_active h) = Some g \<longrightarrow> \<not> nh_stopping h \<longrightarrow> rg_admitted g \<and> \<not> rg_detached g)"

definition permits_ok :: "('r, 't) World \<Rightarrow> bool" where
  "permits_ok w \<longleftrightarrow> (\<forall>p. count_list (wd_permits w) p
     = (case nh_heap (wd_host w) p of Some g \<Rightarrow> rg_outstanding g | None \<Rightarrow> 0))"

definition live_ok :: "('r, 't) World \<Rightarrow> bool" where
  "live_ok w \<longleftrightarrow> (\<forall>s p. holding (wd_owner w s) = Some p \<longrightarrow> nh_active (wd_host w) = Some p \<or> nh_retired (wd_host w) = Some p)"

definition clear_of :: "('r, 't) World \<Rightarrow> nat option \<Rightarrow> Slot \<Rightarrow> bool" where
  "clear_of w p s \<longleftrightarrow> holding (wd_owner w s) \<noteq> p"

definition silent :: "('r, 't) World \<Rightarrow> Slot \<Rightarrow> bool" where
  "silent w s \<longleftrightarrow> holding (wd_owner w s) = None"

fun control_ok :: "('r, 't) ControlPc \<Rightarrow> ('r, 't) World \<Rightarrow> bool" where
  "control_ok CIdle w \<longleftrightarrow> True"
| "control_ok (CCheck pl) w \<longleftrightarrow> True"
| "control_ok (CScan pl s) w \<longleftrightarrow> gen_idle (wd_host w) (place_ptr pl (wd_host w))
     \<and> (s = SlotTransmit \<longrightarrow> clear_of w (place_ptr pl (wd_host w)) SlotReceive)"
| "control_ok (CFree pl) w \<longleftrightarrow> gen_idle (wd_host w) (place_ptr pl (wd_host w))
     \<and> (\<forall>s. clear_of w (place_ptr pl (wd_host w)) s)"
| "control_ok (CGateScan s g) w \<longleftrightarrow> nh_published (wd_host w) = None \<and> exclusive_allowed (wd_host w) g \<and> prepared g
     \<and> (s = SlotTransmit \<longrightarrow> silent w SlotReceive)"
| "control_ok (CExclusive g) w \<longleftrightarrow> nh_published (wd_host w) = None \<and> exclusive_allowed (wd_host w) g \<and> prepared g
     \<and> (\<forall>s. silent w s)"
| "control_ok CUngate w \<longleftrightarrow> \<not> nh_stopping (wd_host w)"

definition world_inv :: "('r, 't) World \<Rightarrow> bool" where
  "world_inv w \<longleftrightarrow> slots_ok w \<and> host_ok (wd_host w) \<and> permits_ok w \<and> live_ok w \<and> control_ok (wd_control w) w"

lemma slot_cases [case_names receive transmit]: "(s = SlotReceive \<Longrightarrow> P) \<Longrightarrow> (s = SlotTransmit \<Longrightarrow> P) \<Longrightarrow> P"
  by (cases s) simp_all

lemma all_slots: "(\<forall>s. P s) \<longleftrightarrow> P SlotReceive \<and> P SlotTransmit"
  by (metis Slot.exhaust)

lemma slot_holding: "slot_ok pc z \<Longrightarrow> holding pc = Some p \<Longrightarrow> z = Some p"
  by (cases pc) simp_all

section \<open>Steps that keep the frame\<close>

text \<open>The owners and the permits never change what control decides on.\<close>

definition same_gen :: "('r, 't) RuntimeGeneration \<Rightarrow> ('r, 't) RuntimeGeneration \<Rightarrow> bool" where
  "same_gen g g' \<longleftrightarrow> rg_id g' = rg_id g \<and> rg_settings g' = rg_settings g \<and> rg_admitted g' = rg_admitted g
     \<and> rg_detached g' = rg_detached g \<and> rg_outstanding g' \<le> rg_outstanding g"

definition frame :: "('r, 't) NodeHost \<Rightarrow> ('r, 't) NodeHost \<Rightarrow> bool" where
  "frame h h' \<longleftrightarrow> nh_published h' = nh_published h \<and> nh_active h' = nh_active h \<and> nh_retired h' = nh_retired h
     \<and> nh_stopping h' = nh_stopping h \<and> (\<forall>p. rel_option same_gen (nh_heap h p) (nh_heap h' p))"

lemma same_gen_refl [simp]: "same_gen g g"
  by (simp add: same_gen_def)

lemma frame_refl [simp]: "frame h h"
  by (simp add: frame_def option.rel_refl)

lemma frame_simps [simp]:
  "frame h (set_hazard s p h)" "frame h (set_adopted s gid h)" "frame h (guard_drop s h)"
  by (simp_all add: frame_def set_hazard_def set_adopted_def guard_drop_def option.rel_refl)

lemma frame_set_gen:
  assumes "\<And>g. same_gen g (f g)"
  shows "frame h (set_gen p f h)"
  using assms by (cases p) (auto simp: frame_def set_gen_def option.rel_map intro!: option.rel_refl)

lemma frame_heap: "frame h h' \<Longrightarrow> nh_heap h' p = None \<longleftrightarrow> nh_heap h p = None"
  unfolding frame_def by (metis option.rel_distinct option.exhaust)

lemma frame_boxed: "frame h h' \<Longrightarrow> rel_option same_gen (boxed h p) (boxed h' p)"
  by (cases p) (simp_all add: frame_def boxed_def)

lemma frame_place: "frame h h' \<Longrightarrow> place_ptr pl h' = place_ptr pl h"
  by (cases pl) (simp_all add: frame_def)

lemma frame_gen_idle: "frame h h' \<Longrightarrow> gen_idle h p \<Longrightarrow> gen_idle h' p"
  using frame_boxed [of h h' p]
  by (auto simp: gen_idle_def same_gen_def option_rel_Some1 split: option.splits)

lemma frame_exclusive: "frame h h' \<Longrightarrow> exclusive_allowed h g \<Longrightarrow> exclusive_allowed h' g"
  using frame_boxed [of h h' "nh_active h"]
  by (auto simp: exclusive_allowed_def frame_def same_gen_def option_rel_Some1 split: option.splits)

lemma frame_host_ok:
  assumes "frame h h'" "host_ok h"
  shows "host_ok h'"
proof -
  have "boxed h' (nh_active h') = Some g' \<Longrightarrow>
      \<exists>g. boxed h (nh_active h) = Some g \<and> rg_admitted g' = rg_admitted g \<and> rg_detached g' = rg_detached g" for g'
    using frame_boxed [OF assms(1), of "nh_active h"] assms(1)
    by (auto simp: frame_def same_gen_def option_rel_Some2)
  then show ?thesis
    using assms frame_heap [OF assms(1)] by (fastforce simp: host_ok_def frame_def)
qed

text \<open>Published is never the box that is being reclaimed.\<close>

lemma reclaim_target_unpublished:
  assumes "host_ok h" "gen_idle h (place_ptr pl h)"
  shows "nh_published h \<noteq> place_ptr pl h" "place_ptr pl h \<noteq> None"
proof -
  obtain a g where p: "place_ptr pl h = Some a" "nh_heap h a = Some g" "rg_detached g"
    using assms(2) by (cases "place_ptr pl h") (auto simp: gen_idle_def boxed_def split: option.splits)
  then show "place_ptr pl h \<noteq> None" by simp
  show "nh_published h \<noteq> place_ptr pl h"
    using p assms(1) by (cases pl) (auto simp: host_ok_def boxed_def)
qed

text \<open>Control's knowledge survives every step that keeps the frame and lets owners take only what is published.\<close>

lemma control_ok_keep:
  assumes "control_ok pc w" "host_ok (wd_host w)" "frame (wd_host w) (wd_host w')"
    and hold: "\<And>s. holding (wd_owner w' s) = None \<or> holding (wd_owner w' s) = holding (wd_owner w s)
      \<or> holding (wd_owner w' s) = nh_published (wd_host w)"
  shows "control_ok pc w'"
proof -
  have clear: "clear_of w' (place_ptr pl (wd_host w')) s"
    if "clear_of w (place_ptr pl (wd_host w)) s" "gen_idle (wd_host w) (place_ptr pl (wd_host w))" for pl s
    using that hold [of s] reclaim_target_unpublished [OF assms(2) that(2)] frame_place [OF assms(3), of pl]
    by (auto simp: clear_of_def)
  have silent: "silent w' s" if "silent w s" "nh_published (wd_host w) = None" for s
    using that hold [of s] by (auto simp: silent_def)
  have place: "place_ptr pl (wd_host w') = place_ptr pl (wd_host w)" for pl
    using frame_place [OF assms(3)] .
  have pub: "nh_published (wd_host w') = nh_published (wd_host w)" "nh_stopping (wd_host w') = nh_stopping (wd_host w)"
    using assms(3) by (simp_all add: frame_def)
  show ?thesis
    using assms(1) clear silent frame_gen_idle [OF assms(3)] frame_exclusive [OF assms(3)]
    by (cases pc) (auto simp: place pub)
qed

section \<open>Owner steps\<close>

lemma host_updates [simp]:
  "nh_hazards (set_hazard s p h) = (nh_hazards h)(s := p)" "nh_hazards (set_adopted s gid h) = nh_hazards h"
  "nh_hazards (guard_drop s h) = (nh_hazards h)(s := None)" "nh_hazards (set_gen q f h) = nh_hazards h"
  "nh_heap (set_hazard s p h) = nh_heap h" "nh_heap (set_adopted s gid h) = nh_heap h" "nh_heap (guard_drop s h) = nh_heap h"
  "nh_published (set_gen q f h) = nh_published h" "nh_active (set_gen q f h) = nh_active h"
  "nh_retired (set_gen q f h) = nh_retired h" "nh_stopping (set_gen q f h) = nh_stopping h"
  by (simp_all add: set_hazard_def set_adopted_def guard_drop_def set_gen_def split: option.split)

lemma set_owner_simps [simp]:
  "wd_host (set_owner s pc w) = wd_host w" "wd_control (set_owner s pc w) = wd_control w"
  "wd_permits (set_owner s pc w) = wd_permits w" "wd_owner (set_owner s pc w) = (wd_owner w)(s := pc)"
  by (simp_all add: set_owner_def)

lemma owner_step_frame:
  assumes "owner_step w w'"
  shows "frame (wd_host w) (wd_host w')" "wd_control w' = wd_control w" "wd_permits w' = wd_permits w"
  using assms by (cases rule: owner_step.cases;
      auto intro!: frame_set_gen simp: same_gen_def split: Slot.split)+

lemma owner_step_outstanding:
  assumes "owner_step w w'"
  shows "map_option rg_outstanding (nh_heap (wd_host w') p) = map_option rg_outstanding (nh_heap (wd_host w) p)"
  using assms by (cases rule: owner_step.cases)
    (auto simp: set_gen_def option.map_comp comp_def split: Slot.split)

lemma owner_step_holding:
  assumes "owner_step w w'"
  shows "holding (wd_owner w' s) = None \<or> holding (wd_owner w' s) = holding (wd_owner w s)
    \<or> holding (wd_owner w' s) = nh_published (wd_host w)"
  using assms by (cases rule: owner_step.cases) (auto simp: candidate_is_current_def)

lemma owner_step_slots:
  assumes "owner_step w w'" "slots_ok w"
  shows "slots_ok w'"
  using assms
proof (cases rule: owner_step.cases)
  case (pair p)
  then show ?thesis using assms(2) by (auto simp: slots_ok_def all_slots)
next
  case (unpair p)
  then show ?thesis using assms(2) by (auto simp: slots_ok_def all_slots)
qed (use assms(2) in \<open>auto simp: slots_ok_def all_slots candidate_is_current_def split: Slot.splits\<close>)

lemma owner_step_inv:
  assumes "owner_step w w'" "world_inv w"
  shows "world_inv w'"
proof -
  note fr = owner_step_frame [OF assms(1)]
  have w: "slots_ok w" "host_ok (wd_host w)" "permits_ok w" "live_ok w" "control_ok (wd_control w) w"
    using assms(2) by (simp_all add: world_inv_def)
  have "permits_ok w'"
    unfolding permits_ok_def
  proof
    fix p
    have "(case nh_heap (wd_host w') p of Some g \<Rightarrow> rg_outstanding g | None \<Rightarrow> 0)
        = (case nh_heap (wd_host w) p of Some g \<Rightarrow> rg_outstanding g | None \<Rightarrow> 0)"
      using owner_step_outstanding [OF assms(1), of p] by (auto split: option.splits)
    then show "count_list (wd_permits w') p = (case nh_heap (wd_host w') p of Some g \<Rightarrow> rg_outstanding g | None \<Rightarrow> 0)"
      using w(3) fr(3) by (simp add: permits_ok_def)
  qed
  moreover have "live_ok w'"
    unfolding live_ok_def
  proof (intro allI impI)
    fix s p
    assume "holding (wd_owner w' s) = Some p"
    then have "holding (wd_owner w s) = Some p \<or> nh_published (wd_host w) = Some p"
      using owner_step_holding [OF assms(1), of s] by auto
    then show "nh_active (wd_host w') = Some p \<or> nh_retired (wd_host w') = Some p"
      using w(2,4) fr(1) by (auto simp: live_ok_def host_ok_def frame_def)
  qed
  moreover have "control_ok (wd_control w') w'"
    unfolding fr(2) using w(5,2) fr(1) by (rule control_ok_keep) (rule owner_step_holding [OF assms(1)])
  ultimately show ?thesis
    using owner_step_slots [OF assms(1) w(1)] frame_host_ok [OF fr(1) w(2)] by (simp add: world_inv_def)
qed

section \<open>Permits\<close>

lemma permit_inv:
  assumes "world_inv w" "wd_permits w = ps @ p # qs"
  shows "world_inv (w\<lparr>wd_host := work_drop p (wd_host w), wd_permits := ps @ qs\<rparr>)"
proof -
  let ?w = "w\<lparr>wd_host := work_drop p (wd_host w), wd_permits := ps @ qs\<rparr>"
  have fr: "frame (wd_host w) (work_drop p (wd_host w))"
    unfolding work_drop_def by (rule frame_set_gen) (simp add: same_gen_def)
  have w: "slots_ok w" "host_ok (wd_host w)" "permits_ok w" "live_ok w" "control_ok (wd_control w) w"
    using assms(1) by (simp_all add: world_inv_def)
  have "permits_ok ?w"
    unfolding permits_ok_def
  proof
    fix q
    have q: "count_list (ps @ p # qs) q = (case nh_heap (wd_host w) q of Some g \<Rightarrow> rg_outstanding g | None \<Rightarrow> 0)"
      using w(3) assms(2) by (simp add: permits_ok_def)
    show "count_list (wd_permits ?w) q = (case nh_heap (wd_host ?w) q of Some g \<Rightarrow> rg_outstanding g | None \<Rightarrow> 0)"
    proof (cases "q = p")
      case True
      with q show ?thesis
        by (cases "nh_heap (wd_host w) p") (auto simp: work_drop_def set_gen_def)
    next
      case False
      with q show ?thesis by (simp add: work_drop_def set_gen_def)
    qed
  qed
  moreover have "control_ok (wd_control ?w) ?w"
    using control_ok_keep [OF w(5,2), of ?w] fr by simp
  ultimately show ?thesis
    using w frame_host_ok [OF fr w(2)] fr by (simp add: world_inv_def slots_ok_def live_ok_def work_drop_def)
qed

section \<open>Control steps\<close>

definition out_at :: "('r, 't) NodeHost \<Rightarrow> nat \<Rightarrow> nat" where
  "out_at h p = (case nh_heap h p of Some g \<Rightarrow> rg_outstanding g | None \<Rightarrow> 0)"

text \<open>Control operations that keep every box, every slot and every permit count.\<close>

definition evolves :: "('r, 't) NodeHost \<Rightarrow> ('r, 't) NodeHost \<Rightarrow> bool" where
  "evolves h h' \<longleftrightarrow> nh_hazards h' = nh_hazards h \<and> out_at h' = out_at h
     \<and> (\<forall>p. nh_active h = Some p \<or> nh_retired h = Some p \<longrightarrow> nh_active h' = Some p \<or> nh_retired h' = Some p)"

definition struct_ok :: "('r, 't) NodeHost \<Rightarrow> bool" where
  "struct_ok h \<longleftrightarrow>
     (\<forall>p. nh_active h = Some p \<longrightarrow> nh_heap h p \<noteq> None \<and> nh_retired h \<noteq> Some p)
     \<and> (\<forall>p. nh_retired h = Some p \<longrightarrow> nh_heap h p \<noteq> None)
     \<and> (\<forall>p. nh_published h = Some p \<longrightarrow> nh_active h = Some p \<and> \<not> nh_stopping h)"

lemma host_ok_struct:
  "host_ok h \<longleftrightarrow> struct_ok h \<and> (\<forall>g. boxed h (nh_active h) = Some g \<longrightarrow> \<not> nh_stopping h \<longrightarrow> rg_admitted g \<and> \<not> rg_detached g)"
  by (auto simp: host_ok_def struct_ok_def)

lemma evolves_refl [simp]: "evolves h h"
  by (simp add: evolves_def)

lemma evolves_trans: "evolves a b \<Longrightarrow> evolves b c \<Longrightarrow> evolves a c"
  unfolding evolves_def by (metis (no_types))

lemma set_gen_heap: "nh_heap (set_gen q f h) p = (if q = Some p then map_option f (nh_heap h p) else nh_heap h p)"
  by (cases q) (auto simp: set_gen_def)

lemma struct_set_gen [simp]: "struct_ok (set_gen q f h) = struct_ok h"
  by (simp add: struct_ok_def set_gen_heap)

lemma evolves_set_gen:
  assumes "\<And>g. boxed h q = Some g \<Longrightarrow> rg_outstanding (f g) = rg_outstanding g"
  shows "evolves h (set_gen q f h)"
  using assms by (auto simp: evolves_def out_at_def fun_eq_iff set_gen_heap boxed_def split: option.splits)

lemma boxed_set_gen: "boxed (set_gen q f h) p = (if p = q then map_option f (boxed h p) else boxed h p)"
  by (cases p; cases q) (auto simp: boxed_def set_gen_heap)

lemma prepared_publish:
  assumes "struct_ok h" "free_address h a" "rg_admitted g" "\<not> rg_detached g" "rg_outstanding g = 0"
    "fst (publish_prepared a g now h) = Inr ()"
  shows "host_ok (snd (publish_prepared a g now h))" "evolves h (snd (publish_prepared a g now h))"
proof -
  let ?h1 = "set_gen (nh_active h) (\<lambda>old. old\<lparr>rg_admitted := False\<rparr>) h"
  have go: "\<not> nh_stopping h" "nh_retired h = None"
    and h': "snd (publish_prepared a g now h) = ?h1\<lparr>nh_heap := (nh_heap ?h1)(a := Some g), nh_retired := nh_active h,
      nh_active := Some a, nh_published := Some a, nh_changed_ms := now\<rparr>"
    using assms(6) by (auto simp: publish_prepared_def Let_def split: if_splits)
  have fresh: "nh_active h \<noteq> Some a" "nh_heap h a = None"
    using assms(1,2) by (auto simp: struct_ok_def free_address_def)
  have old: "nh_active h = Some p \<Longrightarrow> nh_heap ?h1 p \<noteq> None" for p
    using assms(1) by (auto simp: struct_ok_def set_gen_heap)
  show "host_ok (snd (publish_prepared a g now h))"
    unfolding h' using fresh old go assms(3,4) by (auto simp: host_ok_def boxed_def)
  show "evolves h (snd (publish_prepared a g now h))"
    unfolding h' using fresh go assms(5)
    by (auto simp: evolves_def out_at_def fun_eq_iff set_gen_heap split: option.splits)
qed

lemma publish_unchanged: "fst (publish_prepared a g now h) = Inl e \<Longrightarrow> snd (publish_prepared a g now h) = h"
  by (auto simp: publish_prepared_def Let_def split: if_splits)

lemma publish_ok:
  assumes "host_ok h" "free_address h a" "prepared g"
  shows "host_ok (snd (host_publish a g now h)) \<and> evolves h (snd (host_publish a g now h))"
proof -
  have "host_ok (snd (publish_prepared a g now h)) \<and> evolves h (snd (publish_prepared a g now h))"
  proof (cases "fst (publish_prepared a g now h)")
    case (Inl e)
    show ?thesis unfolding publish_unchanged [OF Inl] using assms(1) by simp
  next
    case (Inr u)
    have "struct_ok h" using assms(1) by (simp add: host_ok_struct)
    then show ?thesis
      using prepared_publish [of h a g now] assms(2,3) Inr by (simp add: prepared_def)
  qed
  moreover have "snd (host_publish a g now h) = h \<or> snd (host_publish a g now h) = snd (publish_prepared a g now h)"
    by (simp add: host_publish_def)
  ultimately show ?thesis using assms(1) by (elim disjE) simp_all
qed

lemma exclusive_publishes: "exclusive_allowed h g \<Longrightarrow> fst (publish_prepared a g now h) = Inr ()"
  by (auto simp: exclusive_allowed_def publish_prepared_def Let_def not_le split: option.splits)

lemma stop_ok:
  assumes "struct_ok h"
  shows "host_ok (snd (host_stop now h)) \<and> evolves h (snd (host_stop now h))"
proof -
  let ?r = "\<lambda>g. g\<lparr>rg_admitted := False\<rparr>"
  let ?h1 = "set_gen (nh_retired h) ?r (set_gen (nh_active h) ?r h)"
  have "evolves h ?h1"
    by (rule evolves_trans [OF evolves_set_gen evolves_set_gen]) simp_all
  moreover have "struct_ok ?h1" using assms by simp
  ultimately show ?thesis
    by (simp add: host_stop_def Let_def host_ok_struct struct_ok_def evolves_def out_at_def fun_eq_iff)
qed

lemma detach_ok:
  assumes "host_ok h"
  shows "host_ok (snd (mark_detached gid h)) \<and> evolves h (snd (mark_detached gid h))"
proof -
  have "host_ok (set_gen p (\<lambda>g. g\<lparr>rg_detached := True\<rparr>) h) \<and> evolves h (set_gen p (\<lambda>g. g\<lparr>rg_detached := True\<rparr>) h)"
    if "detachable gid h p" "p = nh_active h \<or> p = nh_retired h" for p
  proof -
    have "evolves h (set_gen p (\<lambda>g. g\<lparr>rg_detached := True\<rparr>) h)" by (rule evolves_set_gen) simp
    moreover have "host_ok (set_gen p (\<lambda>g. g\<lparr>rg_detached := True\<rparr>) h)"
    proof (cases "boxed h p")
      case None
      then show ?thesis using that by (simp add: detachable_def)
    next
      case (Some g)
      then have "\<not> rg_admitted g" using that(1) by (simp add: detachable_def)
      then have "nh_stopping h \<or> p \<noteq> nh_active h"
        using assms Some unfolding host_ok_struct by blast
      then show ?thesis
      proof
        assume "nh_stopping h"
        then show ?thesis using assms by (simp add: host_ok_struct)
      next
        assume "p \<noteq> nh_active h"
        then have "boxed (set_gen p (\<lambda>g. g\<lparr>rg_detached := True\<rparr>) h) (nh_active h) = boxed h (nh_active h)"
          by (simp add: boxed_set_gen)
        then show ?thesis using assms by (simp add: host_ok_struct)
      qed
    qed
    ultimately show ?thesis by blast
  qed
  then show ?thesis
    using assms by (simp add: mark_detached_def)
qed

lemma gate_ok: "host_ok h \<Longrightarrow> host_ok (gate_callbacks h) \<and> evolves h (gate_callbacks h)"
  by (simp add: gate_callbacks_def host_ok_def evolves_def out_at_def boxed_def fun_eq_iff)

lemma republish_ok:
  assumes "host_ok h" "\<not> nh_stopping h"
  shows "host_ok (h\<lparr>nh_published := nh_active h\<rparr>) \<and> evolves h (h\<lparr>nh_published := nh_active h\<rparr>)"
  using assms by (simp add: host_ok_def evolves_def out_at_def boxed_def fun_eq_iff)

lemma restore_ok: "host_ok h \<Longrightarrow> host_ok (restore_callbacks h) \<and> evolves h (restore_callbacks h)"
  using republish_ok [of h] by (auto simp: restore_callbacks_def split: option.splits)

lemma timeout_ok: "host_ok h \<Longrightarrow> host_ok (snd (report_timeout now lim h)) \<and> evolves h (snd (report_timeout now lim h))"
  by (simp add: report_timeout_def Let_def host_ok_def evolves_def out_at_def boxed_def fun_eq_iff)

lemma evolve_inv:
  assumes "world_inv w" "host_ok h'" "evolves (wd_host w) h'" "control_ok pc (w\<lparr>wd_host := h', wd_control := pc\<rparr>)"
  shows "world_inv (w\<lparr>wd_host := h', wd_control := pc\<rparr>)"
proof -
  have "permits_ok (w\<lparr>wd_host := h', wd_control := pc\<rparr>)"
    using assms(1,3) by (simp add: world_inv_def permits_ok_def evolves_def out_at_def fun_eq_iff)
  moreover have "live_ok (w\<lparr>wd_host := h', wd_control := pc\<rparr>)"
    using assms(1,3) unfolding world_inv_def live_ok_def evolves_def by simp blast
  ultimately show ?thesis
    using assms by (simp add: world_inv_def slots_ok_def evolves_def)
qed

lemma idle_evolve_inv:
  assumes "world_inv w" "wd_control w = CIdle" "host_ok h' \<and> evolves (wd_host w) h'"
  shows "world_inv (w\<lparr>wd_host := h'\<rparr>)"
proof -
  have "w\<lparr>wd_host := h', wd_control := CIdle\<rparr> = w\<lparr>wd_host := h'\<rparr>"
    using assms(2) by (cases w) simp
  then show ?thesis using evolve_inv [OF assms(1), of h' CIdle] assms(3) by simp
qed

lemma counter_inv:
  assumes "world_inv w" "control_ok pc (w\<lparr>wd_control := pc\<rparr>)"
  shows "world_inv (w\<lparr>wd_control := pc\<rparr>)"
  using evolve_inv [OF assms(1), of "wd_host w" pc] assms by (simp add: world_inv_def)

lemma work_inv:
  assumes "world_inv w" "host_work (wd_host w) = (r, h)" "wd_control w = CIdle"
  shows "world_inv (w\<lparr>wd_host := h, wd_permits := (case r of Some p \<Rightarrow> p # wd_permits w | None \<Rightarrow> wd_permits w)\<rparr>)"
proof (cases "r = None")
  case True
  then have "h = wd_host w"
    using assms(2) by (auto simp: host_work_def set_gen_def split: if_splits)
  then show ?thesis using True assms(1) by simp
next
  case False
  let ?f = "\<lambda>g. g\<lparr>rg_outstanding := rg_outstanding g + 1\<rparr>"
  obtain p where p: "r = Some p" "nh_active (wd_host w) = Some p" "h = set_gen (Some p) ?f (wd_host w)"
    using False assms(2) by (auto simp: host_work_def split: if_splits)
  obtain g where g: "nh_heap (wd_host w) p = Some g"
    using assms(1) p(2) by (auto simp: world_inv_def host_ok_def)
  have "host_ok h"
    using assms(1) unfolding world_inv_def p(3) host_ok_struct by (auto simp: boxed_set_gen)
  moreover have "permits_ok (w\<lparr>wd_host := h, wd_permits := p # wd_permits w\<rparr>)"
    using assms(1) g unfolding world_inv_def permits_ok_def p(3) by (simp add: set_gen_heap)
  moreover have "slots_ok (w\<lparr>wd_host := h, wd_permits := p # wd_permits w\<rparr>)" "live_ok (w\<lparr>wd_host := h, wd_permits := p # wd_permits w\<rparr>)"
    using assms(1) by (simp_all add: world_inv_def slots_ok_def live_ok_def p(3))
  ultimately show ?thesis using assms(3) p(1) by (simp add: world_inv_def)
qed

lemma free_place_simps:
  "nh_hazards (free_place pl h) = nh_hazards h" "nh_published (free_place pl h) = nh_published h"
  "nh_stopping (free_place pl h) = nh_stopping h"
  "nh_heap (free_place pl h) = (case place_ptr pl h of None \<Rightarrow> nh_heap h | Some a \<Rightarrow> (nh_heap h)(a := None))"
  "nh_active (free_place pl h) = (if pl = PlaceActive then None else nh_active h)"
  "nh_retired (free_place pl h) = (if pl = PlaceRetired then None else nh_retired h)"
  by (cases pl; simp add: free_box_def split: option.split)+

declare free_place.simps [simp del]

lemma free_inv:
  assumes "world_inv w" "wd_control w = CFree pl"
  shows "world_inv (w\<lparr>wd_host := free_place pl (wd_host w), wd_control := next_place pl\<rparr>)"
proof -
  let ?h = "wd_host w"
  have w: "slots_ok w" "host_ok ?h" "permits_ok w" "live_ok w" "gen_idle ?h (place_ptr pl ?h)"
    "\<And>s. clear_of w (place_ptr pl ?h) s"
    using assms by (simp_all add: world_inv_def)
  obtain a g where a: "place_ptr pl ?h = Some a" "nh_heap ?h a = Some g" "rg_detached g" "rg_outstanding g = 0"
    using w(5) by (cases "place_ptr pl ?h") (auto simp: gen_idle_def boxed_def split: option.splits)
  have unpub: "nh_published ?h \<noteq> Some a"
    using reclaim_target_unpublished(1) [OF w(2,5)] a(1) by simp
  have "host_ok (free_place pl ?h)"
    using w(2) a unpub
    by (cases pl) (auto simp: host_ok_def free_place_simps boxed_def split: Option.bind_splits if_splits)
  moreover have "permits_ok (w\<lparr>wd_host := free_place pl ?h, wd_control := next_place pl\<rparr>)"
    using w(3) a by (auto simp: permits_ok_def free_place_simps)
  moreover have "live_ok (w\<lparr>wd_host := free_place pl ?h, wd_control := next_place pl\<rparr>)"
    using w(4,6) a(1) unfolding live_ok_def clear_of_def by (cases pl) (simp_all add: free_place_simps, (metis option.sel)+)
  moreover have "control_ok (next_place pl) (w\<lparr>wd_host := free_place pl ?h, wd_control := next_place pl\<rparr>)"
    by (cases pl) simp_all
  ultimately show ?thesis
    using w(1) by (simp add: world_inv_def slots_ok_def free_place_simps)
qed

lemma transferred_keeps:
  assumes "transferred tr old g = (old', g')"
  shows "rg_id old' = rg_id old" "rg_settings old' = rg_settings old" "rg_outstanding old' = rg_outstanding old"
    "rg_id g' = rg_id g" "rg_settings g' = rg_settings g" "prepared g' = prepared g"
  using assms by (auto simp: transferred_def prepared_def Let_def split: prod.splits)

lemma free_address_set_gen [simp]: "free_address (set_gen q f h) a = free_address h a"
  by (simp add: free_address_def set_gen_heap)

lemma exclusive_set_gen:
  assumes "exclusive_allowed h g" "\<And>g. boxed h (nh_active h) = Some g \<Longrightarrow> rg_id (f g) = rg_id g \<and> rg_settings (f g) = rg_settings g"
    "rg_id g' = rg_id g" "rg_settings g' = rg_settings g"
  shows "exclusive_allowed (set_gen (nh_active h) f h) g'"
  using assms by (cases "boxed h (nh_active h)") (simp_all add: exclusive_allowed_def boxed_set_gen)

lemma exclusive_publish_ok:
  assumes "struct_ok h" "exclusive_allowed h g" "prepared g" "free_address h a"
  shows "host_ok (snd (publish_prepared a g now h)) \<and> evolves h (snd (publish_prepared a g now h))"
  using prepared_publish [OF assms(1,4) _ _ _ exclusive_publishes [OF assms(2)]] assms(3)
  by (simp add: prepared_def)

lemma transfer_ok:
  assumes "host_ok h" "exclusive_allowed h g" "prepared g" "free_address h a" "boxed h (nh_active h) = Some old"
    "transferred tr old g = (old', g')"
  shows "host_ok (snd (publish_prepared a g' now (set_gen (nh_active h) (\<lambda>_. old') h)))
    \<and> evolves h (snd (publish_prepared a g' now (set_gen (nh_active h) (\<lambda>_. old') h)))"
proof -
  note tr = transferred_keeps [OF assms(6)]
  let ?h = "set_gen (nh_active h) (\<lambda>_. old') h"
  have ev: "evolves h ?h"
    by (rule evolves_set_gen) (use assms(5) tr in simp)
  have "exclusive_allowed ?h g'"
    by (rule exclusive_set_gen [OF assms(2)]) (use assms(5) tr in simp_all)
  moreover have "struct_ok ?h" using assms(1) by (simp add: host_ok_struct)
  ultimately show ?thesis
    using exclusive_publish_ok [of ?h g' a now] tr(6) assms(3,4) evolves_trans [OF ev] by simp
qed

lemma switch_ok:
  assumes "host_ok h" "exclusive_allowed h g" "prepared g" "free_address h a"
  shows "host_ok (snd (snd (handoff_switch dev a g olds now d h))) \<and> evolves h (snd (snd (handoff_switch dev a g olds now d h)))"
proof -
  let ?h = "set_detached h"
  have ev: "evolves h ?h" unfolding set_detached_def by (rule evolves_set_gen) simp
  have st: "struct_ok ?h" using assms(1) by (simp add: set_detached_def host_ok_struct)
  have ex: "exclusive_allowed ?h g"
    unfolding set_detached_def by (rule exclusive_set_gen [OF assms(2)]) simp_all
  have fr: "free_address ?h a" using assms(4) by (simp add: set_detached_def)
  have pub: "host_ok (snd (publish_prepared a g now ?h)) \<and> evolves h (snd (publish_prepared a g now ?h))"
    using exclusive_publish_ok [OF st ex assms(3) fr, of now] evolves_trans [OF ev] by simp
  have stop: "host_ok (snd (host_stop now ?h)) \<and> evolves h (snd (host_stop now ?h))"
    using stop_ok [OF st, of now] evolves_trans [OF ev] by simp
  have "\<not> nh_stopping h" using assms(2) by (simp add: exclusive_allowed_def)
  then show ?thesis
    using pub stop republish_ok [OF assms(1)] by (simp add: handoff_switch_def Let_def case_prod_beta)
qed

lemma scan_inv:
  assumes "world_inv w" "wd_control w = CScan pl slot"
  shows "world_inv (w\<lparr>wd_control := (if nh_hazards (wd_host w) slot = place_ptr pl (wd_host w) then next_place pl
       else case slot of SlotReceive \<Rightarrow> CScan pl SlotTransmit | SlotTransmit \<Rightarrow> CFree pl)\<rparr>)"
proof -
  have w: "gen_idle (wd_host w) (place_ptr pl (wd_host w))" "slot = SlotTransmit \<Longrightarrow> clear_of w (place_ptr pl (wd_host w)) SlotReceive"
    and slots: "\<And>s. slot_ok (wd_owner w s) (nh_hazards (wd_host w) s)" and host: "host_ok (wd_host w)"
    using assms by (simp_all add: world_inv_def slots_ok_def)
  have clear: "clear_of w (place_ptr pl (wd_host w)) slot" if "nh_hazards (wd_host w) slot \<noteq> place_ptr pl (wd_host w)"
    using that slot_holding [OF slots, of slot] reclaim_target_unpublished(2) [OF host w(1)]
    by (auto simp: clear_of_def)
  have "control_ok (next_place pl) v" for v :: "('a, 'b) World"
    by (cases pl) simp_all
  then show ?thesis
    using w clear by (intro counter_inv [OF assms(1)]) (cases slot; auto simp: clear_of_def all_slots)
qed

lemma gate_scan_inv:
  assumes "world_inv w" "wd_control w = CGateScan slot g"
  shows "world_inv (w\<lparr>wd_control := (if nh_hazards (wd_host w) slot \<noteq> None then CUngate
       else case slot of SlotReceive \<Rightarrow> CGateScan SlotTransmit g | SlotTransmit \<Rightarrow> CExclusive g)\<rparr>)"
proof -
  have w: "nh_published (wd_host w) = None" "exclusive_allowed (wd_host w) g" "prepared g" "slot = SlotTransmit \<Longrightarrow> silent w SlotReceive"
    and slots: "\<And>s. slot_ok (wd_owner w s) (nh_hazards (wd_host w) s)"
    using assms by (simp_all add: world_inv_def slots_ok_def)
  have "silent w slot" if "nh_hazards (wd_host w) slot = None"
    using that slot_holding [OF slots, of slot] by (cases "holding (wd_owner w slot)") (auto simp: silent_def)
  moreover have "\<not> nh_stopping (wd_host w)" using w(2) by (simp add: exclusive_allowed_def)
  ultimately show ?thesis
    using w by (intro counter_inv [OF assms(1)]) (cases slot; auto simp: silent_def all_slots)
qed

lemma control_step_inv:
  assumes "control_step w w'" "world_inv w"
  shows "world_inv w'"
proof -
  have h: "host_ok (wd_host w)" and pc: "control_ok (wd_control w) w"
    using assms(2) by (simp_all add: world_inv_def)
  note st = h [unfolded host_ok_struct, THEN conjunct1]
  show ?thesis
    using assms(1)
  proof (cases rule: control_step.cases)
    case (c_publish a g now)
    then show ?thesis using idle_evolve_inv [OF assms(2)] publish_ok [OF h] by simp
  next
    case c_gate
    then show ?thesis using idle_evolve_inv [OF assms(2)] gate_ok [OF h] by simp
  next
    case c_restore
    then show ?thesis using idle_evolve_inv [OF assms(2)] restore_ok [OF h] by simp
  next
    case (c_work r h)
    then show ?thesis using work_inv [OF assms(2)] by simp
  next
    case (c_detach gid)
    then show ?thesis using idle_evolve_inv [OF assms(2)] detach_ok [OF h] by simp
  next
    case (c_stop now)
    then show ?thesis using idle_evolve_inv [OF assms(2)] stop_ok [OF st] by simp
  next
    case (c_timeout now limit)
    then show ?thesis using idle_evolve_inv [OF assms(2)] timeout_ok [OF h] by simp
  next
    case c_reclaim
    then show ?thesis using counter_inv [OF assms(2)] by simp
  next
    case (c_check pl)
    have "control_ok (next_place pl) v" for v :: "('a, 'b) World" by (cases pl) simp_all
    then show ?thesis using c_check counter_inv [OF assms(2)] by simp
  next
    case (c_scan pl slot)
    then show ?thesis using scan_inv [OF assms(2)] by simp
  next
    case (c_free pl)
    then show ?thesis using free_inv [OF assms(2)] by simp
  next
    case (c_close g)
    have "exclusive_allowed (gate_callbacks (wd_host w)) g"
      using c_close by (simp add: exclusive_allowed_def gate_callbacks_def boxed_def)
    then show ?thesis
      using c_close evolve_inv [OF assms(2)] gate_ok [OF h] by (simp add: gate_callbacks_def)
  next
    case (c_gate_scan slot g)
    then show ?thesis using gate_scan_inv [OF assms(2)] by simp
  next
    case c_ungate
    then show ?thesis using evolve_inv [OF assms(2)] republish_ok [OF h] pc by simp
  next
    case (c_transfer g old a tr old' g' now)
    then have "exclusive_allowed (wd_host w) g" "prepared g" using pc by simp_all
    then show ?thesis
      using c_transfer evolve_inv [OF assms(2)] transfer_ok [OF h] by simp
  next
    case (c_busy g old)
    then have "\<not> nh_stopping (wd_host w)" using pc by (simp add: exclusive_allowed_def)
    then show ?thesis using c_busy counter_inv [OF assms(2)] by simp
  next
    case (c_switch g old a dev now d)
    then have "exclusive_allowed (wd_host w) g" "prepared g" using pc by simp_all
    then show ?thesis
      using c_switch evolve_inv [OF assms(2)] by (simp add: switch_ok [OF h])
  qed
qed

lemma world_step_inv: "world_step w w' \<Longrightarrow> world_inv w \<Longrightarrow> world_inv w'"
  by (cases rule: world_step.cases) (auto intro: owner_step_inv control_step_inv permit_inv)

lemma world_start_inv: "prepared g \<Longrightarrow> world_inv (world_start a g)"
  by (auto simp: world_inv_def world_start_def slots_ok_def host_ok_def permits_ok_def live_ok_def node_host_new_def
      boxed_def prepared_def)

inductive reachable_world :: "('r, 't) World \<Rightarrow> bool" where
  start: "prepared g \<Longrightarrow> reachable_world (world_start a g)"
| step: "reachable_world w \<Longrightarrow> world_step w w' \<Longrightarrow> reachable_world w'"

lemma reachable_world_inv: "reachable_world w \<Longrightarrow> world_inv w"
  by (induction rule: reachable_world.induct) (auto intro: world_start_inv world_step_inv)

section \<open>Properties\<close>

text \<open>C3. Hazard slots protect every callback. In every state reached by any interleaving of the two
  callback owners, control (publishing, gating, transferring, handing the device over, stopping,
  reclaiming) and returned work permits, with freed addresses reused at will: the generation an
  owner validated, holds or uses as a pair is allocated, is one of the two boxes the host keeps and
  stands in that owner's slot; every outstanding permit's generation is allocated; and while control
  moves state out of the active generation no owner has any generation at all.\<close>

theorem hazard_protection:
  assumes "reachable_world w"
  shows "(\<forall>slot p. holding (wd_owner w slot) = Some p \<longrightarrow>
            nh_heap (wd_host w) p \<noteq> None \<and> nh_hazards (wd_host w) slot = Some p
            \<and> (nh_active (wd_host w) = Some p \<or> nh_retired (wd_host w) = Some p))
     \<and> (\<forall>p \<in> set (wd_permits w). nh_heap (wd_host w) p \<noteq> None)
     \<and> (\<forall>g slot. wd_control w = CExclusive g \<longrightarrow> holding (wd_owner w slot) = None)"
proof -
  have inv: "slots_ok w" "host_ok (wd_host w)" "permits_ok w" "live_ok w" "control_ok (wd_control w) w"
    using reachable_world_inv [OF assms] by (simp_all add: world_inv_def)
  have "nh_heap (wd_host w) p \<noteq> None" if "p \<in> set (wd_permits w)" for p
    using that inv(3) by (auto simp: permits_ok_def count_list_0_iff dest!: spec [of _ p] split: option.splits)
  moreover have "nh_heap (wd_host w) p \<noteq> None \<and> nh_hazards (wd_host w) slot = Some p
      \<and> (nh_active (wd_host w) = Some p \<or> nh_retired (wd_host w) = Some p)"
    if "holding (wd_owner w slot) = Some p" for slot p
  proof -
    have kept: "nh_active (wd_host w) = Some p \<or> nh_retired (wd_host w) = Some p"
      using that inv(4) by (simp add: live_ok_def)
    then have "nh_heap (wd_host w) p \<noteq> None"
      using inv(2) by (auto simp: host_ok_def)
    then show ?thesis
      using kept slot_holding [OF _ that] inv(1) by (simp add: slots_ok_def)
  qed
  moreover have "holding (wd_owner w slot) = None" if "wd_control w = CExclusive g" for g slot
    using that inv(5) by (auto simp: silent_def)
  ultimately show ?thesis by blast
qed

definition sample_generation :: "(nat, nat) RuntimeGeneration" where
  "sample_generation = \<lparr>rg_id = 1, rg_settings = \<lparr>gs_node = ''524950'', gs_device = ''usb'', gs_receive_maximum = 960,
     gs_transmit_maximum = 960, gs_squelch_delay_ms = 0, gs_status_snapshot_interval_ms = 100\<rparr>,
     rg_receive = 0, rg_transmit = 0, rg_admitted = True, rg_outstanding = 0, rg_detached = False\<rparr>"

text \<open>The receive owner has validated the first generation and control has just replaced it.\<close>

definition sample_replacement :: "(nat, nat) World" where
  "sample_replacement =
     (let w0 = world_start 7 sample_generation;
          w1 = set_owner SlotReceive (OLoaded 1 (Some 7)) w0;
          w2 = (set_owner SlotReceive (OStored 1 (Some 7)) w1)\<lparr>wd_host := set_hazard SlotReceive (Some 7) (wd_host w1)\<rparr>;
          w3 = set_owner SlotReceive (OValid 7) w2
      in w3\<lparr>wd_host := snd (host_publish 8 (sample_generation\<lparr>rg_id := 2\<rparr>) 50 (wd_host w3))\<rparr>)"

lemma sample_replacement_reachable: "reachable_world sample_replacement"
proof -
  let ?w0 = "world_start 7 sample_generation"
  let ?w1 = "set_owner SlotReceive (OLoaded 1 (Some 7)) ?w0"
  let ?w2 = "(set_owner SlotReceive (OStored 1 (Some 7)) ?w1)\<lparr>wd_host := set_hazard SlotReceive (Some 7) (wd_host ?w1)\<rparr>"
  let ?w3 = "set_owner SlotReceive (OValid 7) ?w2"
  have "reachable_world ?w0" by (rule reachable_world.start) (simp add: prepared_def sample_generation_def)
  moreover have "world_step ?w0 ?w1"
    using owner_step.load [of ?w0 SlotReceive, THEN world_step.owner] by (simp add: world_start_def node_host_new_def)
  moreover have "world_step ?w1 ?w2"
    using owner_step.hazard [of ?w1 SlotReceive 1 "Some 7", THEN world_step.owner] by simp
  moreover have "world_step ?w2 ?w3"
    using owner_step.validate [of ?w2 SlotReceive 1 "Some 7", THEN world_step.owner]
    by (simp add: candidate_is_current_def set_hazard_def world_start_def node_host_new_def)
  moreover have "world_step ?w3 sample_replacement"
    unfolding sample_replacement_def Let_def
    by (rule world_step.control, rule control_step.c_publish)
      (simp_all add: world_start_def node_host_new_def free_address_def prepared_def sample_generation_def)
  ultimately show ?thesis by (meson reachable_world.step)
qed

theorem hazard_protection_witness:
  "nh_heap (wd_host sample_replacement) 7 \<noteq> None \<and> nh_hazards (wd_host sample_replacement) SlotReceive = Some 7
   \<and> nh_published (wd_host sample_replacement) = Some 8"
proof -
  have "holding (wd_owner sample_replacement SlotReceive) = Some 7"
    by (simp add: sample_replacement_def Let_def)
  moreover have "nh_published (wd_host sample_replacement) = Some 8"
    by (simp add: sample_replacement_def Let_def host_publish_def publish_prepared_def world_start_def node_host_new_def
        boxed_def sample_generation_def word_le_nat_alt set_hazard_def set_gen_def)
  ultimately show ?thesis
    using hazard_protection [OF sample_replacement_reachable] by blast
qed

section \<open>Undisturbed runs\<close>

lemma place_steps:
  assumes "wd_control w = CCheck pl"
  shows "control_step\<^sup>*\<^sup>* w (w\<lparr>wd_host := snd (reclaim_place pl (b, wd_host w)), wd_control := next_place pl\<rparr>)"
proof -
  let ?p = "place_ptr pl (wd_host w)" and ?hz = "nh_hazards (wd_host w)"
  let ?w1 = "w\<lparr>wd_control := CScan pl SlotReceive\<rparr>"
  let ?w2 = "w\<lparr>wd_control := CScan pl SlotTransmit\<rparr>"
  let ?w3 = "w\<lparr>wd_control := CFree pl\<rparr>"
  let ?stay = "w\<lparr>wd_control := next_place pl\<rparr>"
  have check: "control_step w (if gen_idle (wd_host w) ?p then ?w1 else ?stay)"
    using control_step.c_check [OF assms] by (simp split: if_splits)
  have scan1: "control_step ?w1 (if ?hz SlotReceive = ?p then ?stay else ?w2)"
    using control_step.c_scan [of ?w1 pl SlotReceive] by (simp split: if_splits)
  have scan2: "control_step ?w2 (if ?hz SlotTransmit = ?p then ?stay else ?w3)"
    using control_step.c_scan [of ?w2 pl SlotTransmit] by (simp split: if_splits)
  have free: "control_step ?w3 (w\<lparr>wd_host := free_place pl (wd_host w), wd_control := next_place pl\<rparr>)"
    using control_step.c_free [of ?w3 pl] by simp
  show ?thesis
    using check scan1 scan2 free
    by (cases "gen_idle (wd_host w) ?p"; cases "?hz SlotReceive = ?p"; cases "?hz SlotTransmit = ?p")
      (auto simp: reclaim_place_def reclaim_ready_def intro: converse_rtranclp_into_rtranclp)
qed

lemma reclaim_steps:
  assumes "wd_control w = CIdle"
  shows "control_step\<^sup>*\<^sup>* w (w\<lparr>wd_host := snd (control_reclaim (wd_host w)), wd_control := CIdle\<rparr>)"
proof (cases "reclaim_adopted (wd_host w)")
  case True
  let ?h = "wd_host w"
  let ?r1 = "reclaim_place PlaceRetired (False, ?h)"
  let ?w1 = "w\<lparr>wd_control := CCheck PlaceRetired\<rparr>"
  let ?w2 = "w\<lparr>wd_host := snd ?r1, wd_control := CCheck PlaceActive\<rparr>"
  have "control_step w ?w1" using control_step.c_reclaim [OF assms] True by simp
  moreover have "control_step\<^sup>*\<^sup>* ?w1 ?w2"
    using place_steps [of ?w1 PlaceRetired False] by simp
  moreover have "control_step\<^sup>*\<^sup>* ?w2 (w\<lparr>wd_host := snd (reclaim_place PlaceActive ?r1), wd_control := CIdle\<rparr>)"
    using place_steps [of ?w2 PlaceActive "fst ?r1"] by simp
  ultimately show ?thesis
    using True by (simp add: control_reclaim_def)
next
  case False
  then have "w\<lparr>wd_host := snd (control_reclaim (wd_host w)), wd_control := CIdle\<rparr> = w"
    using assms by (cases w) (simp add: control_reclaim_def)
  then show ?thesis by simp
qed

definition acquired :: "Slot \<Rightarrow> nat option \<Rightarrow> OwnerPc" where
  "acquired slot r = (case r of Some p \<Rightarrow> OHeld p | None \<Rightarrow> OIdle)"

lemma acquire_steps:
  assumes "wd_owner w slot = OIdle" "\<And>p. nh_published (wd_host w) = Some p \<Longrightarrow> nh_heap (wd_host w) p \<noteq> None"
  shows "owner_step\<^sup>*\<^sup>* w ((set_owner slot (acquired slot (fst (host_acquire slot (wd_host w)))) w)
    \<lparr>wd_host := snd (host_acquire slot (wd_host w))\<rparr>)"
proof (cases "nh_published (wd_host w)")
  case (Some p)
  obtain g where g: "nh_heap (wd_host w) p = Some g" using assms(2) [OF Some] by auto
  let ?h1 = "set_hazard slot (Some p) (wd_host w)"
  let ?w1 = "set_owner slot (OLoaded 1 (Some p)) w"
  let ?w2 = "(set_owner slot (OStored 1 (Some p)) w)\<lparr>wd_host := ?h1\<rparr>"
  let ?w3 = "(set_owner slot (OValid p) w)\<lparr>wd_host := ?h1\<rparr>"
  have pub: "nh_published ?h1 = Some p" using Some by (simp add: set_hazard_def)
  have "owner_step w ?w1" using owner_step.load [OF assms(1)] Some by simp
  moreover have "owner_step ?w1 ?w2"
    using owner_step.hazard [of ?w1 slot 1 "Some p"] by (cases w rule: World.cases) (simp add: set_owner_def)
  moreover have "owner_step ?w2 ?w3"
    using owner_step.validate [of ?w2 slot 1 "Some p"] pub by (cases w rule: World.cases) (simp add: candidate_is_current_def set_owner_def)
  moreover have "owner_step ?w3 ((set_owner slot (OHeld p) w)\<lparr>wd_host := set_adopted slot (rg_id g) ?h1\<rparr>)"
    using owner_step.adopt [of ?w3 slot p g] g by (cases w rule: World.cases) (simp add: set_owner_def)
  moreover have "host_acquire slot (wd_host w) = (Some p, set_adopted slot (rg_id g) ?h1)"
    using Some pub g by (simp add: host_acquire_def numeral_2_eq_2 candidate_is_current_def boxed_def Let_def)
  ultimately show ?thesis
    by (simp add: acquired_def)
next
  case None
  let ?h1 = "set_hazard slot None (wd_host w)"
  have same: "set_hazard slot None ?h1 = ?h1" and pub: "nh_published ?h1 = None"
    using None by (simp_all add: set_hazard_def)
  let ?w = "\<lambda>pc h. (set_owner slot pc w)\<lparr>wd_host := h\<rparr>"
  have "owner_step w (?w (OLoaded 1 None) (wd_host w))"
    using owner_step.load [OF assms(1)] None by (cases w rule: World.cases) (simp add: set_owner_def)
  moreover have "owner_step (?w (OLoaded 1 None) (wd_host w)) (?w (OStored 1 None) ?h1)"
    using owner_step.hazard [of "?w (OLoaded 1 None) (wd_host w)" slot 1 None] by (cases w rule: World.cases) (simp add: set_owner_def)
  moreover have "owner_step (?w (OStored n None) ?h1) (?w (OFailed n) ?h1)" for n
    using owner_step.validate [of "?w (OStored n None) ?h1" slot n None] by (cases w rule: World.cases) (simp add: candidate_is_current_def set_owner_def)
  moreover have "owner_step (?w (OFailed 1) ?h1) (?w (OLoaded 0 None) ?h1)"
    using owner_step.failed [of "?w (OFailed 1) ?h1" slot 1] pub same by (cases w rule: World.cases) (simp add: set_owner_def)
  moreover have "owner_step (?w (OLoaded 0 None) ?h1) (?w (OStored 0 None) ?h1)"
    using owner_step.hazard [of "?w (OLoaded 0 None) ?h1" slot 0 None] same by (cases w rule: World.cases) (simp add: set_owner_def)
  moreover have "owner_step (?w (OFailed 0) ?h1) (?w OIdle ?h1)"
    using owner_step.failed [of "?w (OFailed 0) ?h1" slot 0] same by (cases w rule: World.cases) (simp add: set_owner_def)
  moreover have "host_acquire slot (wd_host w) = (None, ?h1)"
    using None pub by (simp add: host_acquire_def numeral_2_eq_2 candidate_is_current_def Let_def same)
  ultimately show ?thesis
    by (simp add: acquired_def) (meson converse_rtranclp_into_rtranclp rtranclp.rtrancl_refl)
qed



end
