(* ===== verification/Spsc_Ring.thy ===== *)
theory Spsc_Ring
  imports Prelude
begin

text \<open>
  The single-producer single-consumer ring of the \<^verbatim>\<open>rtrb\<close> crate as the components use it: an argument with
  the operations they call, and as the named hypothesis \<open>ring_laws\<close> what the crate documents: the ring
  holds a sequence, a push appends at its end when there is room, a pop takes from its front, and while the
  producer does not push, its free slots only grow; \<open>rb_modify\<close> is a \<^verbatim>\<open>read_chunk\<close> over all elements that are
  changed in place and not committed.
\<close>

record ('q, 'e) Ring =
  rb_push :: "'q \<Rightarrow> 'e \<Rightarrow> 'q option"
  rb_pop :: "'q \<Rightarrow> ('e \<times> 'q) option"
  rb_slots :: "'q \<Rightarrow> nat"
  rb_free :: "'q \<Rightarrow> nat"
  rb_push_partial :: "'q \<Rightarrow> 'e list \<Rightarrow> nat \<times> 'q"
  rb_pop_entire :: "'q \<Rightarrow> nat \<Rightarrow> ('e list \<times> 'q) option"
  rb_modify :: "('e list \<Rightarrow> 'e list) \<Rightarrow> 'q \<Rightarrow> 'q"

definition ring_laws :: "('q, 'e) Ring \<Rightarrow> ('q \<Rightarrow> 'e list) \<Rightarrow> bool" where
  "ring_laws rb con \<longleftrightarrow>
     (\<forall>w e. case rb_push rb w e of Some w' \<Rightarrow> con w' = con w @ [e] \<and> rb_free rb w \<le> Suc (rb_free rb w') | None \<Rightarrow> rb_free rb w = 0)
     \<and> (\<forall>w. case rb_pop rb w of Some (e, w') \<Rightarrow> con w = e # con w' \<and> rb_free rb w \<le> rb_free rb w' | None \<Rightarrow> con w = [])
     \<and> (\<forall>w. rb_slots rb w = length (con w))
     \<and> (\<forall>w es. case rb_push_partial rb w es of (n, w') \<Rightarrow> n = min (rb_free rb w) (length es) \<and> con w' = con w @ take n es)
     \<and> (\<forall>w n. case rb_pop_entire rb w n of
           Some (es, w') \<Rightarrow> n \<le> length (con w) \<and> es = take n (con w) \<and> con w' = drop n (con w) | None \<Rightarrow> length (con w) < n)
     \<and> (\<forall>f w. length (f (con w)) = length (con w) \<longrightarrow> con (rb_modify rb f w) = f (con w))"

lemma ring_pushD:
  assumes "ring_laws rb con" "rb_push rb w e = Some w'"
  shows "con w' = con w @ [e]" "rb_free rb w \<le> Suc (rb_free rb w')"
proof -
  have "\<forall>w e. case rb_push rb w e of Some w' \<Rightarrow> con w' = con w @ [e] \<and> rb_free rb w \<le> Suc (rb_free rb w') | None \<Rightarrow> rb_free rb w = 0"
    using assms(1) unfolding ring_laws_def by blast
  from this [rule_format, of w e] show "con w' = con w @ [e]" "rb_free rb w \<le> Suc (rb_free rb w')"
    using assms(2) by simp_all
qed

lemma ring_push_None:
  assumes "ring_laws rb con" "rb_push rb w e = None"
  shows "rb_free rb w = 0"
proof -
  have "\<forall>w e. case rb_push rb w e of Some w' \<Rightarrow> con w' = con w @ [e] \<and> rb_free rb w \<le> Suc (rb_free rb w') | None \<Rightarrow> rb_free rb w = 0"
    using assms(1) unfolding ring_laws_def by blast
  from this [rule_format, of w e] show ?thesis using assms(2) by simp
qed

lemma ring_popD:
  assumes "ring_laws rb con"
  shows "rb_pop rb w = Some (e, w') \<Longrightarrow> con w = e # con w'" "rb_pop rb w = Some (e, w') \<Longrightarrow> rb_free rb w \<le> rb_free rb w'"
    "rb_pop rb w = None \<longleftrightarrow> con w = []"
proof -
  have "\<forall>w. case rb_pop rb w of Some (e, w') \<Rightarrow> con w = e # con w' \<and> rb_free rb w \<le> rb_free rb w' | None \<Rightarrow> con w = []"
    using assms unfolding ring_laws_def by blast
  from this [rule_format, of w]
  show "rb_pop rb w = Some (e, w') \<Longrightarrow> con w = e # con w'" "rb_pop rb w = Some (e, w') \<Longrightarrow> rb_free rb w \<le> rb_free rb w'"
    "rb_pop rb w = None \<longleftrightarrow> con w = []"
    by (auto split: option.splits)
qed

lemma ring_slotsD: "ring_laws rb con \<Longrightarrow> rb_slots rb w = length (con w)"
  by (simp add: ring_laws_def)

lemma ring_partialD:
  assumes "ring_laws rb con" "rb_push_partial rb w es = (n, w')"
  shows "n = min (rb_free rb w) (length es)" "con w' = con w @ take n es"
proof -
  have "\<forall>w es. case rb_push_partial rb w es of (n, w') \<Rightarrow> n = min (rb_free rb w) (length es) \<and> con w' = con w @ take n es"
    using assms(1) unfolding ring_laws_def by (elim conjE)
  from this [rule_format, of w es] show "n = min (rb_free rb w) (length es)" "con w' = con w @ take n es"
    using assms(2) by simp_all
qed

lemma ring_entireD:
  assumes "ring_laws rb con"
  shows "rb_pop_entire rb w n = Some (es, w') \<Longrightarrow> n \<le> length (con w) \<and> es = take n (con w) \<and> con w' = drop n (con w)"
    "rb_pop_entire rb w n = None \<Longrightarrow> length (con w) < n"
proof -
  have "\<forall>w n. case rb_pop_entire rb w n of
      Some (es, w') \<Rightarrow> n \<le> length (con w) \<and> es = take n (con w) \<and> con w' = drop n (con w) | None \<Rightarrow> length (con w) < n"
    using assms unfolding ring_laws_def by (elim conjE)
  from this [rule_format, of w n]
  show "rb_pop_entire rb w n = Some (es, w') \<Longrightarrow> n \<le> length (con w) \<and> es = take n (con w) \<and> con w' = drop n (con w)"
    "rb_pop_entire rb w n = None \<Longrightarrow> length (con w) < n" by simp_all
qed

lemma ring_modifyD: "ring_laws rb con \<Longrightarrow> length (f (con w)) = length (con w) \<Longrightarrow> con (rb_modify rb f w) = f (con w)"
  unfolding ring_laws_def by (elim conjE) simp

text \<open>A ring of the given capacity as a list: the hypothesis can hold.\<close>

definition list_ring :: "nat \<Rightarrow> ('e list, 'e) Ring" where
  "list_ring cap = \<lparr>rb_push = (\<lambda>w e. if length w < cap then Some (w @ [e]) else None),
     rb_pop = (\<lambda>w. case w of [] \<Rightarrow> None | e # w' \<Rightarrow> Some (e, w')), rb_slots = length, rb_free = (\<lambda>w. cap - length w),
     rb_push_partial = (\<lambda>w es. let n = min (cap - length w) (length es) in (n, w @ take n es)),
     rb_pop_entire = (\<lambda>w n. if n \<le> length w then Some (take n w, drop n w) else None),
     rb_modify = (\<lambda>f w. f w)\<rparr>"

lemma list_ring_laws: "ring_laws (list_ring cap) id"
  by (simp add: ring_laws_def list_ring_def Let_def split: list.split) (intro conjI allI impI; linarith)

text \<open>
  \<^verbatim>\<open>while let Ok(_) = ring.pop()\<close>: the loop ends after as many rounds as there are elements, which is the fuel.
\<close>

fun drain_loop :: "('q, 'e) Ring \<Rightarrow> nat \<Rightarrow> 'q \<Rightarrow> 'q" where
  "drain_loop rb 0 w = w"
| "drain_loop rb (Suc n) w = (case rb_pop rb w of Some (_, w') \<Rightarrow> drain_loop rb n w' | None \<Rightarrow> w)"

definition ring_drain :: "('q, 'e) Ring \<Rightarrow> 'q \<Rightarrow> 'q" where
  "ring_drain rb w = drain_loop rb (rb_slots rb w) w"

lemma drain_loop_empty: "ring_laws rb con \<Longrightarrow> length (con w) \<le> n \<Longrightarrow> con (drain_loop rb n w) = []"
proof (induction n arbitrary: w)
  case (Suc n)
  show ?case
  proof (cases "rb_pop rb w")
    case None
    then have "con w = []" using ring_popD(3) [OF Suc.prems(1)] by simp
    with None show ?thesis by simp
  next
    case (Some ew)
    obtain e w' where "ew = (e, w')" by fastforce
    then show ?thesis using Suc Some ring_popD(1) [OF Suc.prems(1)] by simp
  qed
qed simp

lemma ring_drain_empty: "ring_laws rb con \<Longrightarrow> con (ring_drain rb w) = []"
  by (simp add: ring_drain_def drain_loop_empty ring_slotsD)

text \<open>A ring refuses only what would exceed its capacity.\<close>

definition ring_capacity :: "('q, 'e) Ring \<Rightarrow> ('q \<Rightarrow> 'e list) \<Rightarrow> nat \<Rightarrow> bool" where
  "ring_capacity rb con cap \<longleftrightarrow> (\<forall>w. cap \<le> rb_free rb w + length (con w))"

lemma ring_push_fits:
  assumes "ring_laws rb con" "ring_capacity rb con cap" "length (con w) < cap"
  obtains w' where "rb_push rb w e = Some w'" "con w' = con w @ [e]"
proof (cases "rb_push rb w e")
  case None
  then have "rb_free rb w = 0" by (rule ring_push_None [OF assms(1)])
  with assms(2,3) have False unfolding ring_capacity_def by (metis add_0 not_le)
  then show thesis ..
next
  case (Some w')
  then show thesis using that ring_pushD(1) [OF assms(1)] by blast
qed

lemma list_ring_capacity: "ring_capacity (list_ring cap) id cap"
  by (simp add: ring_capacity_def list_ring_def) arith

end
