(* ===== verification/Dtmf_Control.thy ===== *)
theory Dtmf_Control
  imports Dtmf_Command Spsc_Ring
begin

text \<open>
  The radio-to-control digit handoff and the interpretation of digits as operations,
  \<^verbatim>\<open>core/src/runtime/dtmf.rs\<close>. The single-producer ring of the \<^verbatim>\<open>rtrb\<close> crate is an argument
  (\<open>Ring\<close>) with its laws as the named hypothesis \<open>ring_laws\<close>; the password hashing of the
  \<^verbatim>\<open>argon2\<close> crate is an argument (\<open>Hashing\<close>) of which nothing is assumed. The tone detector computes
  on samples and is not part of this theory: its completed digits are the arguments of \<open>dtmf_process\<close>.
\<close>

section \<open>Events and the bounded queue\<close>

datatype DigitEvent = EvDigit char u64 | EvUnkey u64 | EvLost

record 'q DtmfPublisher =
  dp_writer :: 'q
  dp_drops :: u64
  dp_last_ms :: u64
  dp_timeout :: bool
  dp_receiving :: bool

text \<open>
  The producer and the consumer share the ring and the drop counter: the pair of endpoints is one record,
  the consumer's own fields are \<open>dd_reported\<close> and \<open>dd_generation\<close>.
\<close>

record 'q DtmfQueue = "'q DtmfPublisher" +
  dd_reported :: u64
  dd_generation :: u64

definition publisher_new :: "'q \<Rightarrow> u64 \<Rightarrow> 'q DtmfQueue" where
  "publisher_new ring0 generation = \<lparr>dp_writer = ring0, dp_drops = 0, dp_last_ms = 0, dp_timeout = False,
     dp_receiving = False, dd_reported = 0, dd_generation = generation\<rparr>"

definition publish_event :: "('q, DigitEvent) Ring \<Rightarrow> DigitEvent \<Rightarrow> 'q DtmfQueue \<Rightarrow> 'q DtmfQueue" where
  "publish_event rb event q =
     (case rb_push rb (dp_writer q) event of
        Some w \<Rightarrow> q\<lparr>dp_writer := w\<rparr>
      | None \<Rightarrow> q\<lparr>dp_drops := dp_drops q + 1\<rparr>)"

definition queue_digit :: "('q, DigitEvent) Ring \<Rightarrow> char \<Rightarrow> u64 \<Rightarrow> 'q DtmfQueue \<Rightarrow> 'q DtmfQueue" where
  "queue_digit rb digit now_ms q = publish_event rb (EvDigit digit now_ms) q"

definition decoded :: "('q, DigitEvent) Ring \<Rightarrow> char \<Rightarrow> u64 \<Rightarrow> 'q DtmfQueue \<Rightarrow> 'q DtmfQueue" where
  "decoded rb digit now_ms q = (queue_digit rb digit now_ms q)\<lparr>dp_last_ms := now_ms, dp_timeout := True\<rparr>"

definition finish_frame :: "('q, DigitEvent) Ring \<Rightarrow> bool \<Rightarrow> u64 \<Rightarrow> bool \<Rightarrow> 'q DtmfQueue \<Rightarrow> 'q DtmfQueue" where
  "finish_frame rb receiving now_ms emitted q =
     (let q1 = (if \<not> emitted \<and> dp_timeout q \<and> sat_sub now_ms (dp_last_ms q) \<ge> 3000
                then (queue_digit rb (CHR 0x00) now_ms q)\<lparr>dp_timeout := False\<rparr> else q);
          q2 = (if dp_receiving q1 \<and> \<not> receiving
                then (publish_event rb (EvUnkey now_ms) q1)\<lparr>dp_timeout := False\<rparr> else q1)
      in q2\<lparr>dp_receiving := receiving\<rparr>)"

text \<open>One audio frame; \<open>digits\<close> are the completions the detector reports in it.\<close>

definition dtmf_process :: "('q, DigitEvent) Ring \<Rightarrow> bool \<Rightarrow> string \<Rightarrow> u64 \<Rightarrow> 'q DtmfQueue \<Rightarrow> 'q DtmfQueue" where
  "dtmf_process rb receiving digits now_ms q =
     finish_frame rb receiving now_ms (digits \<noteq> []) (foldl (\<lambda>q d. decoded rb d now_ms q) q digits)"

fun pop_many :: "('q, DigitEvent) Ring \<Rightarrow> nat \<Rightarrow> 'q \<Rightarrow> 'q" where
  "pop_many rb 0 w = w"
| "pop_many rb (Suc n) w = pop_many rb n (case rb_pop rb w of Some (_, w') \<Rightarrow> w' | None \<Rightarrow> w)"

definition dispatcher_discard :: "('q, DigitEvent) Ring \<Rightarrow> 'q DtmfQueue \<Rightarrow> 'q DtmfQueue" where
  "dispatcher_discard rb q =
     q\<lparr>dp_writer := pop_many rb (rb_slots rb (dp_writer q)) (dp_writer q), dd_reported := dp_drops q\<rparr>"

definition dispatcher_next :: "('q, DigitEvent) Ring \<Rightarrow> u64 \<Rightarrow> 'q DtmfQueue \<Rightarrow> DigitEvent option \<times> 'q DtmfQueue" where
  "dispatcher_next rb current q =
     (let dropped = dp_drops q;
          flushed = q\<lparr>dp_writer := pop_many rb (rb_slots rb (dp_writer q)) (dp_writer q), dd_reported := dropped\<rparr> in
      if dd_generation q \<noteq> current then (None, flushed)
      else if dropped \<noteq> dd_reported q then (Some EvLost, flushed)
      else (case rb_pop rb (dp_writer q) of
              Some (e, w) \<Rightarrow> (Some e, q\<lparr>dp_writer := w\<rparr>)
            | None \<Rightarrow> (None, q)))"

section \<open>Operations and outcomes\<close>

text \<open>\<open>'p\<close> identifies the originating peer (\<^verbatim>\<open>PeerReply\<close>).\<close>

record 'p DigitOperation =
  do_command :: Command
  do_digit :: "char option"
  do_remote :: "RemoteCommand option"
  do_reply :: "'p option"
  do_origin :: "string option"
  do_admin_authorized :: bool

record PadTestResult =
  pt_digits :: string
  pt_overflowed :: bool

datatype 'p DigitOutcome =
  OcOperation "'p DigitOperation"
| OcRemoteCandidate "'p DigitOperation"
| OcPadTest PadTestResult
| OcRegenerate char

definition digit_operation_new :: "Command \<Rightarrow> char option \<Rightarrow> 'p DigitOperation" where
  "digit_operation_new command digit = \<lparr>do_command = command, do_digit = digit, do_remote = None, do_reply = None,
     do_origin = None, do_admin_authorized = False\<rparr>"

record DtmfCommands =
  dc_map :: DtmfCommandMap
  dc_collector :: CommandCollector
  dc_last_node :: string
  dc_remote :: string
  dc_peer_source :: bool
  dc_pad :: "PadTestResult option"
  dc_digit_deadline :: "u64 option"
  dc_admin_unlock_hash :: string
  dc_admin_lock_hash :: string
  dc_admin_timeout_ms :: u64
  dc_admin_until_ms :: u64
  dc_remote_access :: RemoteDtmfAccess

record Hashing =
  hs_valid :: "string \<Rightarrow> bool"
  hs_verify :: "string \<Rightarrow> string \<Rightarrow> bool"

definition commands_new :: "DtmfCommandMap \<Rightarrow> DtmfCommands" where
  "commands_new cmap = \<lparr>dc_map = cmap, dc_collector = collector cmap, dc_last_node = [], dc_remote = [],
     dc_peer_source = False, dc_pad = None, dc_digit_deadline = None, dc_admin_unlock_hash = [], dc_admin_lock_hash = [],
     dc_admin_timeout_ms = 300000, dc_admin_until_ms = 0, dc_remote_access = RA_Disabled\<rparr>"

definition configure_admin :: "Hashing \<Rightarrow> string \<Rightarrow> string \<Rightarrow> u64 \<Rightarrow> DtmfCommands \<Rightarrow> DtmfCommands" where
  "configure_admin hs unlock_hash lock_hash timeout_ms c =
     (let c1 = c\<lparr>dc_admin_unlock_hash := [], dc_admin_lock_hash := []\<rparr>;
          c2 = (if hs_valid hs unlock_hash \<and> hs_valid hs lock_hash \<and> timeout_ms > 0
                then c1\<lparr>dc_admin_unlock_hash := unlock_hash, dc_admin_lock_hash := lock_hash,
                        dc_admin_timeout_ms := timeout_ms\<rparr> else c1)
      in c2\<lparr>dc_admin_until_ms := 0\<rparr>)"

definition for_source :: "Hashing \<Rightarrow> DtmfCommands \<Rightarrow> DtmfCommands" where
  "for_source hs c =
     configure_admin hs (dc_admin_unlock_hash c) (dc_admin_lock_hash c) (dc_admin_timeout_ms c)
       ((commands_new (dc_map c))\<lparr>dc_peer_source := True, dc_remote_access := dc_remote_access c\<rparr>)"

definition configure_remote ::
    "string \<Rightarrow> RemoteDtmfAccess \<Rightarrow> DtmfCommands \<Rightarrow> (CommandMapError + unit) \<times> DtmfCommands" where
  "configure_remote pre access c =
     (let mappings = (if list_ex (\<lambda>m. cm_action m = ActRemoteBase) (dc_map c)
                      then update_first (\<lambda>m. cm_action m = ActRemoteBase) (\<lambda>m. m\<lparr>cm_digits := pre\<rparr>) (dc_map c)
                      else dc_map c @ [\<lparr>cm_digits = pre, cm_action = ActRemoteBase\<rparr>]) in
      (case command_map_new mappings of
         Inl e \<Rightarrow> (Inl e, c)
       | Inr cmap \<Rightarrow> (Inr (), c\<lparr>dc_collector := collector cmap, dc_map := cmap, dc_remote_access := access\<rparr>)))"

definition select_remote :: "string \<Rightarrow> DtmfCommands \<Rightarrow> DtmfCommands" where
  "select_remote remote c = c\<lparr>dc_remote := remote, dc_collector := collector (dc_map c)\<rparr>"

definition remote_disconnect :: "string \<Rightarrow> DtmfCommands \<Rightarrow> DtmfCommands" where
  "remote_disconnect remote c = (if dc_remote c = remote then c\<lparr>dc_remote := []\<rparr> else c)"

text \<open>\<^verbatim>\<open>message_selector_valid\<close> of \<^verbatim>\<open>core/src/config/messages.rs\<close>.\<close>

definition selector_valid :: "string \<Rightarrow> bool" where
  "selector_valid v \<longleftrightarrow> v = [] \<or> (length v \<le> 127 \<and> hd v \<noteq> CHR ''0'' \<and> list_all is_ascii_digit v)"

section \<open>Authorization\<close>

definition consume_administrative_authorization :: "bool \<Rightarrow> u64 \<Rightarrow> DtmfCommands \<Rightarrow> bool \<times> DtmfCommands" where
  "consume_administrative_authorization authorized now_ms c =
     (let ok = (authorized \<and> dc_admin_until_ms c \<noteq> 0 \<and> now_ms < dc_admin_until_ms c) in
      (ok, if \<not> ok \<and> now_ms \<ge> dc_admin_until_ms c then c\<lparr>dc_admin_until_ms := 0\<rparr> else c))"

definition remote_authorized :: "bool \<Rightarrow> bool \<Rightarrow> u64 \<Rightarrow> DtmfCommands \<Rightarrow> bool \<times> DtmfCommands" where
  "remote_authorized admin authorized now_ms c =
     (if \<not> admin then (True, c)
      else (case dc_remote_access c of
              RA_Open \<Rightarrow> (True, c)
            | RA_Locked \<Rightarrow> consume_administrative_authorization authorized now_ms c
            | RA_Disabled \<Rightarrow> (False, c)))"

definition confirm_administrative_action :: "u64 \<Rightarrow> DtmfCommands \<Rightarrow> DtmfCommands" where
  "confirm_administrative_action now_ms c =
     (if dc_admin_until_ms c \<noteq> 0 \<and> now_ms < dc_admin_until_ms c
      then c\<lparr>dc_admin_until_ms := sat_add now_ms (dc_admin_timeout_ms c)\<rparr> else c)"

definition credentials_configured :: "DtmfCommands \<Rightarrow> bool" where
  "credentials_configured c \<longleftrightarrow> dc_admin_unlock_hash c \<noteq> [] \<and> dc_admin_lock_hash c \<noteq> []"

section \<open>Interpretation\<close>

definition keypad :: string where
  "keypad = ''0123456789ABCD*''"

definition digit_deadline :: "DigitEvent \<Rightarrow> u64 option" where
  "digit_deadline event =
     (case event of EvDigit digit now_ms \<Rightarrow> if digit \<in> set keypad then Some (sat_add now_ms 3000) else None | _ \<Rightarrow> None)"

definition pad_feed :: "PadTestResult \<Rightarrow> DigitEvent \<Rightarrow> DtmfCommands \<Rightarrow> 'p DigitOutcome option \<times> DtmfCommands" where
  "pad_feed pad event c =
     (case event of
        EvUnkey _ \<Rightarrow> (Some (OcPadTest pad), c\<lparr>dc_pad := None\<rparr>)
      | EvDigit digit _ \<Rightarrow>
          if digit \<in> set (keypad @ ''#'')
          then (None, c\<lparr>dc_pad := Some (if length (pt_digits pad) < 127 then pad\<lparr>pt_digits := pt_digits pad @ [digit]\<rparr>
                                       else pad\<lparr>pt_overflowed := True\<rparr>)\<rparr>)
          else (None, c)
      | EvLost \<Rightarrow> (None, c))"

text \<open>The \<^verbatim>\<open>match\<close> on the recognized action: nothing left to do, or whether the operation is authorized.\<close>

definition command_policy :: "Hashing \<Rightarrow> Command \<Rightarrow> u64 \<Rightarrow> DtmfCommands \<Rightarrow> bool option \<times> DtmfCommands" where
  "command_policy hs command now_ms c =
     (if cd_action command = ActPadTest
      then (None, if dc_peer_source c then c else c\<lparr>dc_pad := Some \<lparr>pt_digits = [], pt_overflowed = False\<rparr>\<rparr>)
      else if cd_action command = ActAdminUnlock
      then (None, c\<lparr>dc_admin_until_ms :=
              (if credentials_configured c \<and> hs_verify hs (dc_admin_unlock_hash c) (cd_node command)
               then sat_add now_ms (dc_admin_timeout_ms c) else 0)\<rparr>)
      else if cd_action command = ActAdminLock
      then (None, if credentials_configured c \<and> hs_verify hs (dc_admin_lock_hash c) (cd_node command)
                  then c\<lparr>dc_admin_until_ms := 0\<rparr> else c)
      else if cd_action command \<in> {ActParrotEnable, ActParrotDisable, ActEchoTelemetry}
      then (if dc_admin_until_ms c = 0 then None else Some True, c)
      else (Some False, c))"

text \<open>Resolution of the remembered destination \<^verbatim>\<open>0\<close>.\<close>

definition resolve_node :: "Command \<Rightarrow> bool \<Rightarrow> DtmfCommands \<Rightarrow> 'p DigitOutcome option \<times> DtmfCommands" where
  "resolve_node command authorized c =
     (if cd_node command = ''0'' \<and> dc_last_node c = [] then (None, c)
      else
        let node = (if cd_node command = ''0'' then dc_last_node c else cd_node command);
            c1 = (if node \<noteq> [] then c\<lparr>dc_last_node := node\<rparr> else c) in
        (Some (OcOperation ((digit_operation_new (command\<lparr>cd_node := node\<rparr>) None)\<lparr>do_admin_authorized := authorized\<rparr>)), c1))"

definition interpret_text ::
    "Hashing \<Rightarrow> string \<Rightarrow> u64 \<Rightarrow> DtmfCommands \<Rightarrow> 'p DigitOutcome option \<times> DtmfCommands" where
  "interpret_text hs text now_ms c =
     (case parse_remote (dc_map c) text of
        Some remote \<Rightarrow>
          let authorized = (dc_admin_until_ms c \<noteq> 0);
              (ok, c1) = remote_authorized (administrative remote) authorized now_ms c in
          if \<not> ok then (None, c1)
          else (Some (OcOperation ((digit_operation_new \<lparr>cd_action = ActRemoteBase, cd_node = []\<rparr> None)
                 \<lparr>do_remote := Some remote, do_admin_authorized := authorized\<rparr>)), c1)
      | None \<Rightarrow>
          (case command_parse (dc_map c) text of
             None \<Rightarrow> (None, c)
           | Some command \<Rightarrow>
               if cd_action command = ActMessage \<or> cd_action command = ActSiteStatus
               then (if selector_valid (cd_node command) then Some (OcOperation (digit_operation_new command None)) else None, c)
               else if length (cd_node command) \<ge> 64 then (None, c)
               else (case command_policy hs command now_ms c of
                       (None, c1) \<Rightarrow> (None, c1)
                     | (Some authorized, c1) \<Rightarrow> resolve_node command authorized c1)))"

definition collect_digit ::
    "Hashing \<Rightarrow> bool \<Rightarrow> char \<Rightarrow> u64 \<Rightarrow> DtmfCommands \<Rightarrow> 'p DigitOutcome option \<times> DtmfCommands" where
  "collect_digit hs real digit now_ms c =
     (let c1 = (if now_ms \<ge> dc_admin_until_ms c then c\<lparr>dc_admin_until_ms := 0\<rparr> else c) in
      if dc_peer_source c1 \<and> \<not> cc_active (dc_collector c1) \<and> digit \<noteq> CHR ''*'' \<and> digit \<in> set ''0123456789ABCD#'' \<and> real
      then (Some (OcRegenerate digit), c1)
      else
        let (text, col) = feed (dc_collector c1) digit now_ms; c2 = c1\<lparr>dc_collector := col\<rparr> in
        (case text of
           Some t \<Rightarrow> interpret_text hs t now_ms c2
         | None \<Rightarrow>
             (case remote_candidate col of
                Some node \<Rightarrow>
                  (if length node < 64
                   then Some (OcRemoteCandidate (digit_operation_new \<lparr>cd_action = ActCommand, cd_node = node\<rparr> None))
                   else None, c2)
              | None \<Rightarrow> (None, c2))))"

definition forward_digit :: "char \<Rightarrow> DtmfCommands \<Rightarrow> 'p DigitOutcome option \<times> DtmfCommands" where
  "forward_digit digit c =
     (if digit = CHR ''#'' then (None, c\<lparr>dc_remote := []\<rparr>)
      else if digit \<in> set keypad
      then (Some (OcOperation (digit_operation_new \<lparr>cd_action = ActCommand, cd_node = dc_remote c\<rparr> (Some digit))), c)
      else (None, c))"

definition commands_feed ::
    "Hashing \<Rightarrow> DigitEvent \<Rightarrow> DtmfCommands \<Rightarrow> 'p DigitOutcome option \<times> DtmfCommands" where
  "commands_feed hs event c0 =
     (let c = c0\<lparr>dc_digit_deadline := digit_deadline event\<rparr> in
      if event = EvLost then (None, c\<lparr>dc_collector := collector (dc_map c), dc_pad := None\<rparr>)
      else (case dc_pad c of
              Some pad \<Rightarrow> pad_feed pad event c
            | None \<Rightarrow>
                (case event of
                   EvDigit digit now_ms \<Rightarrow>
                     if dc_remote c \<noteq> [] then forward_digit digit c
                     else collect_digit hs True digit now_ms c
                 | EvUnkey now_ms \<Rightarrow>
                     if dc_remote c \<noteq> [] then (None, c)
                     else collect_digit hs False (CHR ''#'') now_ms c
                 | EvLost \<Rightarrow> (None, c))))"

definition commands_expire ::
    "Hashing \<Rightarrow> u64 \<Rightarrow> DtmfCommands \<Rightarrow> 'p DigitOutcome option \<times> DtmfCommands" where
  "commands_expire hs now_ms c =
     (if (case dc_digit_deadline c of Some deadline \<Rightarrow> now_ms \<ge> deadline | None \<Rightarrow> False)
      then commands_feed hs (EvDigit (CHR 0x00) now_ms) c
      else (None, c))"

definition retains_state :: "u64 \<Rightarrow> DtmfCommands \<Rightarrow> bool" where
  "retains_state now_ms c \<longleftrightarrow> cc_active (dc_collector c) \<or> dc_remote c \<noteq> [] \<or> dc_last_node c \<noteq> []
     \<or> dc_pad c \<noteq> None \<or> now_ms < dc_admin_until_ms c"

definition remote_collecting :: "DtmfCommands \<Rightarrow> bool" where
  "remote_collecting c \<longleftrightarrow> cc_active (dc_collector c) \<and> remote_family (dc_collector c)"

section \<open>Administrative grants\<close>

fun authorized_outcome :: "'p DigitOutcome option \<Rightarrow> bool" where
  "authorized_outcome (Some (OcOperation o1)) = do_admin_authorized o1"
| "authorized_outcome (Some (OcRemoteCandidate o1)) = do_admin_authorized o1"
| "authorized_outcome _ = False"

text \<open>The policy no operation changes.\<close>

definition same_policy :: "DtmfCommands \<Rightarrow> DtmfCommands \<Rightarrow> bool" where
  "same_policy c c' \<longleftrightarrow> dc_admin_unlock_hash c' = dc_admin_unlock_hash c \<and> dc_admin_lock_hash c' = dc_admin_lock_hash c
     \<and> dc_admin_timeout_ms c' = dc_admin_timeout_ms c \<and> dc_remote_access c' = dc_remote_access c
     \<and> dc_peer_source c' = dc_peer_source c"

definition unlocks :: "Hashing \<Rightarrow> DtmfCommands \<Rightarrow> bool" where
  "unlocks hs c \<longleftrightarrow> credentials_configured c \<and> (\<exists>code. hs_verify hs (dc_admin_unlock_hash c) code)"

text \<open>What one step at time \<open>t\<close> may do to the grant, and what it may authorize.\<close>

definition grant_step :: "Hashing \<Rightarrow> u64 \<Rightarrow> DtmfCommands \<Rightarrow> 'p DigitOutcome option \<times> DtmfCommands \<Rightarrow> bool" where
  "grant_step hs t c r \<longleftrightarrow> same_policy c (snd r)
     \<and> (dc_admin_until_ms (snd r) = dc_admin_until_ms c \<or> dc_admin_until_ms (snd r) = 0
        \<or> unlocks hs c \<and> dc_admin_until_ms (snd r) = sat_add t (dc_admin_timeout_ms c))
     \<and> (authorized_outcome (fst r) \<longrightarrow> dc_admin_until_ms c \<noteq> 0 \<and> t < dc_admin_until_ms c)"

lemma same_policy_refl [simp]: "same_policy c c"
  by (simp add: same_policy_def)

lemma same_policy_trans: "same_policy a b \<Longrightarrow> same_policy b c \<Longrightarrow> same_policy a c"
  by (simp add: same_policy_def)

lemma operation_new_unauthorized [simp]: "do_admin_authorized (digit_operation_new c d) = False"
  by (simp add: digit_operation_new_def)

lemma pad_grant: "grant_step hs t c (pad_feed pad event c)"
  by (cases event) (simp_all add: pad_feed_def grant_step_def same_policy_def)

lemma forward_digit_grant: "grant_step hs t c (forward_digit digit c)"
  by (simp add: forward_digit_def grant_step_def same_policy_def)

lemma resolve_node_state:
  "same_policy c (snd (resolve_node command a c))" "dc_admin_until_ms (snd (resolve_node command a c)) = dc_admin_until_ms c"
  "authorized_outcome (fst (resolve_node command a c)) \<Longrightarrow> a"
  by (auto simp: resolve_node_def same_policy_def Let_def split: if_splits)

lemma command_policy_state:
  assumes "command_policy hs command t c = (r, c1)"
  shows "same_policy c c1"
    "dc_admin_until_ms c1 = dc_admin_until_ms c \<or> dc_admin_until_ms c1 = 0
     \<or> unlocks hs c \<and> dc_admin_until_ms c1 = sat_add t (dc_admin_timeout_ms c)"
    "r = Some True \<Longrightarrow> dc_admin_until_ms c \<noteq> 0" "r \<noteq> None \<Longrightarrow> c1 = c"
  using assms by (auto simp: command_policy_def same_policy_def unlocks_def split: if_splits)

lemma remote_authorized_state:
  "same_policy c (snd (remote_authorized adm a t c)) \<and> (dc_admin_until_ms (snd (remote_authorized adm a t c)) = dc_admin_until_ms c \<or> dc_admin_until_ms (snd (remote_authorized adm a t c)) = 0)"
  by (cases "dc_remote_access c";
      simp add: remote_authorized_def consume_administrative_authorization_def same_policy_def Let_def)

text \<open>A recognized text, after the expired grant was cleared.\<close>

lemma interpret_grant:
  assumes "dc_admin_until_ms c \<noteq> 0 \<Longrightarrow> t < dc_admin_until_ms c"
  shows "grant_step hs t c (interpret_text hs text t c)"
proof (cases "parse_remote (dc_map c) text")
  case (Some remote)
  then show ?thesis
    using remote_authorized_state [of c "administrative remote" "dc_admin_until_ms c \<noteq> 0" t] assms
    by (auto simp: interpret_text_def grant_step_def Let_def case_prod_beta)
next
  case remote: None
  show ?thesis
  proof (cases "command_parse (dc_map c) text")
    case (Some command)
    obtain r c1 where p: "command_policy hs command t c = (r, c1)" by fastforce
    note st = command_policy_state [OF p]
    show ?thesis
    proof (cases r)
      case None
      then show ?thesis using remote Some p st by (auto simp: interpret_text_def grant_step_def)
    next
      case (Some a)
      then have "c1 = c" using st(4) by simp
      then show ?thesis
        using remote \<open>command_parse (dc_map c) text = Some command\<close> p Some st(3) assms
        by (auto simp: interpret_text_def grant_step_def resolve_node_state(1,2) dest!: resolve_node_state(3))
    qed
  qed (use remote in \<open>simp add: interpret_text_def grant_step_def\<close>)
qed

lemma grant_weaken:
  assumes "grant_step hs t c1 r" "same_policy c c1" "dc_admin_until_ms c1 = dc_admin_until_ms c \<or> dc_admin_until_ms c1 = 0"
  shows "grant_step hs t c r"
proof -
  have "unlocks hs c1 = unlocks hs c" "dc_admin_timeout_ms c1 = dc_admin_timeout_ms c"
    using assms(2) by (simp_all add: unlocks_def credentials_configured_def same_policy_def)
  then show ?thesis
    using assms same_policy_trans [OF assms(2)] by (auto simp: grant_step_def)
qed

lemma collect_grant: "grant_step hs t c (collect_digit hs real digit t c :: 'p DigitOutcome option \<times> DtmfCommands)"
proof -
  let ?c1 = "if t \<ge> dc_admin_until_ms c then c\<lparr>dc_admin_until_ms := 0\<rparr> else c"
  obtain tx col where f: "feed (dc_collector ?c1) digit t = (tx, col)" by fastforce
  let ?c2 = "?c1\<lparr>dc_collector := col\<rparr>"
  have c2: "same_policy c ?c2" "dc_admin_until_ms ?c2 = dc_admin_until_ms c \<or> dc_admin_until_ms ?c2 = 0"
    "dc_admin_until_ms ?c2 \<noteq> 0 \<Longrightarrow> t < dc_admin_until_ms ?c2"
    by (auto simp: same_policy_def)
  have c1: "same_policy c ?c1" "dc_admin_until_ms ?c1 = dc_admin_until_ms c \<or> dc_admin_until_ms ?c1 = 0"
    by (auto simp: same_policy_def)
  have int: "grant_step hs t c (interpret_text hs x t ?c2 :: 'p DigitOutcome option \<times> DtmfCommands)" for x
    by (rule grant_weaken [OF interpret_grant [OF c2(3)] c2(1,2)])
  have plain: "grant_step hs t c (res, ?c1)" "grant_step hs t c (res, ?c2)" if "\<not> authorized_outcome res" for res :: "'p DigitOutcome option"
    using that c1 c2 by (simp_all add: grant_step_def)
  let ?re = "dc_peer_source ?c1 \<and> \<not> cc_active (dc_collector ?c1) \<and> digit \<noteq> CHR ''*'' \<and> digit \<in> set ''0123456789ABCD#'' \<and> real"
  show ?thesis
  proof (cases ?re)
    case True
    then have "collect_digit hs real digit t c = (Some (OcRegenerate digit) :: 'p DigitOutcome option, ?c1)"
      unfolding collect_digit_def Let_def by (rule if_P)
    then show ?thesis using plain(1) by simp
  next
    case False
    then have e: "(collect_digit hs real digit t c :: 'p DigitOutcome option \<times> DtmfCommands) =
        (case tx of Some x \<Rightarrow> interpret_text hs x t ?c2
         | None \<Rightarrow> (case remote_candidate col of
                Some node \<Rightarrow>
                  (if length node < 64
                   then Some (OcRemoteCandidate (digit_operation_new \<lparr>cd_action = ActCommand, cd_node = node\<rparr> None))
                   else None, ?c2)
              | None \<Rightarrow> (None, ?c2)))"
      unfolding collect_digit_def Let_def f prod.case by (rule if_not_P)
    show ?thesis
      unfolding e using int plain(2) by (cases tx; cases "remote_candidate col") simp_all
  qed
qed

text \<open>The time of an event; a loss has none.\<close>

fun event_ms :: "DigitEvent \<Rightarrow> u64 \<Rightarrow> u64" where
  "event_ms (EvDigit _ t) _ = t"
| "event_ms (EvUnkey t) _ = t"
| "event_ms EvLost t = t"

lemma feed_grant:
  "grant_step hs (event_ms event t) c (commands_feed hs event c :: 'p DigitOutcome option \<times> DtmfCommands)"
proof -
  let ?c = "c\<lparr>dc_digit_deadline := digit_deadline event\<rparr>"
  have w: "grant_step hs u ?c r \<Longrightarrow> grant_step hs u c r" for u and r :: "'p DigitOutcome option \<times> DtmfCommands"
    by (erule grant_weaken) (simp_all add: same_policy_def)
  show ?thesis
  proof (cases event)
    case (EvDigit d u)
    then show ?thesis
      by (auto simp: commands_feed_def Let_def split: option.split
          intro!: w [unfolded EvDigit] pad_grant forward_digit_grant collect_grant)
  next
    case (EvUnkey u)
    have "grant_step hs u ?c (None :: 'p DigitOutcome option, ?c)" by (simp add: grant_step_def)
    then show ?thesis
      using EvUnkey by (auto simp: commands_feed_def Let_def split: option.split
          intro!: w [unfolded EvUnkey] pad_grant collect_grant)
  next
    case EvLost
    then show ?thesis by (simp add: commands_feed_def grant_step_def same_policy_def)
  qed
qed

datatype DtmfStep =
  KFeed DigitEvent | KExpire u64 | KConfirm u64 | KConsume bool u64 | KSelect string | KDisconnect string

fun step_ms :: "DtmfStep \<Rightarrow> u64 option" where
  "step_ms (KFeed e) = Some (event_ms e 0)"
| "step_ms (KExpire t) = Some t"
| "step_ms (KConfirm t) = Some t"
| "step_ms _ = None"

fun dtmf_step :: "Hashing \<Rightarrow> DtmfCommands \<Rightarrow> DtmfStep \<Rightarrow> 'p DigitOutcome option \<times> DtmfCommands" where
  "dtmf_step hs c (KFeed e) = commands_feed hs e c"
| "dtmf_step hs c (KExpire t) = commands_expire hs t c"
| "dtmf_step hs c (KConfirm t) = (None, confirm_administrative_action t c)"
| "dtmf_step hs c (KConsume a t) = (None, snd (consume_administrative_authorization a t c))"
| "dtmf_step hs c (KSelect r) = (None, select_remote r c)"
| "dtmf_step hs c (KDisconnect r) = (None, remote_disconnect r c)"

fun dtmf_run :: "Hashing \<Rightarrow> DtmfCommands \<Rightarrow> DtmfStep list \<Rightarrow> 'p DigitOutcome option list \<times> DtmfCommands" where
  "dtmf_run hs c [] = ([], c)"
| "dtmf_run hs c (s # ss) =
     (let (out, c1) = dtmf_step hs c s; (outs, c2) = dtmf_run hs c1 ss in (out # outs, c2))"

text \<open>A live grant dates from one of the times \<open>ts\<close> and needs a code that unlocks.\<close>

definition grant_inv :: "Hashing \<Rightarrow> DtmfCommands \<Rightarrow> u64 list \<Rightarrow> DtmfCommands \<Rightarrow> bool" where
  "grant_inv hs c0 ts c \<longleftrightarrow> same_policy c0 c
     \<and> (dc_admin_until_ms c \<noteq> 0 \<longrightarrow> unlocks hs c0 \<and> list_ex (\<lambda>g. dc_admin_until_ms c = sat_add g (dc_admin_timeout_ms c0)) ts)"

lemma same_policy_unlocks: "same_policy c c' \<Longrightarrow> unlocks hs c' = unlocks hs c"
  by (simp add: same_policy_def unlocks_def credentials_configured_def)

lemma grant_inv_step:
  assumes "grant_inv hs c0 ts c" "grant_step hs t c (r :: 'p DigitOutcome option \<times> DtmfCommands)"
  shows "grant_inv hs c0 (ts @ [t]) (snd r)"
proof -
  have p: "same_policy c0 c" "same_policy c (snd r)" "dc_admin_timeout_ms c = dc_admin_timeout_ms c0"
    using assms by (simp_all add: grant_inv_def grant_step_def same_policy_def)
  show ?thesis
    using assms same_policy_trans [OF p(1,2)] same_policy_unlocks [OF p(1), of hs] p(3)
    unfolding grant_inv_def grant_step_def by auto
qed

lemma dtmf_step_inv:
  assumes "grant_inv hs c0 ts c"
  shows "grant_inv hs c0 (ts @ option_list (step_ms s)) (snd (dtmf_step hs c s :: 'p DigitOutcome option \<times> DtmfCommands))"
    and "authorized_outcome (fst (dtmf_step hs c s :: 'p DigitOutcome option \<times> DtmfCommands)) \<Longrightarrow> dc_admin_until_ms c \<noteq> 0"
proof -
  have none: "grant_step hs t c (None :: 'p DigitOutcome option, c)" for t
    by (simp add: grant_step_def)
  have feed: "grant_step hs (event_ms e 0) c (commands_feed hs e c :: 'p DigitOutcome option \<times> DtmfCommands)" for e
    by (rule feed_grant)
  have expire: "grant_step hs t c (commands_expire hs t c :: 'p DigitOutcome option \<times> DtmfCommands)" for t
    using feed_grant [of hs "EvDigit (CHR 0x00) t" 0 c, where 'p = 'p] none by (simp add: commands_expire_def)
  have confirm: "grant_inv hs c0 (ts @ [t]) (confirm_administrative_action t c)" for t
    using assms by (auto simp: grant_inv_def confirm_administrative_action_def same_policy_def)
  have others: "grant_inv hs c0 ts (snd (consume_administrative_authorization a t c))"
    "grant_inv hs c0 ts (select_remote x c)" "grant_inv hs c0 ts (remote_disconnect x c)" for a t x
    using assms by (auto simp: grant_inv_def consume_administrative_authorization_def select_remote_def
        remote_disconnect_def same_policy_def Let_def)
  show "grant_inv hs c0 (ts @ option_list (step_ms s)) (snd (dtmf_step hs c s :: 'p DigitOutcome option \<times> DtmfCommands))"
    using grant_inv_step [OF assms feed] grant_inv_step [OF assms expire] confirm others by (cases s) simp_all
  show "authorized_outcome (fst (dtmf_step hs c s :: 'p DigitOutcome option \<times> DtmfCommands)) \<Longrightarrow> dc_admin_until_ms c \<noteq> 0"
    using feed expire by (cases s) (auto simp: grant_step_def)
qed

lemma dtmf_run_inv:
  assumes "grant_inv hs c0 ts c"
  shows "grant_inv hs c0 (ts @ List.map_filter step_ms ss) (snd (dtmf_run hs c ss :: 'p DigitOutcome option list \<times> DtmfCommands))
    \<and> (\<not> unlocks hs c0 \<longrightarrow> list_all (\<lambda>out. \<not> authorized_outcome out) (fst (dtmf_run hs c ss :: 'p DigitOutcome option list \<times> DtmfCommands)))"
  using assms
proof (induction ss arbitrary: c ts)
  case Nil
  then show ?case by (simp add: List.map_filter_def)
next
  case (Cons s ss)
  let ?r = "dtmf_step hs c s :: 'p DigitOutcome option \<times> DtmfCommands"
  note st = dtmf_step_inv [OF Cons.prems, of s, where 'p = 'p]
  have "ts @ List.map_filter step_ms (s # ss) = (ts @ option_list (step_ms s)) @ List.map_filter step_ms ss"
    by (cases "step_ms s") (simp_all add: List.map_filter_def)
  moreover have "\<not> unlocks hs c0 \<Longrightarrow> \<not> authorized_outcome (fst ?r)"
    using st(2) Cons.prems by (auto simp: grant_inv_def)
  ultimately show ?case
    using Cons.IH [OF st(1)] by (simp add: Let_def case_prod_beta)
qed


text \<open>A hashing in which each credential is its own digest.\<close>

definition plain_hashing :: Hashing where
  "plain_hashing = \<lparr>hs_valid = (\<lambda>h. h \<noteq> []), hs_verify = (\<lambda>h code. h = code)\<rparr>"

definition admin_commands :: DtmfCommands where
  "admin_commands = configure_admin plain_hashing ''246'' ''135'' 60000 (commands_new standard_mappings)"

definition keyed :: "string \<Rightarrow> u64 \<Rightarrow> DtmfStep list" where
  "keyed ds t = map (\<lambda>d. KFeed (EvDigit d t)) ds"

lemma unlock_then_parrot:
  "authorized_outcome (fst (commands_feed plain_hashing (EvDigit (CHR ''4'') 5000)
     (snd (dtmf_run plain_hashing admin_commands (keyed ''*800246#*80'' 1000) :: unit DigitOutcome option list \<times> DtmfCommands)))
       :: unit DigitOutcome option)"
  by code_simp


section \<open>Pad test\<close>

lemma dtmf_run_snoc:
  "(dtmf_run hs c (xs @ [s]) :: 'p DigitOutcome option list \<times> DtmfCommands) =
     (let r = dtmf_run hs c xs :: 'p DigitOutcome option list \<times> DtmfCommands; q = dtmf_step hs (snd r) s in (fst r @ [fst q], snd q))"
  by (induction xs arbitrary: c) (simp_all add: Let_def case_prod_beta)

lemma dtmf_run_length:
  "length (fst (dtmf_run hs c xs :: 'p DigitOutcome option list \<times> DtmfCommands)) = length xs"
  by (induction xs arbitrary: c) (simp_all add: Let_def case_prod_beta)

lemma pad_run:
  assumes "dc_pad c = Some p" "length (pt_digits p) \<le> 127" "pt_overflowed p \<longrightarrow> length (pt_digits p) = 127"
    "list_all (\<lambda>d. d \<in> set (keypad @ ''#'')) ds"
  shows "let (outs, c') = dtmf_run hs c (keyed ds t) :: 'p DigitOutcome option list \<times> DtmfCommands in
     list_all (\<lambda>out. out = None) outs
     \<and> dc_pad c' = Some \<lparr>pt_digits = take 127 (pt_digits p @ ds), pt_overflowed = (pt_overflowed p \<or> length (pt_digits p @ ds) > 127)\<rparr>"
  using assms
proof (induction ds arbitrary: c p)
  case Nil
  then show ?case by (cases p) (simp add: keyed_def)
next
  case (Cons d ds)
  let ?p = "if length (pt_digits p) < 127 then p\<lparr>pt_digits := pt_digits p @ [d]\<rparr> else p\<lparr>pt_overflowed := True\<rparr>"
  let ?r = "commands_feed hs (EvDigit d t) c :: 'p DigitOutcome option \<times> DtmfCommands"
  have r: "fst ?r = None" "dc_pad (snd ?r) = Some ?p"
    using Cons.prems by (simp_all add: commands_feed_def Let_def pad_feed_def)
  have "length (pt_digits ?p) \<le> 127" "pt_overflowed ?p \<longrightarrow> length (pt_digits ?p) = 127"
    using Cons.prems(2,3) by auto
  from Cons.IH [OF r(2) this] Cons.prems(4) have IH: "let (outs, c') = dtmf_run hs (snd ?r) (keyed ds t) :: 'p DigitOutcome option list \<times> DtmfCommands in
     list_all (\<lambda>out. out = None) outs
     \<and> dc_pad c' = Some \<lparr>pt_digits = take 127 (pt_digits ?p @ ds), pt_overflowed = (pt_overflowed ?p \<or> length (pt_digits ?p @ ds) > 127)\<rparr>"
    by simp
  have same: "take 127 (pt_digits ?p @ ds) = take 127 (pt_digits p @ d # ds)"
    "(pt_overflowed ?p \<or> length (pt_digits ?p @ ds) > 127) = (pt_overflowed p \<or> length (pt_digits p @ d # ds) > 127)"
    using Cons.prems(2) by (auto simp: take_Cons' min_def)
  show ?case
    using IH r(1) unfolding same by (simp add: keyed_def Let_def case_prod_beta)
qed

text \<open>A pad test reports what was keyed: from the moment it is armed, keypad digits are only
  recorded, and the receiver's unkey returns the first 127 of them, says whether more were keyed, and
  ends the test.\<close>

theorem pad_test_report:
  assumes "dc_pad c = Some \<lparr>pt_digits = [], pt_overflowed = False\<rparr>" "list_all (\<lambda>d. d \<in> set (keypad @ ''#'')) ds"
  shows "let (outs, c') = dtmf_run hs c (keyed ds t @ [KFeed (EvUnkey u)]) :: 'p DigitOutcome option list \<times> DtmfCommands in
     outs = replicate (length ds) None @ [Some (OcPadTest \<lparr>pt_digits = take 127 ds, pt_overflowed = (length ds > 127)\<rparr>)]
     \<and> dc_pad c' = None"
proof -
  let ?r = "dtmf_run hs c (keyed ds t) :: 'p DigitOutcome option list \<times> DtmfCommands"
  have p: "list_all (\<lambda>out. out = None) (fst ?r)"
    "dc_pad (snd ?r) = Some \<lparr>pt_digits = take 127 ds, pt_overflowed = (length ds > 127)\<rparr>"
    using pad_run [OF assms(1) _ _ assms(2), of hs t, where 'p = 'p] by (simp_all add: Let_def case_prod_beta)
  have "fst ?r = replicate (length ds) None"
    using p(1) dtmf_run_length [of hs c "keyed ds t", where 'p = 'p] by (auto simp: list_all_length keyed_def intro: nth_equalityI)
  then show ?thesis
    using p(2) by (simp add: dtmf_run_snoc Let_def commands_feed_def pad_feed_def)
qed

theorem pad_test_report_witness:
  "fst (dtmf_run plain_hashing ((commands_new [])\<lparr>dc_pad := Some \<lparr>pt_digits = [], pt_overflowed = False\<rparr>\<rparr>)
      (keyed ''12*#'' 10 @ [KFeed (EvUnkey 20)]) :: unit DigitOutcome option list \<times> DtmfCommands)
   = [None, None, None, None, Some (OcPadTest \<lparr>pt_digits = ''12*#'', pt_overflowed = False\<rparr>)]"
proof -
  have "list_all (\<lambda>d. d \<in> set (keypad @ ''#'')) ''12*#''" by code_simp
  from pad_test_report [OF _ this, of "(commands_new [])\<lparr>dc_pad := Some \<lparr>pt_digits = [], pt_overflowed = False\<rparr>\<rparr>"
      plain_hashing 10 20, where 'p = unit]
  show ?thesis by (simp add: Let_def case_prod_beta numeral_eq_Suc)
qed

section \<open>No silent loss\<close>

text \<open>The ring that never refuses: what the detector produced in all.\<close>

definition unbounded_ring :: "(DigitEvent list, DigitEvent) Ring" where
  "unbounded_ring = (list_ring 0)\<lparr>rb_push := (\<lambda>w e. Some (w @ [e]))\<rparr>"

datatype QueueStep = QFrame bool string u64 | QNext u64

text \<open>
  A run of audio frames and control-thread polls. Beside the queue it keeps the same publisher on the
  unbounded ring, and what the polls returned since the last \<open>EvLost\<close> or retirement.
\<close>

type_synonym 'q queue_trace = "'q DtmfQueue \<times> DigitEvent list DtmfQueue \<times> DigitEvent list"

fun queue_step :: "('q, DigitEvent) Ring \<Rightarrow> 'q queue_trace \<Rightarrow> QueueStep \<Rightarrow> 'q queue_trace" where
  "queue_step rb (q, u, got) (QFrame receiving digits now_ms) =
     (dtmf_process rb receiving digits now_ms q, dtmf_process unbounded_ring receiving digits now_ms u, got)"
| "queue_step rb (q, u, got) (QNext current) =
     (case dispatcher_next rb current q of
        (None, q') \<Rightarrow> (q', u, if dd_generation q = current then got else [])
      | (Some EvLost, q') \<Rightarrow> (q', u, [])
      | (Some e, q') \<Rightarrow> (q', u, got @ [e]))"

fun polls_as :: "u64 \<Rightarrow> QueueStep \<Rightarrow> bool" where
  "polls_as generation (QNext current) = (current = generation)"
| "polls_as generation (QFrame _ _ _) = True"

definition queue_run :: "('q, DigitEvent) Ring \<Rightarrow> 'q \<Rightarrow> u64 \<Rightarrow> QueueStep list \<Rightarrow> 'q queue_trace" where
  "queue_run rb ring0 generation = foldl (queue_step rb) (publisher_new ring0 generation, publisher_new [] generation, [])"

text \<open>\<open>live\<close> says that no poll so far found the dispatcher retired.\<close>

definition queue_ok :: "('q \<Rightarrow> DigitEvent list) \<Rightarrow> bool \<Rightarrow> 'q queue_trace \<Rightarrow> bool" where
  "queue_ok con live t = (case t of (q, u, got) \<Rightarrow>
     EvLost \<notin> set (dp_writer u) \<and> dd_reported q \<le> dp_drops q \<and> unat (dp_drops q) \<le> length (dp_writer u)
     \<and> (\<exists>pre post. dp_writer u = pre @ got @ post \<and> (dp_drops q = dd_reported q \<longrightarrow> post = con (dp_writer q))
          \<and> (live \<and> dp_drops q = 0 \<longrightarrow> pre = [])))"

text \<open>The invariant is needed only as long as the drop counter cannot wrap.\<close>

definition queue_inv :: "('q \<Rightarrow> DigitEvent list) \<Rightarrow> bool \<Rightarrow> 'q queue_trace \<Rightarrow> bool" where
  "queue_inv con live t \<longleftrightarrow> (length (dp_writer (fst (snd t))) < 2 ^ 64 \<longrightarrow> queue_ok con live t)"

lemma unbounded_publish: "publish_event unbounded_ring e u = u\<lparr>dp_writer := dp_writer u @ [e]\<rparr>"
  by (simp add: publish_event_def unbounded_ring_def)

lemma queue_publish_ok:
  assumes "ring_laws rb con" "queue_inv con live (q, u, got)" "e \<noteq> EvLost"
  shows "queue_inv con live (publish_event rb e q, publish_event unbounded_ring e u, got)"
  unfolding queue_inv_def
proof
  assume small: "length (dp_writer (fst (snd (publish_event rb e q, publish_event unbounded_ring e u, got)))) < 2 ^ 64"
  then have len: "Suc (length (dp_writer u)) < 2 ^ 64" by (simp add: unbounded_publish)
  with assms(2) have ok: "queue_ok con live (q, u, got)" by (simp add: queue_inv_def)
  then obtain pre post where split: "dp_writer u = pre @ got @ post" "dp_drops q = dd_reported q \<longrightarrow> post = con (dp_writer q)"
    "live \<and> dp_drops q = 0 \<longrightarrow> pre = []"
    by (simp add: queue_ok_def) blast
  have less: "unat (dp_drops q) + 1 < 2 ^ 64" using ok len by (simp add: queue_ok_def)
  show "queue_ok con live (publish_event rb e q, publish_event unbounded_ring e u, got)"
  proof (cases "rb_push rb (dp_writer q) e")
    case None
    have up: "unat (dp_drops q + 1) = unat (dp_drops q) + 1"
      using less unat_add_lem [of "dp_drops q" 1] by simp
    then have "dd_reported q < dp_drops q + 1" "dp_drops q + 1 \<noteq> 0"
      using ok by (auto simp: queue_ok_def word_less_nat_alt word_le_nat_alt)
    moreover have "publish_event rb e q = q\<lparr>dp_drops := dp_drops q + 1\<rparr>" using None by (simp add: publish_event_def)
    moreover have "dp_writer u @ [e] = pre @ got @ (post @ [e])" using split(1) by simp
    ultimately show ?thesis
      using ok up split(3) assms(3) unfolding queue_ok_def prod.case unbounded_publish by fastforce
  next
    case (Some w)
    then have "con w = con (dp_writer q) @ [e]"
      using assms(1) by (auto simp: ring_pushD(1) ring_popD(1))
    moreover have "publish_event rb e q = q\<lparr>dp_writer := w\<rparr>" using Some by (simp add: publish_event_def)
    moreover have "dp_writer u @ [e] = pre @ got @ (post @ [e])" using split(1) by simp
    ultimately show ?thesis
      using ok split(2,3) assms(3) unfolding queue_ok_def prod.case unbounded_publish by fastforce
  qed
qed

lemma fields_ok:
  "queue_inv con live (q, u, got) \<Longrightarrow> queue_inv con live (q\<lparr>dp_last_ms := t, dp_timeout := b\<rparr>, u\<lparr>dp_last_ms := t, dp_timeout := b\<rparr>, got)"
  "queue_inv con live (q, u, got) \<Longrightarrow> queue_inv con live (q\<lparr>dp_timeout := b\<rparr>, u\<lparr>dp_timeout := b\<rparr>, got)"
  "queue_inv con live (q, u, got) \<Longrightarrow> queue_inv con live (q\<lparr>dp_receiving := b\<rparr>, u\<lparr>dp_receiving := b\<rparr>, got)"
  by (auto simp: queue_inv_def queue_ok_def)

lemma publish_len [simp]: "length (dp_writer u) \<le> length (dp_writer (publish_event unbounded_ring e u))"
  by (simp add: unbounded_publish)

lemma decoded_ok:
  "ring_laws rb con \<Longrightarrow> queue_inv con live (q, u, got) \<Longrightarrow> queue_inv con live (decoded rb d t q, decoded unbounded_ring d t u, got)"
  unfolding decoded_def queue_digit_def by (intro fields_ok queue_publish_ok) simp_all

lemma decoded_fold_ok:
  "ring_laws rb con \<Longrightarrow> queue_inv con live (q, u, got) \<Longrightarrow>
   queue_inv con live (foldl (\<lambda>q d. decoded rb d t q) q ds, foldl (\<lambda>q d. decoded unbounded_ring d t q) u ds, got)"
  by (induction ds arbitrary: q u) (simp_all add: decoded_ok)

text \<open>Both publishers take the same branches: the clock fields do not depend on the ring.\<close>

definition same_clock :: "'q DtmfQueue \<Rightarrow> DigitEvent list DtmfQueue \<Rightarrow> bool" where
  "same_clock q u \<longleftrightarrow> dp_last_ms u = dp_last_ms q \<and> dp_timeout u = dp_timeout q \<and> dp_receiving u = dp_receiving q"

lemma publish_clock [simp]: "same_clock (publish_event rb e q) (publish_event rb' e u) = same_clock q u"
  by (simp add: same_clock_def publish_event_def split: option.split)

lemma publish_fields [simp]:
  "dp_last_ms (publish_event rb e q) = dp_last_ms q" "dp_timeout (publish_event rb e q) = dp_timeout q"
  "dp_receiving (publish_event rb e q) = dp_receiving q" "dd_generation (publish_event rb e q) = dd_generation q"
  by (simp_all add: publish_event_def split: option.split)

lemma decoded_fold_clock:
  "same_clock q u \<Longrightarrow> same_clock (foldl (\<lambda>q d. decoded rb d t q) q ds) (foldl (\<lambda>q d. decoded rb' d t q) u ds)"
  by (induction ds arbitrary: q u) (simp_all add: decoded_def queue_digit_def same_clock_def)

definition paired :: "('q \<Rightarrow> DigitEvent list) \<Rightarrow> bool \<Rightarrow> DigitEvent list \<Rightarrow> 'q DtmfQueue \<Rightarrow> DigitEvent list DtmfQueue \<Rightarrow> bool" where
  "paired con live got q u \<longleftrightarrow> queue_inv con live (q, u, got) \<and> same_clock q u"

lemma publish_paired:
  assumes "ring_laws rb con" "paired con live got q u" "e \<noteq> EvLost"
  shows "paired con live got (if b then (publish_event rb e q)\<lparr>dp_timeout := False\<rparr> else q)
     (if b then (publish_event unbounded_ring e u)\<lparr>dp_timeout := False\<rparr> else u)"
  using assms by (auto simp: paired_def same_clock_def intro!: fields_ok queue_publish_ok)

lemma finish_ok:
  assumes "ring_laws rb con" "paired con live got q u"
  shows "paired con live got (finish_frame rb r t em q) (finish_frame unbounded_ring r t em u)"
proof -
  let ?due = "\<not> em \<and> dp_timeout q \<and> sat_sub t (dp_last_ms q) \<ge> 3000"
  let ?null = "\<lambda>rb q. (publish_event rb (EvDigit (CHR 0x00) t) q)\<lparr>dp_timeout := False\<rparr>"
  define q1 where "q1 = (if ?due then ?null rb q else q)"
  define u1 where "u1 = (if ?due then ?null unbounded_ring u else u)"
  have 1: "paired con live got q1 u1"
    unfolding q1_def u1_def using assms by (intro publish_paired) simp_all
  let ?go = "dp_receiving q1 \<and> \<not> r"
  have 2: "paired con live got (if ?go then (publish_event rb (EvUnkey t) q1)\<lparr>dp_timeout := False\<rparr> else q1)
     (if ?go then (publish_event unbounded_ring (EvUnkey t) u1)\<lparr>dp_timeout := False\<rparr> else u1)" (is "paired _ _ _ ?q2 ?u2")
    using 1 assms(1) by (intro publish_paired) simp_all
  have "finish_frame rb r t em q = ?q2\<lparr>dp_receiving := r\<rparr>" "finish_frame unbounded_ring r t em u = ?u2\<lparr>dp_receiving := r\<rparr>"
    using assms(2) 1 unfolding finish_frame_def queue_digit_def paired_def same_clock_def Let_def q1_def u1_def by simp_all
  then show ?thesis
    using 2 by (simp add: paired_def fields_ok same_clock_def del: if_split)
qed

lemma frame_ok:
  assumes "ring_laws rb con" "paired con live got q u"
  shows "paired con live got (dtmf_process rb r ds t q) (dtmf_process unbounded_ring r ds t u)"
  unfolding dtmf_process_def
  by (rule finish_ok [OF assms(1)]) (use assms in \<open>simp add: paired_def decoded_fold_ok decoded_fold_clock\<close>)

lemma pop_many_all: "ring_laws rb con \<Longrightarrow> con (pop_many rb (length (con w)) w) = []"
proof (induction "length (con w)" arbitrary: w)
  case 0
  then show ?case by simp
next
  case (Suc n)
  obtain e w' where "rb_pop rb w = Some (e, w')" "con w = e # con w'"
    using Suc.hyps(2) ring_popD(1,3) [OF Suc.prems] by (cases "rb_pop rb w") auto
  then show ?case using Suc.hyps(1) [of w'] Suc.hyps(2) Suc.prems by simp
qed

lemma poll_ok:
  assumes "ring_laws rb con" "paired con live got q u" "queue_step rb (q, u, got) (QNext current) = (q', u', got')"
  shows "paired con (live \<and> current = dd_generation q) got' q' u'"
proof -
  have flush: "con (pop_many rb (rb_slots rb w) w) = []" for w
    using assms(1) pop_many_all [OF assms(1)] by (simp add: ring_slotsD)
  let ?fl = "q\<lparr>dp_writer := pop_many rb (rb_slots rb (dp_writer q)) (dp_writer q), dd_reported := dp_drops q\<rparr>"
  have flushed: "paired con b [] ?fl u" if "b \<longrightarrow> dp_drops q \<noteq> dd_reported q" for b
    using assms(2) flush that by (auto simp: paired_def queue_inv_def queue_ok_def same_clock_def)
  consider (retired) "dd_generation q \<noteq> current" | (lost) "dd_generation q = current" "dp_drops q \<noteq> dd_reported q"
    | (pop) "dd_generation q = current" "dp_drops q = dd_reported q" by blast
  then show ?thesis
  proof cases
    case retired
    then show ?thesis using assms(3) flushed [of False] by (auto simp: dispatcher_next_def Let_def)
  next
    case lost
    then show ?thesis using assms(3) flushed [of live] by (auto simp: dispatcher_next_def Let_def)
  next
    case pop
    show ?thesis
    proof (cases "rb_pop rb (dp_writer q)")
      case None
      then show ?thesis using assms(2,3) pop by (auto simp: dispatcher_next_def Let_def)
    next
      case (Some ew)
      obtain e w where ew: "ew = (e, w)" by fastforce
      have con: "con (dp_writer q) = e # con w"
        using assms(1) Some ew by (auto simp: ring_pushD(1) ring_popD(1))
      have step: "q' = q\<lparr>dp_writer := w\<rparr>" "u' = u" "got' = (if e = EvLost then [] else got @ [e])"
        using assms(3) pop Some ew by (auto simp: dispatcher_next_def split: DigitEvent.splits)
      have "queue_ok con live (q', u', got')" if ok: "queue_ok con live (q, u, got)"
      proof -
        obtain pre where pre: "dp_writer u = pre @ got @ e # con w" "live \<and> dp_drops q = 0 \<longrightarrow> pre = []"
          using ok pop(2) con by (auto simp: queue_ok_def)
        then have "e \<noteq> EvLost" using ok by (auto simp: queue_ok_def)
        then show ?thesis using ok pre unfolding step queue_ok_def prod.case by auto
      qed
      then show ?thesis
        using assms(2) pop(1) step by (simp add: paired_def queue_inv_def same_clock_def)
    qed
  qed
qed

lemma queue_step_ok:
  assumes "ring_laws rb con" "paired con live got q u" "queue_step rb (q, u, got) s = (q', u', got')"
  shows "paired con (live \<and> polls_as (dd_generation q) s) got' q' u'"
  using poll_ok [OF assms(1,2)] frame_ok [OF assms(1,2)] assms(3) by (cases s) auto

lemma publish_generation_fold [simp]: "dd_generation (foldl (\<lambda>q d. decoded rb d t q) q ds) = dd_generation q"
  by (induction ds arbitrary: q) (simp_all add: decoded_def queue_digit_def)

lemma step_generation: "queue_step rb (q, u, got) s = (q', u', got') \<Longrightarrow> dd_generation q' = dd_generation q"
  by (cases s) (auto simp: dtmf_process_def finish_frame_def queue_digit_def dispatcher_next_def Let_def
      split: if_splits option.splits DigitEvent.splits)

lemma run_generation:
  "foldl (queue_step rb) (q, u, got) steps = (q', u', got') \<Longrightarrow> dd_generation q' = dd_generation q"
proof (induction steps arbitrary: q u got)
  case (Cons s steps)
  obtain q1 u1 got1 where s: "queue_step rb (q, u, got) s = (q1, u1, got1)" by (metis prod_cases3)
  then show ?case using Cons step_generation [OF s] by simp
qed simp

lemma publisher_new_generation [simp]: "dd_generation (publisher_new ring0 generation) = generation"
  by (simp add: publisher_new_def)

lemma queue_run_ok:
  assumes "ring_laws rb con" "paired con live got q u" "foldl (queue_step rb) (q, u, got) steps = (q', u', got')"
  shows "paired con (live \<and> list_all (polls_as (dd_generation q)) steps) got' q' u'"
  using assms(2,3)
proof (induction steps arbitrary: q u got live)
  case (Cons s steps)
  obtain q1 u1 got1 where s: "queue_step rb (q, u, got) s = (q1, u1, got1)" by (metis prod_cases3)
  show ?case
    using Cons.IH [OF queue_step_ok [OF assms(1) Cons.prems(1) s]] Cons.prems(2) s step_generation [OF s]
    by (simp add: conj_assoc)
qed simp

text \<open>C30. No key press is lost silently. Along every run of audio frames and control polls over a
  first-in first-out ring of any capacity, with fewer than \<open>2 ^ 64\<close> events: what the polls returned since
  the last reported loss is a gap-free stretch of what the detector produced; the next poll continues
  that stretch with the next event in order, or reports the loss when one was refused; and as long
  as nothing was refused the events delivered and the events still queued are all the detector produced.\<close>

theorem no_silent_loss:
  assumes "ring_laws rb con" "con ring0 = []" "queue_run rb ring0 generation steps = (q, u, got)"
    "length (dp_writer u) < 2 ^ 64"
  shows "(\<exists>pre post. dp_writer u = pre @ got @ post \<and> (dp_drops q = dd_reported q \<longrightarrow> post = con (dp_writer q)))
     \<and> fst (dispatcher_next rb generation q) =
          (if dp_drops q \<noteq> dd_reported q then Some EvLost
           else case con (dp_writer q) of [] \<Rightarrow> None | e # _ \<Rightarrow> Some e)
     \<and> (dp_drops q = 0 \<and> list_all (polls_as generation) steps \<longrightarrow>
          dp_writer u = got @ con (dp_writer q))"
proof -
  let ?live = "list_all (polls_as generation) steps"
  have "paired con True [] (publisher_new ring0 generation) (publisher_new [] generation)"
    using assms(2) by (simp add: paired_def queue_inv_def queue_ok_def same_clock_def publisher_new_def)
  from queue_run_ok [OF assms(1) this assms(3) [unfolded queue_run_def]]
  have "paired con ?live got q u" by simp
  then have ok: "queue_ok con ?live (q, u, got)" using assms(4) by (simp add: paired_def queue_inv_def)
  have gen: "dd_generation q = generation"
    using run_generation [OF assms(3) [unfolded queue_run_def]] by simp
  have pop: "case rb_pop rb (dp_writer q) of Some (e, w') \<Rightarrow> con (dp_writer q) = e # con w' | None \<Rightarrow> con (dp_writer q) = []"
    using ring_popD(1,3) [OF assms(1)] by (auto split: option.split)
  have "fst (dispatcher_next rb generation q) =
      (if dp_drops q \<noteq> dd_reported q then Some EvLost else case con (dp_writer q) of [] \<Rightarrow> None | e # _ \<Rightarrow> Some e)"
    using pop gen by (auto simp: dispatcher_next_def Let_def split: option.splits)
  moreover have "\<exists>pre post. dp_writer u = pre @ got @ post \<and> (dp_drops q = dd_reported q \<longrightarrow> post = con (dp_writer q))"
    using ok by (auto simp: queue_ok_def)
  moreover have "dp_writer u = got @ con (dp_writer q)" if "dp_drops q = 0" ?live
    using ok that by (auto simp: queue_ok_def)
  ultimately show ?thesis by blast
qed

text \<open>The code's capacity of 256; and a capacity of two, where the third digit is refused: the poll in the run
  has reported it, and nothing of the discarded stretch follows.\<close>

theorem no_silent_loss_witness:
  "fst (dispatcher_next (list_ring 256) 7 (fst (queue_run (list_ring 256) [] 7 [QFrame True ''12'' 100, QNext 7])))
     = Some (EvDigit (CHR ''2'') 100)
   \<and> fst (dispatcher_next (list_ring 2) 7 (fst (queue_run (list_ring 2) [] 7 [QFrame True ''123'' 100, QNext 7])))
     = None"
proof -
  have 1: "queue_run (list_ring 256) [] 7 [QFrame True ''12'' 100, QNext 7] =
    (\<lparr>dp_writer = [EvDigit (CHR ''2'') 100], dp_drops = 0, dp_last_ms = 100, dp_timeout = True, dp_receiving = True, dd_reported = 0, dd_generation = 7\<rparr>,
     \<lparr>dp_writer = [EvDigit (CHR ''1'') 100, EvDigit (CHR ''2'') 100], dp_drops = 0, dp_last_ms = 100, dp_timeout = True, dp_receiving = True, dd_reported = 0, dd_generation = 7\<rparr>,
     [EvDigit (CHR ''1'') 100])" by code_simp
  have 2: "queue_run (list_ring 2) [] 7 [QFrame True ''123'' 100, QNext 7] =
    (\<lparr>dp_writer = [], dp_drops = 1, dp_last_ms = 100, dp_timeout = True, dp_receiving = True, dd_reported = 1, dd_generation = 7\<rparr>,
     \<lparr>dp_writer = [EvDigit (CHR ''1'') 100, EvDigit (CHR ''2'') 100, EvDigit (CHR ''3'') 100], dp_drops = 0, dp_last_ms = 100, dp_timeout = True, dp_receiving = True, dd_reported = 0, dd_generation = 7\<rparr>,
     [])" by code_simp
  show ?thesis
    using no_silent_loss [OF list_ring_laws _ 1] no_silent_loss [OF list_ring_laws _ 2] by (simp add: 1 2)
qed

end
