(* ===== verification/Link_Schedule.thy ===== *)
theory Link_Schedule
  imports Event_Scheduler Peer_Identity
begin

text \<open>
  Configuration-owned permanent and replacement links, \<^verbatim>\<open>core/src/runtime/link_schedule.rs\<close>: which routes are
  wanted at a civil instant, the reservations under which they are attached and withdrawn, and the
  warnings before a boundary. The civil arithmetic of a window belongs to the schedule provider and
  is an argument; windows are compared with the provider's equality, which is \<open>=\<close> on \<open>'w\<close>. The
  closures of a tick (receive activity, ownership, activity of a source) are snapshots, i.e. functions.
\<close>

section \<open>Data\<close>

record 'w WindowProvider = "'w ScheduleProvider" +
  pv_overlaps :: "'w \<Rightarrow> 'w \<Rightarrow> bool"
  pv_elapsed_after_end :: "'w \<Rightarrow> CivilTime \<Rightarrow> 8 word \<Rightarrow> u64 option"
  pv_next_start :: "'w \<Rightarrow> CivilTime \<Rightarrow> 8 word \<Rightarrow> (u64 \<times> u64) option"
  pv_next_end :: "'w \<Rightarrow> CivilTime \<Rightarrow> 8 word \<Rightarrow> (u64 \<times> u64) option"

record RouteSpec =
  rs_local :: string
  rs_remote :: string
  rs_permanent :: bool
  rs_group_label :: "string option"
  rs_group_name :: "string option"
  rs_group_priority :: "nat option"

record 'w ReplacementSpec =
  rp_routes :: "nat list"
  rp_replaced :: "nat list"
  rp_window :: 'w
  rp_end_inactivity_ms :: u64
  rp_warning_before_start_ms :: "u64 list"
  rp_warning_before_end_ms :: "u64 list"
  rp_warning_message_id :: "string option"

record ScheduleWarning =
  sw_message_id :: string
  sw_connecting :: bool
  sw_target :: string
  sw_target_is_node :: bool
  sw_remaining_ms :: u64
  sw_deadline_ms :: u64

datatype LinkTransition = LtAttach | LtDetach

record LinkRoute =
  rt_spec :: RouteSpec
  rt_issued :: bool
  rt_desired :: bool
  rt_paused :: bool
  rt_pending :: "u64 option"

datatype EndOccurrence = EoScheduled u64 | EoElapsed "16 word" "8 word" "8 word"

definition end_elapsed :: "CivilTime \<Rightarrow> EndOccurrence" where
  "end_elapsed now = EoElapsed (cv_year now) (cv_month now) (cv_day now)"

record 'w Window =
  wd_spec :: "'w ReplacementSpec"
  wd_last_activity :: "u64 option"
  wd_initialized :: bool
  wd_was_active :: bool
  wd_waiting :: bool
  wd_initial_deadline :: "u64 option"
  wd_start_occurrence :: "u64 option"
  wd_start_warned :: "u64 list"
  wd_end_warning_identity :: "(EndOccurrence \<times> u64 option) option"
  wd_end_warned :: "u64 list"

record LinkReservation =
  lr_generation :: u64
  lr_index :: nat
  lr_nonce :: u64
  lr_spec :: RouteSpec
  lr_action :: LinkTransition

record 'w LinkScheduler =
  ls_generation :: u64
  ls_nonce :: u64
  ls_routes :: "LinkRoute list"
  ls_windows :: "'w Window list"

text \<open>What one tick observes.\<close>

record Observed =
  ob_local :: CivilTime
  ob_second :: "8 word"
  ob_now_ms :: u64
  ob_activity :: "string \<Rightarrow> u64 option"
  ob_owns :: "RouteSpec \<Rightarrow> bool"
  ob_source_active :: "string \<Rightarrow> bool"
  ob_capacity :: bool

section \<open>Construction\<close>

definition same_route_identity :: "RouteSpec \<Rightarrow> RouteSpec \<Rightarrow> bool" where
  "same_route_identity l r \<longleftrightarrow> rs_local l = rs_local r \<and> rs_remote l = rs_remote r
     \<and> rs_permanent l = rs_permanent r \<and> rs_group_label l = rs_group_label r"

definition duplicate_routes_overlap ::
    "('w, 'b) WindowProvider_scheme \<Rightarrow> RouteSpec list \<Rightarrow> 'w ReplacementSpec list \<Rightarrow> bool" where
  "duplicate_routes_overlap pv routes windows =
     list_ex (\<lambda>(index, route). list_ex (\<lambda>(other_index, other).
       rs_local route = rs_local other \<and> rs_remote route = rs_remote other
       \<and> (rs_permanent route \<or> rs_permanent other \<or> rs_group_label route = rs_group_label other
          \<or> (let route_windows = map rp_window (filter (\<lambda>w. index \<in> set (rp_routes w)) windows);
                 other_windows = map rp_window (filter (\<lambda>w. other_index \<in> set (rp_routes w)) windows) in
             route_windows = [] \<or> other_windows = []
             \<or> list_ex (\<lambda>w. list_ex (\<lambda>o1. pv_overlaps pv w o1) other_windows) route_windows)))
       (enumerate 0 (take index routes))) (enumerate 0 routes)"

definition get :: "'a list \<Rightarrow> nat \<Rightarrow> 'a option" where
  "get xs i = (if i < length xs then Some (xs ! i) else None)"

text \<open>The conditions on the group of a window, given its first route.\<close>

definition group_invalid :: "RouteSpec list \<Rightarrow> 'w ReplacementSpec \<Rightarrow> RouteSpec \<Rightarrow> bool" where
  "group_invalid routes w first \<longleftrightarrow>
     rs_permanent first
     \<or> list_ex (\<lambda>index. case get routes index of
           Some replaced \<Rightarrow> \<not> (rs_permanent replaced \<and> rs_local first = rs_local replaced) | None \<Rightarrow> True) (rp_replaced w)
     \<or> (length (rp_routes w) > 1
        \<and> (rs_group_label first = None
           \<or> list_ex (\<lambda>(priority, index). case get routes index of
                 Some route \<Rightarrow> \<not> (\<not> rs_permanent route \<and> rs_local route = rs_local first
                   \<and> rs_group_label route = rs_group_label first \<and> rs_group_name route = rs_group_name first
                   \<and> rs_group_priority route = Some priority)
               | None \<Rightarrow> True) (enumerate 0 (rp_routes w))))"

definition window_invalid :: "RouteSpec list \<Rightarrow> 'w ReplacementSpec \<Rightarrow> bool" where
  "window_invalid routes w \<longleftrightarrow>
     rp_routes w = [] \<or> rp_replaced w = []
     \<or> list_ex (\<lambda>route. route \<in> set (rp_replaced w)) (rp_routes w)
     \<or> length (remdups (rp_routes w)) \<noteq> length (rp_routes w)
     \<or> length (remdups (rp_replaced w)) \<noteq> length (rp_replaced w)
     \<or> (case get routes (hd (rp_routes w)) of None \<Rightarrow> True | Some first \<Rightarrow> group_invalid routes w first)
     \<or> (case get routes (hd (rp_replaced w)) of None \<Rightarrow> True
        | Some first \<Rightarrow> list_ex (\<lambda>index. rs_group_label (routes ! index) \<noteq> rs_group_label first) (rp_replaced w))"

fun canonical_routes :: "RouteSpec list \<Rightarrow> RouteSpec list option" where
  "canonical_routes [] = Some []"
| "canonical_routes (r # rs) =
     (case canonical_operator (rs_remote r) of
        Inl _ \<Rightarrow> None
      | Inr remote \<Rightarrow> map_option ((#) (r\<lparr>rs_remote := remote\<rparr>)) (canonical_routes rs))"

definition same_window :: "LinkRoute list \<Rightarrow> RouteSpec list \<Rightarrow> 'w ReplacementSpec \<Rightarrow> 'w Window \<Rightarrow> bool" where
  "same_window old_routes routes spec w \<longleftrightarrow>
     rp_window (wd_spec w) = rp_window spec
     \<and> rp_end_inactivity_ms (wd_spec w) = rp_end_inactivity_ms spec
     \<and> rp_warning_before_start_ms (wd_spec w) = rp_warning_before_start_ms spec
     \<and> rp_warning_before_end_ms (wd_spec w) = rp_warning_before_end_ms spec
     \<and> rp_warning_message_id (wd_spec w) = rp_warning_message_id spec
     \<and> length (rp_routes (wd_spec w)) = length (rp_routes spec)
     \<and> list_all (\<lambda>(old, new). rt_spec (old_routes ! old) = routes ! new) (zip (rp_routes (wd_spec w)) (rp_routes spec))
     \<and> length (rp_replaced (wd_spec w)) = length (rp_replaced spec)
     \<and> list_all (\<lambda>(old, new). rt_spec (old_routes ! old) = routes ! new) (zip (rp_replaced (wd_spec w)) (rp_replaced spec))"

fun max_option :: "u64 list \<Rightarrow> u64 option" where
  "max_option [] = None"
| "max_option (x # xs) = (case max_option xs of None \<Rightarrow> Some x | Some y \<Rightarrow> Some (max x y))"

definition inherited_activity :: "RouteSpec list \<Rightarrow> 'w LinkScheduler \<Rightarrow> 'w ReplacementSpec \<Rightarrow> u64 option" where
  "inherited_activity routes old spec =
     max_option (List.map_filter wd_last_activity
       (filter (\<lambda>w. rs_local (rt_spec (ls_routes old ! hd (rp_routes (wd_spec w)))) = rs_local (routes ! hd (rp_routes spec)))
         (ls_windows old)))"

definition carry_window :: "RouteSpec list \<Rightarrow> 'w LinkScheduler option \<Rightarrow> 'w ReplacementSpec \<Rightarrow> 'w Window" where
  "carry_window routes previous spec =
     (let activity = Option.bind previous (\<lambda>old. inherited_activity routes old spec) in
      case Option.bind previous (\<lambda>old. find (same_window (ls_routes old) routes spec) (ls_windows old)) of
        Some old \<Rightarrow> old\<lparr>wd_spec := spec, wd_last_activity := activity\<rparr>
      | None \<Rightarrow> \<lparr>wd_spec = spec, wd_last_activity = activity, wd_initialized = False, wd_was_active = False,
          wd_waiting = False, wd_initial_deadline = None, wd_start_occurrence = None, wd_start_warned = [],
          wd_end_warning_identity = None, wd_end_warned = []\<rparr>)"

definition carry_route :: "'w LinkScheduler option \<Rightarrow> RouteSpec \<Rightarrow> LinkRoute" where
  "carry_route previous spec =
     (case Option.bind previous (\<lambda>old. find (\<lambda>route. same_route_identity (rt_spec route) spec) (ls_routes old)) of
        Some old \<Rightarrow> \<lparr>rt_spec = spec, rt_issued = rt_issued old, rt_desired = rs_permanent spec, rt_paused = rt_paused old, rt_pending = None\<rparr>
      | None \<Rightarrow> \<lparr>rt_spec = spec, rt_issued = False, rt_desired = rs_permanent spec, rt_paused = False, rt_pending = None\<rparr>)"

definition link_scheduler_new ::
    "('w, 'b) WindowProvider_scheme \<Rightarrow> u64 \<Rightarrow> RouteSpec list \<Rightarrow> 'w ReplacementSpec list \<Rightarrow> 'w LinkScheduler option
     \<Rightarrow> SchedulerError + 'w LinkScheduler" where
  "link_scheduler_new pv generation routes0 windows previous =
     (case canonical_routes routes0 of
        None \<Rightarrow> Inl SchedInvalid
      | Some routes \<Rightarrow>
          if generation = 0
             \<or> (case previous of Some old \<Rightarrow> generation \<le> ls_generation old | None \<Rightarrow> False)
             \<or> duplicate_routes_overlap pv routes windows
             \<or> list_ex (\<lambda>route. rs_local route = [] \<or> rs_local route = rs_remote route) routes
             \<or> list_ex (window_invalid routes) windows
          then Inl SchedInvalid
          else Inr \<lparr>ls_generation = generation, ls_nonce = 0, ls_routes = map (carry_route previous) routes,
                    ls_windows = map (carry_window routes previous) windows\<rparr>)"

definition requires_civil_time :: "'w LinkScheduler \<Rightarrow> bool" where
  "requires_civil_time s \<longleftrightarrow> ls_windows s \<noteq> []"

definition desired_routes :: "'w LinkScheduler \<Rightarrow> RouteSpec list" where
  "desired_routes s = map rt_spec (filter (\<lambda>route. rt_desired route \<and> \<not> rt_paused route) (ls_routes s))"

definition is_group_member :: "'w LinkScheduler \<Rightarrow> string \<Rightarrow> bool" where
  "is_group_member s remote = list_ex (\<lambda>route. rs_remote (rt_spec route) = remote \<and> rs_group_label (rt_spec route) \<noteq> None) (ls_routes s)"

definition removed_routes :: "'w LinkScheduler \<Rightarrow> 'w LinkScheduler \<Rightarrow> RouteSpec list" where
  "removed_routes s candidate =
     map rt_spec (filter (\<lambda>old. rt_issued old
       \<and> \<not> list_ex (\<lambda>new. same_route_identity (rt_spec new) (rt_spec old)) (ls_routes candidate)) (ls_routes s))"

section \<open>Ticks\<close>

definition refresh_route :: "Observed \<Rightarrow> LinkRoute \<Rightarrow> LinkRoute" where
  "refresh_route ob route =
     route\<lparr>rt_desired := rs_permanent (rt_spec route), rt_issued := rt_issued route \<and> ob_owns ob (rt_spec route)\<rparr>"

definition observe_activity :: "u64 option \<Rightarrow> 'w Window \<Rightarrow> 'w Window" where
  "observe_activity observed w =
     (case observed of
        Some t \<Rightarrow> if (case wd_last_activity w of None \<Rightarrow> True | Some latest \<Rightarrow> t > latest)
                  then w\<lparr>wd_last_activity := observed, wd_initial_deadline := None\<rparr> else w
      | None \<Rightarrow> w)"

definition initialize_window :: "('w, 'b) WindowProvider_scheme \<Rightarrow> Observed \<Rightarrow> bool \<Rightarrow> 'w Window \<Rightarrow> 'w Window" where
  "initialize_window pv ob window_active w =
     (if wd_initialized w then w
      else
        let w1 = w\<lparr>wd_initialized := True\<rparr>; idle = rp_end_inactivity_ms (wd_spec w) in
        if window_active \<or> idle = 0 then w1
        else (case pv_elapsed_after_end pv (rp_window (wd_spec w)) (ob_local ob) (ob_second ob) of
                None \<Rightarrow> w1
              | Some elapsed \<Rightarrow>
                  if wd_last_activity w1 \<noteq> None then w1\<lparr>wd_waiting := True\<rparr>
                  else if elapsed < idle
                  then w1\<lparr>wd_waiting := True, wd_initial_deadline := Some (sat_add (ob_now_ms ob) (idle - elapsed))\<rparr>
                  else w1))"

definition cross_boundary :: "('w, 'b) WindowProvider_scheme \<Rightarrow> Observed \<Rightarrow> bool \<Rightarrow> 'w Window \<Rightarrow> 'w Window" where
  "cross_boundary pv ob window_active w =
     (if window_active then w\<lparr>wd_was_active := True, wd_waiting := False, wd_initial_deadline := None\<rparr>
      else if wd_was_active w
      then (let w1 = w\<lparr>wd_was_active := False, wd_waiting := True\<rparr> in
            if pv_elapsed_after_end pv (rp_window (wd_spec w)) (ob_local ob) (ob_second ob) \<noteq> None
            then w1\<lparr>wd_end_warning_identity := map_option (\<lambda>(_, latest). (end_elapsed (ob_local ob), latest)) (wd_end_warning_identity w)\<rparr>
            else w1)
      else w)"

definition quiet :: "u64 \<Rightarrow> 'w Window \<Rightarrow> bool" where
  "quiet now_ms w \<longleftrightarrow>
     (case wd_initial_deadline w of
        None \<Rightarrow> rp_end_inactivity_ms (wd_spec w) = 0
          \<or> (case wd_last_activity w of None \<Rightarrow> True
             | Some latest \<Rightarrow> now_ms \<ge> latest \<and> now_ms - latest \<ge> rp_end_inactivity_ms (wd_spec w))
      | Some deadline \<Rightarrow> now_ms \<ge> deadline)"

definition end_waiting :: "u64 \<Rightarrow> 'w Window \<Rightarrow> 'w Window" where
  "end_waiting now_ms w =
     (if wd_waiting w \<and> quiet now_ms w then w\<lparr>wd_waiting := False, wd_initial_deadline := None\<rparr> else w)"

definition warning_for :: "'w Window \<Rightarrow> RouteSpec \<Rightarrow> string \<Rightarrow> bool \<Rightarrow> u64 \<Rightarrow> u64 \<Rightarrow> ScheduleWarning" where
  "warning_for w route message_id connecting remaining deadline =
     \<lparr>sw_message_id = message_id, sw_connecting = connecting,
      sw_target = (case rs_group_name route of Some name \<Rightarrow> name | None \<Rightarrow> rs_remote route),
      sw_target_is_node = (rs_group_name route = None), sw_remaining_ms = remaining, sw_deadline_ms = deadline\<rparr>"

definition due_lead :: "u64 list \<Rightarrow> u64 list \<Rightarrow> u64 \<Rightarrow> u64 option" where
  "due_lead leads warned remaining = find (\<lambda>lead. lead \<ge> remaining \<and> lead \<notin> set warned) leads"

definition since_midnight_ms :: "CivilTime \<Rightarrow> 8 word \<Rightarrow> u64" where
  "since_midnight_ms now second = (ucast (cv_hour now) * 3600 + ucast (cv_minute now) * 60 + ucast second) * 1000"

text \<open>The identity of the coming or elapsed end, and its monotonic time.\<close>

definition end_point :: "('w, 'b) WindowProvider_scheme \<Rightarrow> Observed \<Rightarrow> 'w Window \<Rightarrow> (EndOccurrence \<times> u64) option" where
  "end_point pv ob w =
     (case (case pv_elapsed_after_end pv (rp_window (wd_spec w)) (ob_local ob) (ob_second ob) of
              Some elapsed \<Rightarrow> if wd_waiting w \<or> elapsed \<le> since_midnight_ms (ob_local ob) (ob_second ob) then Some elapsed else None
            | None \<Rightarrow> None) of
        Some elapsed \<Rightarrow>
          Some (case wd_end_warning_identity w of
                  Some (occurrence, _) \<Rightarrow> if wd_waiting w then occurrence else end_elapsed (ob_local ob)
                | None \<Rightarrow> end_elapsed (ob_local ob),
                sat_sub (ob_now_ms ob) elapsed)
      | None \<Rightarrow>
          (case pv_next_end pv (rp_window (wd_spec w)) (ob_local ob) (ob_second ob) of
             None \<Rightarrow> None
           | Some (ident, remaining) \<Rightarrow> Some (EoScheduled ident, sat_add (ob_now_ms ob) remaining)))"

definition expected_deadline :: "u64 \<Rightarrow> 'w Window \<Rightarrow> u64" where
  "expected_deadline end_ms w =
     (let idle = rp_end_inactivity_ms (wd_spec w) in
      case wd_initial_deadline w of
        Some initial_deadline \<Rightarrow> initial_deadline
      | None \<Rightarrow>
          if idle = 0 then end_ms
          else (case wd_last_activity w of
                  Some latest \<Rightarrow> max end_ms (sat_add latest idle)
                | None \<Rightarrow> sat_add end_ms idle))"

definition reset_inactivity :: "u64 \<Rightarrow> 'w Window \<Rightarrow> bool" where
  "reset_inactivity end_ms w \<longleftrightarrow>
     (case wd_end_warning_identity w of Some (_, latest) \<Rightarrow> latest \<noteq> wd_last_activity w | None \<Rightarrow> False)
     \<and> rp_end_inactivity_ms (wd_spec w) \<noteq> 0
     \<and> (case wd_last_activity w of Some latest \<Rightarrow> sat_add latest (rp_end_inactivity_ms (wd_spec w)) > end_ms | None \<Rightarrow> False)"

definition end_warning ::
    "('w, 'b) WindowProvider_scheme \<Rightarrow> Observed \<Rightarrow> RouteSpec \<Rightarrow> string \<Rightarrow> bool \<Rightarrow> 'w Window \<Rightarrow> ScheduleWarning option \<times> 'w Window" where
  "end_warning pv ob route message_id active w =
     (if rp_warning_before_end_ms (wd_spec w) = [] then (None, w)
      else (case end_point pv ob w of
              None \<Rightarrow> (None, w)
            | Some (end_identity, end_ms) \<Rightarrow>
                let deadline = expected_deadline end_ms w;
                    new_occurrence = (case wd_end_warning_identity w of Some (occurrence, _) \<Rightarrow> occurrence \<noteq> end_identity | None \<Rightarrow> True);
                    w1 = (if new_occurrence \<or> reset_inactivity end_ms w then w\<lparr>wd_end_warned := []\<rparr> else w);
                    w2 = w1\<lparr>wd_end_warning_identity := Some (end_identity, wd_last_activity w)\<rparr>;
                    remaining = sat_sub deadline (ob_now_ms ob) in
                if remaining = 0 then (None, w2)
                else (case due_lead (rp_warning_before_end_ms (wd_spec w)) (wd_end_warned w2) remaining of
                        None \<Rightarrow> (None, w2)
                      | Some lead \<Rightarrow>
                          (if active then None else Some (warning_for w2 route message_id False remaining deadline),
                           w2\<lparr>wd_end_warned := wd_end_warned w2 @ [lead]\<rparr>))))"

definition next_warning ::
    "('w, 'b) WindowProvider_scheme \<Rightarrow> Observed \<Rightarrow> RouteSpec \<Rightarrow> bool \<Rightarrow> 'w Window \<Rightarrow> ScheduleWarning option \<times> 'w Window" where
  "next_warning pv ob route active w =
     (case rp_warning_message_id (wd_spec w) of
        None \<Rightarrow> (None, w)
      | Some message_id \<Rightarrow>
          if \<not> ob_capacity ob then (None, w)
          else if rp_warning_before_start_ms (wd_spec w) = [] then end_warning pv ob route message_id active w
          else (case pv_next_start pv (rp_window (wd_spec w)) (ob_local ob) (ob_second ob) of
                  None \<Rightarrow> (None, w)
                | Some (occurrence, remaining) \<Rightarrow>
                    let w1 = (if wd_start_occurrence w \<noteq> Some occurrence
                              then w\<lparr>wd_start_occurrence := Some occurrence, wd_start_warned := []\<rparr> else w) in
                    (case due_lead (rp_warning_before_start_ms (wd_spec w)) (wd_start_warned w1) remaining of
                       Some lead \<Rightarrow>
                         (if active then None
                          else Some (warning_for w1 route message_id True remaining (sat_add (ob_now_ms ob) remaining)),
                          w1\<lparr>wd_start_warned := wd_start_warned w1 @ [lead]\<rparr>)
                     | None \<Rightarrow> end_warning pv ob route message_id active w1)))"

text \<open>The policy part of one window's turn: its new state and whether it requests its routes.\<close>

definition window_policy :: "('w, 'b) WindowProvider_scheme \<Rightarrow> Observed \<Rightarrow> string \<Rightarrow> 'w Window \<Rightarrow> bool \<times> 'w Window" where
  "window_policy pv ob owner w =
     (let w1 = observe_activity (ob_activity ob owner) w;
          window_active = pv_window_matches pv (rp_window (wd_spec w)) (ob_local ob);
          w2 = end_waiting (ob_now_ms ob) (cross_boundary pv ob window_active (initialize_window pv ob window_active w1)) in
      (window_active \<or> wd_waiting w2, w2))"

definition set_desired :: "bool \<Rightarrow> LinkRoute list \<Rightarrow> nat list \<Rightarrow> LinkRoute list" where
  "set_desired b = foldl (\<lambda>routes index. routes[index := (routes ! index)\<lparr>rt_desired := b\<rparr>])"

definition first_spec :: "LinkRoute list \<Rightarrow> 'w Window \<Rightarrow> RouteSpec" where
  "first_spec routes w = rt_spec (routes ! hd (rp_routes (wd_spec w)))"

definition window_step ::
    "('w, 'b) WindowProvider_scheme \<Rightarrow> Observed \<Rightarrow> LinkRoute list \<times> 'w Window list \<times> ScheduleWarning option \<Rightarrow> 'w Window
     \<Rightarrow> LinkRoute list \<times> 'w Window list \<times> ScheduleWarning option" where
  "window_step pv ob = (\<lambda>(routes, finished, due) w.
     let (requested, w1) = window_policy pv ob (rs_local (first_spec routes w)) w;
         routes1 = (if requested then set_desired False (set_desired True routes (rp_routes (wd_spec w))) (rp_replaced (wd_spec w))
                    else routes);
         (due1, w2) = (if due = None
                       then next_warning pv ob (first_spec routes1 w) (ob_source_active ob (rs_local (first_spec routes1 w))) w1
                       else (due, w1)) in
     (routes1, finished @ [w2], due1))"

definition tick_with_warnings ::
    "('w, 'b) WindowProvider_scheme \<Rightarrow> Observed \<Rightarrow> 'w LinkScheduler \<Rightarrow> ScheduleWarning option \<times> 'w LinkScheduler" where
  "tick_with_warnings pv ob s =
     (let (routes, windows, due) = foldl (window_step pv ob) (map (refresh_route ob) (ls_routes s), [], None) (ls_windows s) in
      (due, s\<lparr>ls_routes := routes, ls_windows := windows\<rparr>))"

definition link_tick :: "('w, 'b) WindowProvider_scheme \<Rightarrow> Observed \<Rightarrow> 'w LinkScheduler \<Rightarrow> 'w LinkScheduler" where
  "link_tick pv ob s = snd (tick_with_warnings pv (ob\<lparr>ob_source_active := (\<lambda>_. False), ob_capacity := False\<rparr>) s)"

section \<open>Reservations\<close>

definition withdrawable :: "LinkRoute \<Rightarrow> bool" where
  "withdrawable route \<longleftrightarrow> \<not> rt_paused route \<and> rt_issued route \<and> \<not> rt_desired route"

definition selectable :: "bool \<Rightarrow> LinkRoute \<Rightarrow> bool" where
  "selectable withdrawal_pending route \<longleftrightarrow> \<not> rt_paused route \<and> rt_pending route = None
     \<and> (if withdrawal_pending then rt_issued route \<and> \<not> rt_desired route else \<not> rt_issued route \<and> rt_desired route)"

definition next_operation :: "'w LinkScheduler \<Rightarrow> LinkReservation option \<times> 'w LinkScheduler" where
  "next_operation s =
     (let withdrawal_pending = list_ex withdrawable (ls_routes s) in
      case position (selectable withdrawal_pending) (ls_routes s) of
        None \<Rightarrow> (None, s)
      | Some index \<Rightarrow>
          if ls_nonce s = - 1 then (None, s)
          else
            let nonce = ls_nonce s + 1; route = (ls_routes s ! index)\<lparr>rt_pending := Some nonce\<rparr> in
            (Some \<lparr>lr_generation = ls_generation s, lr_index = index, lr_nonce = nonce, lr_spec = rt_spec route,
                   lr_action = (if withdrawal_pending then LtDetach else LtAttach)\<rparr>,
             s\<lparr>ls_nonce := nonce, ls_routes := (ls_routes s)[index := route]\<rparr>))"

definition reserved :: "'w LinkScheduler \<Rightarrow> LinkReservation \<Rightarrow> bool" where
  "reserved s r \<longleftrightarrow> lr_generation r = ls_generation s
     \<and> (case get (ls_routes s) (lr_index r) of
          Some route \<Rightarrow> rt_pending route = Some (lr_nonce r) \<and> rt_spec route = lr_spec r | None \<Rightarrow> False)"

definition reservation_current :: "'w LinkScheduler \<Rightarrow> LinkReservation \<Rightarrow> bool" where
  "reservation_current s r \<longleftrightarrow> reserved s r
     \<and> (case get (ls_routes s) (lr_index r) of
          Some route \<Rightarrow> rt_desired route = (lr_action r = LtAttach) | None \<Rightarrow> False)"

definition reservation_complete :: "LinkReservation \<Rightarrow> bool \<Rightarrow> 'w LinkScheduler \<Rightarrow> bool \<times> 'w LinkScheduler" where
  "reservation_complete r accepted s =
     (if \<not> reserved s r then (False, s)
      else
        let current = reservation_current s r; route = (ls_routes s ! lr_index r)\<lparr>rt_pending := None\<rparr>;
            route1 = (if current \<and> accepted then route\<lparr>rt_issued := (lr_action r = LtAttach)\<rparr> else route) in
        (current, s\<lparr>ls_routes := (ls_routes s)[lr_index r := route1]\<rparr>))"

definition link_pause :: "string \<Rightarrow> 'w LinkScheduler \<Rightarrow> 'w LinkScheduler" where
  "link_pause owner s = s\<lparr>ls_routes := map (\<lambda>route. if rs_local (rt_spec route) = owner
     then route\<lparr>rt_paused := True, rt_pending := None\<rparr> else route) (ls_routes s)\<rparr>"

definition link_resume :: "string \<Rightarrow> 'w LinkScheduler \<Rightarrow> 'w LinkScheduler" where
  "link_resume owner s = s\<lparr>ls_routes := map (\<lambda>route. if rs_local (rt_spec route) = owner
     then route\<lparr>rt_paused := False\<rparr> else route) (ls_routes s)\<rparr>"

definition withdraw_undesired :: "'w LinkScheduler \<Rightarrow> string list \<times> 'w LinkScheduler" where
  "withdraw_undesired s =
     (map (\<lambda>route. rs_remote (rt_spec route)) (filter (\<lambda>route. \<not> rt_desired route \<and> rt_issued route) (ls_routes s)),
      s\<lparr>ls_routes := map (\<lambda>route. if \<not> rt_desired route \<and> rt_issued route
         then route\<lparr>rt_issued := False, rt_pending := None\<rparr> else route) (ls_routes s)\<rparr>)"

section \<open>Steps\<close>

datatype 'w LinkStep =
  LTick Observed | LNext | LComplete LinkReservation bool | LPause string | LResume string | LWithdraw
| LReload u64 "RouteSpec list" "'w ReplacementSpec list"

fun link_step :: "('w, 'b) WindowProvider_scheme \<Rightarrow> 'w LinkScheduler \<Rightarrow> 'w LinkStep \<Rightarrow> 'w LinkScheduler" where
  "link_step pv s (LTick ob) = snd (tick_with_warnings pv ob s)"
| "link_step pv s LNext = snd (next_operation s)"
| "link_step pv s (LComplete r accepted) = snd (reservation_complete r accepted s)"
| "link_step pv s (LPause owner) = link_pause owner s"
| "link_step pv s (LResume owner) = link_resume owner s"
| "link_step pv s LWithdraw = snd (withdraw_undesired s)"
| "link_step pv s (LReload generation routes windows) =
     (case link_scheduler_new pv generation routes windows (Some s) of Inl _ \<Rightarrow> s | Inr s' \<Rightarrow> s')"

text \<open>
  Every index of a window is in range, its own routes are not permanent and those it replaces are;
  outstanding nonces are distinct and not ahead of the counter; only a window with a quiet interval
  has a startup deadline.
\<close>

definition window_wf :: "RouteSpec list \<Rightarrow> 'w ReplacementSpec \<Rightarrow> bool" where
  "window_wf specs w \<longleftrightarrow> rp_routes w \<noteq> []
     \<and> list_all (\<lambda>i. i < length specs \<and> \<not> rs_permanent (specs ! i)) (rp_routes w)
     \<and> list_all (\<lambda>i. i < length specs \<and> rs_permanent (specs ! i)) (rp_replaced w)"

definition nonces :: "LinkRoute list \<Rightarrow> u64 list" where
  "nonces = List.map_filter rt_pending"

definition idle_ok :: "'w Window \<Rightarrow> bool" where
  "idle_ok w \<longleftrightarrow> rp_end_inactivity_ms (wd_spec w) = 0 \<longrightarrow> wd_initial_deadline w = None"

definition link_inv :: "'w LinkScheduler \<Rightarrow> bool" where
  "link_inv s \<longleftrightarrow> list_all idle_ok (ls_windows s) \<and> list_all (window_wf (map rt_spec (ls_routes s))) (map wd_spec (ls_windows s))
     \<and> distinct (nonces (ls_routes s)) \<and> list_all (\<lambda>n. n \<le> ls_nonce s) (nonces (ls_routes s))"

lemma get_Some: "get xs i = Some x \<longleftrightarrow> i < length xs \<and> xs ! i = x"
  by (simp add: get_def)

lemma nonces_simps [simp]:
  "nonces [] = []" "nonces (r # rs) = (case rt_pending r of None \<Rightarrow> nonces rs | Some n \<Rightarrow> n # nonces rs)"
  "nonces (rs @ rs') = nonces rs @ nonces rs'"
  by (simp_all add: nonces_def List.map_filter_def split: option.split)

lemma nonces_none: "list_all (\<lambda>r. rt_pending r = None) rs \<Longrightarrow> nonces rs = []"
  by (induction rs) simp_all

text \<open>Two route lists that differ in \<open>rt_desired\<close> and \<open>rt_issued\<close> only.\<close>

definition route_held :: "LinkRoute \<Rightarrow> RouteSpec \<times> bool \<times> u64 option" where
  "route_held r = (rt_spec r, rt_paused r, rt_pending r)"

lemma held_same:
  assumes "map route_held rs = map route_held rs'"
  shows "map rt_spec rs = map rt_spec rs'" "nonces rs = nonces rs'" "length rs = length rs'"
proof -
  show "length rs = length rs'" using assms map_eq_imp_length_eq by blast
  then show "map rt_spec rs = map rt_spec rs'" "nonces rs = nonces rs'"
    using assms by (induction rs rs' rule: list_induct2) (auto simp: route_held_def split: option.split)
qed

lemma set_desired_held [simp]: "map route_held (set_desired b rs is) = map route_held rs"
proof (induction "is" arbitrary: rs)
  case (Cons i "is")
  have "map route_held (rs[i := (rs ! i)\<lparr>rt_desired := b\<rparr>]) = map route_held rs"
    by (rule map_update_same) (simp add: route_held_def)
  then show ?case using Cons.IH by (simp add: set_desired_def)
qed (simp add: set_desired_def)

lemma set_desired_length [simp]: "length (set_desired b rs is) = length rs"
  by (rule held_same(3)) simp

lemma set_desired_nth:
  "i < length rs \<Longrightarrow> rt_desired (set_desired b rs is ! i) = (if i \<in> set is then b else rt_desired (rs ! i))"
proof (induction "is" arbitrary: rs)
  case (Cons j "is")
  then show ?case
    using Cons.IH [of "rs[j := (rs ! j)\<lparr>rt_desired := b\<rparr>]"] by (auto simp: set_desired_def nth_list_update)
qed (simp add: set_desired_def)

lemma set_desired_issued [simp]: "map rt_issued (set_desired b rs is) = map rt_issued rs"
proof (induction "is" arbitrary: rs)
  case (Cons i "is")
  have "map rt_issued (rs[i := (rs ! i)\<lparr>rt_desired := b\<rparr>]) = map rt_issued rs"
    by (rule map_update_same) simp
  then show ?case using Cons.IH by (simp add: set_desired_def)
qed (simp add: set_desired_def)

lemma end_warning_spec [simp]: "wd_spec (snd (end_warning pv ob route m a w)) = wd_spec w"
  by (simp add: end_warning_def Let_def split: option.split)

lemma next_warning_spec [simp]: "wd_spec (snd (next_warning pv ob route a w)) = wd_spec w"
  by (simp add: next_warning_def Let_def split: option.split)

lemma end_warning_deadline [simp]: "wd_initial_deadline (snd (end_warning pv ob route m a w)) = wd_initial_deadline w"
  by (simp add: end_warning_def Let_def split: option.split)

lemma next_warning_deadline [simp]: "wd_initial_deadline (snd (next_warning pv ob route a w)) = wd_initial_deadline w"
  by (simp add: next_warning_def Let_def split: option.split)

lemma window_policy_keeps [simp]:
  "wd_spec (snd (window_policy pv ob owner w)) = wd_spec w"
  "wd_start_occurrence (snd (window_policy pv ob owner w)) = wd_start_occurrence w"
  "wd_start_warned (snd (window_policy pv ob owner w)) = wd_start_warned w"
  by (simp_all add: window_policy_def observe_activity_def initialize_window_def cross_boundary_def end_waiting_def Let_def
      split: option.split)

lemma policy_idle_ok:
  assumes "idle_ok w"
  shows "idle_ok (snd (window_policy pv ob owner w))"
    "rp_end_inactivity_ms (wd_spec w) = 0 \<Longrightarrow>
     fst (window_policy pv ob owner w) = pv_window_matches pv (rp_window (wd_spec w)) (ob_local ob)"
proof -
  let ?act = "pv_window_matches pv (rp_window (wd_spec w)) (ob_local ob)"
  let ?w1 = "observe_activity (ob_activity ob owner) w"
  let ?w2 = "initialize_window pv ob ?act ?w1"
  let ?w3 = "cross_boundary pv ob ?act ?w2"
  have 1: "wd_spec ?w1 = wd_spec w" "idle_ok ?w1"
    using assms by (auto simp: observe_activity_def idle_ok_def split: option.split)
  have 2: "wd_spec ?w2 = wd_spec w" "idle_ok ?w2"
    using 1 by (auto simp: initialize_window_def idle_ok_def Let_def split: option.split)
  have 3: "wd_spec ?w3 = wd_spec w" "idle_ok ?w3"
    using 2 by (auto simp: cross_boundary_def idle_ok_def Let_def)
  show "idle_ok (snd (window_policy pv ob owner w))"
    using 3 by (simp add: window_policy_def Let_def end_waiting_def idle_ok_def)
  show "fst (window_policy pv ob owner w) = ?act" if "rp_end_inactivity_ms (wd_spec w) = 0"
    using 3 that by (simp add: window_policy_def Let_def end_waiting_def idle_ok_def quiet_def)
qed

section \<open>What a tick wants\<close>

text \<open>Whether a window requests its routes at this instant: it is selected, or waits for quiet.\<close>

definition requests :: "('w, 'b) WindowProvider_scheme \<Rightarrow> Observed \<Rightarrow> 'w LinkScheduler \<Rightarrow> 'w Window \<Rightarrow> bool" where
  "requests pv ob s w = fst (window_policy pv ob (rs_local (first_spec (ls_routes s) w)) w)"

definition wanted :: "('w, 'b) WindowProvider_scheme \<Rightarrow> Observed \<Rightarrow> 'w LinkScheduler \<Rightarrow> 'w Window list \<Rightarrow> nat \<Rightarrow> bool" where
  "wanted pv ob s ws i =
     (if rs_permanent (rt_spec (ls_routes s ! i))
      then \<not> list_ex (\<lambda>w. requests pv ob s w \<and> i \<in> set (rp_replaced (wd_spec w))) ws
      else list_ex (\<lambda>w. requests pv ob s w \<and> i \<in> set (rp_routes (wd_spec w))) ws)"

lemma first_spec_same:
  assumes "map rt_spec rs = map rt_spec rs'" "hd (rp_routes (wd_spec w)) < length rs"
  shows "first_spec rs w = first_spec rs' w"
proof -
  have "length rs = length rs'" using assms(1) map_eq_imp_length_eq by blast
  then show ?thesis using assms nth_map [of _ rs rt_spec] nth_map [of _ rs' rt_spec] by (simp add: first_spec_def)
qed

text \<open>The loop over the windows, with \<open>ws\<close> those already visited.\<close>

definition loop_inv ::
    "('w, 'b) WindowProvider_scheme \<Rightarrow> Observed \<Rightarrow> 'w LinkScheduler \<Rightarrow> 'w Window list \<Rightarrow>
     LinkRoute list \<times> 'w Window list \<times> ScheduleWarning option \<Rightarrow> bool" where
  "loop_inv pv ob s ws = (\<lambda>(routes, finished, due).
     map route_held routes = map route_held (ls_routes s)
     \<and> map rt_issued routes = map rt_issued (map (refresh_route ob) (ls_routes s))
     \<and> map wd_spec finished = map wd_spec ws \<and> list_all idle_ok finished
     \<and> (\<forall>i < length (ls_routes s). rt_desired (routes ! i) = wanted pv ob s ws i))"

lemma window_step_inv:
  assumes "loop_inv pv ob s ws (routes, finished, due)" "window_wf (map rt_spec (ls_routes s)) (wd_spec w)" "idle_ok w"
  shows "loop_inv pv ob s (ws @ [w]) (window_step pv ob (routes, finished, due) w)"
proof -
  let ?set = "\<lambda>routes. set_desired False (set_desired True routes (rp_routes (wd_spec w))) (rp_replaced (wd_spec w))"
  let ?req = "requests pv ob s w"
  have same: "map rt_spec routes = map rt_spec (ls_routes s)" "length routes = length (ls_routes s)"
    using held_same(1,3) [of routes "ls_routes s"] assms(1) by (simp_all add: loop_inv_def)
  have wf: "rp_routes (wd_spec w) \<noteq> []"
    "\<And>i. i \<in> set (rp_routes (wd_spec w)) \<Longrightarrow> i < length (ls_routes s) \<and> \<not> rs_permanent (rt_spec (ls_routes s ! i))"
    "\<And>i. i \<in> set (rp_replaced (wd_spec w)) \<Longrightarrow> i < length (ls_routes s) \<and> rs_permanent (rt_spec (ls_routes s ! i))"
    using assms(2) by (auto simp: window_wf_def list_all_iff)
  have "first_spec routes w = first_spec (ls_routes s) w"
    using first_spec_same [OF same(1), of w] wf(2) [OF hd_in_set [OF wf(1)]] same(2) by simp
  then obtain w1 where p: "window_policy pv ob (rs_local (first_spec routes w)) w = (?req, w1)" "wd_spec w1 = wd_spec w" "idle_ok w1"
    using policy_idle_ok(1) [OF assms(3), of pv ob "rs_local (first_spec (ls_routes s) w)"] window_policy_keeps(1) [of pv ob "rs_local (first_spec (ls_routes s) w)" w]
    by (cases "window_policy pv ob (rs_local (first_spec (ls_routes s) w)) w") (simp add: requests_def)
  have out: "\<exists>w2 due1. window_step pv ob (routes, finished, due) w = (if ?req then ?set routes else routes, finished @ [w2], due1)
      \<and> wd_spec w2 = wd_spec w \<and> idle_ok w2"
    using p(2,3) by (simp add: window_step_def p(1) Let_def case_prod_beta idle_ok_def)
  have "rt_desired ((if ?req then ?set routes else routes) ! i) = wanted pv ob s (ws @ [w]) i" if "i < length (ls_routes s)" for i
    using assms(1) that wf(2,3) [of i] by (auto simp: loop_inv_def wanted_def set_desired_nth same(2))
  then show ?thesis
    using out assms(1) by (auto simp: loop_inv_def)
qed

lemma windows_loop:
  assumes "loop_inv pv ob s ws t" "list_all (window_wf (map rt_spec (ls_routes s))) (map wd_spec vs)" "list_all idle_ok vs"
  shows "loop_inv pv ob s (ws @ vs) (foldl (window_step pv ob) t vs)"
  using assms
proof (induction vs arbitrary: ws t)
  case (Cons v vs)
  obtain routes finished due where t: "t = (routes, finished, due)" by (cases t)
  show ?case
    using Cons.IH [OF window_step_inv [OF Cons.prems(1) [unfolded t]]] Cons.prems(2,3) by (simp add: t)
qed simp

lemma tick_inv:
  assumes "link_inv s"
  shows "\<exists>routes finished due. tick_with_warnings pv ob s = (due, s\<lparr>ls_routes := routes, ls_windows := finished\<rparr>)
     \<and> loop_inv pv ob s (ls_windows s) (routes, finished, due)"
proof -
  have "loop_inv pv ob s [] (map (refresh_route ob) (ls_routes s), [], None)"
    by (simp add: loop_inv_def refresh_route_def route_held_def wanted_def)
  from windows_loop [OF this, of "ls_windows s"] assms show ?thesis
    by (cases "foldl (window_step pv ob) (map (refresh_route ob) (ls_routes s), [], None) (ls_windows s)")
      (auto simp: link_inv_def tick_with_warnings_def)
qed

section \<open>The invariant\<close>

lemma window_invalid_wf:
  assumes "\<not> window_invalid routes w"
  shows "window_wf routes w"
proof -
  obtain first where f: "get routes (hd (rp_routes w)) = Some first" "\<not> group_invalid routes w first" "rp_routes w \<noteq> []"
    using assms by (auto simp: window_invalid_def split: option.splits)
  have rep: "i < length routes \<and> rs_permanent (routes ! i)" if "i \<in> set (rp_replaced w)" for i
    using f(2) that by (auto simp: group_invalid_def list_ex_iff get_def split: if_splits)
  have own: "i < length routes \<and> \<not> rs_permanent (routes ! i)" if i: "i \<in> set (rp_routes w)" for i
  proof (cases "length (rp_routes w) > 1")
    case True
    obtain k where "k < length (rp_routes w)" "rp_routes w ! k = i" using i by (auto simp: in_set_conv_nth)
    then have "(k, i) \<in> set (enumerate 0 (rp_routes w))" by (auto simp: in_set_enumerate_eq)
    then show ?thesis
      using f(2) True by (fastforce simp: group_invalid_def list_ex_iff get_def split: if_splits)
  next
    case False
    then have "rp_routes w = [i]" using i f(3) by (cases "rp_routes w") auto
    then show ?thesis using f by (auto simp: group_invalid_def get_Some)
  qed
  show ?thesis using f(3) own rep by (simp add: window_wf_def list_all_iff)
qed

lemma carry_route_simps [simp]: "rt_spec (carry_route p spec) = spec" "rt_pending (carry_route p spec) = None"
  "rt_desired (carry_route p spec) = rs_permanent spec"
  by (simp_all add: carry_route_def split: option.split)

lemma carry_window_spec [simp]: "wd_spec (carry_window routes p spec) = spec"
  by (simp add: carry_window_def Let_def split: option.split)

lemma carry_window_idle:
  assumes "case previous of Some old \<Rightarrow> list_all idle_ok (ls_windows old) | None \<Rightarrow> True"
  shows "idle_ok (carry_window routes previous spec)"
proof (cases "Option.bind previous (\<lambda>old. find (same_window (ls_routes old) routes spec) (ls_windows old))")
  case (Some w)
  then obtain old where "previous = Some old" "find (same_window (ls_routes old) routes spec) (ls_windows old) = Some w"
    by (auto simp: bind_eq_Some_conv)
  then have "idle_ok w" "rp_end_inactivity_ms (wd_spec w) = rp_end_inactivity_ms spec"
    using assms find_SomeD [of "same_window (ls_routes old) routes spec" "ls_windows old" w] by (auto simp: list_all_iff same_window_def)
  then show ?thesis using Some by (simp add: carry_window_def Let_def idle_ok_def)
qed (simp add: carry_window_def Let_def idle_ok_def)

lemma link_new_inv:
  assumes "link_scheduler_new pv g routes windows previous = Inr s"
    "case previous of Some old \<Rightarrow> link_inv old | None \<Rightarrow> True"
  shows "link_inv s" "ls_generation s = g" "g \<noteq> 0" "previous = Some old \<Longrightarrow> ls_generation old < g"
    "list_all (\<lambda>r. rt_pending r = None) (ls_routes s)"
proof -
  obtain rs where rs: "canonical_routes routes = Some rs" "\<not> list_ex (window_invalid rs) windows"
    "s = \<lparr>ls_generation = g, ls_nonce = 0, ls_routes = map (carry_route previous) rs, ls_windows = map (carry_window rs previous) windows\<rparr>"
    "g \<noteq> 0" "case previous of Some old \<Rightarrow> \<not> g \<le> ls_generation old | None \<Rightarrow> True"
    using assms(1) by (auto simp: link_scheduler_new_def split: option.splits if_splits)
  show none: "list_all (\<lambda>r. rt_pending r = None) (ls_routes s)" using rs(3) by (simp add: list_all_iff)
  have "list_all (window_wf rs) windows"
    using rs(2) window_invalid_wf by (auto simp: list_all_iff list_ex_iff)
  moreover have "list_all idle_ok (map (carry_window rs previous) windows)"
    using assms(2) carry_window_idle [of previous rs] by (auto simp: list_all_iff link_inv_def split: option.splits)
  ultimately show "link_inv s"
    using nonces_none [OF none] by (simp add: link_inv_def rs(3) comp_def)
  show "ls_generation s = g" "g \<noteq> 0" "previous = Some old \<Longrightarrow> ls_generation old < g"
    using rs(3,4,5) by auto
qed

text \<open>Operations that keep the configuration and only forget outstanding nonces.\<close>

lemma nonces_map_forget:
  "(\<And>r. rt_pending (f r) = rt_pending r \<or> rt_pending (f r) = None) \<Longrightarrow>
   set (nonces (map f rs)) \<subseteq> set (nonces rs) \<and> (distinct (nonces rs) \<longrightarrow> distinct (nonces (map f rs)))"
proof (induction rs)
  case (Cons r rs)
  have "rt_pending (f r) = rt_pending r \<or> rt_pending (f r) = None" by (rule Cons.prems)
  then show ?case using Cons.IH [OF Cons.prems] by (cases "rt_pending r"; cases "rt_pending (f r)") auto
qed simp

lemma nonces_set: "set (nonces rs) = {n. \<exists>i < length rs. rt_pending (rs ! i) = Some n}"
proof -
  have "n \<in> set (nonces rs) \<longleftrightarrow> (\<exists>r \<in> set rs. rt_pending r = Some n)" for n
    by (simp add: nonces_def set_map_filter)
  moreover have "(\<exists>r \<in> set rs. rt_pending r = Some n) \<longleftrightarrow> (\<exists>i < length rs. rt_pending (rs ! i) = Some n)" for n
    by (metis in_set_conv_nth)
  ultimately show ?thesis by auto
qed

lemma nonces_update:
  "i < length rs \<Longrightarrow> nonces (rs[i := r]) = nonces (take i rs) @ (case rt_pending r of None \<Rightarrow> [] | Some n \<Rightarrow> [n]) @ nonces (drop (Suc i) rs)"
  by (simp add: upd_conv_take_nth_drop split: option.split)

lemma nonces_split:
  "i < length rs \<Longrightarrow> nonces rs = nonces (take i rs) @ (case rt_pending (rs ! i) of None \<Rightarrow> [] | Some n \<Rightarrow> [n]) @ nonces (drop (Suc i) rs)"
  using nonces_update [of i rs "rs ! i"] by simp

lemma link_inv_map:
  assumes "link_inv s" "\<And>r. rt_spec (f r) = rt_spec r" "\<And>r. rt_pending (f r) = rt_pending r \<or> rt_pending (f r) = None"
  shows "link_inv (s\<lparr>ls_routes := map f (ls_routes s)\<rparr>)"
proof -
  have "map rt_spec (map f (ls_routes s)) = map rt_spec (ls_routes s)" using assms(2) by simp
  then show ?thesis
    using assms(1) nonces_map_forget [of f "ls_routes s", OF assms(3)]
    unfolding link_inv_def by (auto simp del: map_map simp: list_all_iff)
qed

lemma next_operation_cases:
  assumes "next_operation s = (out, s')"
  shows "out = None \<and> s' = s
    \<or> (\<exists>index. position (selectable (list_ex withdrawable (ls_routes s))) (ls_routes s) = Some index
        \<and> ls_nonce s \<noteq> - 1
        \<and> out = Some \<lparr>lr_generation = ls_generation s, lr_index = index, lr_nonce = ls_nonce s + 1, lr_spec = rt_spec (ls_routes s ! index),
             lr_action = (if list_ex withdrawable (ls_routes s) then LtDetach else LtAttach)\<rparr>
        \<and> s' = s\<lparr>ls_nonce := ls_nonce s + 1, ls_routes := (ls_routes s)[index := (ls_routes s ! index)\<lparr>rt_pending := Some (ls_nonce s + 1)\<rparr>]\<rparr>)"
  using assms by (auto simp: next_operation_def Let_def split: option.splits if_splits)

lemma inc_less: "n \<noteq> - 1 \<Longrightarrow> n < n + (1 :: u64)"
  using inc_less_eq_iff [of n "n + 1"] by simp

lemma next_operation_inv:
  assumes "link_inv s"
  shows "link_inv (snd (next_operation s))"
proof (cases "next_operation s")
  case (Pair out s')
  note c = next_operation_cases [OF Pair]
  show ?thesis
  proof (cases "s' = s")
    case False
    then obtain i where i: "position (selectable (list_ex withdrawable (ls_routes s))) (ls_routes s) = Some i" "ls_nonce s \<noteq> - 1"
      "s' = s\<lparr>ls_nonce := ls_nonce s + 1, ls_routes := (ls_routes s)[i := (ls_routes s ! i)\<lparr>rt_pending := Some (ls_nonce s + 1)\<rparr>]\<rparr>"
      using c by blast
    then have p: "i < length (ls_routes s)" "rt_pending (ls_routes s ! i) = None"
      using position_Some [OF i(1)] by (auto simp: selectable_def)
    have lt: "ls_nonce s < ls_nonce s + 1" using i(2) by (rule inc_less)
    have n: "nonces (ls_routes s) = nonces (take i (ls_routes s)) @ nonces (drop (Suc i) (ls_routes s))"
      using nonces_split [OF p(1)] p(2) by simp
    have "n < ls_nonce s + 1" if "n \<in> set (nonces (ls_routes s))" for n
      using assms that lt by (auto simp: link_inv_def list_all_iff intro: le_less_trans)
    then show ?thesis
      using assms p(1) unfolding Pair link_inv_def i(3)
      by (auto simp: map_update_same nonces_update n list_all_iff less_imp_le)
  qed (use assms Pair in simp)
qed

lemma complete_inv:
  assumes "link_inv s"
  shows "link_inv (snd (reservation_complete r accepted s))"
proof (cases "reserved s r")
  case True
  let ?i = "lr_index r"
  have p: "?i < length (ls_routes s)" "rt_pending (ls_routes s ! ?i) = Some (lr_nonce r)"
    using True by (auto simp: reserved_def get_def split: if_splits)
  obtain route where route: "snd (reservation_complete r accepted s) = s\<lparr>ls_routes := (ls_routes s)[?i := route]\<rparr>"
    "rt_pending route = None" "rt_spec route = rt_spec (ls_routes s ! ?i)"
    using True by (auto simp: reservation_complete_def Let_def)
  show ?thesis
    using assms p(1) nonces_split [OF p(1)] p(2) route(2,3) unfolding route(1) link_inv_def
    by (auto simp: map_update_same nonces_update list_all_iff)
qed (use assms in \<open>simp add: reservation_complete_def\<close>)

lemma tick_link_inv:
  assumes "link_inv s"
  shows "link_inv (snd (tick_with_warnings pv ob s))"
proof -
  obtain routes finished due where t: "tick_with_warnings pv ob s = (due, s\<lparr>ls_routes := routes, ls_windows := finished\<rparr>)"
    "loop_inv pv ob s (ls_windows s) (routes, finished, due)"
    using tick_inv [OF assms] by metis
  then show ?thesis
    using assms held_same(1,2) [of routes "ls_routes s"] by (simp add: link_inv_def loop_inv_def)
qed

lemma link_step_inv: "link_inv s \<Longrightarrow> link_inv (link_step pv s e)"
proof (cases e)
  case (LReload g rs ws)
  then show "link_inv s \<Longrightarrow> ?thesis" by (auto split: sum.split dest: link_new_inv(1))
qed (auto simp: link_pause_def link_resume_def withdraw_undesired_def
    intro!: tick_link_inv next_operation_inv complete_inv link_inv_map split: if_splits)

interpretation link_machine: machine "link_step pv" link_inv for pv
  by unfold_locales (rule link_step_inv)

section \<open>Properties\<close>

text \<open>C19. A tick wants exactly the configured union of windows. In every reachable scheduler, after a
  tick a permanent route is wanted unless a window that is selected or waits for quiet replaces it, a
  replacement route is wanted exactly when such a window lists it, ownership that was lost is
  forgotten, and nothing else about the routes changes; a window without a quiet interval counts
  only while it is selected.\<close>

theorem tick_wants_union:
  assumes "link_scheduler_new pv g routes windows None = Inr s0" "s = foldl (link_step pv) s0 es"
    "i < length (ls_routes s)" "s' = snd (tick_with_warnings pv ob s)"
  shows "rt_desired (ls_routes s' ! i) = wanted pv ob s (ls_windows s) i
     \<and> rt_issued (ls_routes s' ! i) = (rt_issued (ls_routes s ! i) \<and> ob_owns ob (rt_spec (ls_routes s ! i)))
     \<and> route_held (ls_routes s' ! i) = route_held (ls_routes s ! i)
     \<and> list_all (\<lambda>w. rp_end_inactivity_ms (wd_spec w) = 0 \<longrightarrow>
          requests pv ob s w = pv_window_matches pv (rp_window (wd_spec w)) (ob_local ob)) (ls_windows s)"
proof -
  have reach: "link_inv s"
    using link_machine.run_inv [OF link_new_inv(1) [OF assms(1)]] assms(2) by simp
  then obtain rs finished due where t: "tick_with_warnings pv ob s = (due, s\<lparr>ls_routes := rs, ls_windows := finished\<rparr>)"
    and inv: "loop_inv pv ob s (ls_windows s) (rs, finished, due)"
    using tick_inv by metis
  have len: "length rs = length (ls_routes s)" using inv held_same(3) [of rs "ls_routes s"] by (simp add: loop_inv_def)
  have "map rt_issued rs ! i = map rt_issued (map (refresh_route ob) (ls_routes s)) ! i" "map route_held rs ! i = map route_held (ls_routes s) ! i"
    using inv by (simp_all add: loop_inv_def)
  then have "rt_issued (rs ! i) = (rt_issued (ls_routes s ! i) \<and> ob_owns ob (rt_spec (ls_routes s ! i)))"
    "route_held (rs ! i) = route_held (ls_routes s ! i)"
    using assms(3) len by (simp_all add: refresh_route_def)
  moreover have "list_all (\<lambda>w. rp_end_inactivity_ms (wd_spec w) = 0 \<longrightarrow>
      requests pv ob s w = pv_window_matches pv (rp_window (wd_spec w)) (ob_local ob)) (ls_windows s)"
    using reach by (simp add: link_inv_def list_all_iff requests_def policy_idle_ok(2))
  ultimately show ?thesis
    using inv assms(3) by (auto simp: loop_inv_def assms(4) t)
qed

text \<open>What invalidates a reservation, and what leaves it alone.\<close>

fun settles :: "('w, 'b) WindowProvider_scheme \<Rightarrow> LinkReservation \<Rightarrow> 'w LinkScheduler \<Rightarrow> 'w LinkStep \<Rightarrow> bool" where
  "settles pv r s (LComplete r' _) = (r' = r)"
| "settles pv r s (LPause owner) = (owner = rs_local (lr_spec r))"
| "settles pv r s (LReload g rs ws) = (case link_scheduler_new pv g rs ws (Some s) of Inl _ \<Rightarrow> False | Inr _ \<Rightarrow> True)"
| "settles pv r s _ = False"

fun leaves :: "LinkReservation \<Rightarrow> 'w LinkStep \<Rightarrow> bool" where
  "leaves r (LComplete r' _) = (lr_nonce r' \<noteq> lr_nonce r)"
| "leaves r (LPause owner) = (owner \<noteq> rs_local (lr_spec r))"
| "leaves r (LReload _ _ _) = False"
| "leaves r LWithdraw = False"
| "leaves r _ = True"

text \<open>A reservation that was handed out and is no longer outstanding.\<close>

definition spent :: "LinkReservation \<Rightarrow> 'w LinkScheduler \<Rightarrow> bool" where
  "spent r s \<longleftrightarrow> \<not> reserved s r
     \<and> (lr_generation r < ls_generation s \<or> lr_generation r = ls_generation s \<and> lr_nonce r \<le> ls_nonce s)"

lemma next_operation_sets:
  assumes "next_operation s = (Some r, s')" "link_inv s"
  shows "reservation_current s' r" "lr_nonce r = ls_nonce s'" "lr_generation r = ls_generation s'" "ls_nonce s < ls_nonce s'"
    "ls_generation s' = ls_generation s" "lr_index r < length (ls_routes s)"
    "rt_pending (ls_routes s ! lr_index r) = None" "map rt_spec (ls_routes s') = map rt_spec (ls_routes s)"
    "\<forall>i < length (ls_routes s). i \<noteq> lr_index r \<longrightarrow> ls_routes s' ! i = ls_routes s ! i"
proof -
  obtain i where i: "position (selectable (list_ex withdrawable (ls_routes s))) (ls_routes s) = Some i" "ls_nonce s \<noteq> - 1"
    "r = \<lparr>lr_generation = ls_generation s, lr_index = i, lr_nonce = ls_nonce s + 1, lr_spec = rt_spec (ls_routes s ! i),
             lr_action = (if list_ex withdrawable (ls_routes s) then LtDetach else LtAttach)\<rparr>"
    "s' = s\<lparr>ls_nonce := ls_nonce s + 1, ls_routes := (ls_routes s)[i := (ls_routes s ! i)\<lparr>rt_pending := Some (ls_nonce s + 1)\<rparr>]\<rparr>"
    using next_operation_cases [OF assms(1)] by auto
  note p = position_Some [OF i(1)]
  show "lr_nonce r = ls_nonce s'" "lr_generation r = ls_generation s'" "ls_nonce s < ls_nonce s'"
    "ls_generation s' = ls_generation s" "lr_index r < length (ls_routes s)"
    "rt_pending (ls_routes s ! lr_index r) = None" "map rt_spec (ls_routes s') = map rt_spec (ls_routes s)"
    "\<forall>i < length (ls_routes s). i \<noteq> lr_index r \<longrightarrow> ls_routes s' ! i = ls_routes s ! i"
    using p i(2) by (simp_all add: i(3,4) inc_less map_update_same selectable_def)
  show "reservation_current s' r"
    using p by (auto simp: i(3,4) reservation_current_def reserved_def get_def selectable_def split: if_splits)
qed

text \<open>The route an outstanding reservation names.\<close>

lemma reserved_nth:
  "reserved s r \<longleftrightarrow> lr_generation r = ls_generation s \<and> lr_index r < length (ls_routes s)
     \<and> rt_pending (ls_routes s ! lr_index r) = Some (lr_nonce r) \<and> rt_spec (ls_routes s ! lr_index r) = lr_spec r"
  by (simp add: reserved_def get_def)

lemma held_nth: "map route_held rs = map route_held rs' \<Longrightarrow> i < length rs' \<Longrightarrow>
    rt_pending (rs ! i) = rt_pending (rs' ! i) \<and> rt_spec (rs ! i) = rt_spec (rs' ! i)"
  using map_eq_imp_length_eq [of route_held rs route_held rs'] nth_map [of i rs route_held] nth_map [of i rs' route_held]
  by (simp add: route_held_def)

lemma reserved_tick:
  assumes "link_inv s"
  shows "reserved (snd (tick_with_warnings pv ob s)) r = reserved s r"
    "ls_generation (snd (tick_with_warnings pv ob s)) = ls_generation s" "ls_nonce (snd (tick_with_warnings pv ob s)) = ls_nonce s"
proof -
  obtain routes finished due where t: "tick_with_warnings pv ob s = (due, s\<lparr>ls_routes := routes, ls_windows := finished\<rparr>)"
    "loop_inv pv ob s (ls_windows s) (routes, finished, due)"
    using tick_inv [OF assms] by metis
  then have h: "map route_held routes = map route_held (ls_routes s)" by (simp add: loop_inv_def)
  show "reserved (snd (tick_with_warnings pv ob s)) r = reserved s r"
    using held_nth [OF h, of "lr_index r"] held_same(3) [OF h] by (auto simp: t(1) reserved_nth)
  show "ls_generation (snd (tick_with_warnings pv ob s)) = ls_generation s" "ls_nonce (snd (tick_with_warnings pv ob s)) = ls_nonce s"
    by (simp_all add: t(1))
qed

definition handed :: "LinkReservation \<Rightarrow> 'w LinkScheduler \<Rightarrow> bool" where
  "handed r s \<longleftrightarrow> lr_generation r < ls_generation s \<or> lr_generation r = ls_generation s \<and> lr_nonce r \<le> ls_nonce s"

lemma spent_handed: "spent r s \<longleftrightarrow> \<not> reserved s r \<and> handed r s"
  by (auto simp: spent_def handed_def)

lemma reload_generation:
  assumes "link_inv s" "link_scheduler_new pv g rs ws (Some s) = Inr s'"
  shows "ls_generation s < ls_generation s'"
  using link_new_inv(2,4) [OF assms(2)] assms(1) by simp

text \<open>How a step changes the counters and the outstanding nonces.\<close>

lemma step_counters:
  assumes "link_inv s"
  shows "ls_generation s < ls_generation (link_step pv s e)
     \<or> ls_generation (link_step pv s e) = ls_generation s \<and> ls_nonce s \<le> ls_nonce (link_step pv s e)"
proof (cases e)
  case (LReload g rs ws)
  then show ?thesis using assms by (auto split: sum.split dest: reload_generation)
next
  case LNext
  then show ?thesis
    using assms by (cases "next_operation s") (auto dest!: next_operation_cases simp: less_imp_le [OF inc_less])
qed (simp_all add: reserved_tick assms link_pause_def link_resume_def withdraw_undesired_def reservation_complete_def Let_def)

lemma handed_step: "link_inv s \<Longrightarrow> handed r s \<Longrightarrow> handed r (link_step pv s e)"
  using step_counters [of s pv e] by (auto simp: handed_def)

lemma complete_routes:
  "ls_routes (snd (reservation_complete r' a s)) = ls_routes s \<or>
   reserved s r' \<and> (\<exists>route. rt_pending route = None \<and> rt_spec route = rt_spec (ls_routes s ! lr_index r')
      \<and> ls_routes (snd (reservation_complete r' a s)) = (ls_routes s)[lr_index r' := route])"
proof (cases "reserved s r'")
  case True
  let ?cleared = "(ls_routes s ! lr_index r')\<lparr>rt_pending := None\<rparr>"
  show ?thesis
    using True by (intro disjI2 conjI exI [of _ "if reservation_current s r' \<and> a then ?cleared\<lparr>rt_issued := (lr_action r' = LtAttach)\<rparr> else ?cleared"])
      (simp_all add: reservation_complete_def Let_def)
qed (simp add: reservation_complete_def)

lemma complete_generation [simp]: "ls_generation (snd (reservation_complete r' a s)) = ls_generation s"
  by (simp add: reservation_complete_def Let_def)

lemma reserved_map:
  assumes "\<And>x. rt_spec (f x) = rt_spec x" "\<And>x. rt_pending (f x) = rt_pending x \<or> rt_pending (f x) = None"
    "reserved (s\<lparr>ls_routes := map f (ls_routes s)\<rparr>) r"
  shows "reserved s r"
  using assms(3) assms(1,2) [of "ls_routes s ! lr_index r"] by (auto simp: reserved_nth)

lemma reserved_step_back:
  assumes "link_inv s" "handed r s" "reserved (link_step pv s e) r"
  shows "reserved s r"
proof (cases e)
  case (LTick ob)
  then show ?thesis using assms by (simp add: reserved_tick)
next
  case LNext
  obtain out s' where n: "next_operation s = (out, s')" by fastforce
  show ?thesis
  proof (cases out)
    case None
    then show ?thesis using n assms(3) next_operation_cases [OF n] by (auto simp: LNext)
  next
    case (Some r')
    note q = next_operation_sets [OF n [unfolded Some] assms(1)]
    have res: "reserved s' r" using assms(3) n by (simp add: LNext)
    then have "lr_nonce r \<noteq> lr_nonce r'" using assms(2) q(2,4,5) by (auto simp: handed_def reserved_nth)
    then have "lr_index r \<noteq> lr_index r'"
      using res q(1) by (auto simp: reserved_nth reservation_current_def)
    moreover have "length (ls_routes s') = length (ls_routes s)" using q(8) map_eq_imp_length_eq by blast
    ultimately show ?thesis using res q(5) q(9) [rule_format, of "lr_index r"] by (simp add: reserved_nth)
  qed
next
  case (LComplete r' a)
  then show ?thesis
    using assms(3) complete_routes [of r' a s]
    by (cases "lr_index r' = lr_index r") (auto simp: reserved_nth)
next
  case (LReload g rs ws)
  then show ?thesis
    using assms by (auto simp: reserved_nth handed_def split: sum.splits dest: reload_generation)
qed (use assms(3) in \<open>auto simp: link_pause_def link_resume_def withdraw_undesired_def elim!: reserved_map [rotated 2] split: if_splits\<close>)

lemma spent_step: "link_inv s \<Longrightarrow> spent r s \<Longrightarrow> spent r (link_step pv s e)"
  using reserved_step_back [of s r pv e] handed_step [of s r pv e] by (auto simp: spent_handed)

lemma settles_spent:
  assumes "link_inv s" "handed r s" "settles pv r s e"
  shows "spent r (link_step pv s e)"
proof -
  have "\<not> reserved (link_step pv s e) r"
  proof (cases e)
    case (LComplete r' a)
    then show ?thesis
      using assms(3) by (cases "reserved s r") (auto simp: reserved_nth reservation_complete_def Let_def)
  next
    case (LPause owner)
    then show ?thesis using assms(3) by (auto simp: reserved_nth link_pause_def split: if_splits)
  next
    case (LReload g rs ws)
    then show ?thesis
      using assms by (auto simp: reserved_nth handed_def split: sum.splits dest: reload_generation)
  qed (use assms(3) in simp_all)
  then show ?thesis using handed_step [OF assms(1,2)] by (simp add: spent_handed)
qed

lemma leaves_reserved:
  assumes "link_inv s" "reserved s r" "leaves r e"
  shows "reserved (link_step pv s e) r"
proof (cases e)
  case (LTick ob)
  then show ?thesis using assms by (simp add: reserved_tick)
next
  case LNext
  obtain out s' where n: "next_operation s = (out, s')" by fastforce
  show ?thesis
  proof (cases out)
    case None
    then show ?thesis using n assms(2) next_operation_cases [OF n] by (auto simp: LNext)
  next
    case (Some r')
    note q = next_operation_sets [OF n [unfolded Some] assms(1)]
    have "lr_index r \<noteq> lr_index r'" using assms(2) q(7) by (auto simp: reserved_nth)
    moreover have "length (ls_routes s') = length (ls_routes s)" using q(8) map_eq_imp_length_eq by blast
    ultimately show ?thesis
      using assms(2) q(5) q(9) [rule_format, of "lr_index r"] n by (simp add: reserved_nth LNext)
  qed
next
  case (LComplete r' a)
  show ?thesis
  proof (cases "reserved s r'")
    case True
    then have "lr_index r' \<noteq> lr_index r" using assms(2,3) LComplete by (auto simp: reserved_nth)
    then show ?thesis
      using assms(2) complete_routes [of r' a s] LComplete by (auto simp: reserved_nth)
  qed (use assms(2) LComplete in \<open>simp add: reservation_complete_def\<close>)
next
  case (LPause owner)
  then show ?thesis using assms(2,3) by (auto simp: reserved_nth link_pause_def)
next
  case (LResume owner)
  then show ?thesis using assms(2) by (auto simp: reserved_nth link_resume_def)
qed (use assms(3) in simp_all)

text \<open>C17. A reservation is settled once. In every reachable scheduler a reservation just handed out is
  current; ticks, further reservations, settlements of other reservations and operator actions on
  other nodes leave it outstanding; and once it was completed, its node was paused or a reload
  succeeded, no later sequence of operations makes it current again or lets it be completed.\<close>

theorem reservation_settles_once:
  assumes "link_scheduler_new pv g routes windows None = Inr s0" "next_operation (foldl (link_step pv) s0 es) = (Some r, s1)"
  shows "reservation_current s1 r
     \<and> (list_all (leaves r) es1 \<longrightarrow> reserved (foldl (link_step pv) s1 es1) r)
     \<and> (settles pv r (foldl (link_step pv) s1 es1) e \<longrightarrow>
          (let s = foldl (link_step pv) s1 (es1 @ e # es2) in
           \<not> reservation_current s r \<and> reservation_complete r accepted s = (False, s)))"
proof -
  have inv0: "link_inv (foldl (link_step pv) s0 es)"
    using link_machine.run_inv [OF link_new_inv(1) [OF assms(1)]] by simp
  note q = next_operation_sets [OF assms(2) inv0]
  have inv1: "link_inv s1" using next_operation_inv [OF inv0] assms(2) by simp
  have inv: "link_inv (foldl (link_step pv) s1 es')" for es' by (rule link_machine.run_inv [OF inv1])
  have hand: "handed r (foldl (link_step pv) s1 es')" for es'
  proof (induction es' rule: rev_induct)
    case Nil
    then show ?case using q(2,3) by (simp add: handed_def)
  next
    case (snoc e es')
    then show ?case using handed_step [OF inv] by simp
  qed
  have left: "reserved (foldl (link_step pv) s1 es') r" if "list_all (leaves r) es'" for es'
    using that
  proof (induction es' rule: rev_induct)
    case Nil
    then show ?case using q(1) by (simp add: reservation_current_def)
  next
    case (snoc e es')
    then show ?case by (simp add: leaves_reserved inv)
  qed
  have "spent r (foldl (link_step pv) s1 (es1 @ e # es2))" if "settles pv r (foldl (link_step pv) s1 es1) e"
  proof (induction es2 rule: rev_induct)
    case Nil
    then show ?case using settles_spent [OF inv hand that] by simp
  next
    case (snoc e' es')
    then show ?case using spent_step [OF inv [of "es1 @ e # es'"]] by simp
  qed
  then show ?thesis
    using q(1) left by (auto simp: Let_def spent_def reservation_current_def reservation_complete_def)
qed

section \<open>Convergence\<close>

text \<open>Carrying out reservations until none is left, each accepted; \<open>n\<close> bounds their number.\<close>

fun drain :: "nat \<Rightarrow> 'w LinkScheduler \<Rightarrow> LinkReservation list \<times> 'w LinkScheduler" where
  "drain 0 s = ([], s)"
| "drain (Suc n) s =
     (case next_operation s of
        (None, s') \<Rightarrow> ([], s')
      | (Some r, s') \<Rightarrow> let (rs, s2) = drain n (snd (reservation_complete r True s')) in (r # rs, s2))"

definition mismatched :: "LinkRoute \<Rightarrow> bool" where
  "mismatched route \<longleftrightarrow> \<not> rt_paused route \<and> rt_issued route \<noteq> rt_desired route"

definition settled_route :: "LinkRoute \<Rightarrow> LinkRoute" where
  "settled_route route = route\<lparr>rt_issued := rt_desired route\<rparr>"

lemma settled_route_idem [simp]: "settled_route (settled_route route) = settled_route route"
  by (simp add: settled_route_def)

lemma filter_length_update:
  assumes "i < length xs" "P (xs ! i)" "\<not> P x"
  shows "length (filter P xs) = Suc (length (filter P (xs[i := x])))"
proof -
  have "length (filter P (take i xs @ xs ! i # drop (Suc i) xs)) = Suc (length (filter P (take i xs @ x # drop (Suc i) xs)))"
    using assms(2,3) by simp
  then show ?thesis
    using assms(1) by (simp only: upd_conv_take_nth_drop [OF assms(1)] id_take_nth_drop [OF assms(1), symmetric])
qed

lemma drain_stop:
  assumes "\<not> list_ex mismatched (ls_routes s)"
  shows "next_operation s = (None, s)"
proof -
  have "\<not> list_ex withdrawable (ls_routes s)" using assms by (auto simp: list_ex_iff mismatched_def withdrawable_def)
  moreover have "position (selectable False) (ls_routes s) = None"
    using assms by (auto simp: position_None list_ex_iff mismatched_def selectable_def)
  ultimately show ?thesis by (simp add: next_operation_def Let_def)
qed

lemma drain_one:
  assumes "list_ex mismatched (ls_routes s)" "list_all (\<lambda>r. rt_pending r = None) (ls_routes s)" "ls_nonce s \<noteq> - 1"
  shows "\<exists>r s' i. next_operation s = (Some r, s') \<and> i < length (ls_routes s) \<and> mismatched (ls_routes s ! i)
     \<and> (lr_action r = LtDetach) = list_ex withdrawable (ls_routes s)
     \<and> snd (reservation_complete r True s') =
         s\<lparr>ls_nonce := ls_nonce s + 1, ls_routes := (ls_routes s)[i := settled_route (ls_routes s ! i)]\<rparr>"
proof -
  let ?w = "list_ex withdrawable (ls_routes s)"
  have none: "rt_pending r = None" if "r \<in> set (ls_routes s)" for r using assms(2) that by (simp add: list_all_iff)
  obtain i where i: "position (selectable ?w) (ls_routes s) = Some i"
  proof -
    have "\<exists>x \<in> set (ls_routes s). selectable ?w x"
      using assms(1) none by (cases ?w) (auto simp: list_ex_iff mismatched_def selectable_def withdrawable_def)
    then show thesis using that position_None [of "selectable ?w" "ls_routes s"] by (cases "position (selectable ?w) (ls_routes s)") auto
  qed
  note p = position_Some [OF i]
  let ?r = "\<lparr>lr_generation = ls_generation s, lr_index = i, lr_nonce = ls_nonce s + 1, lr_spec = rt_spec (ls_routes s ! i),
      lr_action = (if ?w then LtDetach else LtAttach)\<rparr>"
  let ?s' = "s\<lparr>ls_nonce := ls_nonce s + 1, ls_routes := (ls_routes s)[i := (ls_routes s ! i)\<lparr>rt_pending := Some (ls_nonce s + 1)\<rparr>]\<rparr>"
  have n: "next_operation s = (Some ?r, ?s')" using i assms(3) by (simp add: next_operation_def Let_def)
  have m: "mismatched (ls_routes s ! i)" "rt_desired (ls_routes s ! i) = (\<not> ?w)" "rt_pending (ls_routes s ! i) = None"
    using p by (auto simp: selectable_def mismatched_def split: if_splits)
  have "reserved ?s' ?r" "reservation_current ?s' ?r"
    using p m(2) by (simp_all add: reserved_nth reservation_current_def get_def)
  then have "snd (reservation_complete ?r True ?s') =
      s\<lparr>ls_nonce := ls_nonce s + 1, ls_routes := (ls_routes s)[i := settled_route (ls_routes s ! i)]\<rparr>"
    using p m(2,3) by (cases "ls_routes s ! i") (simp add: reservation_complete_def Let_def settled_route_def)
  then show ?thesis using n p m(1) by auto
qed

definition phases :: "LinkReservation list \<Rightarrow> bool" where
  "phases rs \<longleftrightarrow> dropWhile (\<lambda>r. lr_action r = LtDetach) rs = filter (\<lambda>r. lr_action r = LtAttach) rs"

lemma drain_all:
  assumes "list_all (\<lambda>r. rt_pending r = None) (ls_routes s)" "length (filter mismatched (ls_routes s)) \<le> n"
    "unat (ls_nonce s) + n < 2 ^ 64"
  shows "let (rs, s') = drain n s in
     ls_routes s' = map (\<lambda>route. if rt_paused route then route else settled_route route) (ls_routes s)
     \<and> length rs = length (filter mismatched (ls_routes s)) \<and> phases rs
     \<and> (\<not> list_ex withdrawable (ls_routes s) \<longrightarrow> list_all (\<lambda>r. lr_action r = LtAttach) rs)"
  using assms
proof (induction n arbitrary: s)
  case 0
  then have "\<not> list_ex mismatched (ls_routes s)" by (auto simp: list_ex_iff filter_empty_conv)
  then have "map (\<lambda>route. if rt_paused route then route else settled_route route) (ls_routes s) = ls_routes s"
    by (auto simp: list_ex_iff mismatched_def settled_route_def intro!: map_idI)
  then show ?case using 0 by (simp add: phases_def)
next
  case (Suc n)
  show ?case
  proof (cases "list_ex mismatched (ls_routes s)")
    case False
    then have "map (\<lambda>route. if rt_paused route then route else settled_route route) (ls_routes s) = ls_routes s"
      "filter mismatched (ls_routes s) = []"
      by (auto simp: list_ex_iff mismatched_def settled_route_def filter_empty_conv intro!: map_idI)
    then show ?thesis using drain_stop [OF False] by (simp add: phases_def)
  next
    case True
    have nonce: "ls_nonce s \<noteq> - 1" "unat (ls_nonce s + 1) = unat (ls_nonce s) + 1"
      using Suc.prems(3) unat_add_lem [of "ls_nonce s" 1] by (auto simp: unsigned_minus_1_eq_mask mask_eq_exp_minus_1)
    from drain_one [OF True Suc.prems(1) nonce(1)] obtain r s' i where d: "next_operation s = (Some r, s')" "i < length (ls_routes s)"
      "mismatched (ls_routes s ! i)" "(lr_action r = LtDetach) = list_ex withdrawable (ls_routes s)"
      "snd (reservation_complete r True s') =
         s\<lparr>ls_nonce := ls_nonce s + 1, ls_routes := (ls_routes s)[i := settled_route (ls_routes s ! i)]\<rparr>" by blast
    let ?s2 = "snd (reservation_complete r True s')"
    have "list_all (\<lambda>r. rt_pending r = None) (ls_routes ?s2)"
      using Suc.prems(1) list_all_nth [OF Suc.prems(1) d(2)] by (simp add: d(5) list_all_list_update settled_route_def)
    moreover have "length (filter mismatched (ls_routes s)) = Suc (length (filter mismatched (ls_routes ?s2)))"
      using filter_length_update [where P = mismatched, OF d(2,3)] by (simp add: d(5) mismatched_def settled_route_def)
    moreover have "unat (ls_nonce ?s2) + n < 2 ^ 64" using Suc.prems(3) nonce(2) by (simp add: d(5))
    moreover have "map (\<lambda>route. if rt_paused route then route else settled_route route) (ls_routes ?s2)
        = map (\<lambda>route. if rt_paused route then route else settled_route route) (ls_routes s)"
      using d(2,3) by (simp only: d(5) LinkScheduler.simps) (simp add: map_update_same mismatched_def settled_route_def)
    moreover have "\<not> list_ex withdrawable (ls_routes s) \<Longrightarrow> \<not> list_ex withdrawable (ls_routes ?s2)"
      using d(2) by (auto simp: d(5) list_ex_iff withdrawable_def settled_route_def dest!: set_update_subset_insert [THEN subsetD])
    ultimately show ?thesis
      using Suc.IH [of ?s2] Suc.prems(2) d(1,4) by (cases "lr_action r") (auto simp: phases_def Let_def case_prod_beta list_all_iff intro: filter_True [symmetric])
  qed
qed

text \<open>C18. The schedule converges, withdrawals first. From any state without outstanding reservations (and
  a counter that cannot overflow), carrying out at most one accepted operation per route leaves nothing
  to do, with every route that is not paused attached exactly when it is wanted and everything else
  unchanged; exactly the mismatched routes are operated on, and every withdrawal comes before every
  attachment.\<close>

theorem schedule_converges:
  assumes "list_all (\<lambda>r. rt_pending r = None) (ls_routes s)" "unat (ls_nonce s) + length (ls_routes s) < 2 ^ 64"
  shows "let (rs, s') = drain (length (ls_routes s)) s in
     ls_routes s' = map (\<lambda>route. if rt_paused route then route else route\<lparr>rt_issued := rt_desired route\<rparr>) (ls_routes s)
     \<and> next_operation s' = (None, s')
     \<and> length rs = length (filter mismatched (ls_routes s))
     \<and> dropWhile (\<lambda>r. lr_action r = LtDetach) rs = filter (\<lambda>r. lr_action r = LtAttach) rs"
proof -
  obtain rs s' where d: "drain (length (ls_routes s)) s = (rs, s')" by fastforce
  note all = drain_all [OF assms(1) length_filter_le assms(2), unfolded d settled_route_def phases_def]
  then have "\<not> list_ex mismatched (ls_routes s')"
    by (auto simp: list_ex_iff mismatched_def)
  from drain_stop [OF this] show ?thesis using all by (simp add: d)
qed

section \<open>Warnings\<close>

text \<open>One window's turn in a tick; \<open>allowed\<close> says that no earlier window of the tick produced a warning.\<close>

definition warning_turn ::
    "('w, 'b) WindowProvider_scheme \<Rightarrow> RouteSpec \<Rightarrow> Observed \<Rightarrow> bool \<Rightarrow> 'w Window \<Rightarrow> ScheduleWarning option \<times> 'w Window" where
  "warning_turn pv route ob allowed w =
     (let w1 = snd (window_policy pv ob (rs_local route) w) in
      if allowed then next_warning pv ob route (ob_source_active ob (rs_local route)) w1 else (None, w1))"

fun warning_run :: "('w, 'b) WindowProvider_scheme \<Rightarrow> RouteSpec \<Rightarrow> (Observed \<times> bool) list \<Rightarrow> 'w Window \<Rightarrow> ScheduleWarning list" where
  "warning_run pv route [] w = []"
| "warning_run pv route ((ob, allowed) # turns) w =
     (let (due, w1) = warning_turn pv route ob allowed w in option_list due @ warning_run pv route turns w1)"

definition unwarned :: "u64 \<Rightarrow> 'w Window \<Rightarrow> u64 set" where
  "unwarned k w = set (rp_warning_before_start_ms (wd_spec w)) - (if wd_start_occurrence w = Some k then set (wd_start_warned w) else {})"

lemma end_warning_start [simp]:
  "wd_start_occurrence (snd (end_warning pv ob route m a w)) = wd_start_occurrence w"
  "wd_start_warned (snd (end_warning pv ob route m a w)) = wd_start_warned w"
  by (simp_all add: end_warning_def Let_def split: option.split)

lemma end_warning_disconnects: "fst (end_warning pv ob route m a w) = Some sw \<Longrightarrow> \<not> sw_connecting sw"
  by (auto simp: end_warning_def Let_def warning_for_def split: option.splits if_splits)

lemma due_lead_Some: "due_lead leads warned rem = Some lead \<Longrightarrow> lead \<in> set leads \<and> lead \<notin> set warned \<and> rem \<le> lead"
  unfolding due_lead_def by (drule find_SomeD) simp

lemma next_warning_unwarned:
  assumes "next_warning pv ob route a w = (due, w')"
    "map_option fst (pv_next_start pv (rp_window (wd_spec w)) (ob_local ob) (ob_second ob)) = Some k"
  shows "unwarned k w' \<subseteq> unwarned k w
     \<and> (case due of Some sw \<Rightarrow> sw_connecting sw \<longrightarrow> unwarned k w' \<noteq> unwarned k w | None \<Rightarrow> True)"
proof -
  obtain rem where rem: "pv_next_start pv (rp_window (wd_spec w)) (ob_local ob) (ob_second ob) = Some (k, rem)"
    using assms(2) by auto
  let ?leads = "rp_warning_before_start_ms (wd_spec w)"
  define w1 where "w1 = (if wd_start_occurrence w \<noteq> Some k then w\<lparr>wd_start_occurrence := Some k, wd_start_warned := []\<rparr> else w)"
  have w1: "wd_spec w1 = wd_spec w" "wd_start_occurrence w1 = Some k" "unwarned k w1 = unwarned k w"
    by (auto simp: w1_def unwarned_def)
  have ends: "case fst (end_warning pv ob route m a v) of Some sw \<Rightarrow> \<not> sw_connecting sw | None \<Rightarrow> True" for m and v :: "'a Window"
    using end_warning_disconnects [of pv ob route m a v] by (auto split: option.split)
  have keep: "unwarned k (snd (end_warning pv ob route m a v)) = unwarned k v" for m and v :: "'a Window"
    by (simp add: unwarned_def)
  show ?thesis
  proof (cases "rp_warning_message_id (wd_spec w) = None \<or> \<not> ob_capacity ob")
    case True
    then show ?thesis using assms(1) by (auto simp: next_warning_def split: option.splits)
  next
    case False
    then obtain m where m: "rp_warning_message_id (wd_spec w) = Some m" "ob_capacity ob" by auto
    show ?thesis
    proof (cases "?leads = []")
      case True
      then have "end_warning pv ob route m a w = (due, w')" using assms(1) m by (simp add: next_warning_def)
      then show ?thesis using ends [of m w] keep [of m w] by (auto split: option.splits)
    next
      case leads: False
      show ?thesis
      proof (cases "due_lead ?leads (wd_start_warned w1) rem")
        case None
        then have "end_warning pv ob route m a w1 = (due, w')"
          using assms(1) m leads rem by (simp add: next_warning_def Let_def w1_def)
        then show ?thesis using ends [of m w1] keep [of m w1] w1(3) by (auto split: option.splits)
      next
        case (Some lead)
        then have "w' = w1\<lparr>wd_start_warned := wd_start_warned w1 @ [lead]\<rparr>"
          using assms(1) m leads rem by (simp add: next_warning_def Let_def w1_def split: if_splits)
        then have "unwarned k w' = unwarned k w1 - {lead}" "lead \<in> unwarned k w1"
          using due_lead_Some [OF Some] w1(1,2) by (auto simp: unwarned_def)
        then show ?thesis using w1(3) by (auto split: option.split)
      qed
    qed
  qed
qed

text \<open>Each start lead warns at most once. Over any sequence of turns of a window during which its next
  start is the same occurrence, at most as many connection warnings are produced as there are distinct
  leads not yet used for that occurrence, whatever happens to the window in between.\<close>

theorem start_leads_once:
  assumes "list_all (\<lambda>(ob, _). map_option fst (pv_next_start pv (rp_window (wd_spec w)) (ob_local ob) (ob_second ob)) = Some k) turns"
  shows "length (filter sw_connecting (warning_run pv route turns w)) \<le> card (unwarned k w)"
  using assms
proof (induction turns arbitrary: w)
  case (Cons turn turns)
  obtain ob allowed where t: "turn = (ob, allowed)" by fastforce
  obtain due w' where d: "warning_turn pv route ob allowed w = (due, w')" by fastforce
  let ?w1 = "snd (window_policy pv ob (rs_local route) w)"
  have u: "unwarned k ?w1 = unwarned k w" by (simp add: unwarned_def)
  have step: "unwarned k w' \<subseteq> unwarned k w
     \<and> (case due of Some sw \<Rightarrow> sw_connecting sw \<longrightarrow> unwarned k w' \<noteq> unwarned k w | None \<Rightarrow> True)" and spec: "wd_spec w' = wd_spec w"
  proof -
    show "wd_spec w' = wd_spec w"
      using arg_cong [OF d, of "\<lambda>x. wd_spec (snd x)"] by (simp add: warning_turn_def Let_def split: if_splits)
    show "unwarned k w' \<subseteq> unwarned k w
     \<and> (case due of Some sw \<Rightarrow> sw_connecting sw \<longrightarrow> unwarned k w' \<noteq> unwarned k w | None \<Rightarrow> True)"
    proof (cases allowed)
      case True
      then have "next_warning pv ob route (ob_source_active ob (rs_local route)) ?w1 = (due, w')"
        using d by (simp add: warning_turn_def)
      from next_warning_unwarned [OF this, of k, unfolded u] Cons.prems t show ?thesis by simp
    next
      case False
      then show ?thesis using d u by (simp add: warning_turn_def Let_def)
    qed
  qed
  have fin: "finite (unwarned k w)" by (simp add: unwarned_def)
  have "length (filter sw_connecting (option_list due)) + card (unwarned k w') \<le> card (unwarned k w)"
  proof (cases "\<exists>sw. due = Some sw \<and> sw_connecting sw")
    case True
    then have "unwarned k w' \<subset> unwarned k w" using step by auto
    from psubset_card_mono [OF fin this] True show ?thesis by auto
  next
    case False
    then show ?thesis using card_mono [OF fin] step by (cases due) auto
  qed
  moreover have "length (filter sw_connecting (warning_run pv route turns w')) \<le> card (unwarned k w')"
    using Cons.IH [of w'] Cons.prems spec by simp
  ultimately show ?case by (simp add: t d Let_def)
qed simp

text \<open>A window that has leads before its start and no further start gives no warning at all, whatever its
  leads before the end are: the missing start ends the search before the end is looked at.\<close>

lemma no_start_no_end_warning:
  assumes "rp_warning_before_start_ms (wd_spec w) \<noteq> []"
    "pv_next_start pv (rp_window (wd_spec w)) (ob_local ob) (ob_second ob) = None"
  shows "next_warning pv ob route active w = (None, w)"
  using assms by (simp add: next_warning_def split: option.split)

section \<open>A configuration\<close>

text \<open>Node \<open>524950\<close> is linked to \<open>2000\<close>, and to \<open>3000\<close> instead between noon and one o'clock.\<close>

definition noon_provider :: "unit WindowProvider" where
  "noon_provider = \<lparr>pv_event_occurrence = (\<lambda>_ _. None), pv_window_matches = (\<lambda>_ now. cv_hour now = 12),
     pv_overlaps = (\<lambda>_ _. True), pv_elapsed_after_end = (\<lambda>_ _ _. None),
     pv_next_start = (\<lambda>_ now _. if cv_hour now < 12 then Some (7, 60000) else None), pv_next_end = (\<lambda>_ _ _. None)\<rparr>"

definition noon_routes :: "RouteSpec list" where
  "noon_routes = [\<lparr>rs_local = ''524950'', rs_remote = ''2000'', rs_permanent = True, rs_group_label = None, rs_group_name = None, rs_group_priority = None\<rparr>,
     \<lparr>rs_local = ''524950'', rs_remote = ''3000'', rs_permanent = False, rs_group_label = None, rs_group_name = None, rs_group_priority = None\<rparr>]"

definition noon_window :: "unit ReplacementSpec" where
  "noon_window = \<lparr>rp_routes = [1], rp_replaced = [0], rp_window = (), rp_end_inactivity_ms = 0,
     rp_warning_before_start_ms = [120000, 60000], rp_warning_before_end_ms = [60000], rp_warning_message_id = Some ''scheduled-link-change''\<rparr>"

definition noon_start :: "unit LinkScheduler" where
  "noon_start = \<lparr>ls_generation = 1, ls_nonce = 0, ls_routes = map (carry_route (None :: unit LinkScheduler option)) noon_routes,
     ls_windows = map (carry_window noon_routes None) [noon_window]\<rparr>"

definition at_hour :: "8 word \<Rightarrow> Observed" where
  "at_hour h = \<lparr>ob_local = \<lparr>cv_year = 2026, cv_month = 9, cv_day = 15, cv_weekday = Tuesday, cv_hour = h, cv_minute = 0\<rparr>,
     ob_second = 0, ob_now_ms = 1000, ob_activity = (\<lambda>_. None), ob_owns = (\<lambda>_. True), ob_source_active = (\<lambda>_. False), ob_capacity = True\<rparr>"

lemma noon_new: "link_scheduler_new noon_provider 1 noon_routes [noon_window] None = Inr noon_start"
  by code_simp

theorem tick_wants_union_witness:
  "rt_desired (ls_routes (snd (tick_with_warnings noon_provider (at_hour 12) (foldl (link_step noon_provider) noon_start [LTick (at_hour 11)]))) ! 1)"
proof -
  have "1 < length (ls_routes (foldl (link_step noon_provider) noon_start [LTick (at_hour 11)]))" by code_simp
  from tick_wants_union [OF noon_new refl this refl, of "at_hour 12"]
  have "rt_desired (ls_routes (snd (tick_with_warnings noon_provider (at_hour 12) (foldl (link_step noon_provider) noon_start [LTick (at_hour 11)]))) ! 1)
    = wanted noon_provider (at_hour 12) (foldl (link_step noon_provider) noon_start [LTick (at_hour 11)])
        (ls_windows (foldl (link_step noon_provider) noon_start [LTick (at_hour 11)])) 1" by blast
  also have "\<dots> = True" by code_simp
  finally show ?thesis by simp
qed

definition noon_reservation :: LinkReservation where
  "noon_reservation = \<lparr>lr_generation = 1, lr_index = 0, lr_nonce = 1, lr_spec = hd noon_routes, lr_action = LtAttach\<rparr>"

theorem reservation_settles_once_witness:
  "reservation_current (snd (next_operation noon_start)) noon_reservation
   \<and> \<not> reservation_current (foldl (link_step noon_provider) (snd (next_operation noon_start)) [LPause ''524950'', LResume ''524950'', LNext]) noon_reservation"
proof -
  have "fst (next_operation (foldl (link_step noon_provider) noon_start [])) = Some noon_reservation" by code_simp
  then have n: "next_operation (foldl (link_step noon_provider) noon_start []) = (Some noon_reservation, snd (next_operation noon_start))"
    by (simp add: prod_eq_iff)
  have "settles noon_provider noon_reservation (foldl (link_step noon_provider) (snd (next_operation noon_start)) []) (LPause ''524950'')"
    by code_simp
  with reservation_settles_once [OF noon_new n, of "[]" "LPause ''524950''" "[LResume ''524950'', LNext]"]
  show ?thesis by (simp add: Let_def)
qed

theorem schedule_converges_witness:
  "map rt_issued (ls_routes (snd (drain 2 (snd (tick_with_warnings noon_provider (at_hour 12)
     (noon_start\<lparr>ls_routes := map (\<lambda>r. r\<lparr>rt_issued := rs_permanent (rt_spec r)\<rparr>) (ls_routes noon_start)\<rparr>)))))) = [False, True]"
proof -
  let ?s = "snd (tick_with_warnings noon_provider (at_hour 12)
     (noon_start\<lparr>ls_routes := map (\<lambda>r. r\<lparr>rt_issued := rs_permanent (rt_spec r)\<rparr>) (ls_routes noon_start)\<rparr>))"
  have 1: "list_all (\<lambda>r. rt_pending r = None) (ls_routes ?s)" "ls_nonce ?s = 0" "length (ls_routes ?s) = 2" by code_simp+
  have 2: "map rt_issued (map (\<lambda>route. if rt_paused route then route else route\<lparr>rt_issued := rt_desired route\<rparr>) (ls_routes ?s)) = [False, True]"
    by code_simp
  from schedule_converges [OF 1(1)] 1(2,3)
  have "ls_routes (snd (drain 2 ?s)) = map (\<lambda>route. if rt_paused route then route else route\<lparr>rt_issued := rt_desired route\<rparr>) (ls_routes ?s)"
    by (simp add: case_prod_beta)
  then show ?thesis using 2 by (simp only:)
qed

theorem start_leads_once_witness:
  "length (filter sw_connecting (warning_run noon_provider (hd noon_routes) [(at_hour 11, True), (at_hour 11, True), (at_hour 11, True)]
     (carry_window noon_routes None noon_window))) \<le> 2"
proof -
  have "list_all (\<lambda>(ob, _). map_option fst (pv_next_start noon_provider (rp_window (wd_spec (carry_window noon_routes None noon_window))) (ob_local ob) (ob_second ob)) = Some 7)
      [(at_hour 11, True), (at_hour 11, True), (at_hour 11, True)]" by code_simp
  from start_leads_once [OF this, of "hd noon_routes"]
  have "length (filter sw_connecting (warning_run noon_provider (hd noon_routes) [(at_hour 11, True), (at_hour 11, True), (at_hour 11, True)]
     (carry_window noon_routes None noon_window))) \<le> card (unwarned 7 (carry_window noon_routes None noon_window))" .
  also have "unwarned 7 (carry_window noon_routes None noon_window) = {120000, 60000}"
    by (simp add: unwarned_def carry_window_def noon_window_def)
  finally show ?thesis by simp
qed

lemma no_start_no_end_warning_noon:
  "fst (next_warning noon_provider (at_hour 12) (hd noon_routes) False (carry_window noon_routes None noon_window)) = None"
  using no_start_no_end_warning [of "carry_window noon_routes None noon_window" noon_provider "at_hour 12"]
  by (simp add: carry_window_def noon_window_def noon_provider_def at_hour_def)

end
