(* ===== verification/Composition.thy ===== *)
theory Composition
  imports Utf8
begin

text \<open>
  Compilation of message content, \<^verbatim>\<open>core/src/composition.rs\<close>: content is text with \<open>{...}\<close> tokens, a token
  may refer to another definition, and the compiler checks, measures and flattens the references
  without recursion. Of the resolved settings the record keeps what the compiler reads. The tone and Morse
  providers are foreign libraries and, with the allocator and the size of a segment in memory, an
  argument (\<open>Env\<close>); nothing is assumed of it. A panic of the code is \<open>None\<close>, as is a loop that never ends.
\<close>

section \<open>Data\<close>

datatype Segment =
  SgLiteral string "string option"
| SgMessage "string option"
| SgMedia "string option"
| SgTone "string option"

datatype CompositionError = CeSyntax | CeMissingDefinition | CeCycle | CeTooLarge | CePreparation

datatype Token = TkSegment Segment | TkReference string

datatype MorseRequirement = MrRequired | MrOptional

record Size =
  sz_segments :: nat
  sz_bytes :: nat

record ToneSource =
  to_sequence :: string
  to_level_db :: "8 word"

record 'f MorseSource =
  mo_text :: string
  mo_speed_wpm :: "32 word"
  mo_frequency_hz :: 'f
  mo_level_db :: "8 word"

record 'f MediaSource =
  me_file :: "string option"
  me_speech :: "string option"
  me_tone :: "ToneSource option"
  me_morse :: "'f MorseSource option"

record 'f MessageSettings =
  rm_content :: string
  rm_message_id :: "string option"
  rm_media :: "'f MediaSource"

type_synonym 'f definitions = "(string \<times> 'f MessageSettings) list"

record 'f Composition =
  cp_segments :: "Segment list"
  cp_invoking :: "'f MessageSettings"
  cp_definitions :: "'f definitions"

record 'f Env =
  en_tone_ok :: "string \<Rightarrow> 8 word \<Rightarrow> bool"
  en_morse_ok :: "string \<Rightarrow> 32 word \<Rightarrow> 'f \<Rightarrow> 8 word \<Rightarrow> bool"
  en_segment_size :: nat
  en_reserve_segments :: "nat \<Rightarrow> bool"
  en_reserve_text :: "nat \<Rightarrow> bool"

section \<open>Parsing\<close>

definition flush_literal :: "string option \<Rightarrow> Token list \<Rightarrow> string \<Rightarrow> CompositionError + Token list" where
  "flush_literal owner tokens text =
     (let value = trim_ws text in
      if length value > 127 then Inl CeTooLarge
      else Inr (if value \<noteq> [] then tokens @ [TkSegment (SgLiteral value owner)] else tokens))"

fun take_name :: "string \<Rightarrow> string \<Rightarrow> (string \<times> string) option" where
  "take_name name [] = None"
| "take_name name (ch # chars) =
     (if ch = CHR ''}'' then Some (name, chars)
      else if ch = CHR ''{'' then None
      else take_name (name @ [ch]) chars)"

definition token_of :: "string option \<Rightarrow> string \<Rightarrow> CompositionError + Token" where
  "token_of owner name =
     (if name = ''message'' then Inr (TkSegment (SgMessage owner))
      else if name = ''media'' then Inr (TkSegment (SgMedia owner))
      else if name = ''tone_sequence'' then Inr (TkSegment (SgTone owner))
      else (case strip_prefix ''message_macro_'' name of
              Some n \<Rightarrow> if n \<noteq> [] then Inr (TkReference n) else Inl CeSyntax
            | None \<Rightarrow> Inl CeSyntax))"

lemma take_name_shorter: "take_name name chars = Some (n, rest) \<Longrightarrow> length rest < length chars"
  by (induction name chars rule: take_name.induct) (auto split: if_splits)

function parse_loop :: "string option \<Rightarrow> Token list \<Rightarrow> string \<Rightarrow> string \<Rightarrow> CompositionError + Token list" where
  "parse_loop owner result literal [] = flush_literal owner result literal"
| "parse_loop owner result literal (ch # chars) =
     (if (ch = CHR ''{'' \<or> ch = CHR ''}'') \<and> chars \<noteq> [] \<and> hd chars = ch
      then parse_loop owner result (literal @ [ch]) (tl chars)
      else if ch = CHR ''}'' then Inl CeSyntax
      else if ch = CHR ''{''
      then (case flush_literal owner result literal of
              Inl e \<Rightarrow> Inl e
            | Inr result1 \<Rightarrow>
                (case take_name [] chars of
                   None \<Rightarrow> Inl CeSyntax
                 | Some (name, rest) \<Rightarrow>
                     (case token_of owner name of
                        Inl e \<Rightarrow> Inl e
                      | Inr token \<Rightarrow> parse_loop owner (result1 @ [token]) [] rest)))
      else parse_loop owner result (literal @ [ch]) chars)"
  by pat_completeness auto
termination
  by (relation "measure (\<lambda>(_, _, _, chars). length chars)") (auto dest: take_name_shorter)

definition parse_content :: "string \<Rightarrow> string option \<Rightarrow> CompositionError + Token list" where
  "parse_content content owner = parse_loop owner [] [] content"

definition syntax_valid :: "string \<Rightarrow> bool" where
  "syntax_valid content = (case parse_content content None of Inl _ \<Rightarrow> False | Inr _ \<Rightarrow> True)"

section \<open>Checking and measuring\<close>

definition source_valid :: "'f Env \<Rightarrow> MorseRequirement \<Rightarrow> 'f MessageSettings \<Rightarrow> Token \<Rightarrow> bool" where
  "source_valid env morse d token =
     (case token of
        TkSegment (SgMessage _) \<Rightarrow> rm_message_id d \<noteq> None
      | TkSegment (SgTone _) \<Rightarrow>
          (case me_tone (rm_media d) of Some t \<Rightarrow> en_tone_ok env (to_sequence t) (to_level_db t) | None \<Rightarrow> False)
      | TkSegment (SgMedia _) \<Rightarrow>
          (case me_morse (rm_media d) of
             None \<Rightarrow> morse = MrOptional \<and> (me_file (rm_media d) \<noteq> None \<or> me_speech (rm_media d) \<noteq> None \<or> me_tone (rm_media d) \<noteq> None)
           | Some m \<Rightarrow> en_morse_ok env (mo_text m) (mo_speed_wpm m) (mo_frequency_hz m) (mo_level_db m) \<and> trim_ws (mo_text m) \<noteq> [])
      | _ \<Rightarrow> True)"

definition validate_sources :: "'f Env \<Rightarrow> MorseRequirement \<Rightarrow> 'f MessageSettings \<Rightarrow> Token list \<Rightarrow> CompositionError + unit" where
  "validate_sources env morse d tokens =
     (if list_all (source_valid env morse d) tokens then Inr () else Inl CeMissingDefinition)"

fun references :: "Token list \<Rightarrow> string list" where
  "references [] = []"
| "references (TkReference name # tokens) = name # references tokens"
| "references (TkSegment _ # tokens) = references tokens"

definition checked_add :: "nat \<Rightarrow> nat \<Rightarrow> nat option" where
  "checked_add a b = (if a + b < 2 ^ 64 then Some (a + b) else None)"

fun segment_bytes :: "Segment \<Rightarrow> nat option" where
  "segment_bytes (SgLiteral text owner) = checked_add (length text) (case owner of None \<Rightarrow> 0 | Some n \<Rightarrow> length n)"
| "segment_bytes (SgMessage name) = Some (case name of None \<Rightarrow> 0 | Some n \<Rightarrow> length n)"
| "segment_bytes (SgMedia name) = Some (case name of None \<Rightarrow> 0 | Some n \<Rightarrow> length n)"
| "segment_bytes (SgTone name) = Some (case name of None \<Rightarrow> 0 | Some n \<Rightarrow> length n)"

text \<open>The size of one token; \<open>None\<close> is the panic of a missing entry.\<close>

fun token_size :: "'f Env \<Rightarrow> (string \<times> Size) list \<Rightarrow> Token \<Rightarrow> (CompositionError + Size) option" where
  "token_size env sizes (TkReference name) = map_option Inr (map_of sizes name)"
| "token_size env sizes (TkSegment segment) =
     Some (case Option.bind (segment_bytes segment) (checked_add (en_segment_size env)) of
             None \<Rightarrow> Inl CeTooLarge
           | Some bytes \<Rightarrow> Inr \<lparr>sz_segments = 1, sz_bytes = bytes\<rparr>)"

definition add_size :: "Size \<Rightarrow> Size \<Rightarrow> CompositionError + Size" where
  "add_size acc sz =
     (case checked_add (sz_segments acc) (sz_segments sz) of
        None \<Rightarrow> Inl CeTooLarge
      | Some segments \<Rightarrow>
          (case checked_add (sz_bytes acc) (sz_bytes sz) of
             None \<Rightarrow> Inl CeTooLarge
           | Some bytes \<Rightarrow> if bytes \<le> 2 ^ 63 - 1 then Inr \<lparr>sz_segments = segments, sz_bytes = bytes\<rparr> else Inl CeTooLarge))"

fun measure_from :: "'f Env \<Rightarrow> (string \<times> Size) list \<Rightarrow> Size \<Rightarrow> Token list \<Rightarrow> (CompositionError + Size) option" where
  "measure_from env sizes acc [] = Some (Inr acc)"
| "measure_from env sizes acc (token # tokens) =
     (case token_size env sizes token of
        None \<Rightarrow> None
      | Some (Inl e) \<Rightarrow> Some (Inl e)
      | Some (Inr sz) \<Rightarrow>
          (case add_size acc sz of
             Inl e \<Rightarrow> Some (Inl e)
           | Inr acc1 \<Rightarrow> measure_from env sizes acc1 tokens))"

definition measure_tokens :: "'f Env \<Rightarrow> (string \<times> Size) list \<Rightarrow> Token list \<Rightarrow> (CompositionError + Size) option" where
  "measure_tokens env sizes tokens = measure_from env sizes \<lparr>sz_segments = 0, sz_bytes = 0\<rparr> tokens"

section \<open>The work list\<close>

text \<open>The top of the stack of names is the head of \<open>work\<close>; a name comes back marked once its references are done.\<close>

definition push_references :: "Token list \<Rightarrow> (string \<times> bool) list \<Rightarrow> (string \<times> bool) list" where
  "push_references tokens work = rev (map (\<lambda>name. (name, False)) (references tokens)) @ work"

function compile_loop ::
    "'f Env \<Rightarrow> 'f definitions \<Rightarrow> MorseRequirement \<Rightarrow> (string \<times> Token list) list \<Rightarrow> (string \<times> Size) list \<Rightarrow> string list
     \<Rightarrow> (string \<times> bool) list \<Rightarrow> (CompositionError + (string \<times> Token list) list \<times> (string \<times> Size) list) option" where
  "compile_loop env defs morse tokens sizes visiting [] = Some (Inr (tokens, sizes))"
| "compile_loop env defs morse tokens sizes visiting ((name, finish) # work) =
     (if finish
      then (case map_of tokens name of
              None \<Rightarrow> None
            | Some body \<Rightarrow>
                (case measure_tokens env sizes body of
                   None \<Rightarrow> None
                 | Some (Inl e) \<Rightarrow> Some (Inl e)
                 | Some (Inr sz) \<Rightarrow> compile_loop env defs morse tokens ((name, sz) # sizes) (removeAll name visiting) work))
      else if map_of sizes name \<noteq> None then compile_loop env defs morse tokens sizes visiting work
      else if name \<in> set visiting then Some (Inl CeCycle)
      else (case map_of defs name of
              None \<Rightarrow> Some (Inl CeMissingDefinition)
            | Some d \<Rightarrow>
                (case parse_content (rm_content d) (Some name) of
                   Inl e \<Rightarrow> Some (Inl e)
                 | Inr parsed \<Rightarrow>
                     (case validate_sources env morse d parsed of
                        Inl e \<Rightarrow> Some (Inl e)
                      | Inr _ \<Rightarrow> compile_loop env defs morse ((name, parsed) # tokens) sizes (name # visiting)
                                   (push_references parsed ((name, True) # work))))))"
  by pat_completeness auto
termination
proof (relation "measures [\<lambda>(env, defs, morse, tokens, sizes, visiting, work). card (fst ` set defs - (fst ` set sizes \<union> set visiting)),
    \<lambda>(env, defs, morse, tokens, sizes, visiting, work). length work]", goal_cases)
  case 1
  show ?case by simp
next
  case (2 env defs morse tokens sizes visiting name finish work)
  have "card (fst ` set defs - (insert name (fst ` set sizes) \<union> set (removeAll name visiting)))
      \<le> card (fst ` set defs - (fst ` set sizes \<union> set visiting))"
    by (rule card_mono) auto
  then show ?case by (simp add: le_less)
next
  case (3 env defs morse tokens sizes visiting name finish work)
  then show ?case by simp
next
  case (4 env defs morse tokens sizes visiting name finish work d)
  have "name \<in> fst ` set defs - (fst ` set sizes \<union> set visiting)"
    using 4 by (auto simp: map_of_eq_None_iff dest: map_of_SomeD intro: rev_image_eqI)
  then have "card (fst ` set defs - (fst ` set sizes \<union> set (name # visiting))) < card (fst ` set defs - (fst ` set sizes \<union> set visiting))"
    by (intro psubset_card_mono) auto
  then show ?case by simp
qed

section \<open>Expansion\<close>

definition copy_text :: "'f Env \<Rightarrow> string \<Rightarrow> CompositionError + string" where
  "copy_text env text = (if en_reserve_text env (length text) then Inr text else Inl CeTooLarge)"

fun copy_name :: "'f Env \<Rightarrow> string option \<Rightarrow> CompositionError + string option" where
  "copy_name env None = Inr None"
| "copy_name env (Some name) = (case copy_text env name of Inl e \<Rightarrow> Inl e | Inr n \<Rightarrow> Inr (Some n))"

fun copy_segment :: "'f Env \<Rightarrow> Segment \<Rightarrow> CompositionError + Segment" where
  "copy_segment env (SgLiteral text owner) =
     (case copy_text env text of
        Inl e \<Rightarrow> Inl e
      | Inr t \<Rightarrow> (case copy_name env owner of Inl e \<Rightarrow> Inl e | Inr n \<Rightarrow> Inr (SgLiteral t n)))"
| "copy_segment env (SgMessage name) = (case copy_name env name of Inl e \<Rightarrow> Inl e | Inr n \<Rightarrow> Inr (SgMessage n))"
| "copy_segment env (SgMedia name) = (case copy_name env name of Inl e \<Rightarrow> Inl e | Inr n \<Rightarrow> Inr (SgMedia n))"
| "copy_segment env (SgTone name) = (case copy_name env name of Inl e \<Rightarrow> Inl e | Inr n \<Rightarrow> Inr (SgTone n))"

text \<open>The stack of partly consumed token lists, its top first.\<close>

partial_function (option) expand_loop ::
    "'f Env \<Rightarrow> (string \<times> Token list) list \<Rightarrow> Token list list \<Rightarrow> Segment list \<Rightarrow> (CompositionError + Segment list) option" where
  "expand_loop env tokens stack segments =
     (case stack of
        [] \<Rightarrow> Some (Inr segments)
      | current # below \<Rightarrow>
          (case current of
             [] \<Rightarrow> expand_loop env tokens below segments
           | token # rest \<Rightarrow>
               (case token of
                  TkReference name \<Rightarrow>
                    (case map_of tokens name of
                       None \<Rightarrow> None
                     | Some body \<Rightarrow> expand_loop env tokens (body # rest # below) segments)
                | TkSegment segment \<Rightarrow>
                    (case copy_segment env segment of
                       Inl e \<Rightarrow> Some (Inl e)
                     | Inr copied \<Rightarrow> expand_loop env tokens (rest # below) (segments @ [copied])))))"

definition compile :: "'f Env \<Rightarrow> 'f MessageSettings \<Rightarrow> 'f definitions \<Rightarrow> MorseRequirement \<Rightarrow> (CompositionError + 'f Composition) option" where
  "compile env invoking defs morse =
     (case parse_content (rm_content invoking) None of
        Inl e \<Rightarrow> Some (Inl e)
      | Inr root \<Rightarrow>
          (case validate_sources env morse invoking root of
             Inl e \<Rightarrow> Some (Inl e)
           | Inr _ \<Rightarrow>
               (case compile_loop env defs morse [] [] [] (push_references root []) of
                  None \<Rightarrow> None
                | Some (Inl e) \<Rightarrow> Some (Inl e)
                | Some (Inr (tokens, sizes)) \<Rightarrow>
                    (case measure_tokens env sizes root of
                       None \<Rightarrow> None
                     | Some (Inl e) \<Rightarrow> Some (Inl e)
                     | Some (Inr sz) \<Rightarrow>
                         if \<not> en_reserve_segments env (sz_segments sz) then Some (Inl CeTooLarge)
                         else (case expand_loop env tokens [root] [] of
                                 None \<Rightarrow> None
                               | Some (Inl e) \<Rightarrow> Some (Inl e)
                               | Some (Inr segments) \<Rightarrow>
                                   Some (Inr \<lparr>cp_segments = segments, cp_invoking = invoking, cp_definitions = defs\<rparr>))))))"

definition settings_for :: "'f Composition \<Rightarrow> string option \<Rightarrow> 'f MessageSettings option" where
  "settings_for c owner = (case owner of None \<Rightarrow> Some (cp_invoking c) | Some name \<Rightarrow> map_of (cp_definitions c) name)"

section \<open>What content means\<close>

text \<open>The usable body of a definition, and the recursive reading of references.\<close>

definition body_of :: "'f Env \<Rightarrow> 'f definitions \<Rightarrow> MorseRequirement \<Rightarrow> string \<Rightarrow> Token list option" where
  "body_of env defs morse name =
     (case map_of defs name of
        None \<Rightarrow> None
      | Some d \<Rightarrow>
          (case parse_content (rm_content d) (Some name) of
             Inl _ \<Rightarrow> None
           | Inr parsed \<Rightarrow> if list_all (source_valid env morse d) parsed then Some parsed else None))"

inductive expands :: "(string \<Rightarrow> Token list option) \<Rightarrow> Token list \<Rightarrow> Segment list \<Rightarrow> bool" for body where
  Nil: "expands body [] []"
| Segment: "expands body tokens segments \<Longrightarrow> expands body (TkSegment s # tokens) (s # segments)"
| Reference: "body name = Some inner \<Longrightarrow> expands body inner segments1 \<Longrightarrow> expands body tokens segments2 \<Longrightarrow>
    expands body (TkReference name # tokens) (segments1 @ segments2)"

inductive_cases expands_NilE: "expands body [] segments"
inductive_cases expands_SegmentE: "expands body (TkSegment s # tokens) segments"
inductive_cases expands_ReferenceE: "expands body (TkReference name # tokens) segments"

definition refers :: "(string \<Rightarrow> Token list option) \<Rightarrow> (string \<times> string) set" where
  "refers body = {(n, m). \<exists>tokens. body n = Some tokens \<and> m \<in> set (references tokens)}"

lemma expands_mono: "expands body tokens segments \<Longrightarrow> (\<And>n t. body n = Some t \<Longrightarrow> body' n = Some t) \<Longrightarrow> expands body' tokens segments"
  by (induction rule: expands.induct) (auto intro: expands.intros)

lemma expands_unique: "expands body tokens s \<Longrightarrow> expands body tokens s' \<Longrightarrow> s' = s"
proof (induction arbitrary: s' rule: expands.induct)
  case Nil
  from Nil.prems show ?case by (rule expands_NilE)
next
  case (Segment tokens segments s)
  from Segment.prems show ?case by (rule expands_SegmentE) (simp add: Segment.IH)
next
  case (Reference name inner segments1 tokens segments2)
  from Reference.prems obtain inner' s1 s2 where "body name = Some inner'" "expands body inner' s1" "expands body tokens s2" "s' = s1 @ s2"
    by (rule expands_ReferenceE)
  then show ?case using Reference.hyps(1) Reference.IH by simp
qed

text \<open>A text that expands refers to no cycle.\<close>

lemma expands_acc: "expands body tokens segments \<Longrightarrow> \<forall>m \<in> set (references tokens). m \<in> Wellfounded.acc ((refers body)\<inverse>)"
proof (induction rule: expands.induct)
  case (Reference name inner segments1 tokens segments2)
  have "name \<in> Wellfounded.acc ((refers body)\<inverse>)"
    by (rule accI) (use Reference.hyps(1) Reference.IH(1) in \<open>auto simp: refers_def\<close>)
  then show ?case using Reference by simp
qed simp_all

lemma acc_no_cycle: "x \<in> Wellfounded.acc r \<Longrightarrow> (x, x) \<notin> r\<^sup>+"
proof (induction rule: acc.induct)
  case (accI x)
  show ?case
  proof
    assume "(x, x) \<in> r\<^sup>+"
    then obtain y where y: "(x, y) \<in> r\<^sup>*" "(y, x) \<in> r" by (meson tranclD2)
    then have "(y, y) \<in> r\<^sup>+" by (meson rtrancl_into_trancl2)
    then show False using accI y(2) by blast
  qed
qed

section \<open>The expansion loop\<close>

lemma copy_name_cases: "copy_name env n = Inr n \<or> copy_name env n = Inl CeTooLarge"
  by (cases n) (auto simp: copy_text_def)

lemma copy_segment_cases: "copy_segment env s = Inr s \<or> copy_segment env s = Inl CeTooLarge"
proof (cases s)
  case (SgLiteral t owner)
  then show ?thesis using copy_name_cases [of env owner] by (auto simp: copy_text_def)
next
  case (SgMessage n)
  then show ?thesis using copy_name_cases [of env n] by auto
next
  case (SgMedia n)
  then show ?thesis using copy_name_cases [of env n] by auto
next
  case (SgTone n)
  then show ?thesis using copy_name_cases [of env n] by auto
qed

lemma expand_loop_simps [simp]:
  "expand_loop env tokens [] segments = Some (Inr segments)"
  "expand_loop env tokens ([] # below) segments = expand_loop env tokens below segments"
  "expand_loop env tokens ((TkReference name # rest) # below) segments =
     (case map_of tokens name of None \<Rightarrow> None | Some body \<Rightarrow> expand_loop env tokens (body # rest # below) segments)"
  "expand_loop env tokens ((TkSegment segment # rest) # below) segments =
     (case copy_segment env segment of Inl e \<Rightarrow> Some (Inl e) | Inr copied \<Rightarrow> expand_loop env tokens (rest # below) (segments @ [copied]))"
  by (subst expand_loop.simps, simp)+

definition copyable :: "'f Env \<Rightarrow> Segment \<Rightarrow> bool" where
  "copyable env s \<longleftrightarrow> copy_segment env s = Inr s"

lemma expand_loop_expands:
  "expands (map_of tokens) toks segs \<Longrightarrow>
   expand_loop env tokens (toks # below) segments =
     (if list_all (copyable env) segs then expand_loop env tokens below (segments @ segs) else Some (Inl CeTooLarge))"
proof (induction arbitrary: below segments rule: expands.induct)
  case (Segment toks segs s)
  then show ?case using copy_segment_cases [of env s] by (auto simp: copyable_def)
qed simp_all

section \<open>Sizes\<close>

definition name_bytes :: "string option \<Rightarrow> nat" where
  "name_bytes name = (case name of None \<Rightarrow> 0 | Some n \<Rightarrow> length n)"

fun payload :: "Segment \<Rightarrow> nat" where
  "payload (SgLiteral text owner) = length text + name_bytes owner"
| "payload (SgMessage name) = name_bytes name"
| "payload (SgMedia name) = name_bytes name"
| "payload (SgTone name) = name_bytes name"

definition memory :: "'f Env \<Rightarrow> Segment list \<Rightarrow> nat" where
  "memory env segs = (\<Sum>s\<leftarrow>segs. en_segment_size env + payload s)"

definition exact_size :: "'f Env \<Rightarrow> Segment list \<Rightarrow> Size" where
  "exact_size env segs = \<lparr>sz_segments = length segs, sz_bytes = memory env segs\<rparr>"

lemma segment_size: "token_size env sizes (TkSegment s) = Some (Inr sz) \<Longrightarrow> sz = exact_size env [s]"
  by (cases s) (auto simp: exact_size_def memory_def name_bytes_def checked_add_def bind_eq_Some_conv split: option.splits if_splits)

lemma segment_size_cases: "\<exists>r. token_size env sizes (TkSegment s) = Some r \<and> (\<forall>e. r = Inl e \<longrightarrow> e = CeTooLarge)"
  by (auto split: option.split)

lemma add_size_cases:
  "add_size a b = Inl CeTooLarge \<or>
   add_size a b = Inr \<lparr>sz_segments = sz_segments a + sz_segments b, sz_bytes = sz_bytes a + sz_bytes b\<rparr> \<and> sz_bytes a + sz_bytes b \<le> 2 ^ 63 - 1"
  by (auto simp: add_size_def checked_add_def split: option.splits if_splits)

definition sizes_ok :: "'f Env \<Rightarrow> (string \<times> Token list) list \<Rightarrow> (string \<times> Size) list \<Rightarrow> bool" where
  "sizes_ok env tokens sizes \<longleftrightarrow> (\<forall>m sz. map_of sizes m = Some sz \<longrightarrow>
     (\<exists>inner segs. map_of tokens m = Some inner \<and> expands (map_of tokens) inner segs \<and> sz = exact_size env segs))"

lemma measure_from_exact:
  assumes "sizes_ok env tokens sizes" "\<forall>m \<in> set (references toks). map_of sizes m \<noteq> None" "sz_bytes a \<le> 2 ^ 63 - 1"
  shows "measure_from env sizes a toks = Some (Inl CeTooLarge) \<or>
    (\<exists>segs. expands (map_of tokens) toks segs \<and> sz_bytes a + memory env segs \<le> 2 ^ 63 - 1 \<and>
       measure_from env sizes a toks = Some (Inr \<lparr>sz_segments = sz_segments a + length segs, sz_bytes = sz_bytes a + memory env segs\<rparr>))"
  using assms(2,3)
proof (induction toks arbitrary: a)
  case Nil
  then show ?case by (auto simp: memory_def intro!: expands.intros)
next
  case (Cons t toks)
  have "token_size env sizes t = Some (Inl CeTooLarge) \<or>
    (\<exists>segs. token_size env sizes t = Some (Inr (exact_size env segs))
       \<and> (\<forall>more. expands (map_of tokens) toks more \<longrightarrow> expands (map_of tokens) (t # toks) (segs @ more)))"
  proof (cases t)
    case (TkSegment s)
    obtain r where r: "token_size env sizes (TkSegment s) = Some r" "\<forall>e. r = Inl e \<longrightarrow> e = CeTooLarge"
      using segment_size_cases by blast
    show ?thesis
    proof (cases r)
      case (Inr sz)
      then have "token_size env sizes (TkSegment s) = Some (Inr (exact_size env [s]))"
        using segment_size [of env sizes s sz] r(1) by simp
      then show ?thesis unfolding TkSegment by (intro disjI2 exI [of _ "[s]"]) (simp del: token_size.simps add: expands.Segment)
    qed (use r TkSegment in simp)
  next
    case (TkReference m)
    obtain sz where "map_of sizes m = Some sz" using Cons.prems(1) TkReference by auto
    then obtain inner segs where "map_of tokens m = Some inner" "expands (map_of tokens) inner segs" "sz = exact_size env segs"
      using assms(1) unfolding sizes_ok_def by blast
    then show ?thesis
      using \<open>map_of sizes m = Some sz\<close> TkReference by (intro disjI2 exI [of _ segs]) (simp add: expands.Reference)
  qed
  then consider (large) "token_size env sizes t = Some (Inl CeTooLarge)"
    | (sized) segs where "token_size env sizes t = Some (Inr (exact_size env segs))"
        "\<And>more. expands (map_of tokens) toks more \<Longrightarrow> expands (map_of tokens) (t # toks) (segs @ more)" by blast
  then show ?case
  proof cases
    case (sized segs)
    let ?a = "\<lparr>sz_segments = sz_segments a + length segs, sz_bytes = sz_bytes a + memory env segs\<rparr>"
    have refs: "\<forall>m \<in> set (references toks). map_of sizes m \<noteq> None" using Cons.prems(1) by (cases t) auto
    show ?thesis
    proof (cases "add_size a (exact_size env segs) = Inl CeTooLarge")
      case False
      then have add: "add_size a (exact_size env segs) = Inr ?a" "sz_bytes ?a \<le> 2 ^ 63 - 1"
        using add_size_cases [of a "exact_size env segs"] by (auto simp: exact_size_def)
      from Cons.IH [OF refs add(2)] show ?thesis
      proof
        assume "\<exists>more. expands (map_of tokens) toks more \<and> sz_bytes ?a + memory env more \<le> 2 ^ 63 - 1 \<and>
          measure_from env sizes ?a toks = Some (Inr \<lparr>sz_segments = sz_segments ?a + length more, sz_bytes = sz_bytes ?a + memory env more\<rparr>)"
        then obtain more where m: "expands (map_of tokens) toks more" "sz_bytes ?a + memory env more \<le> 2 ^ 63 - 1"
          "measure_from env sizes ?a toks = Some (Inr \<lparr>sz_segments = sz_segments ?a + length more, sz_bytes = sz_bytes ?a + memory env more\<rparr>)"
          by blast
        show ?thesis
          by (intro disjI2 exI [of _ "segs @ more"] conjI sized(2) m(1)) (use m(2,3) sized(1) add(1) in \<open>simp_all add: memory_def\<close>)
      qed (use sized(1) add(1) in simp)
    qed (use sized(1) in simp)
  qed simp
qed

lemma measure_exact:
  assumes "sizes_ok env tokens sizes" "\<forall>m \<in> set (references toks). map_of sizes m \<noteq> None"
  shows "measure_tokens env sizes toks = Some (Inl CeTooLarge) \<or>
    (\<exists>segs. expands (map_of tokens) toks segs \<and> memory env segs \<le> 2 ^ 63 - 1 \<and>
       measure_tokens env sizes toks = Some (Inr (exact_size env segs)))"
  using measure_from_exact [OF assms, of "\<lparr>sz_segments = 0, sz_bytes = 0\<rparr>"]
  by (auto simp: measure_tokens_def exact_size_def)

section \<open>The work list\<close>

text \<open>What is wrong with a definition, if anything.\<close>

definition defect :: "'f Env \<Rightarrow> 'f definitions \<Rightarrow> MorseRequirement \<Rightarrow> string \<Rightarrow> CompositionError option" where
  "defect env defs morse name =
     (case map_of defs name of
        None \<Rightarrow> Some CeMissingDefinition
      | Some d \<Rightarrow>
          (case parse_content (rm_content d) (Some name) of
             Inl e \<Rightarrow> Some e
           | Inr parsed \<Rightarrow> if list_all (source_valid env morse d) parsed then None else Some CeMissingDefinition))"

definition reachable :: "(string \<Rightarrow> Token list option) \<Rightarrow> Token list \<Rightarrow> string \<Rightarrow> bool" where
  "reachable body root m \<longleftrightarrow> (\<exists>k \<in> set (references root). (k, m) \<in> (refers body)\<^sup>*)"

definition justified :: "'f Env \<Rightarrow> 'f definitions \<Rightarrow> MorseRequirement \<Rightarrow> Token list \<Rightarrow> CompositionError \<Rightarrow> bool" where
  "justified env defs morse root e \<longleftrightarrow> e = CeTooLarge
     \<or> (e = CeCycle \<and> (\<exists>n. reachable (body_of env defs morse) root n \<and> (n, n) \<in> (refers (body_of env defs morse))\<^sup>+))
     \<or> (\<exists>n. reachable (body_of env defs morse) root n \<and> defect env defs morse n = Some e)"

text \<open>A name waiting below a marked one is not its concern; those above it are what it refers to.\<close>

definition stack_ok :: "(string \<Rightarrow> Token list option) \<Rightarrow> (string \<times> Size) list \<Rightarrow> (string \<times> bool) list \<Rightarrow> bool" where
  "stack_ok body sizes work \<longleftrightarrow> (\<forall>xs n ys. work = xs @ (n, True) # ys \<longrightarrow>
     (\<exists>inner. body n = Some inner \<and> (\<forall>m \<in> set (references inner). map_of sizes m \<noteq> None \<or> m \<in> fst ` set xs))
     \<and> (\<forall>m \<in> fst ` set xs. (n, m) \<in> (refers body)\<^sup>+))"

definition work_ok ::
    "'f Env \<Rightarrow> 'f definitions \<Rightarrow> MorseRequirement \<Rightarrow> Token list \<Rightarrow> (string \<times> Token list) list \<Rightarrow> (string \<times> Size) list
     \<Rightarrow> string list \<Rightarrow> (string \<times> bool) list \<Rightarrow> bool" where
  "work_ok env defs morse root tokens sizes visiting work \<longleftrightarrow>
     (let body = body_of env defs morse in
      (\<forall>n t. map_of tokens n = Some t \<longrightarrow> body n = Some t)
      \<and> sizes_ok env tokens sizes
      \<and> visiting = map fst (filter snd work) \<and> distinct visiting
      \<and> (\<forall>n. map_of tokens n \<noteq> None \<longleftrightarrow> map_of sizes n \<noteq> None \<or> n \<in> set visiting)
      \<and> (\<forall>n \<in> set visiting. map_of sizes n = None)
      \<and> stack_ok body sizes work
      \<and> (\<forall>m \<in> set (references root). map_of sizes m \<noteq> None \<or> m \<in> fst ` set work)
      \<and> (\<forall>m \<in> fst ` set work. reachable body root m))"

definition loop_result :: "'f Env \<Rightarrow> 'f definitions \<Rightarrow> MorseRequirement \<Rightarrow> Token list
    \<Rightarrow> (CompositionError + (string \<times> Token list) list \<times> (string \<times> Size) list) option \<Rightarrow> bool" where
  "loop_result env defs morse root r =
     (case r of
        None \<Rightarrow> False
      | Some (Inl e) \<Rightarrow> justified env defs morse root e
      | Some (Inr (tokens, sizes)) \<Rightarrow>
          (\<forall>n t. map_of tokens n = Some t \<longrightarrow> body_of env defs morse n = Some t) \<and> sizes_ok env tokens sizes
          \<and> (\<forall>m \<in> set (references root). map_of sizes m \<noteq> None))"

lemma split_past:
  "new @ x # work = xs @ y # ys \<Longrightarrow> y \<notin> set new \<Longrightarrow>
   xs = new \<and> y = x \<and> ys = work \<or> (\<exists>xs'. xs = new @ x # xs' \<and> work = xs' @ y # ys)"
proof (induction new arbitrary: xs)
  case Nil
  then show ?case by (cases xs) auto
next
  case (Cons a new)
  then show ?case by (cases xs) auto
qed

lemma stack_ok_pop:
  assumes "stack_ok body sizes ((name, b) # work)" "\<And>m. map_of sizes m \<noteq> None \<Longrightarrow> map_of sizes' m \<noteq> None" "map_of sizes' name \<noteq> None"
  shows "stack_ok body sizes' work"
  unfolding stack_ok_def
proof (intro allI impI)
  fix xs n ys
  assume "work = xs @ (n, True) # ys"
  then have "(name, b) # work = ((name, b) # xs) @ (n, True) # ys" by simp
  from assms(1) [unfolded stack_ok_def, rule_format, OF this] assms(2,3)
  show "(\<exists>inner. body n = Some inner \<and> (\<forall>m \<in> set (references inner). map_of sizes' m \<noteq> None \<or> m \<in> fst ` set xs))
     \<and> (\<forall>m \<in> fst ` set xs. (n, m) \<in> (refers body)\<^sup>+)"
    by fastforce
qed

lemma stack_ok_push:
  assumes "stack_ok body sizes ((name, False) # work)" "body name = Some parsed"
  shows "stack_ok body sizes (push_references parsed ((name, True) # work))"
  unfolding stack_ok_def
proof (intro allI impI)
  fix xs n ys
  let ?new = "rev (map (\<lambda>name. (name, False)) (references parsed))"
  assume eq: "push_references parsed ((name, True) # work) = xs @ (n, True) # ys"
  have fs: "fst ` set ?new = set (references parsed)" by (simp add: image_image)
  have refs: "(name, m) \<in> refers body" if "m \<in> set (references parsed)" for m
    using assms(2) that by (auto simp: refers_def)
  have "(n, True) \<notin> set ?new" by auto
  then consider (here) "xs = ?new" "n = name" "ys = work"
    | (below) xs' where "xs = ?new @ (name, True) # xs'" "work = xs' @ (n, True) # ys"
    using split_past [OF eq [unfolded push_references_def]] by blast
  then show "(\<exists>inner. body n = Some inner \<and> (\<forall>m \<in> set (references inner). map_of sizes m \<noteq> None \<or> m \<in> fst ` set xs))
     \<and> (\<forall>m \<in> fst ` set xs. (n, m) \<in> (refers body)\<^sup>+)"
  proof cases
    case here
    then show ?thesis using assms(2) fs refs by auto
  next
    case below
    then have "(name, False) # work = ((name, False) # xs') @ (n, True) # ys" by simp
    from assms(1) [unfolded stack_ok_def, rule_format, OF this]
    have old: "\<exists>inner. body n = Some inner \<and> (\<forall>m \<in> set (references inner). map_of sizes m \<noteq> None \<or> m \<in> insert name (fst ` set xs'))"
      "\<forall>m \<in> insert name (fst ` set xs'). (n, m) \<in> (refers body)\<^sup>+" by simp_all
    have "(n, m) \<in> (refers body)\<^sup>+" if "m \<in> set (references parsed)" for m
      using old(2) refs [OF that] by (auto intro: trancl_into_trancl)
    then show ?thesis using old fs unfolding below(1) by (auto simp: image_Un)
  qed
qed

lemma work_okD:
  assumes "work_ok env defs morse root tokens sizes visiting work"
  shows "\<And>n t. map_of tokens n = Some t \<Longrightarrow> body_of env defs morse n = Some t" "sizes_ok env tokens sizes"
    "visiting = map fst (filter snd work)" "distinct visiting"
    "\<And>n. map_of tokens n \<noteq> None \<longleftrightarrow> map_of sizes n \<noteq> None \<or> n \<in> set visiting"
    "\<And>n. n \<in> set visiting \<Longrightarrow> map_of sizes n = None" "stack_ok (body_of env defs morse) sizes work"
    "\<And>m. m \<in> set (references root) \<Longrightarrow> map_of sizes m \<noteq> None \<or> m \<in> fst ` set work"
    "\<And>m. m \<in> fst ` set work \<Longrightarrow> reachable (body_of env defs morse) root m"
  using assms unfolding work_ok_def Let_def by blast+

lemma work_okI:
  assumes "\<And>n t. map_of tokens n = Some t \<Longrightarrow> body_of env defs morse n = Some t" "sizes_ok env tokens sizes"
    "visiting = map fst (filter snd work)" "distinct visiting"
    "\<And>n. map_of tokens n \<noteq> None \<longleftrightarrow> map_of sizes n \<noteq> None \<or> n \<in> set visiting"
    "\<And>n. n \<in> set visiting \<Longrightarrow> map_of sizes n = None" "stack_ok (body_of env defs morse) sizes work"
    "\<And>m. m \<in> set (references root) \<Longrightarrow> map_of sizes m \<noteq> None \<or> m \<in> fst ` set work"
    "\<And>m. m \<in> fst ` set work \<Longrightarrow> reachable (body_of env defs morse) root m"
  shows "work_ok env defs morse root tokens sizes visiting work"
  unfolding work_ok_def Let_def by (intro conjI allI ballI impI assms)

lemma work_ok_skip:
  assumes "work_ok env defs morse root tokens sizes visiting ((name, False) # work)" "map_of sizes name \<noteq> None"
  shows "work_ok env defs morse root tokens sizes visiting work"
proof -
  note inv = work_okD [OF assms(1)]
  show ?thesis
  proof (rule work_okI)
    show "stack_ok (body_of env defs morse) sizes work"
      by (rule stack_ok_pop [OF inv(7) _ assms(2)])
    show "map_of sizes m \<noteq> None \<or> m \<in> fst ` set work" if "m \<in> set (references root)" for m
      using inv(8) [OF that] assms(2) by auto
  qed (use inv assms(2) in auto)
qed

lemma work_ok_finish:
  assumes "work_ok env defs morse root tokens sizes visiting ((name, True) # work)"
    "map_of tokens name = Some inner" "expands (map_of tokens) inner segs"
  shows "work_ok env defs morse root tokens ((name, exact_size env segs) # sizes) (removeAll name visiting) work"
proof -
  note inv = work_okD [OF assms(1)]
  have vis: "removeAll name visiting = map fst (filter snd work)"
    using inv(3,4) by simp
  show ?thesis
  proof (rule work_okI)
    show "stack_ok (body_of env defs morse) ((name, exact_size env segs) # sizes) work"
      by (rule stack_ok_pop [OF inv(7)]) auto
    show "sizes_ok env tokens ((name, exact_size env segs) # sizes)"
      using inv(2) assms(2,3) by (auto simp: sizes_ok_def)
    show "map_of ((name, exact_size env segs) # sizes) m \<noteq> None \<or> m \<in> fst ` set work" if "m \<in> set (references root)" for m
      using inv(8) [OF that] by auto
  qed (use inv vis in \<open>auto split: if_splits\<close>)
qed

lemma work_ok_push:
  assumes "work_ok env defs morse root tokens sizes visiting ((name, False) # work)"
    "body_of env defs morse name = Some parsed" "map_of sizes name = None" "name \<notin> set visiting"
  shows "work_ok env defs morse root ((name, parsed) # tokens) sizes (name # visiting) (push_references parsed ((name, True) # work))"
proof -
  note inv = work_okD [OF assms(1)]
  have fresh: "map_of tokens name = None" using inv(5) assms(3,4) by blast
  have set: "fst ` set (push_references parsed ((name, True) # work)) = set (references parsed) \<union> fst ` set ((name, False) # work)"
    by (simp add: push_references_def image_Un image_image)
  have "(name, m) \<in> refers (body_of env defs morse)" if "m \<in> set (references parsed)" for m
    using assms(2) that by (auto simp: refers_def)
  moreover have "reachable (body_of env defs morse) root name" using inv(9) by simp
  ultimately have reach: "reachable (body_of env defs morse) root m" if "m \<in> set (references parsed)" for m
    using that by (auto simp: reachable_def intro: rtrancl_into_rtrancl)
  show ?thesis
  proof (rule work_okI)
    show "stack_ok (body_of env defs morse) sizes (push_references parsed ((name, True) # work))"
      by (rule stack_ok_push [OF inv(7) assms(2)])
    have "expands (map_of ((name, parsed) # tokens)) inner segs" if "expands (map_of tokens) inner segs" for inner segs
      using that by (rule expands_mono) (use fresh in auto)
    then show "sizes_ok env ((name, parsed) # tokens) sizes"
      using inv(2) fresh unfolding sizes_ok_def by fastforce
    show "reachable (body_of env defs morse) root m" if "m \<in> fst ` set (push_references parsed ((name, True) # work))" for m
      using that inv(9) [of m] reach unfolding set by auto
    show "map_of sizes m \<noteq> None \<or> m \<in> fst ` set (push_references parsed ((name, True) # work))" if "m \<in> set (references root)" for m
      using inv(8) [OF that] unfolding set by auto
    show "name # visiting = map fst (filter snd (push_references parsed ((name, True) # work)))"
    proof -
      have "filter snd (rev (map (\<lambda>name. (name, False)) (references parsed))) = []" by (auto simp: filter_empty_conv)
      then show ?thesis using inv(3) by (simp add: push_references_def)
    qed
    show "map_of sizes n = None" if "n \<in> set (name # visiting)" for n
      using that inv(6) [of n] assms(3) by auto
  qed (use inv assms in \<open>auto split: if_splits\<close>)
qed

lemma parse_loop_error: "parse_loop owner result literal content = Inl e \<Longrightarrow> e = CeSyntax \<or> e = CeTooLarge"
  by (induction owner result literal content rule: parse_loop.induct)
    (auto simp: flush_literal_def token_of_def Let_def split: if_splits option.splits sum.splits prod.splits)

lemma compile_loop_ok:
  "work_ok env defs morse root tokens sizes visiting work \<Longrightarrow>
   loop_result env defs morse root (compile_loop env defs morse tokens sizes visiting work)"
proof (induction env defs morse tokens sizes visiting work rule: compile_loop.induct)
  case (1 env defs morse tokens sizes visiting)
  then show ?case by (simp add: loop_result_def work_ok_def Let_def)
next
  case (2 env defs morse tokens sizes visiting name finish work)
  let ?body = "body_of env defs morse"
  note inv = work_okD [OF "2.prems"]
  consider (finish) "finish" | (seen) "\<not> finish" "map_of sizes name \<noteq> None" | (cycle) "\<not> finish" "map_of sizes name = None" "name \<in> set visiting"
    | (fresh) "\<not> finish" "map_of sizes name = None" "name \<notin> set visiting" by blast
  then show ?case
  proof cases
    case finish
    then have "name \<in> set visiting" using inv(3) by simp
    then obtain inner where inner: "map_of tokens name = Some inner" using inv(5) [of name] by fastforce
    have "\<forall>m \<in> set (references inner). map_of sizes m \<noteq> None"
      using inv(7) [unfolded stack_ok_def, rule_format, of "[]" name work] finish inv(1) inner by auto
    from measure_exact [OF inv(2) this] show ?thesis
    proof
      assume "measure_tokens env sizes inner = Some (Inl CeTooLarge)"
      then show ?thesis using finish inner by (simp add: loop_result_def justified_def)
    next
      assume "\<exists>segs. expands (map_of tokens) inner segs \<and> memory env segs \<le> 2 ^ 63 - 1
         \<and> measure_tokens env sizes inner = Some (Inr (exact_size env segs))"
      then obtain segs where m: "expands (map_of tokens) inner segs" "measure_tokens env sizes inner = Some (Inr (exact_size env segs))"
        by blast
      have "work_ok env defs morse root tokens ((name, exact_size env segs) # sizes) (removeAll name visiting) work"
        using work_ok_finish [OF _ inner m(1)] "2.prems" finish by simp
      then show ?thesis using "2.IH"(1) [OF finish inner m(2) refl] finish inner m(2) by simp
    qed
  next
    case seen
    then have "work_ok env defs morse root tokens sizes visiting work"
      using work_ok_skip "2.prems" by simp
    then show ?thesis using "2.IH"(2) seen by simp
  next
    case cycle
    then have "(name, True) \<in> set work" using inv(3) by auto
    then obtain xs ys where "work = xs @ (name, True) # ys" by (meson split_list)
    then have "(name, finish) # work = ((name, finish) # xs) @ (name, True) # ys" by simp
    from inv(7) [unfolded stack_ok_def, rule_format, OF this] have "(name, name) \<in> (refers ?body)\<^sup>+" by simp
    then show ?thesis using cycle inv(9) by (auto simp: loop_result_def justified_def)
  next
    case fresh
    have reach: "reachable ?body root name" using inv(9) by simp
    show ?thesis
    proof (cases "defect env defs morse name")
      case (Some e)
      then have "compile_loop env defs morse tokens sizes visiting ((name, finish) # work) = Some (Inl e)"
        using fresh by (auto simp: defect_def validate_sources_def split: option.splits sum.splits if_splits)
      then show ?thesis using Some reach by (auto simp: loop_result_def justified_def simp del: compile_loop.simps)
    next
      case None
      then obtain d parsed where d: "map_of defs name = Some d" "parse_content (rm_content d) (Some name) = Inr parsed"
        "validate_sources env morse d parsed = Inr ()" "?body name = Some parsed"
        by (auto simp: defect_def validate_sources_def body_of_def split: option.splits sum.splits if_splits)
      have "work_ok env defs morse root ((name, parsed) # tokens) sizes (name # visiting) (push_references parsed ((name, True) # work))"
        using work_ok_push [OF _ d(4) fresh(2,3)] "2.prems" fresh(1) by simp
      then show ?thesis using "2.IH"(3) [of d parsed "()"] fresh d(1-3) by simp
    qed
  qed
qed

section \<open>The compiler\<close>

lemma start_ok: "work_ok env defs morse root [] [] [] (push_references root [])"
proof (rule work_okI)
  show "[] = map fst (filter snd (push_references root []))"
    by (auto simp: push_references_def filter_empty_conv)
  show "stack_ok (body_of env defs morse) [] (push_references root [])"
    unfolding stack_ok_def
  proof (intro allI impI)
    fix xs n ys
    assume eq: "push_references root [] = xs @ (n, True) # ys"
    have "(n, True) \<in> set (push_references root [])" unfolding eq by simp
    then show "(\<exists>inner. body_of env defs morse n = Some inner \<and> (\<forall>m \<in> set (references inner). map_of [] m \<noteq> None \<or> m \<in> fst ` set xs))
      \<and> (\<forall>m \<in> fst ` set xs. (n, m) \<in> (refers (body_of env defs morse))\<^sup>+)" by (auto simp: push_references_def)
  qed
qed (auto simp: sizes_ok_def push_references_def reachable_def image_image)

text \<open>Everything a run of the compiler can end in.\<close>

lemma compile_cases:
  obtains (parse) e where "parse_content (rm_content invoking) None = Inl e" "compile env invoking defs morse = Some (Inl e)"
  | (sources) root where "parse_content (rm_content invoking) None = Inr root" "\<not> list_all (source_valid env morse invoking) root"
      "compile env invoking defs morse = Some (Inl CeMissingDefinition)"
  | (inner) root e where "parse_content (rm_content invoking) None = Inr root" "list_all (source_valid env morse invoking) root"
      "compile env invoking defs morse = Some (Inl e)" "justified env defs morse root e"
  | (good) root tokens segs where "parse_content (rm_content invoking) None = Inr root" "list_all (source_valid env morse invoking) root"
      "\<And>n t. map_of tokens n = Some t \<Longrightarrow> body_of env defs morse n = Some t"
      "expands (map_of tokens) root segs" "memory env segs \<le> 2 ^ 63 - 1" "en_reserve_segments env (length segs)"
      "list_all (copyable env) segs"
      "compile env invoking defs morse = Some (Inr \<lparr>cp_segments = segs, cp_invoking = invoking, cp_definitions = defs\<rparr>)"
proof (cases "parse_content (rm_content invoking) None")
  case (Inl e)
  then show ?thesis using that(1) by (simp add: compile_def)
next
  case root: (Inr root)
  show ?thesis
  proof (cases "list_all (source_valid env morse invoking) root")
    case False
    then show ?thesis using that(2) root by (simp add: compile_def validate_sources_def)
  next
    case valid: True
    note inner = that(3) [OF root valid] and good = that(4) [OF root valid]
    note res = compile_loop_ok [OF start_ok, of env defs morse root]
    show ?thesis
    proof (cases "compile_loop env defs morse [] [] [] (push_references root [])")
      case None
      then show ?thesis using res by (simp add: loop_result_def)
    next
      case (Some r)
      show ?thesis
      proof (cases r)
        case (Inl e)
        then show ?thesis using that(3) [OF root valid, of e] res Some root valid
          by (simp add: compile_def validate_sources_def loop_result_def)
      next
        case (Inr ts)
        obtain tokens sizes where ts: "ts = (tokens, sizes)" by fastforce
        have ok: "\<And>n t. map_of tokens n = Some t \<Longrightarrow> body_of env defs morse n = Some t" "sizes_ok env tokens sizes"
          "\<forall>m \<in> set (references root). map_of sizes m \<noteq> None"
          using res by (auto simp: Some Inr ts loop_result_def)
        have large: "?thesis" if "compile env invoking defs morse = Some (Inl CeTooLarge)"
          using inner [OF that] by (simp add: justified_def)
        note unfold = compile_def validate_sources_def
        from measure_exact [OF ok(2,3)] show ?thesis
        proof
          assume "measure_tokens env sizes root = Some (Inl CeTooLarge)"
          then show ?thesis using root valid by (intro large) (simp add: unfold Some Inr ts)
        next
          assume "\<exists>segs. expands (map_of tokens) root segs \<and> memory env segs \<le> 2 ^ 63 - 1
            \<and> measure_tokens env sizes root = Some (Inr (exact_size env segs))"
          then obtain segs where m: "expands (map_of tokens) root segs" "memory env segs \<le> 2 ^ 63 - 1"
            "measure_tokens env sizes root = Some (Inr (exact_size env segs))" by blast
          note e = expand_loop_expands [OF m(1), of env "[]" "[]"]
          show ?thesis
          proof (cases "en_reserve_segments env (length segs) \<and> list_all (copyable env) segs")
            case True
            then show ?thesis
              by (intro good [OF ok(1) m(1,2)]) (use root valid m(3) e in \<open>simp_all add: unfold Some Inr ts exact_size_def\<close>)
          next
            case False
            then show ?thesis
              by (intro large) (use root valid m(3) e in \<open>auto simp: unfold Some Inr ts exact_size_def\<close>)
          qed
        qed
      qed
    qed
  qed
qed

fun owner_of :: "Segment \<Rightarrow> string option" where
  "owner_of (SgLiteral _ owner) = owner"
| "owner_of (SgMessage owner) = owner"
| "owner_of (SgMedia owner) = owner"
| "owner_of (SgTone owner) = owner"

definition owned :: "string option \<Rightarrow> Token list \<Rightarrow> bool" where
  "owned owner = list_all (\<lambda>t. case t of TkSegment s \<Rightarrow> owner_of s = owner | TkReference _ \<Rightarrow> True)"

lemma parse_loop_owned: "parse_loop owner result literal content = Inr tokens \<Longrightarrow> owned owner result \<Longrightarrow> owned owner tokens"
  by (induction owner result literal content rule: parse_loop.induct)
    (auto simp: owned_def flush_literal_def token_of_def Let_def split: if_splits option.splits sum.splits)

lemma body_owned: "body_of env defs morse n = Some t \<Longrightarrow> owned (Some n) t \<and> map_of defs n \<noteq> None"
  by (auto simp: body_of_def parse_content_def owned_def split: option.splits sum.splits if_splits
      intro: parse_loop_owned [unfolded owned_def])

lemma expands_owners:
  "expands body toks segs \<Longrightarrow> owned owner toks \<Longrightarrow> (\<And>n t. body n = Some t \<Longrightarrow> owned (Some n) t) \<Longrightarrow>
   s \<in> set segs \<Longrightarrow> owner_of s = owner \<or> (\<exists>n t. owner_of s = Some n \<and> body n = Some t)"
  by (induction arbitrary: owner rule: expands.induct) (fastforce simp: owned_def)+

text \<open>C21. The compiler always ends. For every invoking definition, every set of definitions (cyclic, incomplete or
  ill-formed), every provider and every allocator, both of its loops end and no lookup of a name panics.\<close>

theorem compile_total: "compile env invoking defs morse \<noteq> None"
  by (rule compile_cases [of invoking env defs morse]) simp_all

text \<open>C20. What is compiled is what the content says. A compiled sequence is the one and only recursive expansion
  of the invoking content over the usable definitions; its length was granted by the allocator before
  any segment was produced and its memory is within the address space; no definition it can reach is
  part of a cycle; and every segment's owner resolves to a definition.\<close>

theorem compile_expands:
  assumes "compile env invoking defs morse = Some (Inr c)" "body = body_of env defs morse"
  shows "\<exists>root. parse_content (rm_content invoking) None = Inr root
     \<and> expands body root (cp_segments c) \<and> (\<forall>segs. expands body root segs \<longrightarrow> segs = cp_segments c)
     \<and> en_reserve_segments env (length (cp_segments c)) \<and> memory env (cp_segments c) < 2 ^ 63
     \<and> (\<forall>n. reachable body root n \<longrightarrow> (n, n) \<notin> (refers body)\<^sup>+)
     \<and> list_all (\<lambda>s. settings_for c (owner_of s) \<noteq> None) (cp_segments c)"
proof (rule compile_cases [of invoking env defs morse])
  fix root tokens segs
  assume g: "parse_content (rm_content invoking) None = Inr root" "\<And>n t. map_of tokens n = Some t \<Longrightarrow> body_of env defs morse n = Some t"
    "expands (map_of tokens) root segs" "memory env segs \<le> 2 ^ 63 - 1" "en_reserve_segments env (length segs)"
    "compile env invoking defs morse = Some (Inr \<lparr>cp_segments = segs, cp_invoking = invoking, cp_definitions = defs\<rparr>)"
  have c: "c = \<lparr>cp_segments = segs, cp_invoking = invoking, cp_definitions = defs\<rparr>" using assms(1) g(6) by simp
  have ex: "expands body root segs" using expands_mono [OF g(3)] g(2) assms(2) by blast
  have own: "owned None root" using parse_loop_owned g(1) by (simp add: parse_content_def owned_def)
  have cs: "cp_segments c = segs" by (simp add: c)
  have own_ok: "settings_for c (owner_of s) \<noteq> None" if "s \<in> set segs" for s
    using expands_owners [OF ex own _ that] body_owned assms(2) c by (fastforce simp: settings_for_def)
  have acyc: "(n, n) \<notin> (refers body)\<^sup>+" if r: "reachable body root n" for n
  proof -
    obtain k where k: "k \<in> set (references root)" "(n, k) \<in> ((refers body)\<inverse>)\<^sup>*"
      using r by (auto simp: reachable_def rtrancl_converse)
    have "n \<in> Wellfounded.acc ((refers body)\<inverse>)"
      using acc_downwards [OF _ k(2)] expands_acc [OF ex] k(1) by blast
    then show ?thesis using acc_no_cycle [of n "(refers body)\<inverse>"] by (simp add: trancl_converse)
  qed
  have "memory env segs < 2 ^ 63" using g(4) by simp
  then show ?thesis
    unfolding cs list_all_iff
    by (intro exI [of _ root] conjI allI impI ballI g(1,5) ex expands_unique [OF ex] acyc own_ok)
qed (use assms in simp_all)

text \<open>C22. Every refusal has its reason. Apart from the size bound, an error is the error of parsing the invoking
  content, a missing source of the invoking definition, the defect of a definition that the content
  reaches, or (\<open>CeCycle\<close>) a definition reached by the content that refers to itself, directly or not.\<close>

theorem compile_errors:
  assumes "compile env invoking defs morse = Some (Inl e)" "e \<noteq> CeTooLarge" "body = body_of env defs morse"
  shows "case parse_content (rm_content invoking) None of
       Inl e' \<Rightarrow> e = e'
     | Inr root \<Rightarrow>
         e = CeMissingDefinition \<and> \<not> list_all (source_valid env morse invoking) root
         \<or> e = CeCycle \<and> (\<exists>n. reachable body root n \<and> (n, n) \<in> (refers body)\<^sup>+)
         \<or> (\<exists>n. reachable body root n \<and> defect env defs morse n = Some e)"
  by (rule compile_cases [of invoking env defs morse]) (use assms in \<open>auto simp: justified_def\<close>)

section \<open>A message set\<close>

text \<open>\<open>time\<close> and \<open>pair\<close> are usable, \<open>a\<close> and \<open>b\<close> refer to each other.\<close>

definition plain_env :: "unit Env" where
  "plain_env = \<lparr>en_tone_ok = (\<lambda>_ _. True), en_morse_ok = (\<lambda>_ _ _ _. True), en_segment_size = 48,
     en_reserve_segments = (\<lambda>_. True), en_reserve_text = (\<lambda>_. True)\<rparr>"

definition spoken :: "string \<Rightarrow> unit MessageSettings" where
  "spoken content = \<lparr>rm_content = content, rm_message_id = Some ''site-time'',
     rm_media = \<lparr>me_file = None, me_speech = None, me_tone = None, me_morse = None\<rparr>\<rparr>"

definition sample_messages :: "unit definitions" where
  "sample_messages = [(''time'', spoken ''{message}''), (''pair'', spoken ''{message_macro_time} and {message_macro_time}''),
     (''a'', spoken ''{message_macro_b}''), (''b'', spoken ''{message_macro_a}'')]"

definition pair_composition :: "unit Composition" where
  "pair_composition = \<lparr>cp_segments = [SgLiteral ''Now {it} is'' None, SgMessage (Some ''time''), SgLiteral ''and'' (Some ''pair''), SgMessage (Some ''time'')],
     cp_invoking = spoken ''Now {{it}} is {message_macro_pair}'', cp_definitions = sample_messages\<rparr>"

lemma compile_pair:
  "compile plain_env (spoken ''Now {{it}} is {message_macro_pair}'') sample_messages MrRequired = Some (Inr pair_composition)"
proof -
  let ?c = "''Now {{it}} is {message_macro_pair}''"
  have 1: "parse_content ?c None = Inr [TkSegment (SgLiteral ''Now {it} is'' None), TkReference ''pair'']" by code_simp
  have 2: "parse_content ''{message_macro_time} and {message_macro_time}'' (Some ''pair'') =
      Inr [TkReference ''time'', TkSegment (SgLiteral ''and'' (Some ''pair'')), TkReference ''time'']"
    "parse_content ''{message}'' (Some ''time'') = Inr [TkSegment (SgMessage (Some ''time''))]" by code_simp+
  show ?thesis
    by (simp add: compile_def spoken_def 1 2 validate_sources_def source_valid_def push_references_def sample_messages_def
        measure_tokens_def add_size_def checked_add_def plain_env_def copy_text_def pair_composition_def)
qed

theorem compile_expands_witness:
  "\<exists>root. expands (body_of plain_env sample_messages MrRequired) root
     [SgLiteral ''Now {it} is'' None, SgMessage (Some ''time''), SgLiteral ''and'' (Some ''pair''), SgMessage (Some ''time'')]"
  using compile_expands [OF compile_pair refl] by (auto simp: pair_composition_def)

theorem compile_errors_witness:
  "\<exists>n. (n, n) \<in> (refers (body_of plain_env sample_messages MrRequired))\<^sup>+"
proof -
  have 1: "compile plain_env (spoken ''{message_macro_a}'') sample_messages MrRequired = Some (Inl CeCycle)" by code_simp
  have 2: "parse_content (rm_content (spoken ''{message_macro_a}'')) None = Inr [TkReference ''a'']" by code_simp
  have "defect plain_env sample_messages MrRequired n \<noteq> Some CeCycle" for n
    by (auto simp: defect_def parse_content_def split: option.splits sum.splits dest: parse_loop_error)
  with compile_errors [OF 1 _ refl] 2 show ?thesis by auto
qed

end
