(* ===== verification/Link_Queue.thy ===== *)
theory Link_Queue
  imports Spsc_Ring
begin

text \<open>
  The outbound audio queue of a link, \<^verbatim>\<open>core/src/audio/link_queue.rs\<close>: one ring of samples and one ring of
  span descriptors. The two \<^verbatim>\<open>rtrb\<close> rings are arguments (\<open>Spsc_Ring\<close>); samples have an arbitrary type. Each
  access to a ring is a step of its own, so that the audio thread (the producer) and the sending thread (the
  consumer) can be interleaved.
\<close>

section \<open>Data\<close>

datatype LinkQueueError = ZeroCapacity

record AudioSpan =
  as_generation :: u64
  as_burst :: u64
  as_source_start :: u64
  as_stream :: u64
  as_born_ns :: "u64 option"

record ReadSpan =
  rs_span :: AudioSpan
  rs_frames :: nat

record ('s, 'd) LinkAudioQueue =
  la_samples :: 's
  la_spans :: 'd
  la_pending :: "ReadSpan option"
  la_dropped :: u64
  la_shortfall :: u64

text \<open>The three \<^verbatim>\<open>expect\<close>s.\<close>

datatype LinkQueuePanic = ReservedSpan | CurrentSpan | PublishedSpanPcm

definition link_queue_new ::
    "(nat \<Rightarrow> 's) \<Rightarrow> (nat \<Rightarrow> 'd) \<Rightarrow> nat \<Rightarrow> nat \<Rightarrow> LinkQueueError + ('s, 'd) LinkAudioQueue" where
  "link_queue_new ring_s ring_d capacity span_capacity =
     (if capacity = 0 \<or> span_capacity = 0 then Inl ZeroCapacity
      else Inr \<lparr>la_samples = ring_s capacity, la_spans = ring_d span_capacity, la_pending = None,
                la_dropped = 0, la_shortfall = 0\<rparr>)"

section \<open>The producer\<close>

definition u64_of_usize :: "nat \<Rightarrow> u64" where
  "u64_of_usize n = (if n < 2 ^ 64 then word_of_nat n else - 1)"

definition write_reserve :: "('d, ReadSpan) Ring \<Rightarrow> ('s, 'd) LinkAudioQueue \<Rightarrow> bool" where
  "write_reserve rd q \<longleftrightarrow> rb_free rd (la_spans q) \<noteq> 0"

definition write_samples ::
    "('s, 'f) Ring \<Rightarrow> bool \<Rightarrow> 'f list \<Rightarrow> ('s, 'd) LinkAudioQueue \<Rightarrow> nat \<times> ('s, 'd) LinkAudioQueue" where
  "write_samples rs reserved audio q =
     (if reserved then (case rb_push_partial rs (la_samples q) audio of (n, w) \<Rightarrow> (n, q\<lparr>la_samples := w\<rparr>))
      else (0, q))"

definition write_span ::
    "('d, ReadSpan) Ring \<Rightarrow> AudioSpan \<Rightarrow> 'f list \<Rightarrow> nat \<Rightarrow> ('s, 'd) LinkAudioQueue
       \<Rightarrow> LinkQueuePanic + nat \<times> ('s, 'd) LinkAudioQueue" where
  "write_span rd span audio written q =
     (let dropped = length audio - written;
          count = (\<lambda>q. Inr (dropped, q\<lparr>la_dropped := la_dropped q + u64_of_usize dropped\<rparr>)) in
      if written = 0 then count q
      else (case rb_push rd (la_spans q) \<lparr>rs_span = span, rs_frames = written\<rparr> of
              Some w \<Rightarrow> count (q\<lparr>la_spans := w\<rparr>)
            | None \<Rightarrow> Inl ReservedSpan))"

definition link_write ::
    "('s, 'f) Ring \<Rightarrow> ('d, ReadSpan) Ring \<Rightarrow> AudioSpan \<Rightarrow> 'f list \<Rightarrow> ('s, 'd) LinkAudioQueue
       \<Rightarrow> LinkQueuePanic + nat \<times> ('s, 'd) LinkAudioQueue" where
  "link_write rs rd span audio q =
     (case write_samples rs (write_reserve rd q) audio q of (written, q') \<Rightarrow> write_span rd span audio written q')"

section \<open>The consumer\<close>

definition peek_span ::
    "('d, ReadSpan) Ring \<Rightarrow> ('s, 'd) LinkAudioQueue \<Rightarrow> ReadSpan option \<times> ('s, 'd) LinkAudioQueue" where
  "peek_span rd q =
     (let q' = (case la_pending q of
                  Some _ \<Rightarrow> q
                | None \<Rightarrow> (case rb_pop rd (la_spans q) of
                             Some (p, w) \<Rightarrow> q\<lparr>la_spans := w, la_pending := Some p\<rparr>
                           | None \<Rightarrow> q))
      in (la_pending q', q'))"

text \<open>Source time of a sample position, in nanoseconds; the code computes it in 128 bits.\<close>

definition nanos :: "nat \<Rightarrow> nat" where
  "nanos n = n * 1000000000 div 48000"

definition checked_add64 :: "u64 \<Rightarrow> u64 \<Rightarrow> u64 option" where
  "checked_add64 a b = (if a + b < a then None else Some (a + b))"

definition advance_span :: "AudioSpan \<Rightarrow> nat \<Rightarrow> AudioSpan" where
  "advance_span span count =
     (let nxt = as_source_start span + word_of_nat count;
          elapsed = nanos (unat nxt) - nanos (unat (as_source_start span)) in
      span\<lparr>as_born_ns := Option.bind (as_born_ns span) (\<lambda>time. checked_add64 time (word_of_nat elapsed)),
           as_source_start := nxt\<rparr>)"

text \<open>\<^verbatim>\<open>read_span\<close> after its \<^verbatim>\<open>peek_span\<close>: the samples of the pending span.\<close>

definition take_pending ::
    "('s, 'f) Ring \<Rightarrow> 'f list \<Rightarrow> ('s, 'd) LinkAudioQueue
       \<Rightarrow> LinkQueuePanic + ReadSpan \<times> 'f list \<times> ('s, 'd) LinkAudioQueue" where
  "take_pending rs output q =
     (case la_pending q of
        None \<Rightarrow> Inl CurrentSpan
      | Some p \<Rightarrow>
          (let count = min (rs_frames p) (length output) in
           case rb_pop_entire rs (la_samples q) count of
             None \<Rightarrow> Inl PublishedSpanPcm
           | Some (pcm, w) \<Rightarrow>
               (let left = rs_frames p - count in
                Inr (\<lparr>rs_span = rs_span p, rs_frames = count\<rparr>, pcm @ drop count output,
                     q\<lparr>la_samples := w,
                       la_pending := (if left = 0 then None
                                      else Some \<lparr>rs_span = advance_span (rs_span p) count, rs_frames = left\<rparr>)\<rparr>))))"

definition read_span ::
    "('s, 'f) Ring \<Rightarrow> ('d, ReadSpan) Ring \<Rightarrow> 'f list \<Rightarrow> ('s, 'd) LinkAudioQueue
       \<Rightarrow> LinkQueuePanic + ReadSpan option \<times> 'f list \<times> ('s, 'd) LinkAudioQueue" where
  "read_span rs rd output q =
     (if output = [] then Inr (None, output, q)
      else (case peek_span rd q of
              (None, q') \<Rightarrow> Inr (None, output, q')
            | (Some _, q') \<Rightarrow> (case take_pending rs output q' of
                                 Inl p \<Rightarrow> Inl p
                               | Inr (r, output', q'') \<Rightarrow> Inr (Some r, output', q''))))"

text \<open>The loop of \<^verbatim>\<open>read\<close>, with fuel; \<open>None\<close> is running out of it.\<close>

fun read_loop ::
    "('s, 'f) Ring \<Rightarrow> ('d, ReadSpan) Ring \<Rightarrow> nat \<Rightarrow> nat \<Rightarrow> 'f list \<Rightarrow> ('s, 'd) LinkAudioQueue
       \<Rightarrow> (LinkQueuePanic + nat \<times> 'f list \<times> ('s, 'd) LinkAudioQueue) option" where
  "read_loop rs rd fuel done_n output q =
     (if done_n < length output
      then (case fuel of
              0 \<Rightarrow> None
            | Suc fuel' \<Rightarrow>
                (case read_span rs rd (drop done_n output) q of
                   Inl p \<Rightarrow> Some (Inl p)
                 | Inr (None, _, q') \<Rightarrow> Some (Inr (done_n, output, q'))
                 | Inr (Some r, rest, q') \<Rightarrow>
                     read_loop rs rd fuel' (done_n + rs_frames r) (take done_n output @ rest) q'))
      else Some (Inr (done_n, output, q)))"

definition link_read ::
    "('s, 'f::zero) Ring \<Rightarrow> ('d, ReadSpan) Ring \<Rightarrow> 'f list \<Rightarrow> ('s, 'd) LinkAudioQueue
       \<Rightarrow> (LinkQueuePanic + nat \<times> 'f list \<times> ('s, 'd) LinkAudioQueue) option" where
  "link_read rs rd output q =
     map_option (\<lambda>r. case r of
         Inl p \<Rightarrow> Inl p
       | Inr (n, out, q') \<Rightarrow>
           (let shortfall = length out - n in
            Inr (shortfall, take n out @ replicate shortfall 0,
                 q'\<lparr>la_shortfall := la_shortfall q' + u64_of_usize shortfall\<rparr>)))
       (read_loop rs rd (length output) 0 output q)"


section \<open>Where a sample comes from\<close>

text \<open>
  The origin of the \<open>i\<close>-th sample of a written span: the position counts samples, the source time is that of
  the position, and both are computed from the written span alone.
\<close>

definition sample_origin :: "AudioSpan \<Rightarrow> nat \<Rightarrow> AudioSpan" where
  "sample_origin span i = span\<lparr>
     as_source_start := word_of_nat (unat (as_source_start span) + i),
     as_born_ns := Option.bind (as_born_ns span) (\<lambda>t.
        let born = unat t + (nanos (unat (as_source_start span) + i) - nanos (unat (as_source_start span))) in
        if born < 2 ^ 64 then Some (word_of_nat born) else None)\<rparr>"

definition tagged :: "AudioSpan \<Rightarrow> 'f list \<Rightarrow> (AudioSpan \<times> 'f) list" where
  "tagged span xs = map (\<lambda>i. (sample_origin span i, xs ! i)) [0..<length xs]"

text \<open>A span whose positions do not wrap, of at most \<open>2 ^ 48\<close> samples.\<close>

definition span_ok :: "AudioSpan \<Rightarrow> nat \<Rightarrow> bool" where
  "span_ok span n \<longleftrightarrow> unat (as_source_start span) + n \<le> 2 ^ 64 \<and> n \<le> 2 ^ 48"

lemma unat_word_of_nat64: "n < 2 ^ 64 \<Longrightarrow> unat (word_of_nat n :: u64) = n"
  by (simp add: unat_of_nat take_bit_nat_eq_self)

lemma nanos_mono: "a \<le> b \<Longrightarrow> nanos a \<le> nanos b"
  by (simp add: nanos_def div_le_mono)

lemma nanos_diff: "nanos (a + n) - nanos a \<le> n * 20834"
proof -
  have "(a + n) * 1000000000 \<le> a * 1000000000 + n * 20834 * 48000" by simp
  then have "nanos (a + n) \<le> (a * 1000000000 + n * 20834 * 48000) div 48000"
    unfolding nanos_def by (rule div_le_mono)
  then show ?thesis by (simp add: nanos_def)
qed

lemma checked_add64_nat:
  "checked_add64 a (word_of_nat n) = (if unat a + n < 2 ^ 64 then Some (word_of_nat (unat a + n)) else None)"
  if "n < 2 ^ 64"
proof -
  have n: "unat (word_of_nat n :: u64) = n" using that by (simp add: unat_word_of_nat64)
  show ?thesis
  proof (cases "unat a + n < 2 ^ 64")
    case True
    then have "unat (a + word_of_nat n) = unat a + n" using unat_add_lem [of a "word_of_nat n"] n by simp
    then show ?thesis using True by (simp add: checked_add64_def word_less_nat_alt)
  next
    case False
    have "unat (a + word_of_nat n) = unat a + n - 2 ^ 64" using False n by (simp add: unat_plus_if')
    moreover have "unat a + n - 2 ^ 64 < unat a" using that False by simp
    ultimately show ?thesis using False by (simp add: checked_add64_def word_less_nat_alt)
  qed
qed

lemma advance_origin:
  assumes "unat (as_source_start span) + n < 2 ^ 64" "n \<le> 2 ^ 48"
  shows "advance_span span n = sample_origin span n"
proof -
  let ?a = "unat (as_source_start span)"
  have a: "unat (as_source_start span + word_of_nat n) = ?a + n"
    using assms by (simp add: unat_plus_if' unat_word_of_nat64)
  have "nanos (?a + n) - nanos ?a \<le> n * 20834" by (rule nanos_diff)
  also have "\<dots> \<le> 2 ^ 48 * 20834" using assms(2) by simp
  also have "\<dots> < (2::nat) ^ 64" by simp
  finally have e: "nanos (?a + n) - nanos ?a < 2 ^ 64" .
  show ?thesis
    by (simp add: advance_span_def sample_origin_def Let_def a checked_add64_nat [OF e])
qed

lemma sum64: "unat a + n < 2 ^ 64 \<Longrightarrow> unat (a + word_of_nat n) = unat a + n" for a :: u64
  using unat_word_of_nat64 [of "unat a + n"] by simp

lemma origin_origin:
  assumes "span_ok span n" "i + j < n"
  shows "sample_origin (sample_origin span i) j = sample_origin span (i + j)"
proof -
  let ?a = "unat (as_source_start span)"
  have i: "unat (as_source_start span + word_of_nat i) = ?a + i"
    using assms by (intro sum64) (simp add: span_ok_def)
  have n: "nanos ?a \<le> nanos (?a + i)" "nanos (?a + i) \<le> nanos (?a + (i + j))"
    by (simp_all add: nanos_mono)
  show ?thesis
  proof (cases "as_born_ns span")
    case None
    then show ?thesis by (simp add: sample_origin_def Let_def i add.assoc)
  next
    case (Some t)
    define d where "d = nanos (?a + i) - nanos ?a"
    define e where "e = nanos (?a + (i + j)) - nanos (?a + i)"
    have de: "nanos (?a + (i + j)) - nanos ?a = d + e" using n by (simp add: d_def e_def)
    have "unat (t + word_of_nat d) = unat t + d" if "unat t + d < 2 ^ 64" using that by (rule sum64)
    then show ?thesis using Some
      by (auto simp: sample_origin_def Let_def i de d_def [symmetric] e_def [symmetric] add.assoc)
  qed
qed

lemma origin_0 [simp]: "sample_origin span 0 = span"
  using unsigned_less [of "the (as_born_ns span)", where 'a = nat]
  by (cases "as_born_ns span") (simp_all add: sample_origin_def Let_def)

lemma length_tagged [simp]: "length (tagged span xs) = length xs"
  by (simp add: tagged_def)

lemma tagged_Nil [simp]: "tagged span [] = []"
  by (simp add: tagged_def)

lemma tagged_take: "take k (tagged span xs) = tagged span (take k xs)"
  by (rule nth_equalityI) (simp_all add: tagged_def)

lemma tagged_drop:
  assumes "span_ok span (length xs)" "k < length xs"
  shows "drop k (tagged span xs) = tagged (advance_span span k) (drop k xs)"
proof (rule nth_equalityI)
  fix i assume "i < length (drop k (tagged span xs))"
  then have i: "k + i < length xs" by simp
  have "advance_span span k = sample_origin span k"
    using assms by (intro advance_origin) (simp_all add: span_ok_def)
  with origin_origin [OF assms(1) i] i
  show "drop k (tagged span xs) ! i = tagged (advance_span span k) (drop k xs) ! i"
    by (simp add: tagged_def less_diff_conv add.commute)
qed simp

lemma span_ok_advance: "span_ok span n \<Longrightarrow> k < n \<Longrightarrow> span_ok (advance_span span k) (n - k)"
  by (simp add: advance_origin span_ok_def) (simp add: sample_origin_def sum64; linarith)

section \<open>The queue as a sequence of tagged samples\<close>

fun tag_spans :: "ReadSpan list \<Rightarrow> 'f list \<Rightarrow> (AudioSpan \<times> 'f) list" where
  "tag_spans [] xs = []"
| "tag_spans (r # rs) xs = tagged (rs_span r) (take (rs_frames r) xs) @ tag_spans rs (drop (rs_frames r) xs)"

abbreviation total_frames :: "ReadSpan list \<Rightarrow> nat" where
  "total_frames rs \<equiv> sum_list (map rs_frames rs)"

lemma tag_spans_append:
  "total_frames rs = length xs \<Longrightarrow> tag_spans (rs @ rs') (xs @ ys) = tag_spans rs xs @ tag_spans rs' ys"
proof (induction rs arbitrary: xs)
  case (Cons r rs)
  have "total_frames rs = length (drop (rs_frames r) xs)" using Cons.prems by simp
  from Cons.IH [OF this] show ?case using Cons.prems by simp
qed simp

lemma tag_spans_rest: "total_frames rs = length xs \<Longrightarrow> tag_spans rs (xs @ ys) = tag_spans rs xs"
  using tag_spans_append [of rs xs "[]" ys] by simp

lemma length_tag_spans: "total_frames rs \<le> length xs \<Longrightarrow> length (tag_spans rs xs) = total_frames rs"
  by (induction rs arbitrary: xs) auto

definition queue_spans :: "('d \<Rightarrow> ReadSpan list) \<Rightarrow> ('s, 'd) LinkAudioQueue \<Rightarrow> ReadSpan list" where
  "queue_spans cd q = (case la_pending q of Some p \<Rightarrow> [p] | None \<Rightarrow> []) @ cd (la_spans q)"

definition queue_tags :: "('s \<Rightarrow> 'f list) \<Rightarrow> ('d \<Rightarrow> ReadSpan list) \<Rightarrow> ('s, 'd) LinkAudioQueue \<Rightarrow> (AudioSpan \<times> 'f) list" where
  "queue_tags cs cd q = tag_spans (queue_spans cd q) (cs (la_samples q))"

definition read_ok :: "ReadSpan \<Rightarrow> bool" where
  "read_ok r \<longleftrightarrow> 0 < rs_frames r \<and> span_ok (rs_span r) (rs_frames r)"

text \<open>The published samples are those the descriptors count; \<open>flight\<close> are samples without one yet.\<close>

definition queue_rep :: "('s \<Rightarrow> 'f list) \<Rightarrow> ('d \<Rightarrow> ReadSpan list) \<Rightarrow> 'f list \<Rightarrow> ('s, 'd) LinkAudioQueue \<Rightarrow> bool" where
  "queue_rep cs cd flight q \<longleftrightarrow>
     list_all read_ok (queue_spans cd q)
     \<and> (\<exists>pub. cs (la_samples q) = pub @ flight \<and> length pub = total_frames (queue_spans cd q))"

lemma queue_repE:
  assumes "queue_rep cs cd flight q"
  obtains pub where "list_all read_ok (queue_spans cd q)" "cs (la_samples q) = pub @ flight"
    "length pub = total_frames (queue_spans cd q)" "queue_tags cs cd q = tag_spans (queue_spans cd q) pub"
  using assms by (auto simp: queue_rep_def queue_tags_def tag_spans_rest)

lemma length_queue_tags:
  "queue_rep cs cd flight q \<Longrightarrow> length (queue_tags cs cd q) = total_frames (queue_spans cd q)"
  by (auto simp: queue_rep_def queue_tags_def length_tag_spans)

lemma tag_spans_split:
  assumes "read_ok p" "k < rs_frames p" "rs_frames p \<le> length xs"
  shows "tag_spans (p # rest) xs = tagged (rs_span p) (take k xs)
    @ tag_spans (\<lparr>rs_span = advance_span (rs_span p) k, rs_frames = rs_frames p - k\<rparr> # rest) (drop k xs)"
proof -
  let ?ys = "take (rs_frames p) xs"
  have "tagged (rs_span p) ?ys = take k (tagged (rs_span p) ?ys) @ drop k (tagged (rs_span p) ?ys)" by simp
  also have "take k (tagged (rs_span p) ?ys) = tagged (rs_span p) (take k xs)"
    using assms(2) by (simp add: tagged_take min_def)
  also have "drop k (tagged (rs_span p) ?ys) = tagged (advance_span (rs_span p) k) (drop k ?ys)"
    using assms by (intro tagged_drop) (simp_all add: read_ok_def min_def)
  finally show ?thesis using assms(2) by (simp add: drop_take)
qed

section \<open>The operations on the sequence\<close>

lemma peek_span_keeps:
  assumes "ring_laws rd cd"
  shows "queue_spans cd (snd (peek_span rd q)) = queue_spans cd q"
    "fst (peek_span rd q) = la_pending (snd (peek_span rd q))"
    "la_pending (snd (peek_span rd q)) = None \<longleftrightarrow> queue_spans cd q = []"
    "la_samples (snd (peek_span rd q)) = la_samples q" "la_dropped (snd (peek_span rd q)) = la_dropped q"
    "rb_free rd (la_spans q) \<le> rb_free rd (la_spans (snd (peek_span rd q)))"
  using ring_popD [OF assms] by (auto simp: peek_span_def Let_def queue_spans_def split: option.splits)

lemma peek_span_rep:
  assumes "ring_laws rd cd"
  shows "queue_rep cs cd flight (snd (peek_span rd q)) = queue_rep cs cd flight q"
    "queue_tags cs cd (snd (peek_span rd q)) = queue_tags cs cd q"
  by (simp_all add: queue_rep_def queue_tags_def peek_span_keeps [OF assms])

lemma take_pending_takes:
  assumes "ring_laws rs cs" "queue_rep cs cd flight q" "la_pending q = Some p"
  obtains pcm q' where
    "take_pending rs output q = Inr (\<lparr>rs_span = rs_span p, rs_frames = length pcm\<rparr>, pcm @ drop (length pcm) output, q')"
    "length pcm = min (rs_frames p) (length output)"
    "queue_tags cs cd q = tagged (rs_span p) pcm @ queue_tags cs cd q'" "queue_rep cs cd flight q'"
    "la_spans q' = la_spans q" "la_dropped q' = la_dropped q" "la_shortfall q' = la_shortfall q"
proof -
  obtain pub where pub: "list_all read_ok (queue_spans cd q)" "cs (la_samples q) = pub @ flight"
    "length pub = total_frames (queue_spans cd q)" "queue_tags cs cd q = tag_spans (queue_spans cd q) pub"
    using assms(2) by (rule queue_repE)
  define rest where "rest = cd (la_spans q)"
  have sp: "queue_spans cd q = p # rest" using assms(3) by (simp add: queue_spans_def rest_def)
  define k where "k = min (rs_frames p) (length output)"
  have k: "k \<le> rs_frames p" "rs_frames p \<le> length pub" using pub(3) sp by (simp_all add: k_def)
  obtain pcm w where pop: "rb_pop_entire rs (la_samples q) k = Some (pcm, w)"
    using ring_entireD(2) [OF assms(1), of "la_samples q" k] k pub(2) by (cases "rb_pop_entire rs (la_samples q) k") auto
  have w: "pcm = take k pub" "cs w = drop k pub @ flight"
    using ring_entireD(1) [OF assms(1) pop] k pub(2) by simp_all
  define left where "left = rs_frames p - k"
  define q' where "q' = q\<lparr>la_samples := w, la_pending := (if left = 0 then None
     else Some \<lparr>rs_span = advance_span (rs_span p) k, rs_frames = left\<rparr>)\<rparr>"
  have len: "length pcm = k" using w(1) k by simp
  have t: "take_pending rs output q =
      Inr (\<lparr>rs_span = rs_span p, rs_frames = length pcm\<rparr>, pcm @ drop (length pcm) output, q')"
    using assms(3) pop len by (simp add: take_pending_def Let_def k_def [symmetric] left_def q'_def)
  have "queue_tags cs cd q = tagged (rs_span p) pcm @ tag_spans (queue_spans cd q') (drop k pub)
      \<and> list_all read_ok (queue_spans cd q') \<and> length (drop k pub) = total_frames (queue_spans cd q')"
  proof (cases "left = 0")
    case True
    then show ?thesis using pub sp k w(1)
      by (simp add: left_def q'_def queue_spans_def rest_def)
  next
    case False
    then have less: "k < rs_frames p" by (simp add: left_def)
    have "queue_spans cd q' = \<lparr>rs_span = advance_span (rs_span p) k, rs_frames = left\<rparr> # rest"
      using False by (simp add: q'_def queue_spans_def rest_def)
    moreover have "read_ok p" using pub(1) sp by simp
    ultimately show ?thesis using pub sp less w(1) k span_ok_advance [of "rs_span p" "rs_frames p" k]
      tag_spans_split [of p k pub rest] by (simp add: left_def read_ok_def)
  qed
  note tags = this
  then have "queue_tags cs cd q = tagged (rs_span p) pcm @ queue_tags cs cd q'" "queue_rep cs cd flight q'"
    using w(2) by (auto simp: queue_tags_def queue_rep_def q'_def tag_spans_rest)
  then show thesis using that [OF t] len by (simp add: k_def q'_def)
qed

lemma write_span_publishes:
  assumes "ring_laws rd cd" "queue_rep cs cd (take n audio) q" "n = 0 \<or> 0 < rb_free rd (la_spans q)"
    "n \<le> length audio" "span_ok span (length audio)"
  obtains q' where "write_span rd span audio n q = Inr (length audio - n, q')" "queue_rep cs cd [] q'"
    "queue_tags cs cd q' = queue_tags cs cd q @ tagged span (take n audio)"
    "la_dropped q' = la_dropped q + word_of_nat (length audio - n)"
proof -
  have u: "u64_of_usize (length audio - n) = word_of_nat (length audio - n)"
  proof -
    have "length audio - n < 2 ^ 64" using assms(5) by (simp add: span_ok_def) linarith
    then show ?thesis by (simp add: u64_of_usize_def)
  qed
  obtain pub where pub: "list_all read_ok (queue_spans cd q)" "cs (la_samples q) = pub @ take n audio"
    "length pub = total_frames (queue_spans cd q)" "queue_tags cs cd q = tag_spans (queue_spans cd q) pub"
    using assms(2) by (rule queue_repE)
  show thesis
  proof (cases "n = 0")
    case True
    then show ?thesis using assms(2) u
      by (intro that [of "q\<lparr>la_dropped := la_dropped q + word_of_nat (length audio - n)\<rparr>"])
        (simp_all add: write_span_def Let_def queue_rep_def queue_tags_def queue_spans_def)
  next
    case False
    let ?r = "\<lparr>rs_span = span, rs_frames = n\<rparr>"
    obtain w where push: "rb_push rd (la_spans q) ?r = Some w"
      using ring_push_None [OF assms(1)] assms(3) False by (cases "rb_push rd (la_spans q) ?r") auto
    define q' where "q' = q\<lparr>la_spans := w, la_dropped := la_dropped q + word_of_nat (length audio - n)\<rparr>"
    have sp: "queue_spans cd q' = queue_spans cd q @ [?r]"
      using ring_pushD(1) [OF assms(1) push] by (simp add: q'_def queue_spans_def)
    have ok: "read_ok ?r" using False assms(4,5) by (simp add: read_ok_def span_ok_def)
    have smp: "cs (la_samples q') = (pub @ take n audio) @ []" using pub(2) by (simp add: q'_def)
    have "queue_tags cs cd q' = queue_tags cs cd q @ tagged span (take n audio)"
      using tag_spans_append [OF pub(3) [symmetric], of "[?r]" "take n audio"] pub(4) smp
      by (simp add: queue_tags_def sp)
    moreover have "queue_rep cs cd [] q'"
      unfolding queue_rep_def sp using pub(1,3) smp ok assms(4) by auto
    ultimately show ?thesis using False push u
      by (intro that [of q']) (simp_all add: write_span_def Let_def q'_def)
  qed
qed

section \<open>Both threads, one ring access at a time\<close>

text \<open>
  \<open>ProducerStage\<close> is where the producer stands inside \<^verbatim>\<open>write\<close>: after the test for a free descriptor with its
  answer, or after the samples. The consumer's position is \<open>la_pending\<close>. The last three fields are ghosts:
  the tagged samples published and delivered, and how many samples the completed writes were given.
\<close>

datatype 'f ProducerStage =
  PsIdle
| PsReserved AudioSpan "'f list" bool
| PsWritten AudioSpan "'f list" nat

record ('s, 'd, 'f) LinkSystem =
  ls_queue :: "('s, 'd) LinkAudioQueue"
  ls_stage :: "'f ProducerStage"
  ls_panic :: "LinkQueuePanic option"
  ls_accepted :: "(AudioSpan \<times> 'f) list"
  ls_delivered :: "(AudioSpan \<times> 'f) list"
  ls_offered :: nat

text \<open>\<open>LqTake output\<close> is enabled where \<^verbatim>\<open>read_span\<close> stands after a \<^verbatim>\<open>peek_span\<close> that found a span.\<close>

datatype 'f LqStep = LqBegin AudioSpan "'f list" | LqProduce | LqPeek | LqTake "'f list"

definition produce ::
    "('s, 'f) Ring \<Rightarrow> ('d, ReadSpan) Ring \<Rightarrow> ('s, 'd, 'f) LinkSystem \<Rightarrow> ('s, 'd, 'f) LinkSystem" where
  "produce rs rd l =
     (case ls_stage l of
        PsIdle \<Rightarrow> l
      | PsReserved span audio reserved \<Rightarrow>
          (case write_samples rs reserved audio (ls_queue l) of
             (n, q) \<Rightarrow> l\<lparr>ls_queue := q, ls_stage := PsWritten span audio n\<rparr>)
      | PsWritten span audio n \<Rightarrow>
          (case write_span rd span audio n (ls_queue l) of
             Inl p \<Rightarrow> l\<lparr>ls_panic := Some p\<rparr>
           | Inr (_, q) \<Rightarrow> l\<lparr>ls_queue := q, ls_stage := PsIdle,
                ls_accepted := ls_accepted l @ tagged span (take n audio), ls_offered := ls_offered l + length audio\<rparr>))"

fun lq_step ::
    "('s, 'f) Ring \<Rightarrow> ('d, ReadSpan) Ring \<Rightarrow> ('s, 'd, 'f) LinkSystem \<Rightarrow> 'f LqStep \<Rightarrow> ('s, 'd, 'f) LinkSystem" where
  "lq_step rs rd l (LqBegin span audio) =
     (if ls_stage l = PsIdle then l\<lparr>ls_stage := PsReserved span audio (write_reserve rd (ls_queue l))\<rparr> else l)"
| "lq_step rs rd l LqProduce = produce rs rd l"
| "lq_step rs rd l LqPeek = l\<lparr>ls_queue := snd (peek_span rd (ls_queue l))\<rparr>"
| "lq_step rs rd l (LqTake output) =
     (if la_pending (ls_queue l) = None \<or> output = [] then l
      else (case take_pending rs output (ls_queue l) of
              Inl p \<Rightarrow> l\<lparr>ls_panic := Some p\<rparr>
            | Inr (r, out, q) \<Rightarrow> l\<lparr>ls_queue := q,
                ls_delivered := ls_delivered l @ tagged (rs_span r) (take (rs_frames r) out)\<rparr>))"

definition link_start :: "('s, 'd) LinkAudioQueue \<Rightarrow> ('s, 'd, 'f) LinkSystem" where
  "link_start q = \<lparr>ls_queue = q, ls_stage = PsIdle, ls_panic = None, ls_accepted = [], ls_delivered = [], ls_offered = 0\<rparr>"

text \<open>The host writes audio blocks of a stream whose sample position has not wrapped.\<close>

fun step_audio_ok :: "'f LqStep \<Rightarrow> bool" where
  "step_audio_ok (LqBegin span audio) = span_ok span (length audio)"
| "step_audio_ok _ = True"

fun stage_ok ::
    "('s \<Rightarrow> 'f list) \<Rightarrow> ('d \<Rightarrow> ReadSpan list) \<Rightarrow> ('d, ReadSpan) Ring \<Rightarrow> 'f ProducerStage \<Rightarrow> ('s, 'd) LinkAudioQueue \<Rightarrow> bool" where
  "stage_ok cs cd rd PsIdle q = queue_rep cs cd [] q"
| "stage_ok cs cd rd (PsReserved span audio reserved) q =
     (queue_rep cs cd [] q \<and> span_ok span (length audio) \<and> (reserved \<longrightarrow> 0 < rb_free rd (la_spans q)))"
| "stage_ok cs cd rd (PsWritten span audio n) q =
     (queue_rep cs cd (take n audio) q \<and> span_ok span (length audio) \<and> n \<le> length audio
      \<and> (n = 0 \<or> 0 < rb_free rd (la_spans q)))"

definition link_ok ::
    "('s \<Rightarrow> 'f list) \<Rightarrow> ('d \<Rightarrow> ReadSpan list) \<Rightarrow> ('d, ReadSpan) Ring \<Rightarrow> ('s, 'd, 'f) LinkSystem \<Rightarrow> bool" where
  "link_ok cs cd rd l \<longleftrightarrow>
     ls_panic l = None \<and> stage_ok cs cd rd (ls_stage l) (ls_queue l)
     \<and> ls_delivered l @ queue_tags cs cd (ls_queue l) = ls_accepted l
     \<and> length (ls_accepted l) \<le> ls_offered l
     \<and> la_dropped (ls_queue l) = word_of_nat (ls_offered l - length (ls_accepted l))"

lemma produce_ok:
  assumes "ring_laws rs cs" "ring_laws rd cd" "link_ok cs cd rd l"
  shows "link_ok cs cd rd (produce rs rd l)"
proof (cases "ls_stage l")
  case PsIdle
  then show ?thesis using assms(3) by (simp add: produce_def)
next
  case (PsReserved span audio reserved)
  let ?q = "ls_queue l"
  have ok: "queue_rep cs cd [] ?q" "span_ok span (length audio)" "reserved \<Longrightarrow> 0 < rb_free rd (la_spans ?q)"
    using assms(3) PsReserved by (simp_all add: link_ok_def)
  show ?thesis
  proof (cases reserved)
    case False
    then show ?thesis using assms(3) ok PsReserved by (simp add: produce_def write_samples_def link_ok_def)
  next
    case True
    obtain n w where push: "rb_push_partial rs (la_samples ?q) audio = (n, w)" by fastforce
    note w = ring_partialD [OF assms(1) push]
    define q where "q = ?q\<lparr>la_samples := w\<rparr>"
    obtain pub where pub: "list_all read_ok (queue_spans cd ?q)" "cs (la_samples ?q) = pub @ []"
      "length pub = total_frames (queue_spans cd ?q)" "queue_tags cs cd ?q = tag_spans (queue_spans cd ?q) pub"
      using ok(1) by (rule queue_repE)
    have sp: "queue_spans cd q = queue_spans cd ?q" by (simp add: q_def queue_spans_def)
    have "cs (la_samples q) = pub @ take n audio" using w(2) pub(2) by (simp add: q_def)
    with pub have rep: "queue_rep cs cd (take n audio) q" and "queue_tags cs cd q = queue_tags cs cd ?q"
      by (simp_all add: queue_rep_def queue_tags_def sp tag_spans_rest)
    moreover have "produce rs rd l = l\<lparr>ls_queue := q, ls_stage := PsWritten span audio n\<rparr>"
      using PsReserved True push by (simp add: produce_def write_samples_def q_def)
    ultimately show ?thesis using assms(3) ok(2,3) True w(1)
      by (simp add: link_ok_def) (simp add: q_def)
  qed
next
  case (PsWritten span audio n)
  have ok: "queue_rep cs cd (take n audio) (ls_queue l)" "span_ok span (length audio)" "n \<le> length audio"
    "n = 0 \<or> 0 < rb_free rd (la_spans (ls_queue l))"
    using assms(3) PsWritten by (simp_all add: link_ok_def)
  obtain q where q: "write_span rd span audio n (ls_queue l) = Inr (length audio - n, q)" "queue_rep cs cd [] q"
    "queue_tags cs cd q = queue_tags cs cd (ls_queue l) @ tagged span (take n audio)"
    "la_dropped q = la_dropped (ls_queue l) + word_of_nat (length audio - n)"
    using write_span_publishes [OF assms(2) ok(1,4,3,2)] by metis
  have "word_of_nat (ls_offered l - length (ls_accepted l)) + word_of_nat (length audio - n)
      = (word_of_nat (ls_offered l + length audio - (length (ls_accepted l) + n)) :: u64)"
    unfolding of_nat_add [symmetric] using assms(3) ok(3) by (simp add: link_ok_def)
  then show ?thesis using assms(3) PsWritten q ok(3)
    by (simp add: produce_def link_ok_def flip: append_assoc)
qed

lemma stage_ok_consumer:
  assumes "stage_ok cs cd rd st q" "\<And>flight. queue_rep cs cd flight q \<Longrightarrow> queue_rep cs cd flight q'"
    "rb_free rd (la_spans q) \<le> rb_free rd (la_spans q')"
  shows "stage_ok cs cd rd st q'"
  using assms by (cases st) auto

lemma lq_step_ok:
  assumes "ring_laws rs cs" "ring_laws rd cd" "link_ok cs cd rd l" "step_audio_ok s"
  shows "link_ok cs cd rd (lq_step rs rd l s)"
proof (cases s)
  case (LqBegin span audio)
  then show ?thesis using assms(3,4) by (auto simp: link_ok_def write_reserve_def)
next
  case LqProduce
  then show ?thesis using produce_ok [OF assms(1-3)] by simp
next
  case LqPeek
  let ?q' = "snd (peek_span rd (ls_queue l))"
  have "stage_ok cs cd rd (ls_stage l) ?q'"
    by (rule stage_ok_consumer [of _ _ _ _ "ls_queue l"])
      (use assms(3) in \<open>simp_all add: link_ok_def peek_span_rep [OF assms(2)] peek_span_keeps [OF assms(2)]\<close>)
  then show ?thesis using assms(3) LqPeek
    by (simp add: link_ok_def peek_span_rep [OF assms(2)] peek_span_keeps [OF assms(2)])
next
  case (LqTake out)
  show ?thesis
  proof (cases "la_pending (ls_queue l) = None \<or> out = []")
    case True
    then show ?thesis using assms(3) LqTake by auto
  next
    case False
    then obtain p where p: "la_pending (ls_queue l) = Some p" by auto
    obtain flight where "queue_rep cs cd flight (ls_queue l)"
      using assms(3) by (cases "ls_stage l") (auto simp: link_ok_def)
    from take_pending_takes [OF assms(1) this p, of out]
    obtain pcm q' where t: "take_pending rs out (ls_queue l) =
        Inr (\<lparr>rs_span = rs_span p, rs_frames = length pcm\<rparr>, pcm @ drop (length pcm) out, q')"
      "queue_tags cs cd (ls_queue l) = tagged (rs_span p) pcm @ queue_tags cs cd q'"
      "la_spans q' = la_spans (ls_queue l)" "la_dropped q' = la_dropped (ls_queue l)" by metis
    have rep: "queue_rep cs cd flight q'" if "queue_rep cs cd flight (ls_queue l)" for flight
      by (rule take_pending_takes [OF assms(1) that p, of out]) (use t(1) in auto)
    have "stage_ok cs cd rd (ls_stage l) q'"
      by (rule stage_ok_consumer [of _ _ _ _ "ls_queue l"]) (use assms(3) rep t(3) in \<open>simp_all add: link_ok_def\<close>)
    then show ?thesis using assms(3) False LqTake t by (simp add: link_ok_def)
  qed
qed

lemma lq_steps_ok:
  assumes "ring_laws rs cs" "ring_laws rd cd" "link_ok cs cd rd l" "list_all step_audio_ok steps"
  shows "link_ok cs cd rd (foldl (lq_step rs rd) l steps)"
  using assms(4,3) by (induction steps arbitrary: l) (simp_all add: lq_step_ok [OF assms(1,2)])

lemma link_start_ok:
  assumes "link_queue_new ring_s ring_d capacity span_capacity = Inr q" "cs (ring_s capacity) = []"
    "cd (ring_d span_capacity) = []"
  shows "link_ok cs cd rd (link_start q)" "queue_rep cs cd [] q"
  using assms
  by (auto simp: link_queue_new_def link_ok_def link_start_def queue_rep_def queue_tags_def queue_spans_def split: if_splits)

section \<open>Properties\<close>

text \<open>C23. Outbound link audio keeps its origin. For every interleaving of the producer and the consumer, one
  ring access at a time, none of the queue's \<^verbatim>\<open>expect\<close>s panics; what the consumer has been given, each sample
  with the generation, burst, stream, position and source time of its \<^verbatim>\<open>ReadSpan\<close>, followed by what is
  published in the queue is exactly what was accepted, each sample with the origin computed from the span it
  was written with: nothing is lost, reordered, mixed between spans or rebased, however reads split spans;
  and the drop counter counts exactly the samples offered and not accepted. A write is of at most \<open>2 ^ 48\<close>
  samples and its positions do not wrap.
\<close>

theorem link_audio_origin:
  assumes "ring_laws rs cs" "ring_laws rd cd" "cs (ring_s capacity) = []" "cd (ring_d span_capacity) = []"
    "link_queue_new ring_s ring_d capacity span_capacity = Inr q" "list_all step_audio_ok steps"
    "foldl (lq_step rs rd) (link_start q) steps = l"
  shows "ls_panic l = None \<and> ls_delivered l @ queue_tags cs cd (ls_queue l) = ls_accepted l
    \<and> la_dropped (ls_queue l) = word_of_nat (ls_offered l - length (ls_accepted l))"
  using lq_steps_ok [OF assms(1,2) link_start_ok(1) [where cs = cs and cd = cd, OF assms(5) assms(3) assms(4)] assms(6)] assms(7)
  by (simp add: link_ok_def)

text \<open>Three samples with room for two; the read is split, and the consumer runs inside the second write.\<close>

theorem link_audio_origin_witness:
  "\<exists>l :: (nat list, ReadSpan list, nat) LinkSystem.
     ls_panic l = None \<and> ls_delivered l @ queue_tags id id (ls_queue l) = ls_accepted l
     \<and> map snd (ls_delivered l) = [7, 8] \<and> map (as_source_start \<circ> fst) (ls_delivered l) = [48000, 48001]
     \<and> map (as_born_ns \<circ> fst) (ls_delivered l) = [Some 5, Some 20838]
     \<and> la_dropped (ls_queue l) = 1"
proof -
  define s where "s = \<lparr>as_generation = 1, as_burst = 2, as_source_start = 48000, as_stream = 3, as_born_ns = Some 5\<rparr>"
  define s1 where "s1 = s\<lparr>as_source_start := 48001, as_born_ns := Some 20838\<rparr>"
  define st where "st = (\<lambda>xs ds p n stage acc dl off. \<lparr>ls_queue = \<lparr>la_samples = xs :: nat list, la_spans = ds :: ReadSpan list,
     la_pending = p, la_dropped = n, la_shortfall = 0\<rparr>, ls_stage = stage :: nat ProducerStage, ls_panic = None, ls_accepted = acc, ls_delivered = dl,
     ls_offered = off\<rparr>)"
  define step where "step = lq_step (list_ring 2 :: (nat list, nat) Ring) (list_ring 2)"
  define tags where "tags = [(s, 7 :: nat), (s1, 8)]"
  have adv: "advance_span s 1 = s1"
    by (simp add: advance_span_def checked_add64_def nanos_def Let_def s_def s1_def)
  have tg: "tagged s [7, 8] = tags" "tagged s [7] = [(s, 7 :: nat)]" "tagged s1 [8] = [(s1, 8 :: nat)]"
    by (simp_all add: tagged_def sample_origin_def nanos_def Let_def s_def s1_def tags_def)
  note ev = step_def st_def list_ring_def Let_def
  let ?w = "PsWritten s [7, 8, 9] 2" and ?r = "PsReserved s [4] True"
  have 1: "step (st [] [] None 0 PsIdle [] [] 0) (LqBegin s [7, 8, 9]) = st [] [] None 0 (PsReserved s [7, 8, 9] True) [] [] 0"
    by (simp add: ev write_reserve_def)
  have 2: "step (st [] [] None 0 (PsReserved s [7, 8, 9] True) [] [] 0) LqProduce = st [7, 8] [] None 0 ?w [] [] 0"
    by (simp add: ev produce_def write_samples_def)
  have 3: "step (st [7, 8] [] None 0 ?w [] [] 0) LqPeek = st [7, 8] [] None 0 ?w [] [] 0"
    by (simp add: ev peek_span_def)
  have 4: "step (st [7, 8] [] None 0 ?w [] [] 0) LqProduce =
      st [7, 8] [\<lparr>rs_span = s, rs_frames = 2\<rparr>] None 1 PsIdle tags [] 3"
    by (simp add: ev produce_def write_span_def u64_of_usize_def tg)
  have 5: "step (st [7, 8] [\<lparr>rs_span = s, rs_frames = 2\<rparr>] None 1 PsIdle tags [] 3) LqPeek =
      st [7, 8] [] (Some \<lparr>rs_span = s, rs_frames = 2\<rparr>) 1 PsIdle tags [] 3"
    by (simp add: ev peek_span_def)
  have 6: "step (st [7, 8] [] (Some \<lparr>rs_span = s, rs_frames = 2\<rparr>) 1 PsIdle tags [] 3) (LqTake [0]) =
      st [8] [] (Some \<lparr>rs_span = s1, rs_frames = Suc 0\<rparr>) 1 PsIdle tags [(s, 7)] 3"
    by (simp add: ev take_pending_def adv [simplified] tg)
  have 7: "step (st [8] [] (Some \<lparr>rs_span = s1, rs_frames = Suc 0\<rparr>) 1 PsIdle tags [(s, 7)] 3) (LqBegin s [4]) =
      st [8] [] (Some \<lparr>rs_span = s1, rs_frames = Suc 0\<rparr>) 1 ?r tags [(s, 7)] 3"
    by (simp add: ev write_reserve_def)
  have 8: "step (st [8] [] (Some \<lparr>rs_span = s1, rs_frames = Suc 0\<rparr>) 1 ?r tags [(s, 7)] 3) (LqTake [0, 0]) =
      st [] [] None 1 ?r tags tags 3"
    by (simp add: ev take_pending_def tg tags_def)
  let ?steps = "[LqBegin s [7, 8, 9], LqProduce, LqPeek, LqProduce, LqPeek, LqTake [0], LqBegin s [4], LqTake [0, 0]]"
  let ?q = "\<lparr>la_samples = [], la_spans = [], la_pending = None, la_dropped = 0, la_shortfall = 0\<rparr>"
  have q: "link_queue_new (\<lambda>_. []) (\<lambda>_. []) 2 2 = Inr ?q" by (simp add: link_queue_new_def)
  have "link_start ?q = st [] [] None 0 PsIdle [] [] 0" by (simp add: link_start_def st_def)
  then have "foldl step (link_start ?q) ?steps = st [] [] None 1 ?r tags tags 3"
    by (simp add: 1 2 3 4 5 6 7 8)
  note run = this [unfolded step_def]
  have "list_all step_audio_ok ?steps" by (simp add: span_ok_def s_def)
  from link_audio_origin [OF list_ring_laws list_ring_laws _ _ q this run]
  have "ls_delivered l @ queue_tags id id (ls_queue l) = ls_accepted l \<and> ls_panic l = None"
    if "l = st [] [] None 1 ?r tags tags 3" for l using that by simp
  then show ?thesis
    by (intro exI [of _ "st [] [] None 1 ?r tags tags 3"]) (simp add: st_def tags_def s_def s1_def)
qed

text \<open>The loop of \<^verbatim>\<open>read\<close>: each round takes at least one sample, or finds the queue empty.\<close>

lemma read_span_idle:
  assumes "ring_laws rs cs" "ring_laws rd cd" "queue_rep cs cd [] q" "out \<noteq> []"
  obtains (empty) q' where "read_span rs rd out q = Inr (None, out, q')" "queue_tags cs cd q = []" "queue_tags cs cd q' = []"
      "queue_rep cs cd [] q'" "la_shortfall q' = la_shortfall q"
  | (some) p pcm q' where "read_span rs rd out q = Inr (Some \<lparr>rs_span = p, rs_frames = length pcm\<rparr>, pcm @ drop (length pcm) out, q')"
      "0 < length pcm" "length pcm \<le> length out" "queue_tags cs cd q = tagged p pcm @ queue_tags cs cd q'"
      "queue_rep cs cd [] q'" "la_shortfall q' = la_shortfall q"
proof -
  obtain p q1 where peek: "peek_span rd q = (p, q1)" by fastforce
  note keep = peek_span_keeps [OF assms(2), where q = q, unfolded peek, simplified]
  note rep = peek_span_rep(1) [OF assms(2), where cs = cs and flight = "[]" and q = q, unfolded peek, simplified]
    peek_span_rep(2) [OF assms(2), where cs = cs and q = q, unfolded peek, simplified]
  have short: "la_shortfall q1 = la_shortfall q"
    using peek by (auto simp: peek_span_def Let_def split: option.splits)
  show thesis
  proof (cases p)
    case None
    then have "queue_tags cs cd q = []" using keep by (simp add: queue_tags_def)
    then show ?thesis using None assms(3,4) peek rep short by (intro empty [of q1]) (simp_all add: read_span_def)
  next
    case (Some r)
    then have "la_pending q1 = Some r" using keep(2) by simp
    from take_pending_takes [OF assms(1) rep(1) [THEN iffD2, OF assms(3)] this, of out]
    obtain pcm q' where t: "take_pending rs out q1 =
        Inr (\<lparr>rs_span = rs_span r, rs_frames = length pcm\<rparr>, pcm @ drop (length pcm) out, q')"
      "length pcm = min (rs_frames r) (length out)"
      "queue_tags cs cd q1 = tagged (rs_span r) pcm @ queue_tags cs cd q'" "queue_rep cs cd [] q'"
      "la_shortfall q' = la_shortfall q1" by metis
    have "r \<in> set (queue_spans cd q)" 
      unfolding keep(1) [symmetric] using \<open>la_pending q1 = Some r\<close> by (simp add: queue_spans_def)
    then have "0 < rs_frames r" using assms(3) by (auto simp: queue_rep_def read_ok_def list_all_iff)
    then show ?thesis using Some assms(4) peek rep t short
      by (intro some [of "rs_span r" pcm q']) (simp_all add: read_span_def)
  qed
qed

declare read_loop.simps [simp del]

lemma read_loop_drains:
  assumes "ring_laws rs cs" "ring_laws rd cd" "queue_rep cs cd [] q" "n \<le> length out" "length out - n \<le> fuel"
    "k = min (length out - n) (length (queue_tags cs cd q))"
  shows "\<exists>q'. read_loop rs rd fuel n out q =
      Some (Inr (n + k, take n out @ map snd (take k (queue_tags cs cd q)) @ drop (n + k) out, q'))
    \<and> queue_tags cs cd q' = drop k (queue_tags cs cd q) \<and> queue_rep cs cd [] q' \<and> la_shortfall q' = la_shortfall q"
  using assms(3-6)
proof (induction fuel arbitrary: n out q k)
  case 0
  then show ?case by (intro exI [of _ q]) (simp add: read_loop.simps)
next
  case (Suc fuel)
  show ?case
  proof (cases "n < length out")
    case False
    then show ?thesis using Suc.prems by (intro exI [of _ q]) (simp add: read_loop.simps)
  next
    case True
    then have rest: "drop n out \<noteq> []" by simp
    show ?thesis
    proof (cases rule: read_span_idle [OF assms(1,2) Suc.prems(1) rest])
      case (1 q')
      then show ?thesis using True Suc.prems by (intro exI [of _ q']) (simp add: read_loop.simps)
    next
      case some: (2 p pcm q')
      let ?out = "take n out @ pcm @ drop (n + length pcm) out"
      let ?m = "min (length out - (n + length pcm)) (length (queue_tags cs cd q'))"
      have len: "length ?out = length out" using some(3) True by simp
      have k: "k = length pcm + ?m" using Suc.prems(4) some(3,4) by simp
      have "\<exists>q''. read_loop rs rd fuel (n + length pcm) ?out q' =
          Some (Inr (n + length pcm + ?m, take (n + length pcm) ?out @ map snd (take ?m (queue_tags cs cd q')) @ drop (n + length pcm + ?m) ?out, q''))
        \<and> queue_tags cs cd q'' = drop ?m (queue_tags cs cd q') \<and> queue_rep cs cd [] q'' \<and> la_shortfall q'' = la_shortfall q'"
      proof (rule Suc.IH)
        show "length ?out - (n + length pcm) \<le> fuel" using len some(2,3) Suc.prems(3) by linarith
      qed (use some True len in simp_all)
      then obtain q'' where q'': "read_loop rs rd fuel (n + length pcm) ?out q' =
          Some (Inr (n + length pcm + ?m, take (n + length pcm) ?out @ map snd (take ?m (queue_tags cs cd q')) @ drop (n + length pcm + ?m) ?out, q''))"
        "queue_tags cs cd q'' = drop ?m (queue_tags cs cd q')" "queue_rep cs cd [] q''" "la_shortfall q'' = la_shortfall q'"
        by blast
      have "map snd (tagged p pcm) = pcm" by (rule nth_equalityI) (simp_all add: tagged_def)
      moreover have "take (n + length pcm) ?out = take n out @ pcm" "drop (n + length pcm + ?m) ?out = drop (n + k) out"
        using True k by (simp_all add: ac_simps)
      moreover have "read_loop rs rd (Suc fuel) n out q = read_loop rs rd fuel (n + length pcm) ?out q'"
        using True some(1) by (subst read_loop.simps) (simp add: ac_simps)
      ultimately show ?thesis using q'' some(4,6) k
        by (intro exI [of _ q'']) (simp add: add.assoc)
    qed
  qed
qed

text \<open>A synchronous read of a queue no writer is inside of always returns: it fills the output with the oldest
  samples of the queue, in order and across spans, completes it with silence, returns the number of silent
  samples and adds it to the shortfall counter, and leaves the newer samples with their origin.
\<close>

theorem link_read_drains:
  assumes "ring_laws rs cs" "ring_laws rd cd" "queue_rep cs cd [] q" "length out < 2 ^ 64"
    "k = min (length out) (length (queue_tags cs cd q))"
  shows "\<exists>q'. link_read rs rd out q =
      Some (Inr (length out - k, map snd (take k (queue_tags cs cd q)) @ replicate (length out - k) 0, q'))
    \<and> queue_tags cs cd q' = drop k (queue_tags cs cd q) \<and> queue_rep cs cd [] q'
    \<and> la_shortfall q' = la_shortfall q + word_of_nat (length out - k)"
proof -
  have "k = min (length out - 0) (length (queue_tags cs cd q))" using assms(5) by simp
  from read_loop_drains [OF assms(1-3) _ _ this, of "length out"]
  obtain q' where q': "read_loop rs rd (length out) 0 out q = Some (Inr (k, map snd (take k (queue_tags cs cd q)) @ drop k out, q'))"
    "queue_tags cs cd q' = drop k (queue_tags cs cd q)" "queue_rep cs cd [] q'" "la_shortfall q' = la_shortfall q"
    by auto
  have u: "u64_of_usize (length out - k) = word_of_nat (length out - k)"
    using assms(4) by (simp add: u64_of_usize_def)
  show ?thesis using q' assms(5) u
    by (intro exI [of _ "q'\<lparr>la_shortfall := la_shortfall q' + u64_of_usize (length out - k)\<rparr>"])
      (simp add: link_read_def Let_def queue_tags_def queue_rep_def queue_spans_def)
qed

theorem link_read_drains_witness:
  "\<exists>q'. link_read (list_ring 4) (list_ring 4) [9, 9, 9, 9]
     \<lparr>la_samples = [5 :: nat, 6, 7], la_spans = [\<lparr>rs_span = \<lparr>as_generation = 1, as_burst = 2, as_source_start = 0, as_stream = 3, as_born_ns = None\<rparr>, rs_frames = 2\<rparr>,
        \<lparr>rs_span = \<lparr>as_generation = 1, as_burst = 3, as_source_start = 9, as_stream = 3, as_born_ns = None\<rparr>, rs_frames = 1\<rparr>],
      la_pending = None, la_dropped = 0, la_shortfall = 3\<rparr>
     = Some (Inr (1, [5, 6, 7, 0], q')) \<and> la_shortfall q' = 4"
  (is "\<exists>q'. link_read ?r ?d ?o ?q = _ \<and> _")
proof -
  have t: "map snd (queue_tags id id ?q) = [5, 6, 7]" by (simp add: queue_tags_def queue_spans_def tagged_def)
  then have len: "length (queue_tags id id ?q) = 3" by (metis length_map length_Cons list.size(3) numeral_3_eq_3)
  have "queue_rep id id [] ?q" by (simp add: queue_rep_def queue_spans_def read_ok_def span_ok_def)
  from link_read_drains [OF list_ring_laws list_ring_laws this, of ?o 3 4 4] t len show ?thesis by auto
qed

end
