(* ===== verification/Parrot.thy ===== *)
theory Parrot
  imports Spsc_Ring
begin

text \<open>
  The parrot's burst capture, \<^verbatim>\<open>core/src/controller/parrot.rs\<close>: two recording buffers circulate between the
  audio callback, which records a receive burst, and the control thread, which plays it back and returns the
  buffer. The two \<^verbatim>\<open>rtrb\<close> rings are arguments; so is the normalisation of a sample, which is floating-point
  arithmetic. Buffers are the samples they hold.
\<close>

section \<open>The capture\<close>

definition MAX_PARROT_SAMPLES :: nat where
  "MAX_PARROT_SAMPLES = 30 * 48000"

record ('c, 'r, 'f) ParrotCapture =
  pc_active :: bool
  pc_recording :: bool
  pc_current :: "'f list option"
  pc_free :: "'f list list"
  pc_completed :: 'c
  pc_recycled :: 'r

definition parrot_new :: "(nat \<Rightarrow> 'c) \<Rightarrow> (nat \<Rightarrow> 'r) \<Rightarrow> ('c, 'r, 'f) ParrotCapture" where
  "parrot_new ring_c ring_r = \<lparr>pc_active = False, pc_recording = False, pc_current = None, pc_free = [[], []],
     pc_completed = ring_c 2, pc_recycled = ring_r 2\<rparr>"

text \<open>\<^verbatim>\<open>while let Ok(buffer) = self.recycled.pop()\<close>, with fuel; \<^verbatim>\<open>Vec::push\<close> appends.\<close>

fun drain_recycled :: "('r, 'f list) Ring \<Rightarrow> nat \<Rightarrow> 'r \<Rightarrow> 'f list list \<Rightarrow> ('f list list \<times> 'r) option" where
  "drain_recycled rr fuel w free =
     (case rb_pop rr w of
        None \<Rightarrow> Some (free, w)
      | Some (buffer, w') \<Rightarrow> (case fuel of 0 \<Rightarrow> None | Suc fuel' \<Rightarrow> drain_recycled rr fuel' w' (free @ [buffer])))"

text \<open>\<^verbatim>\<open>Vec::pop\<close> takes the last element.\<close>

definition begin_burst :: "bool \<Rightarrow> ('c, 'r, 'f) ParrotCapture \<Rightarrow> ('c, 'r, 'f) ParrotCapture" where
  "begin_burst active c =
     (if active \<and> \<not> pc_active c
      then (if pc_free c = [] then c\<lparr>pc_current := None, pc_recording := False\<rparr>
            else c\<lparr>pc_current := Some (last (pc_free c)), pc_free := butlast (pc_free c), pc_recording := True\<rparr>)
      else c)"

text \<open>\<open>None\<close> is the panic of \<^verbatim>\<open>expect("recording owns a buffer")\<close>.\<close>

definition extend_burst ::
    "('f \<Rightarrow> 'f) \<Rightarrow> bool \<Rightarrow> 'f list \<Rightarrow> ('c, 'r, 'f) ParrotCapture \<Rightarrow> ('c, 'r, 'f) ParrotCapture option" where
  "extend_burst norm active samples c =
     (if active \<and> pc_recording c
      then (case pc_current c of
              None \<Rightarrow> None
            | Some current \<Rightarrow>
                (let count = min (length samples) (MAX_PARROT_SAMPLES - length current) in
                 Some (c\<lparr>pc_current := Some (current @ map norm (take count samples))\<rparr>)))
      else Some c)"

definition end_burst ::
    "('c, 'f list) Ring \<Rightarrow> bool \<Rightarrow> ('c, 'r, 'f) ParrotCapture \<Rightarrow> ('c, 'r, 'f) ParrotCapture option" where
  "end_burst rc active c =
     (if \<not> active \<and> pc_active c \<and> pc_recording c
      then (case pc_current c of
              None \<Rightarrow> None
            | Some buffer \<Rightarrow>
                (let c' = c\<lparr>pc_current := None, pc_recording := False\<rparr> in
                 if buffer = [] then Some (c'\<lparr>pc_free := pc_free c @ [[]]\<rparr>)
                 else (case rb_push rc (pc_completed c) buffer of
                         Some w \<Rightarrow> Some (c'\<lparr>pc_completed := w\<rparr>)
                       | None \<Rightarrow> Some (c'\<lparr>pc_free := pc_free c @ [[]]\<rparr>))))
      else Some c)"

definition parrot_observe ::
    "('c, 'f list) Ring \<Rightarrow> ('r, 'f list) Ring \<Rightarrow> ('f \<Rightarrow> 'f) \<Rightarrow> bool \<Rightarrow> 'f list \<Rightarrow> ('c, 'r, 'f) ParrotCapture
       \<Rightarrow> ('c, 'r, 'f) ParrotCapture option" where
  "parrot_observe rc rr norm active samples c =
     (case drain_recycled rr (rb_slots rr (pc_recycled c)) (pc_recycled c) (pc_free c) of
        None \<Rightarrow> None
      | Some (free, w) \<Rightarrow>
          (case extend_burst norm active samples (begin_burst active (c\<lparr>pc_free := free, pc_recycled := w\<rparr>)) of
             None \<Rightarrow> None
           | Some c1 \<Rightarrow> map_option (\<lambda>c2. c2\<lparr>pc_active := active\<rparr>) (end_burst rc active c1)))"

definition take_completed ::
    "('c, 'f list) Ring \<Rightarrow> ('c, 'r, 'f) ParrotCapture \<Rightarrow> 'f list option \<times> ('c, 'r, 'f) ParrotCapture" where
  "take_completed rc c =
     (case rb_pop rc (pc_completed c) of
        Some (clip, w) \<Rightarrow> (Some clip, c\<lparr>pc_completed := w\<rparr>)
      | None \<Rightarrow> (None, c))"

definition parrot_recycle :: "('r, 'f list) Ring \<Rightarrow> ('c, 'r, 'f) ParrotCapture \<Rightarrow> ('c, 'r, 'f) ParrotCapture" where
  "parrot_recycle rr c =
     (case rb_push rr (pc_recycled c) [] of Some w \<Rightarrow> c\<lparr>pc_recycled := w\<rparr> | None \<Rightarrow> c)"

section \<open>Both threads, and what the parrot promises\<close>

text \<open>The control thread holds clips and returns them in any order.\<close>

datatype 'f ParrotStep = PaObserve bool "'f list" | PaTake | PaReturn nat

fun parrot_step ::
    "('c, 'f list) Ring \<Rightarrow> ('r, 'f list) Ring \<Rightarrow> ('f \<Rightarrow> 'f) \<Rightarrow> ('c, 'r, 'f) ParrotCapture \<times> 'f list list \<Rightarrow> 'f ParrotStep
       \<Rightarrow> (('c, 'r, 'f) ParrotCapture \<times> 'f list list) option" where
  "parrot_step rc rr norm (c, held) (PaObserve active samples) =
     map_option (\<lambda>c'. (c', held)) (parrot_observe rc rr norm active samples c)"
| "parrot_step rc rr norm (c, held) PaTake =
     Some (case take_completed rc c of (Some clip, c') \<Rightarrow> (c', held @ [clip]) | (None, c') \<Rightarrow> (c', held))"
| "parrot_step rc rr norm (c, held) (PaReturn i) =
     Some (if i < length held then (parrot_recycle rr c, remove_at i held) else (c, held))"

fun parrot_run ::
    "('c, 'f list) Ring \<Rightarrow> ('r, 'f list) Ring \<Rightarrow> ('f \<Rightarrow> 'f) \<Rightarrow> ('c, 'r, 'f) ParrotCapture \<times> 'f list list \<Rightarrow> 'f ParrotStep list
       \<Rightarrow> (('c, 'r, 'f) ParrotCapture \<times> 'f list list) option" where
  "parrot_run rc rr norm s [] = Some s"
| "parrot_run rc rr norm s (e # es) = Option.bind (parrot_step rc rr norm s e) (\<lambda>s'. parrot_run rc rr norm s' es)"

text \<open>
  The promise, without buffers or rings: a burst that begins while fewer than two clips are out is recorded
  whole, and its first thirty seconds become a clip unless it had no samples.
\<close>

record 'f ParrotPromise =
  pp_active :: bool
  pp_burst :: "'f list option"
  pp_ready :: "'f list list"
  pp_held :: "'f list list"

fun promise_step :: "('f \<Rightarrow> 'f) \<Rightarrow> 'f ParrotPromise \<Rightarrow> 'f ParrotStep \<Rightarrow> 'f ParrotPromise" where
  "promise_step norm p (PaObserve active samples) =
     (if active
      then (let burst = (if pp_active p then pp_burst p
                         else if length (pp_ready p) + length (pp_held p) < 2 then Some [] else None)
            in p\<lparr>pp_active := True, pp_burst := map_option (\<lambda>b. b @ map norm samples) burst\<rparr>)
      else p\<lparr>pp_active := False, pp_burst := None,
             pp_ready := (case pp_burst p of
                            None \<Rightarrow> pp_ready p
                          | Some b \<Rightarrow> if b = [] then pp_ready p else pp_ready p @ [take MAX_PARROT_SAMPLES b])\<rparr>)"
| "promise_step norm p PaTake =
     (case pp_ready p of [] \<Rightarrow> p | clip # ready \<Rightarrow> p\<lparr>pp_ready := ready, pp_held := pp_held p @ [clip]\<rparr>)"
| "promise_step norm p (PaReturn i) = p\<lparr>pp_held := remove_at i (pp_held p)\<rparr>"

definition promise_start :: "'f ParrotPromise" where
  "promise_start = \<lparr>pp_active = False, pp_burst = None, pp_ready = [], pp_held = []\<rparr>"

definition parrot_sim ::
    "('c \<Rightarrow> 'f list list) \<Rightarrow> ('r \<Rightarrow> 'f list list) \<Rightarrow> ('c, 'r, 'f) ParrotCapture \<times> 'f list list \<Rightarrow> 'f ParrotPromise \<Rightarrow> bool" where
  "parrot_sim cc cr s p = (case s of (c, held) \<Rightarrow>
     pc_active c = pp_active p \<and> held = pp_held p \<and> cc (pc_completed c) = pp_ready p
     \<and> pc_recording c = (pp_burst p \<noteq> None) \<and> pc_current c = map_option (take MAX_PARROT_SAMPLES) (pp_burst p)
     \<and> (pc_recording c \<longrightarrow> pc_active c) \<and> set (pc_free c) \<subseteq> {[]} \<and> set (cr (pc_recycled c)) \<subseteq> {[]}
     \<and> length (pc_free c) + length (cr (pc_recycled c)) + (if pc_recording c then 1 else 0)
         + length (pp_ready p) + length held = 2)"

declare drain_recycled.simps [simp del]

lemma drain_recycled_all:
  assumes "ring_laws rr cr" "length (cr w) \<le> fuel"
  shows "\<exists>w'. drain_recycled rr fuel w free = Some (free @ cr w, w') \<and> cr w' = []"
  using assms(2)
proof (induction fuel arbitrary: w free)
  case 0
  then have "rb_pop rr w = None" using ring_popD(3) [OF assms(1)] by simp
  then show ?case using 0 by (simp add: drain_recycled.simps)
next
  case (Suc fuel)
  show ?case
  proof (cases "rb_pop rr w")
    case None
    then show ?thesis using ring_popD(3) [OF assms(1), of w] by (simp add: drain_recycled.simps)
  next
    case (Some bw)
    obtain b w1 where bw: "bw = (b, w1)" by fastforce
    have con: "cr w = b # cr w1" using ring_popD(1) [OF assms(1)] Some bw by simp
    then have "\<exists>w'. drain_recycled rr fuel w1 (free @ [b]) = Some ((free @ [b]) @ cr w1, w') \<and> cr w' = []"
      using Suc.prems by (intro Suc.IH) simp
    then show ?thesis using con Some bw by (simp add: drain_recycled.simps [of rr "Suc fuel"])
  qed
qed

lemma take_extend:
  "take n r @ take (min (length xs) (n - length (take n r))) xs = take n (r @ xs)"
  by (simp add: min_def take_all_iff)

lemma parrot_observe_sim:
  assumes "ring_laws rc cc" "ring_capacity rc cc 2" "ring_laws rr cr" "parrot_sim cc cr (c, held) p"
  obtains c' where "parrot_observe rc rr norm active samples c = Some c'"
    "parrot_sim cc cr (c', held) (promise_step norm p (PaObserve active samples))"
proof -
  obtain w where w: "drain_recycled rr (rb_slots rr (pc_recycled c)) (pc_recycled c) (pc_free c)
      = Some (pc_free c @ cr (pc_recycled c), w)" "cr w = []"
    using drain_recycled_all [OF assms(3), of "pc_recycled c"] ring_slotsD [OF assms(3)] by (metis le_refl)
  define c0 where "c0 = c\<lparr>pc_free := pc_free c @ cr (pc_recycled c), pc_recycled := w\<rparr>"
  have sim: "parrot_sim cc cr (c0, held) p" using assms(4) w(2) by (cases "pp_burst p") (auto simp: parrot_sim_def c0_def)
  have obs: "parrot_observe rc rr norm active samples c = (case extend_burst norm active samples (begin_burst active c0) of
      None \<Rightarrow> None | Some c1 \<Rightarrow> map_option (\<lambda>c2. c2\<lparr>pc_active := active\<rparr>) (end_burst rc active c1))"
    by (simp add: parrot_observe_def w(1) c0_def)
  have "cr (pc_recycled c0) = []" using w(2) by (simp add: c0_def)
  show thesis
  proof (cases active)
    case False
    show ?thesis
    proof (cases "pp_burst p")
      case None
      then show ?thesis using False sim obs
        by (intro that [of "c0\<lparr>pc_active := False\<rparr>"])
          (auto simp: begin_burst_def extend_burst_def end_burst_def parrot_sim_def)
    next
      case (Some b)
      have rec: "pc_recording c0" "pc_active c0" "pc_current c0 = Some (take MAX_PARROT_SAMPLES b)"
        using Some sim by (auto simp: parrot_sim_def)
      show ?thesis
      proof (cases "b = []")
        case True
        then show ?thesis using False Some rec sim obs
          by (intro that [of "c0\<lparr>pc_current := None, pc_recording := False, pc_free := pc_free c0 @ [[]], pc_active := False\<rparr>"])
            (auto simp: begin_burst_def extend_burst_def end_burst_def parrot_sim_def Let_def)
      next
        case nonempty: False
        then have ne: "take MAX_PARROT_SAMPLES b \<noteq> []" by (simp add: MAX_PARROT_SAMPLES_def)
        have "length (cc (pc_completed c0)) < 2" using sim Some by (auto simp: parrot_sim_def)
        then obtain w' where "rb_push rc (pc_completed c0) (take MAX_PARROT_SAMPLES b) = Some w'"
          "cc w' = cc (pc_completed c0) @ [take MAX_PARROT_SAMPLES b]"
          using ring_push_fits [OF assms(1,2)] by metis
        then show ?thesis using False Some rec sim obs nonempty ne
          by (intro that [of "c0\<lparr>pc_current := None, pc_recording := False, pc_completed := w', pc_active := False\<rparr>"])
            (auto simp: begin_burst_def extend_burst_def end_burst_def parrot_sim_def Let_def)
      qed
    qed
  next
    case True
    define c1 where "c1 = begin_burst True c0"
    define burst where "burst = (if pp_active p then pp_burst p
      else if length (pp_ready p) + length (pp_held p) < 2 then Some [] else None)"
    have c1: "pc_recording c1 = (burst \<noteq> None)" "pc_current c1 = map_option (take MAX_PARROT_SAMPLES) burst"
      "set (pc_free c1) \<subseteq> {[]}" "pc_completed c1 = pc_completed c0" "pc_recycled c1 = pc_recycled c0"
      "length (pc_free c1) + (if pc_recording c1 then 1 else 0) + length (pp_ready p) + length held = 2"
      using sim \<open>cr (pc_recycled c0) = []\<close>
      by (cases "pc_free c0" rule: rev_cases; auto simp: c1_def begin_burst_def burst_def parrot_sim_def)+
    define c2 where "c2 = (case burst of None \<Rightarrow> c1
      | Some b \<Rightarrow> c1\<lparr>pc_current := Some (take MAX_PARROT_SAMPLES (b @ map norm samples))\<rparr>)"
    have "extend_burst norm True samples c1 = Some c2"
      using c1(1,2) take_extend [of MAX_PARROT_SAMPLES _ "map norm samples"]
      by (cases burst) (simp_all add: extend_burst_def c2_def Let_def take_map)
    then show ?thesis using True c1 sim obs
      by (intro that [of "c2\<lparr>pc_active := True\<rparr>"])
        (auto simp: c1_def [symmetric] end_burst_def parrot_sim_def Let_def burst_def [symmetric] c2_def
          \<open>cr (pc_recycled c0) = []\<close> split: option.splits)
  qed
qed

lemma parrot_step_sim:
  assumes "ring_laws rc cc" "ring_capacity rc cc 2" "ring_laws rr cr" "ring_capacity rr cr 2" "parrot_sim cc cr s p"
  obtains s' where "parrot_step rc rr norm s e = Some s'" "parrot_sim cc cr s' (promise_step norm p e)"
proof -
  obtain c held where s: "s = (c, held)" by fastforce
  show thesis
  proof (cases e)
    case (PaObserve active samples)
    then show ?thesis using parrot_observe_sim [OF assms(1-3) assms(5) [unfolded s]] that s by (metis option.simps(9) parrot_step.simps(1))
  next
    case PaTake
    then show ?thesis using assms(5) s ring_popD(1,3) [OF assms(1), of "pc_completed c"]
      by (intro that [of "case take_completed rc c of (Some clip, c') \<Rightarrow> (c', held @ [clip]) | (None, c') \<Rightarrow> (c', held)"])
        (auto simp: take_completed_def parrot_sim_def split: option.split list.split)
  next
    case (PaReturn i)
    show ?thesis
    proof (cases "i < length held")
      case False
      then show ?thesis using assms(5) s PaReturn that [of s] by (auto simp: parrot_sim_def remove_at_def)
    next
      case True
      then have len: "length held = Suc (length (remove_at i held))" by (simp add: remove_at_def)
      have "length (cr (pc_recycled c)) < 2" using True assms(5) s by (auto simp: parrot_sim_def)
      then obtain w where w: "rb_push rr (pc_recycled c) [] = Some w" "cr w = cr (pc_recycled c) @ [[]]"
        using ring_push_fits [OF assms(3,4)] by metis
      have "parrot_sim cc cr (c\<lparr>pc_recycled := w\<rparr>, remove_at i held) (promise_step norm p e)"
        using assms(5) s w(2) len PaReturn by (cases "pp_burst p") (clarsimp simp: parrot_sim_def)+
      moreover have "parrot_step rc rr norm s e = Some (c\<lparr>pc_recycled := w\<rparr>, remove_at i held)"
        using True s w(1) PaReturn by (simp add: parrot_recycle_def)
      ultimately show ?thesis by (rule that [rotated])
    qed
  qed
qed

lemma parrot_run_sim:
  assumes "ring_laws rc cc" "ring_capacity rc cc 2" "ring_laws rr cr" "ring_capacity rr cr 2" "parrot_sim cc cr s p"
  shows "\<exists>s'. parrot_run rc rr norm s es = Some s' \<and> parrot_sim cc cr s' (foldl (promise_step norm) p es)"
  using assms(5)
proof (induction es arbitrary: s p)
  case (Cons e es)
  obtain s1 where "parrot_step rc rr norm s e = Some s1" "parrot_sim cc cr s1 (promise_step norm p e)"
    using parrot_step_sim [OF assms(1-4) Cons.prems] by metis
  then show ?case using Cons.IH by simp
qed simp

section \<open>Properties\<close>

text \<open>C26. The two-buffer capture implements the promise of \<open>promise_step\<close> for every sequence of audio frames,
  takes and returns: it never panics, the clips the control thread holds and the clips ready for it are exactly
  the first thirty seconds of the bursts that began with fewer than two clips out, normalised; the full-queue
  fallback that would discard a recording is never taken, and no buffer is ever lost: the free, recycled,
  recording, ready and held buffers are two at every point.\<close>

theorem parrot_captures_bursts:
  assumes "ring_laws rc cc" "ring_capacity rc cc 2" "ring_laws rr cr" "ring_capacity rr cr 2"
    "cc (ring_c 2) = []" "cr (ring_r 2) = []"
  shows "\<exists>c held. parrot_run rc rr norm (parrot_new ring_c ring_r, []) steps = Some (c, held)
    \<and> held = pp_held (foldl (promise_step norm) promise_start steps)
    \<and> cc (pc_completed c) = pp_ready (foldl (promise_step norm) promise_start steps)
    \<and> length (pc_free c) + length (cr (pc_recycled c)) + (if pc_recording c then 1 else 0)
        + length (cc (pc_completed c)) + length held = 2"
proof -
  have "parrot_sim cc cr (parrot_new ring_c ring_r, []) promise_start"
    using assms(5,6) by (simp add: parrot_sim_def parrot_new_def promise_start_def)
  from parrot_run_sim [OF assms(1-4) this, of norm steps]
  obtain c held where "parrot_run rc rr norm (parrot_new ring_c ring_r, []) steps = Some (c, held)"
    "parrot_sim cc cr (c, held) (foldl (promise_step norm) promise_start steps)" by auto
  then show ?thesis by (intro exI [of _ c] exI [of _ held]) (auto simp: parrot_sim_def)
qed

text \<open>Two clips out: the third burst is not recorded; after a return the fourth is.\<close>

theorem parrot_captures_bursts_witness:
  "\<exists>c. parrot_run (list_ring 2) (list_ring 2) (min 9) (parrot_new (\<lambda>_. []) (\<lambda>_. []), [])
     [PaObserve True [1, 20 :: nat], PaObserve False [], PaObserve True [2], PaObserve False [], PaTake, PaObserve True [3],
      PaObserve False [], PaReturn 0, PaObserve True [4], PaObserve True [5], PaObserve False [], PaTake] = Some (c, [[2]])
     \<and> pc_completed c = [[4, 5]]"
proof -
  let ?steps = "[PaObserve True [1, 20 :: nat], PaObserve False [], PaObserve True [2], PaObserve False [], PaTake, PaObserve True [3],
      PaObserve False [], PaReturn 0, PaObserve True [4], PaObserve True [5], PaObserve False [], PaTake]"
  have m: "take MAX_PARROT_SAMPLES [x] = [x]" "take MAX_PARROT_SAMPLES [x, y] = [x, y]" for x y :: nat
    by (simp_all add: MAX_PARROT_SAMPLES_def)
  have "foldl (promise_step (min 9)) promise_start ?steps = \<lparr>pp_active = False, pp_burst = None, pp_ready = [[4, 5]], pp_held = [[2]]\<rparr>"
    by (simp add: promise_start_def m remove_at_def)
  note spec = this
  obtain c held where "parrot_run (list_ring 2) (list_ring 2) (min 9) (parrot_new (\<lambda>_. []) (\<lambda>_. []), []) ?steps = Some (c, held)"
    "held = [[2]]" "id (pc_completed c) = [[4, 5]]"
    using parrot_captures_bursts [OF list_ring_laws list_ring_capacity list_ring_laws list_ring_capacity, of "\<lambda>_. []" "\<lambda>_. []" "min 9" ?steps]
    unfolding spec by force
  then show ?thesis unfolding id_apply by blast
qed

end
