(* ===== verification/Playback.thy ===== *)
theory Playback
  imports Prelude
begin

text \<open>
  Playback of one media item from a stream, \<^verbatim>\<open>core/src/audio/playback.rs\<close>, with the interface of the streams it
  reads (\<^verbatim>\<open>PcmStreamReader\<close>, \<^verbatim>\<open>core/src/audio/mod.rs\<close>). The streams themselves are an argument, a record of the
  operations of the trait; samples have an arbitrary type.
\<close>

section \<open>Streams\<close>

datatype PcmRead = PrSamples nat | PrFinalSamples nat | PrPending | PrFinished | PrFailed

datatype MorseSwitch = MwSelected | MwPending | MwUnavailable

record ('s, 'f) StreamOps =
  so_start :: "'s \<Rightarrow> 's"
  so_rewind :: "'s \<Rightarrow> 's"
  so_defer_before_output :: "'s \<Rightarrow> bool \<times> 's"
  so_render :: "'f list \<Rightarrow> 's \<Rightarrow> PcmRead \<times> 'f list \<times> 's"
  so_select_morse :: "'s \<Rightarrow> MorseSwitch \<times> 's"
  so_cancel :: "'s \<Rightarrow> 's"

section \<open>Playback\<close>

datatype PlaybackOutcome = PoActive | PoSucceeded | PoFailed | PoCancelled

record 's Playback =
  pb_stream :: "'s option"
  pb_stream_started :: bool
  pb_morse :: "MorseSwitch option"
  pb_waiting_for_stream :: bool
  pb_output_started :: bool
  pb_outcome :: PlaybackOutcome

definition playback_new :: "'s \<Rightarrow> 's Playback" where
  "playback_new stream = \<lparr>pb_stream = Some stream, pb_stream_started = False, pb_morse = None,
     pb_waiting_for_stream = False, pb_output_started = False, pb_outcome = PoActive\<rparr>"

definition is_finished :: "'s Playback \<Rightarrow> bool" where
  "is_finished p \<longleftrightarrow> pb_outcome p \<noteq> PoActive"

definition is_streaming :: "'s Playback \<Rightarrow> bool" where
  "is_streaming p \<longleftrightarrow> \<not> is_finished p \<and> pb_stream p \<noteq> None"

definition playback_finish :: "('s, 'f) StreamOps \<Rightarrow> PlaybackOutcome \<Rightarrow> 's Playback \<Rightarrow> 's Playback" where
  "playback_finish so outcome p = p\<lparr>pb_stream := map_option (so_cancel so) (pb_stream p),
     pb_waiting_for_stream := False, pb_outcome := outcome\<rparr>"

definition playback_cancel :: "('s, 'f) StreamOps \<Rightarrow> 's Playback \<Rightarrow> 's Playback" where
  "playback_cancel so p = playback_finish so PoCancelled p"

definition start_stream :: "('s, 'f) StreamOps \<Rightarrow> bool \<Rightarrow> 'f list \<Rightarrow> 's Playback \<Rightarrow> 's Playback" where
  "start_stream so receiving output p =
     (if \<not> pb_stream_started p \<and> (receiving \<or> output \<noteq> [])
      then p\<lparr>pb_stream := map_option (so_start so) (pb_stream p), pb_stream_started := True\<rparr>
      else p)"

text \<open>The Morse selection of \<^verbatim>\<open>render\<close>; \<open>False\<close> is an early return of no samples.\<close>

definition select_morse :: "('s, 'f) StreamOps \<Rightarrow> bool \<Rightarrow> 's Playback \<Rightarrow> bool \<times> 's Playback" where
  "select_morse so receiving p =
     (let p1 = (if receiving \<and> pb_morse p = None then p\<lparr>pb_morse := Some MwPending\<rparr> else p) in
      if pb_morse p1 = Some MwPending
      then (let (selected, stream) =
                  (case pb_stream p1 of
                     None \<Rightarrow> (MwUnavailable, None)
                   | Some s \<Rightarrow> (case so_select_morse so s of (m, s') \<Rightarrow> (m, Some s')));
                p2 = p1\<lparr>pb_stream := stream, pb_morse := Some selected\<rparr> in
            case selected of
              MwSelected \<Rightarrow> (True, p2)
            | MwPending \<Rightarrow> (False, p2\<lparr>pb_waiting_for_stream := True\<rparr>)
            | MwUnavailable \<Rightarrow> (False, playback_finish so PoCancelled p2))
      else (True, p1))"

definition read_stream :: "('s, 'f) StreamOps \<Rightarrow> 'f list \<Rightarrow> 's Playback \<Rightarrow> nat \<times> 'f list \<times> 's Playback" where
  "read_stream so output p =
     (let (read, output', stream) =
            (case pb_stream p of
               None \<Rightarrow> (PrFinished, output, None)
             | Some s \<Rightarrow> (case so_render so output s of (r, out, s') \<Rightarrow> (r, out, Some s')));
          p1 = p\<lparr>pb_stream := stream\<rparr> in
      case read of
        PrSamples count \<Rightarrow>
          (min count (length output), output',
           p1\<lparr>pb_output_started := (pb_output_started p1 \<or> count \<noteq> 0), pb_waiting_for_stream := False\<rparr>)
      | PrFinalSamples count \<Rightarrow>
          (min count (length output), output',
           playback_finish so PoSucceeded (p1\<lparr>pb_output_started := (pb_output_started p1 \<or> count \<noteq> 0)\<rparr>))
      | PrPending \<Rightarrow> (0, output', p1\<lparr>pb_waiting_for_stream := True\<rparr>)
      | PrFinished \<Rightarrow> (0, output', playback_finish so PoSucceeded p1)
      | PrFailed \<Rightarrow> (0, output', playback_finish so PoFailed p1))"

definition playback_render ::
    "('s, 'f) StreamOps \<Rightarrow> bool \<Rightarrow> 'f list \<Rightarrow> 's Playback \<Rightarrow> nat \<times> 'f list \<times> 's Playback" where
  "playback_render so receiving output p =
     (if is_finished p then (0, output, p)
      else (case select_morse so receiving (start_stream so receiving output p) of
              (False, p1) \<Rightarrow> (0, output, p1)
            | (True, p1) \<Rightarrow> if output = [] then (0, output, p1) else read_stream so output p1))"

definition playback_restart :: "('s, 'f) StreamOps \<Rightarrow> bool \<Rightarrow> 's Playback \<Rightarrow> 's Playback" where
  "playback_restart so receiving p =
     (let p1 = p\<lparr>pb_outcome := PoActive, pb_waiting_for_stream := False, pb_output_started := False, pb_morse := None,
                pb_stream_started := False\<rparr>
      in if receiving then snd (snd (playback_render so True [] p1)) else p1)"

text \<open>\<open>None\<close> is the panic of \<^verbatim>\<open>expect\<close> without a stream.\<close>

definition playback_rewind :: "('s, 'f) StreamOps \<Rightarrow> 's Playback \<Rightarrow> 's Playback option" where
  "playback_rewind so p =
     map_option (\<lambda>s. p\<lparr>pb_stream := Some (so_rewind so s), pb_stream_started := True, pb_waiting_for_stream := True,
         pb_outcome := PoActive, pb_morse := map_option (\<lambda>_. MwPending) (pb_morse p)\<rparr>) (pb_stream p)"

definition playback_defer :: "('s, 'f) StreamOps \<Rightarrow> bool \<Rightarrow> 's Playback \<Rightarrow> 's Playback" where
  "playback_defer so receiving p =
     (if pb_output_started p then snd (snd (playback_render so receiving [] p))
      else (case pb_stream p of
              None \<Rightarrow> snd (snd (playback_render so receiving [] p))
            | Some s \<Rightarrow>
                (case so_defer_before_output so s of
                   (True, s') \<Rightarrow>
                     p\<lparr>pb_stream := Some s', pb_stream_started := False, pb_waiting_for_stream := True,
                       pb_morse := (if receiving \<or> pb_morse p \<noteq> None then Some MwPending else None)\<rparr>
                 | (False, s') \<Rightarrow> snd (snd (playback_render so receiving [] (p\<lparr>pb_stream := Some s'\<rparr>))))))"

definition take_stream :: "'s Playback \<Rightarrow> 's option \<times> 's Playback" where
  "take_stream p = (pb_stream p, p\<lparr>pb_outcome := PoCancelled, pb_stream_started := False, pb_stream := None\<rparr>)"

section \<open>Sequences of operations\<close>

datatype 'f PlaybackOp = OpRender bool "'f list" | OpRestart bool | OpDefer bool | OpRewind | OpCancel

text \<open>
  The ghosts of a run: whether receive was signalled since the last restart (\<open>pt_asked\<close>), and what each render
  emitted and found: the count, \<open>pt_asked\<close>, whether the item was finished before, the Morse state after.
\<close>

record 's PlaybackTrace =
  pt_playback :: "'s Playback"
  pt_asked :: bool
  pt_emitted :: "(nat \<times> bool \<times> bool \<times> MorseSwitch option) list"

fun playback_op :: "('s, 'f) StreamOps \<Rightarrow> 's PlaybackTrace \<Rightarrow> 'f PlaybackOp \<Rightarrow> 's PlaybackTrace" where
  "playback_op so t (OpRender receiving output) =
     (case playback_render so receiving output (pt_playback t) of
        (n, _, p) \<Rightarrow>
          (let asked = (pt_asked t \<or> receiving \<and> \<not> is_finished (pt_playback t)) in
           \<lparr>pt_playback = p, pt_asked = asked,
            pt_emitted = pt_emitted t @ [(n, asked, is_finished (pt_playback t), pb_morse p)]\<rparr>))"
| "playback_op so t (OpRestart receiving) =
     t\<lparr>pt_playback := playback_restart so receiving (pt_playback t), pt_asked := receiving\<rparr>"
| "playback_op so t (OpDefer receiving) =
     t\<lparr>pt_playback := playback_defer so receiving (pt_playback t),
       pt_asked := (pt_asked t \<or> receiving \<and> \<not> is_finished (pt_playback t))\<rparr>"
| "playback_op so t OpRewind =
     (case playback_rewind so (pt_playback t) of Some p \<Rightarrow> t\<lparr>pt_playback := p\<rparr> | None \<Rightarrow> t)"
| "playback_op so t OpCancel = t\<lparr>pt_playback := playback_cancel so (pt_playback t)\<rparr>"

text \<open>Samples come out only before the end, and after a receive signal only from the selected Morse stream.\<close>

fun emission_ok :: "nat \<times> bool \<times> bool \<times> MorseSwitch option \<Rightarrow> bool" where
  "emission_ok (n, asked, finished, morse) \<longleftrightarrow> n = 0 \<or> \<not> finished \<and> (\<not> asked \<or> morse = Some MwSelected)"

lemma select_morse_asked:
  assumes "select_morse so receiving p = (go, p')"
  shows "receiving \<or> pb_morse p \<noteq> None \<Longrightarrow> pb_morse p' \<noteq> None"
    and "pb_morse p' = Some MwUnavailable \<Longrightarrow> pb_morse p = Some MwUnavailable \<or> is_finished p'"
    and "go \<Longrightarrow> pb_morse p' \<in> {pb_morse p, Some MwSelected} \<and> pb_morse p' \<noteq> Some MwPending \<and> pb_outcome p' = pb_outcome p"
  using assms
  by (auto simp: select_morse_def Let_def playback_finish_def is_finished_def
      split: if_splits prod.splits option.splits MorseSwitch.splits)

lemma read_stream_morse:
  assumes "read_stream so output p = (n, out, p')"
  shows "pb_morse p' = pb_morse p"
  using assms by (auto simp: read_stream_def Let_def playback_finish_def split: prod.splits PcmRead.splits)

lemma start_stream_keeps [simp]:
  "pb_morse (start_stream so receiving output p) = pb_morse p" "pb_outcome (start_stream so receiving output p) = pb_outcome p"
  by (simp_all add: start_stream_def)

definition playback_ok :: "bool \<Rightarrow> 's Playback \<Rightarrow> bool" where
  "playback_ok asked p \<longleftrightarrow> (asked \<longrightarrow> pb_morse p \<noteq> None) \<and> (pb_morse p = Some MwUnavailable \<longrightarrow> is_finished p)"

lemma render_ok:
  assumes "playback_render so receiving output p = (n, out, p')" "playback_ok asked p"
  defines "asked' \<equiv> asked \<or> receiving \<and> \<not> is_finished p"
  shows "playback_ok asked' p' \<and> emission_ok (n, asked', is_finished p, pb_morse p')"
proof (cases "is_finished p")
  case True
  then show ?thesis using assms by (simp add: playback_render_def)
next
  case False
  obtain go p1 where sel: "select_morse so receiving (start_stream so receiving output p) = (go, p1)" by fastforce
  note s = select_morse_asked [OF sel, simplified]
  have ok1: "playback_ok asked' p1" using s(1,2) assms(2) False by (auto simp: playback_ok_def asked'_def is_finished_def)
  show ?thesis
  proof (cases "go \<and> output \<noteq> []")
    case True
    then have read: "read_stream so output p1 = (n, out, p')"
      using assms(1) sel False by (simp add: playback_render_def)
    have m: "pb_morse p' = pb_morse p1" by (rule read_stream_morse [OF read])
    have "pb_morse p1 \<in> {None, Some MwSelected}"
      using s(3) True assms(2) False by (cases "pb_morse p"; cases "the (pb_morse p)") (auto simp: playback_ok_def)
    then show ?thesis using ok1 m False by (auto simp: playback_ok_def)
  next
    case no: False
    then have "n = 0 \<and> p' = p1" using assms(1) sel False by (cases go) (auto simp: playback_render_def)
    then show ?thesis using ok1 by simp
  qed
qed

lemma op_ok:
  assumes "playback_ok (pt_asked t) (pt_playback t)" "list_all emission_ok (pt_emitted t)"
  shows "playback_ok (pt_asked (playback_op so t op)) (pt_playback (playback_op so t op))
    \<and> list_all emission_ok (pt_emitted (playback_op so t op))"
proof (cases op)
  case (OpRender receiving out)
  obtain n o' p' where "playback_render so receiving out (pt_playback t) = (n, o', p')" by (metis prod_cases3)
  from render_ok [OF this assms(1)] this OpRender assms(2) show ?thesis by (simp add: Let_def)
next
  case (OpRestart receiving)
  let ?p = "(pt_playback t)\<lparr>pb_outcome := PoActive, pb_waiting_for_stream := False, pb_output_started := False, pb_morse := None,
    pb_stream_started := False\<rparr>"
  obtain n o' p' where r: "playback_render so True [] ?p = (n, o', p')" by (metis prod_cases3)
  have "playback_ok False ?p" by (simp add: playback_ok_def)
  from render_ok [OF r this] show ?thesis using OpRestart assms(2) r
    by (simp add: playback_restart_def Let_def is_finished_def) (simp add: playback_ok_def)
next
  case (OpDefer receiving)
  have render: "playback_ok (pt_asked t \<or> receiving \<and> \<not> is_finished p) (snd (snd (playback_render so receiving [] p)))"
    if "playback_ok (pt_asked t) p" for p
    using render_ok [of so receiving "[]" p, OF _ that] by (metis prod.collapse)
  have same: "playback_ok a (p\<lparr>pb_stream := x\<rparr>) = playback_ok a p" "is_finished (p\<lparr>pb_stream := x\<rparr>) = is_finished p" for a p and x :: "'a option"
    by (simp_all add: playback_ok_def is_finished_def)
  have ask: "pt_asked t \<Longrightarrow> pb_morse (pt_playback t) \<noteq> None" using assms(1) by (simp add: playback_ok_def)
  show ?thesis using OpDefer assms ask render [of "pt_playback t"] render [of "(pt_playback t)\<lparr>pb_stream := Some s\<rparr>" for s]
    by (auto simp: playback_defer_def same playback_ok_def [of _ "_\<lparr>pb_morse := _\<rparr>"] split: option.split prod.split bool.split)
next
  case OpRewind
  then show ?thesis using assms by (auto simp: playback_rewind_def playback_ok_def split: option.split)
next
  case OpCancel
  then show ?thesis using assms by (simp add: playback_cancel_def playback_finish_def playback_ok_def is_finished_def)
qed

section \<open>Properties\<close>


end
