(* ===== verification/Message_Handoff.thy ===== *)
theory Message_Handoff
  imports Playback Spsc_Ring
begin

text \<open>
  The handoff of recurring messages between the audio callback and the control thread,
  \<^verbatim>\<open>core/src/controller/message.rs\<close>: a reader asks for a preparation, control completes it, and the reader
  returns the stream it no longer needs, over three \<^verbatim>\<open>rtrb\<close> rings of one slot. The rings are arguments
  (\<open>PortRings\<close>), and so are the prepared streams with their operations (\<open>StreamOps\<close>). \<open>None\<close> is a failed \<^verbatim>\<open>assert!\<close>.
\<close>

section \<open>Ports and readers\<close>

record MessageAttemptId =
  ma_generation :: u64
  ma_sequence :: u64

record MessageRequest =
  mq_attempt :: MessageAttemptId
  mq_content_index :: nat

record 's Ready =
  ry_attempt :: MessageAttemptId
  ry_result :: "unit + 's"

record ('q, 'y, 'z, 's) PortRings =
  pr_requests :: "('q, MessageRequest) Ring"
  pr_ready :: "('y, 's Ready) Ring"
  pr_retired :: "('z, 's) Ring"

text \<open>A port with the rings both sides share; \<open>po_waiting\<close> is control's own.\<close>

record ('q, 'y, 'z) ControlPort =
  po_alive :: bool
  po_requests :: 'q
  po_ready :: 'y
  po_retired :: 'z
  po_waiting :: "MessageAttemptId option"

record 's MessageReader =
  mr_generation :: u64
  mr_content_index :: nat
  mr_desired :: "MessageAttemptId option"
  mr_outstanding :: bool
  mr_failed :: bool
  mr_stream :: "'s option"

record ('q, 'y, 'z) MessagePreparation =
  mp_generation :: u64
  mp_sequence :: u64
  mp_ports :: "('q, 'y, 'z) ControlPort list"
  mp_next :: nat

definition preparation_new :: "u64 \<Rightarrow> ('q, 'y, 'z) MessagePreparation" where
  "preparation_new generation = \<lparr>mp_generation = generation, mp_sequence = 0, mp_ports = [], mp_next = 0\<rparr>"

definition port_new :: "(nat \<Rightarrow> 'q) \<Rightarrow> (nat \<Rightarrow> 'y) \<Rightarrow> (nat \<Rightarrow> 'z) \<Rightarrow> ('q, 'y, 'z) ControlPort" where
  "port_new ring_q ring_y ring_z = \<lparr>po_alive = True, po_requests = ring_q 1, po_ready = ring_y 1, po_retired = ring_z 1,
     po_waiting = None\<rparr>"

definition reader_new :: "u64 \<Rightarrow> nat \<Rightarrow> 's MessageReader" where
  "reader_new generation content_index = \<lparr>mr_generation = generation, mr_content_index = content_index,
     mr_desired = None, mr_outstanding = False, mr_failed = False, mr_stream = None\<rparr>"

definition preparation_register ::
    "(nat \<Rightarrow> 'q) \<Rightarrow> (nat \<Rightarrow> 'y) \<Rightarrow> (nat \<Rightarrow> 'z) \<Rightarrow> nat \<Rightarrow> ('q, 'y, 'z) MessagePreparation
       \<Rightarrow> 's MessageReader \<times> ('q, 'y, 'z) MessagePreparation" where
  "preparation_register ring_q ring_y ring_z content_index m =
     (reader_new (mp_generation m) content_index, m\<lparr>mp_ports := mp_ports m @ [port_new ring_q ring_y ring_z]\<rparr>)"

section \<open>The reader, on the audio callback\<close>

definition reader_retire ::
    "('q, 'y, 'z, 's) PortRings \<Rightarrow> ('s, 'f) StreamOps \<Rightarrow> 's \<Rightarrow> ('q, 'y, 'z) ControlPort \<Rightarrow> ('q, 'y, 'z) ControlPort option" where
  "reader_retire R so stream p =
     map_option (\<lambda>w. p\<lparr>po_retired := w\<rparr>) (rb_push (pr_retired R) (po_retired p) (so_cancel so stream))"

text \<open>The two halves of \<^verbatim>\<open>poll\<close>; the stream returned by the first is the one to retire.\<close>

definition poll_ready ::
    "('q, 'y, 'z, 's) PortRings \<Rightarrow> ('s, 'f) StreamOps \<Rightarrow> 's MessageReader \<Rightarrow> ('q, 'y, 'z) ControlPort
       \<Rightarrow> 's MessageReader \<times> 's option \<times> ('q, 'y, 'z) ControlPort" where
  "poll_ready R so r p =
     (case rb_pop (pr_ready R) (po_ready p) of
        None \<Rightarrow> (r, None, p)
      | Some (ready, w) \<Rightarrow>
          (let r' = r\<lparr>mr_outstanding := False\<rparr>; p' = p\<lparr>po_ready := w\<rparr>; wanted = (mr_desired r = Some (ry_attempt ready)) in
           case ry_result ready of
             Inr stream \<Rightarrow> if wanted then (r'\<lparr>mr_stream := Some (so_start so stream)\<rparr>, None, p') else (r', Some stream, p')
           | Inl _ \<Rightarrow> if wanted then (r'\<lparr>mr_failed := True\<rparr>, None, p') else (r', None, p')))"

definition poll_request ::
    "('q, 'y, 'z, 's) PortRings \<Rightarrow> 's MessageReader \<Rightarrow> ('q, 'y, 'z) ControlPort
       \<Rightarrow> ('s MessageReader \<times> ('q, 'y, 'z) ControlPort) option" where
  "poll_request R r p =
     (case mr_desired r of
        Some attempt \<Rightarrow>
          if \<not> mr_failed r \<and> \<not> mr_outstanding r \<and> mr_stream r = None
          then map_option (\<lambda>w. (r\<lparr>mr_outstanding := True\<rparr>, p\<lparr>po_requests := w\<rparr>))
                 (rb_push (pr_requests R) (po_requests p) \<lparr>mq_attempt = attempt, mq_content_index = mr_content_index r\<rparr>)
          else Some (r, p)
      | None \<Rightarrow> Some (r, p))"

definition retire_option ::
    "('q, 'y, 'z, 's) PortRings \<Rightarrow> ('s, 'f) StreamOps \<Rightarrow> 's option \<Rightarrow> ('q, 'y, 'z) ControlPort \<Rightarrow> ('q, 'y, 'z) ControlPort option" where
  "retire_option R so stream p = (case stream of None \<Rightarrow> Some p | Some s \<Rightarrow> reader_retire R so s p)"

definition reader_poll ::
    "('q, 'y, 'z, 's) PortRings \<Rightarrow> ('s, 'f) StreamOps \<Rightarrow> 's MessageReader \<Rightarrow> ('q, 'y, 'z) ControlPort
       \<Rightarrow> ('s MessageReader \<times> ('q, 'y, 'z) ControlPort) option" where
  "reader_poll R so r p =
     (case poll_ready R so r p of
        (r1, back, p1) \<Rightarrow> Option.bind (retire_option R so back p1) (poll_request R r1))"

definition reader_cancel ::
    "('q, 'y, 'z, 's) PortRings \<Rightarrow> ('s, 'f) StreamOps \<Rightarrow> 's MessageReader \<Rightarrow> ('q, 'y, 'z) ControlPort
       \<Rightarrow> ('s MessageReader \<times> ('q, 'y, 'z) ControlPort) option" where
  "reader_cancel R so r p =
     Option.bind (retire_option R so (mr_stream r) p) (reader_poll R so (r\<lparr>mr_desired := None, mr_stream := None\<rparr>))"

text \<open>The shared sequence number, and the attempt it gives; at its maximum there is none.\<close>

definition next_attempt :: "u64 \<Rightarrow> 's MessageReader \<Rightarrow> u64 \<times> 's MessageReader" where
  "next_attempt sequence r =
     (if sequence = - 1 then (sequence, r\<lparr>mr_desired := None, mr_failed := True\<rparr>)
      else (sequence + 1, r\<lparr>mr_desired := Some \<lparr>ma_generation = mr_generation r, ma_sequence = sequence\<rparr>, mr_failed := False\<rparr>))"

definition reader_start ::
    "('q, 'y, 'z, 's) PortRings \<Rightarrow> ('s, 'f) StreamOps \<Rightarrow> u64 \<Rightarrow> 's MessageReader \<Rightarrow> ('q, 'y, 'z) ControlPort
       \<Rightarrow> (u64 \<times> 's MessageReader \<times> ('q, 'y, 'z) ControlPort) option" where
  "reader_start R so sequence r p =
     Option.bind (reader_cancel R so r p) (\<lambda>(r1, p1).
       (case next_attempt sequence r1 of
          (sequence', r2) \<Rightarrow> map_option (Pair sequence') (reader_poll R so r2 p1)))"

definition reader_render ::
    "('q, 'y, 'z, 's) PortRings \<Rightarrow> ('s, 'f) StreamOps \<Rightarrow> 'f list \<Rightarrow> 's MessageReader \<Rightarrow> ('q, 'y, 'z) ControlPort
       \<Rightarrow> (PcmRead \<times> 'f list \<times> 's MessageReader \<times> ('q, 'y, 'z) ControlPort) option" where
  "reader_render R so output r p =
     map_option (\<lambda>(r1, p1).
         if mr_failed r1 then (PrFailed, output, r1, p1)
         else (case mr_stream r1 of
                 None \<Rightarrow> (PrPending, output, r1, p1)
               | Some s \<Rightarrow> (case so_render so output s of (read, output', s') \<Rightarrow> (read, output', r1\<lparr>mr_stream := Some s'\<rparr>, p1))))
       (reader_poll R so r p)"

definition reader_select_morse ::
    "('q, 'y, 'z, 's) PortRings \<Rightarrow> ('s, 'f) StreamOps \<Rightarrow> 's MessageReader \<Rightarrow> ('q, 'y, 'z) ControlPort
       \<Rightarrow> (MorseSwitch \<times> 's MessageReader \<times> ('q, 'y, 'z) ControlPort) option" where
  "reader_select_morse R so r p =
     map_option (\<lambda>(r1, p1).
         if mr_failed r1 then (MwUnavailable, r1, p1)
         else (case mr_stream r1 of
                 None \<Rightarrow> (MwPending, r1, p1)
               | Some s \<Rightarrow> (case so_select_morse so s of (switch, s') \<Rightarrow> (switch, r1\<lparr>mr_stream := Some s'\<rparr>, p1))))
       (reader_poll R so r p)"

definition reader_rewind :: "('s, 'f) StreamOps \<Rightarrow> 's MessageReader \<Rightarrow> 's MessageReader" where
  "reader_rewind so r = r\<lparr>mr_stream := map_option (so_rewind so) (mr_stream r)\<rparr>"

definition reader_drop ::
    "('q, 'y, 'z, 's) PortRings \<Rightarrow> ('s, 'f) StreamOps \<Rightarrow> 's MessageReader \<Rightarrow> ('q, 'y, 'z) ControlPort \<Rightarrow> ('q, 'y, 'z) ControlPort option" where
  "reader_drop R so r p = map_option (\<lambda>(_, p'). p'\<lparr>po_alive := False\<rparr>) (reader_cancel R so r p)"

section \<open>The preparation, on the control thread\<close>

definition drain_retired :: "('q, 'y, 'z, 's) PortRings \<Rightarrow> ('q, 'y, 'z) ControlPort \<Rightarrow> ('q, 'y, 'z) ControlPort" where
  "drain_retired R p = p\<lparr>po_retired := ring_drain (pr_retired R) (po_retired p)\<rparr>"

definition take_port ::
    "('q, 'y, 'z, 's) PortRings \<Rightarrow> ('q, 'y, 'z) ControlPort \<Rightarrow> (MessageRequest \<times> ('q, 'y, 'z) ControlPort) option" where
  "take_port R p =
     map_option (\<lambda>(request, w). (request, p\<lparr>po_requests := w, po_waiting := Some (mq_attempt request)\<rparr>))
       (rb_pop (pr_requests R) (po_requests p))"

fun take_loop ::
    "('q, 'y, 'z, 's) PortRings \<Rightarrow> nat \<Rightarrow> nat \<Rightarrow> ('q, 'y, 'z) ControlPort list
       \<Rightarrow> MessageRequest option \<times> nat \<times> ('q, 'y, 'z) ControlPort list" where
  "take_loop R 0 nxt ports = (None, nxt, ports)"
| "take_loop R (Suc n) nxt ports =
     (let nxt' = (nxt + 1) mod length ports in
      case take_port R (ports ! nxt) of
        Some (request, p) \<Rightarrow> (Some request, nxt', ports[nxt := p])
      | None \<Rightarrow> take_loop R n nxt' ports)"

definition take_request ::
    "('q, 'y, 'z, 's) PortRings \<Rightarrow> ('q, 'y, 'z) MessagePreparation \<Rightarrow> MessageRequest option \<times> ('q, 'y, 'z) MessagePreparation" where
  "take_request R m =
     (let ports = map (drain_retired R) (filter po_alive (mp_ports m));
          nxt = (if mp_next m \<ge> length ports then 0 else mp_next m) in
      case take_loop R (length ports) nxt ports of
        (request, nxt', ports') \<Rightarrow> (request, m\<lparr>mp_ports := ports', mp_next := nxt'\<rparr>))"

text \<open>A completion carries a preparation failure or the stream of the prepared media, if it has one.\<close>

definition complete_port ::
    "('q, 'y, 'z, 's) PortRings \<Rightarrow> MessageAttemptId \<Rightarrow> unit + 's option \<Rightarrow> ('q, 'y, 'z) ControlPort \<Rightarrow> ('q, 'y, 'z) ControlPort option" where
  "complete_port R attempt result p =
     (let result' = (case result of Inr (Some s) \<Rightarrow> Inr s | _ \<Rightarrow> Inl ()) in
      map_option (\<lambda>w. p\<lparr>po_ready := w, po_waiting := None\<rparr>)
        (rb_push (pr_ready R) (po_ready p) \<lparr>ry_attempt = attempt, ry_result = result'\<rparr>))"

text \<open>\<open>Inl\<close> returns the envelope of an attempt no port waits for.\<close>

definition preparation_complete ::
    "('q, 'y, 'z, 's) PortRings \<Rightarrow> MessageAttemptId \<Rightarrow> unit + 's option \<Rightarrow> ('q, 'y, 'z) MessagePreparation
       \<Rightarrow> ((MessageAttemptId \<times> (unit + 's option)) + ('q, 'y, 'z) MessagePreparation) option" where
  "preparation_complete R attempt result m =
     (case position (\<lambda>p. po_waiting p = Some attempt) (mp_ports m) of
        None \<Rightarrow> Some (Inl (attempt, result))
      | Some i \<Rightarrow>
          map_option (\<lambda>p. Inr (m\<lparr>mp_ports := (mp_ports m)[i := p]\<rparr>)) (complete_port R attempt result (mp_ports m ! i)))"

section \<open>Both threads on one port, one ring access at a time\<close>

text \<open>
  The reader's operations are sequences of the first five steps (\<open>cancel\<close> is \<open>HsCancel\<close> and a poll, \<open>start\<close> is
  \<open>cancel\<close>, \<open>HsStart\<close> and a poll, and a poll is \<open>HsPop\<close>, \<open>HsReturn\<close>, \<open>HsRequest\<close>); control's are sequences of the
  last three: a \<^verbatim>\<open>take_request\<close> empties the port's retired ring (\<open>HsDrain\<close>) and later in the same call looks
  at its request ring (\<open>HsTake\<close>). \<open>hs_back\<close> is the stream a poll is about to retire, \<open>hs_drained\<close> says that control
  stands between \<open>HsDrain\<close> and \<open>HsTake\<close>, and \<open>hs_raced\<close> records that a stream was ever retired in that window.
\<close>

datatype HandoffAssert = AssertRetired | AssertRequest | AssertReady

record ('q, 'y, 'z, 's) Handoff =
  hs_reader :: "'s MessageReader"
  hs_back :: "'s option"
  hs_port :: "('q, 'y, 'z) ControlPort"
  hs_sequence :: u64
  hs_drained :: bool
  hs_raced :: bool
  hs_assert :: "HandoffAssert option"

datatype 's HandoffStep =
  HsCancel | HsPop | HsReturn | HsRequest | HsStart | HsDrain | HsTake | HsComplete "unit + 's option"

definition or_assert :: "HandoffAssert \<Rightarrow> ('a \<Rightarrow> ('q, 'y, 'z, 's) Handoff) \<Rightarrow> ('q, 'y, 'z, 's) Handoff \<Rightarrow> 'a option \<Rightarrow> ('q, 'y, 'z, 's) Handoff" where
  "or_assert a f h x = (case x of Some y \<Rightarrow> f y | None \<Rightarrow> h\<lparr>hs_assert := Some a\<rparr>)"

fun handoff_step ::
    "('q, 'y, 'z, 's) PortRings \<Rightarrow> ('s, 'f) StreamOps \<Rightarrow> ('q, 'y, 'z, 's) Handoff \<Rightarrow> 's HandoffStep \<Rightarrow> ('q, 'y, 'z, 's) Handoff" where
  "handoff_step R so h HsCancel =
     (if hs_back h \<noteq> None then h
      else or_assert AssertRetired
        (\<lambda>p. h\<lparr>hs_reader := (hs_reader h)\<lparr>mr_desired := None, mr_stream := None\<rparr>, hs_port := p,
              hs_raced := (hs_raced h \<or> hs_drained h \<and> mr_stream (hs_reader h) \<noteq> None)\<rparr>) h
        (retire_option R so (mr_stream (hs_reader h)) (hs_port h)))"
| "handoff_step R so h HsPop =
     (if hs_back h \<noteq> None then h
      else (case poll_ready R so (hs_reader h) (hs_port h) of
              (r, back, p) \<Rightarrow> h\<lparr>hs_reader := r, hs_back := back, hs_port := p\<rparr>))"
| "handoff_step R so h HsReturn =
     or_assert AssertRetired
       (\<lambda>p. h\<lparr>hs_back := None, hs_port := p, hs_raced := (hs_raced h \<or> hs_drained h \<and> hs_back h \<noteq> None)\<rparr>) h
       (retire_option R so (hs_back h) (hs_port h))"
| "handoff_step R so h HsRequest =
     (if hs_back h \<noteq> None then h
      else or_assert AssertRequest (\<lambda>(r, p). h\<lparr>hs_reader := r, hs_port := p\<rparr>) h (poll_request R (hs_reader h) (hs_port h)))"
| "handoff_step R so h HsStart =
     (if hs_back h \<noteq> None \<or> mr_desired (hs_reader h) \<noteq> None then h
      else (case next_attempt (hs_sequence h) (hs_reader h) of (sequence, r) \<Rightarrow> h\<lparr>hs_sequence := sequence, hs_reader := r\<rparr>))"
| "handoff_step R so h HsDrain = h\<lparr>hs_port := drain_retired R (hs_port h), hs_drained := True\<rparr>"
| "handoff_step R so h HsTake =
     (if \<not> hs_drained h then h
      else (case take_port R (hs_port h) of
              Some (request, p) \<Rightarrow> h\<lparr>hs_port := p, hs_drained := False\<rparr>
            | None \<Rightarrow> h\<lparr>hs_drained := False\<rparr>))"
| "handoff_step R so h (HsComplete result) =
     (case po_waiting (hs_port h) of
        Some attempt \<Rightarrow> or_assert AssertReady (\<lambda>p. h\<lparr>hs_port := p\<rparr>) h (complete_port R attempt result (hs_port h))
      | None \<Rightarrow> h)"

text \<open>A failed assertion stops the run.\<close>

fun handoff_run ::
    "('q, 'y, 'z, 's) PortRings \<Rightarrow> ('s, 'f) StreamOps \<Rightarrow> ('q, 'y, 'z, 's) Handoff \<Rightarrow> 's HandoffStep list \<Rightarrow> ('q, 'y, 'z, 's) Handoff" where
  "handoff_run R so h [] = h"
| "handoff_run R so h (e # es) = (if hs_assert h = None then handoff_run R so (handoff_step R so h e) es else h)"

definition handoff_new ::
    "(nat \<Rightarrow> 'q) \<Rightarrow> (nat \<Rightarrow> 'y) \<Rightarrow> (nat \<Rightarrow> 'z) \<Rightarrow> u64 \<Rightarrow> u64 \<Rightarrow> nat \<Rightarrow> ('q, 'y, 'z, 's) Handoff" where
  "handoff_new ring_q ring_y ring_z generation sequence content_index =
     \<lparr>hs_reader = reader_new generation content_index, hs_back = None, hs_port = port_new ring_q ring_y ring_z,
      hs_sequence = sequence, hs_drained = False, hs_raced = False, hs_assert = None\<rparr>"

text \<open>The steps compose to the operations of the code.\<close>

abbreviation poll_steps :: "'s HandoffStep list" where
  "poll_steps \<equiv> [HsPop, HsReturn, HsRequest]"

abbreviation cancel_steps :: "'s HandoffStep list" where
  "cancel_steps \<equiv> HsCancel # poll_steps"

lemma poll_is_steps:
  assumes "reader_poll R so (hs_reader h) (hs_port h) = Some (r, p)" "hs_back h = None" "hs_assert h = None" "\<not> hs_drained h"
  shows "handoff_run R so h poll_steps = h\<lparr>hs_reader := r, hs_port := p\<rparr>"
  using assms by (auto simp: reader_poll_def or_assert_def Option.bind_eq_Some_conv split: prod.splits)

lemma cancel_is_steps:
  assumes "reader_cancel R so (hs_reader h) (hs_port h) = Some (r, p)" "hs_back h = None" "hs_assert h = None" "\<not> hs_drained h"
  shows "handoff_run R so h cancel_steps = h\<lparr>hs_reader := r, hs_port := p\<rparr>"
proof -
  obtain p1 where p1: "retire_option R so (mr_stream (hs_reader h)) (hs_port h) = Some p1"
    "reader_poll R so ((hs_reader h)\<lparr>mr_desired := None, mr_stream := None\<rparr>) p1 = Some (r, p)"
    using assms(1) by (auto simp: reader_cancel_def Option.bind_eq_Some_conv)
  let ?h = "h\<lparr>hs_reader := (hs_reader h)\<lparr>mr_desired := None, mr_stream := None\<rparr>, hs_port := p1\<rparr>"
  have "handoff_run R so h cancel_steps = handoff_run R so ?h poll_steps"
    using p1(1) assms(2-4) by (simp add: or_assert_def)
  also have "\<dots> = h\<lparr>hs_reader := r, hs_port := p\<rparr>"
    using poll_is_steps [of R so ?h r p] p1(2) assms(2-4) by simp
  finally show ?thesis .
qed

section \<open>Credits and streams\<close>

text \<open>What the code relies on of the three rings: first-in first-out, with one slot each.\<close>

definition port_rings ::
    "('q, 'y, 'z, 's) PortRings \<Rightarrow> ('q \<Rightarrow> MessageRequest list) \<Rightarrow> ('y \<Rightarrow> 's Ready list) \<Rightarrow> ('z \<Rightarrow> 's list) \<Rightarrow> bool" where
  "port_rings R cq cy cz \<longleftrightarrow>
     ring_laws (pr_requests R) cq \<and> ring_capacity (pr_requests R) cq 1
     \<and> ring_laws (pr_ready R) cy \<and> ring_capacity (pr_ready R) cy 1
     \<and> ring_laws (pr_retired R) cz \<and> ring_capacity (pr_retired R) cz 1"

definition slot :: "'a option \<Rightarrow> nat" where
  "slot x = (case x of None \<Rightarrow> 0 | Some _ \<Rightarrow> 1)"

lemma slot_simps [simp]: "slot None = 0" "slot (Some x) = 1" "slot (map_option f y) = slot y" "slot y \<le> Suc 0"
  by (auto simp: slot_def split: option.split)

abbreviation has_stream :: "'s Ready \<Rightarrow> bool" where
  "has_stream ready \<equiv> \<not> isl (ry_result ready)"

text \<open>The reader's one credit is where its request is; \<open>streams\<close> counts the streams on their way.\<close>

definition credits :: "('q \<Rightarrow> MessageRequest list) \<Rightarrow> ('y \<Rightarrow> 's Ready list) \<Rightarrow> ('q, 'y, 'z) ControlPort \<Rightarrow> nat" where
  "credits cq cy p = length (cq (po_requests p)) + slot (po_waiting p) + length (cy (po_ready p))"

definition streams :: "('y \<Rightarrow> 's Ready list) \<Rightarrow> ('z \<Rightarrow> 's list) \<Rightarrow> ('q, 'y, 'z, 's) Handoff \<Rightarrow> nat" where
  "streams cy cz h = length (cz (po_retired (hs_port h))) + slot (mr_stream (hs_reader h)) + slot (hs_back h)
     + length (filter has_stream (cy (po_ready (hs_port h))))"

lemma streams_flags [simp]:
  "streams cy cz (h\<lparr>hs_raced := b\<rparr>) = streams cy cz h" "streams cy cz (h\<lparr>hs_drained := b\<rparr>) = streams cy cz h"
  by (simp_all add: streams_def)

definition handoff_ok ::
    "('q \<Rightarrow> MessageRequest list) \<Rightarrow> ('y \<Rightarrow> 's Ready list) \<Rightarrow> ('z \<Rightarrow> 's list) \<Rightarrow> ('q, 'y, 'z, 's) Handoff \<Rightarrow> bool" where
  "handoff_ok cq cy cz h \<longleftrightarrow>
     credits cq cy (hs_port h) = (if mr_outstanding (hs_reader h) then 1 else 0)
     \<and> (mr_stream (hs_reader h) \<noteq> None \<or> hs_back h \<noteq> None \<longrightarrow> \<not> mr_outstanding (hs_reader h))
     \<and> (\<not> hs_raced h \<longrightarrow> streams cy cz h + slot (po_waiting (hs_port h)) \<le> 1
          \<and> (hs_drained h \<longrightarrow> cz (po_retired (hs_port h)) = []))"

definition handoff_inv ::
    "('q \<Rightarrow> MessageRequest list) \<Rightarrow> ('y \<Rightarrow> 's Ready list) \<Rightarrow> ('z \<Rightarrow> 's list) \<Rightarrow> ('q, 'y, 'z, 's) Handoff \<Rightarrow> bool" where
  "handoff_inv cq cy cz h \<longleftrightarrow>
     handoff_ok cq cy cz h \<and> hs_assert h = None \<or> hs_assert h = Some AssertRetired \<and> hs_raced h"

lemma retire_fits:
  assumes "port_rings R cq cy cz" "cz (po_retired p) = []"
  obtains p' where "reader_retire R so s p = Some p'" "cz (po_retired p') = [so_cancel so s]"
    "po_ready p' = po_ready p" "po_requests p' = po_requests p" "po_waiting p' = po_waiting p"
proof -
  have "ring_laws (pr_retired R) cz" "ring_capacity (pr_retired R) cz 1" using assms(1) by (simp_all add: port_rings_def)
  from ring_push_fits [OF this, of "po_retired p" "so_cancel so s"] assms(2)
  obtain w where "rb_push (pr_retired R) (po_retired p) (so_cancel so s) = Some w" "cz w = [so_cancel so s]" by auto
  then show thesis by (intro that [of "p\<lparr>po_retired := w\<rparr>"]) (simp_all add: reader_retire_def)
qed

lemma retire_keeps:
  assumes "retire_option R so s p = Some p'"
  shows "po_ready p' = po_ready p \<and> po_requests p' = po_requests p \<and> po_waiting p' = po_waiting p"
  using assms by (auto simp: retire_option_def reader_retire_def split: option.splits)

text \<open>Retiring a stream the reader holds, from its slot or from a poll.\<close>

lemma retire_step_ok:
  assumes "port_rings R cq cy cz" "handoff_ok cq cy cz h" "hs_assert h = None"
    and r: "mr_outstanding r = mr_outstanding (hs_reader h)" "mr_stream r \<noteq> None \<Longrightarrow> mr_stream (hs_reader h) \<noteq> None"
    and held: "slot (mr_stream r) + slot s = slot (mr_stream (hs_reader h)) + slot (hs_back h)"
  shows "handoff_inv cq cy cz (or_assert AssertRetired
     (\<lambda>p. h\<lparr>hs_reader := r, hs_back := None, hs_port := p, hs_raced := (hs_raced h \<or> hs_drained h \<and> s \<noteq> None)\<rparr>) h
     (retire_option R so s (hs_port h)))"
proof -
  let ?p = "hs_port h"
  have out: "mr_stream r \<noteq> None \<Longrightarrow> \<not> mr_outstanding r" using assms(2) r by (simp add: handoff_ok_def)
  have cred: "credits cq cy p = credits cq cy ?p" if "retire_option R so s ?p = Some p" for p
    using retire_keeps [OF that] by (simp add: credits_def)
  have str: "hs_raced h \<or> streams cy cz h + slot (po_waiting ?p) \<le> 1 \<and> (hs_drained h \<longrightarrow> cz (po_retired ?p) = [])"
    using assms(2) by (auto simp: handoff_ok_def)
  have empty: "cz (po_retired ?p) = []" if "s = Some x" "\<not> hs_raced h" for x
  proof -
    have "streams cy cz h \<le> 1" using str that(2) by simp
    moreover have "1 \<le> slot (mr_stream (hs_reader h)) + slot (hs_back h)" using held that(1) by simp
    ultimately have "length (cz (po_retired ?p)) = 0" unfolding streams_def by linarith
    then show ?thesis by simp
  qed
  have crd: "credits cq cy ?p = (if mr_outstanding r then 1 else 0)" using assms(2) r by (simp add: handoff_ok_def)
  show ?thesis
  proof (cases "retire_option R so s ?p")
    case None
    then obtain x where x: "s = Some x" by (cases s) (simp_all add: retire_option_def)
    have "hs_raced h"
    proof (rule ccontr)
      assume "\<not> hs_raced h"
      with x have "cz (po_retired ?p) = []" by (rule empty)
      from retire_fits [OF assms(1) this, of so x] None x show False by (metis option.distinct(1) option.simps(5) retire_option_def)
    qed
    then show ?thesis using None by (simp add: or_assert_def handoff_inv_def)
  next
    case (Some p)
    note keep = retire_keeps [OF Some]
    have "streams cy cz (h\<lparr>hs_reader := r, hs_back := None, hs_port := p\<rparr>) = streams cy cz h" if "\<not> hs_raced h"
    proof (cases s)
      case None
      then show ?thesis using Some held by (simp add: retire_option_def streams_def)
    next
      case (Some x)
      then have "cz (po_retired ?p) = []" using that by (rule empty)
      from retire_fits [OF assms(1) this, of so x] have "cz (po_retired p) = [so_cancel so x]"
        using \<open>retire_option R so s ?p = Some p\<close> Some by (metis option.inject option.simps(5) retire_option_def)
      then show ?thesis using keep held Some \<open>cz (po_retired ?p) = []\<close> by (simp add: streams_def)
    qed
    moreover have "cz (po_retired p) = []" if "hs_drained h" "s = None" "\<not> hs_raced h"
      using that Some str by (simp add: retire_option_def)
    ultimately show ?thesis using Some assms(3) out str keep cred [OF Some] crd
      by (simp add: or_assert_def handoff_inv_def handoff_ok_def) auto
  qed
qed

lemma request_step_ok:
  assumes "port_rings R cq cy cz" "handoff_ok cq cy cz h" "hs_assert h = None"
  shows "handoff_inv cq cy cz (handoff_step R so h HsRequest)"
proof (cases "hs_back h = None \<and> \<not> mr_failed (hs_reader h) \<and> \<not> mr_outstanding (hs_reader h) \<and> mr_stream (hs_reader h) = None")
  case True
  then have a: "hs_back h = None" "\<not> mr_failed (hs_reader h)" "\<not> mr_outstanding (hs_reader h)" "mr_stream (hs_reader h) = None" by auto
  show ?thesis
  proof (cases "mr_desired (hs_reader h)")
    case None
    then show ?thesis using a assms(2,3) by (simp add: poll_request_def or_assert_def handoff_inv_def)
  next
    case (Some attempt)
    have c: "credits cq cy (hs_port h) = 0" using a assms(2) by (simp add: handoff_ok_def)
    then have empty: "cq (po_requests (hs_port h)) = []" by (simp add: credits_def)
    have laws: "ring_laws (pr_requests R) cq" "ring_capacity (pr_requests R) cq 1" using assms(1) by (simp_all add: port_rings_def)
    obtain w where w: "rb_push (pr_requests R) (po_requests (hs_port h))
        \<lparr>mq_attempt = attempt, mq_content_index = mr_content_index (hs_reader h)\<rparr> = Some w" "length (cq w) = 1"
      by (rule ring_push_fits [OF laws, of "po_requests (hs_port h)"
          "\<lparr>mq_attempt = attempt, mq_content_index = mr_content_index (hs_reader h)\<rparr>"]) (use empty in auto)
    have "credits cq cy (hs_port h\<lparr>po_requests := w\<rparr>) = 1" using c w(2) by (simp add: credits_def)
    then show ?thesis using a Some w(1) assms(2,3)
      by (simp add: poll_request_def or_assert_def handoff_inv_def handoff_ok_def) (simp add: streams_def)
  qed
next
  case False
  then have "handoff_step R so h HsRequest = h"
    by (auto simp: poll_request_def or_assert_def split: option.split)
  then show ?thesis using assms by (simp add: handoff_inv_def)
qed

lemma pop_step_ok:
  assumes "port_rings R cq cy cz" "handoff_ok cq cy cz h" "hs_assert h = None"
  shows "handoff_inv cq cy cz (handoff_step R so h HsPop)"
proof (cases "hs_back h = None \<and> rb_pop (pr_ready R) (po_ready (hs_port h)) \<noteq> None")
  case False
  then have "handoff_step R so h HsPop = h"
    by (cases "hs_back h"; cases "rb_pop (pr_ready R) (po_ready (hs_port h))") (simp_all add: poll_ready_def)
  then show ?thesis using assms by (simp add: handoff_inv_def)
next
  case True
  then obtain ready w where w: "rb_pop (pr_ready R) (po_ready (hs_port h)) = Some (ready, w)" and bk: "hs_back h = None" by auto
  have laws: "ring_laws (pr_ready R) cy" using assms(1) by (simp add: port_rings_def)
  have con: "cy (po_ready (hs_port h)) = ready # cy w" by (rule ring_popD(1) [OF laws w])
  have c: "credits cq cy (hs_port h) = 1" and out: "mr_outstanding (hs_reader h)"
    using assms(2) con by (auto simp: handoff_ok_def credits_def split: if_splits)
  have c': "credits cq cy (hs_port h\<lparr>po_ready := w\<rparr>) = 0" using c con by (simp add: credits_def)
  have none: "mr_stream (hs_reader h) = None" using assms(2) out by (auto simp: handoff_ok_def)
  have cyw: "cy w = []" using c con by (simp add: credits_def)
  show ?thesis
  proof (cases "ry_result ready")
    case (Inl u)
    then show ?thesis using w bk c' none cyw con assms(2,3)
      by (auto simp: poll_ready_def Let_def handoff_inv_def handoff_ok_def streams_def)
  next
    case (Inr s)
    then show ?thesis using w bk c' none cyw con assms(2,3)
      by (auto simp: poll_ready_def Let_def handoff_inv_def handoff_ok_def streams_def)
  qed
qed

lemma take_step_ok:
  assumes "port_rings R cq cy cz" "handoff_ok cq cy cz h" "hs_assert h = None"
  shows "handoff_inv cq cy cz (handoff_step R so h HsTake)"
proof (cases "rb_pop (pr_requests R) (po_requests (hs_port h))")
  case None
  then have "handoff_step R so h HsTake = h\<lparr>hs_drained := False\<rparr> \<or> handoff_step R so h HsTake = h"
    by (simp add: take_port_def)
  moreover have "handoff_ok cq cy cz (h\<lparr>hs_drained := False\<rparr>)" using assms(2) by (simp add: handoff_ok_def)
  ultimately show ?thesis using assms(2,3) by (auto simp: handoff_inv_def)
next
  case (Some rw)
  obtain request w where rw: "rw = (request, w)" by fastforce
  have laws: "ring_laws (pr_requests R) cq" using assms(1) by (simp add: port_rings_def)
  have con: "cq (po_requests (hs_port h)) = request # cq w" using ring_popD(1) [OF laws] Some rw by simp
  have c: "credits cq cy (hs_port h) = 1" and out: "mr_outstanding (hs_reader h)"
    using assms(2) con by (auto simp: handoff_ok_def credits_def split: if_splits)
  let ?p = "hs_port h\<lparr>po_requests := w, po_waiting := Some (mq_attempt request)\<rparr>"
  have c': "credits cq cy ?p = 1" and cy: "cy (po_ready (hs_port h)) = []"
    using c con by (simp_all add: credits_def)
  show ?thesis
  proof (cases "hs_drained h")
    case False
    then show ?thesis using assms(2,3) by (simp add: handoff_inv_def)
  next
    case True
    have none: "mr_stream (hs_reader h) = None" "hs_back h = None" using assms(2) out by (auto simp: handoff_ok_def)
    have "streams cy cz (h\<lparr>hs_port := ?p\<rparr>) = 0" if "\<not> hs_raced h"
      using none cy True that assms(2) by (simp add: streams_def handoff_ok_def)
    then show ?thesis using True Some rw c' out none assms(3)
      by (simp add: take_port_def handoff_inv_def handoff_ok_def)
  qed
qed

lemma complete_step_ok:
  assumes "port_rings R cq cy cz" "handoff_ok cq cy cz h" "hs_assert h = None"
  shows "handoff_inv cq cy cz (handoff_step R so h (HsComplete result))"
proof (cases "po_waiting (hs_port h)")
  case None
  then show ?thesis using assms by (simp add: handoff_inv_def)
next
  case (Some attempt)
  define ready where "ready = \<lparr>ry_attempt = attempt, ry_result = (case result of Inr (Some s) \<Rightarrow> Inr s | _ \<Rightarrow> Inl ())\<rparr>"
  have laws: "ring_laws (pr_ready R) cy" "ring_capacity (pr_ready R) cy 1" using assms(1) by (simp_all add: port_rings_def)
  have c: "credits cq cy (hs_port h) = 1" and out: "mr_outstanding (hs_reader h)"
    using assms(2) Some by (auto simp: handoff_ok_def credits_def split: if_splits)
  then have empty: "cy (po_ready (hs_port h)) = []" using Some by (simp add: credits_def)
  obtain w where w: "rb_push (pr_ready R) (po_ready (hs_port h)) ready = Some w" "cy w = [ready]"
    by (rule ring_push_fits [OF laws, of "po_ready (hs_port h)" ready]) (use empty in auto)
  let ?p = "hs_port h\<lparr>po_ready := w, po_waiting := None\<rparr>"
  have step: "handoff_step R so h (HsComplete result) = h\<lparr>hs_port := ?p\<rparr>"
    using Some w(1) by (simp add: complete_port_def Let_def ready_def [symmetric] or_assert_def)
  have "credits cq cy ?p = 1" using c Some empty w(2) by (simp add: credits_def)
  moreover have "hs_raced h \<or> streams cy cz (h\<lparr>hs_port := ?p\<rparr>) \<le> 1"
    using assms(2) Some empty w(2) by (auto simp: handoff_ok_def streams_def)
  ultimately show ?thesis unfolding step using assms(2,3) out
    by (auto simp: handoff_inv_def handoff_ok_def)
qed

lemma start_step_ok:
  assumes "handoff_ok cq cy cz h" "hs_assert h = None"
  shows "handoff_inv cq cy cz (handoff_step R so h HsStart)"
  using assms by (auto simp: next_attempt_def handoff_inv_def handoff_ok_def streams_def)

lemma drain_step_ok:
  assumes "port_rings R cq cy cz" "handoff_ok cq cy cz h" "hs_assert h = None"
  shows "handoff_inv cq cy cz (handoff_step R so h HsDrain)"
proof -
  have "cz (po_retired (drain_retired R (hs_port h))) = []"
    using assms(1) ring_drain_empty by (auto simp: drain_retired_def port_rings_def)
  moreover have "credits cq cy (drain_retired R (hs_port h)) = credits cq cy (hs_port h)"
    "po_waiting (drain_retired R (hs_port h)) = po_waiting (hs_port h)" "po_ready (drain_retired R (hs_port h)) = po_ready (hs_port h)"
    by (simp_all add: drain_retired_def credits_def)
  ultimately show ?thesis using assms(2,3) by (auto simp: handoff_inv_def handoff_ok_def streams_def)
qed

lemma handoff_step_inv:
  assumes "port_rings R cq cy cz" "handoff_ok cq cy cz h" "hs_assert h = None"
  shows "handoff_inv cq cy cz (handoff_step R so h e)"
proof (cases e)
  case HsCancel
  show ?thesis
  proof (cases "hs_back h")
    case None
    then have "handoff_step R so h HsCancel = or_assert AssertRetired
      (\<lambda>p. h\<lparr>hs_reader := (hs_reader h)\<lparr>mr_desired := None, mr_stream := None\<rparr>, hs_back := None, hs_port := p,
        hs_raced := (hs_raced h \<or> hs_drained h \<and> mr_stream (hs_reader h) \<noteq> None)\<rparr>) h
      (retire_option R so (mr_stream (hs_reader h)) (hs_port h))"
      by (simp add: or_assert_def split: option.split)
    note eq = this
    show ?thesis unfolding HsCancel eq by (rule retire_step_ok [OF assms]) (use None in simp_all)
  next
    case (Some s)
    then show ?thesis using HsCancel assms(2,3) by (simp add: handoff_inv_def)
  qed
next
  case HsReturn
  have "handoff_step R so h HsReturn = or_assert AssertRetired
      (\<lambda>p. h\<lparr>hs_reader := hs_reader h, hs_back := None, hs_port := p, hs_raced := (hs_raced h \<or> hs_drained h \<and> hs_back h \<noteq> None)\<rparr>) h
      (retire_option R so (hs_back h) (hs_port h))"
    by (simp add: or_assert_def split: option.split)
  note eq = this
  show ?thesis unfolding HsReturn eq by (rule retire_step_ok [OF assms]) simp_all
qed (use assms pop_step_ok take_step_ok complete_step_ok start_step_ok drain_step_ok request_step_ok in \<open>simp_all del: handoff_step.simps\<close>)

lemma handoff_run_inv:
  assumes "port_rings R cq cy cz" "handoff_inv cq cy cz h"
  shows "handoff_inv cq cy cz (handoff_run R so h steps)"
  using assms(2)
proof (induction steps arbitrary: h)
  case (Cons e es)
  then show ?case using handoff_step_inv [OF assms(1)] by (auto simp del: handoff_step.simps simp: handoff_inv_def)
qed simp

lemma handoff_run_append: "handoff_run R so h (xs @ ys) = handoff_run R so (handoff_run R so h xs) ys"
proof (induction xs arbitrary: h)
  case (Cons x xs)
  show ?case
  proof (cases "hs_assert h = None")
    case True
    then show ?thesis using Cons by (simp del: handoff_step.simps)
  next
    case False
    then have "handoff_run R so h zs = h" for zs by (cases zs) auto
    then show ?thesis by (simp only: append.simps)
  qed
qed simp

text \<open>Schedules in which nothing comes between emptying the retired ring and looking for a request.\<close>

fun atomic_takes :: "'s HandoffStep list \<Rightarrow> bool" where
  "atomic_takes [] = True"
| "atomic_takes (HsDrain # HsTake # es) = atomic_takes es"
| "atomic_takes (HsDrain # _) = False"
| "atomic_takes (e # es) = atomic_takes es"

lemma step_raced:
  assumes "\<not> hs_drained h" "e \<noteq> HsDrain"
  shows "hs_raced (handoff_step R so h e) = hs_raced h \<and> \<not> hs_drained (handoff_step R so h e)"
  using assms by (cases e) (auto simp: or_assert_def next_attempt_def split: option.split prod.split)

lemma atomic_run_raced:
  "atomic_takes steps \<Longrightarrow> \<not> hs_drained h \<Longrightarrow> hs_raced (handoff_run R so h steps) = hs_raced h"
proof (induction steps arbitrary: h rule: atomic_takes.induct)
  case (2 es)
  let ?h = "handoff_step R so (handoff_step R so h HsDrain) HsTake"
  have "hs_raced ?h = hs_raced h" "\<not> hs_drained ?h" by (simp_all split: option.split)
  then show ?case using 2 by (simp del: handoff_step.simps) (simp)
qed (simp_all del: handoff_step.simps add: step_raced)

section \<open>Properties\<close>

text \<open>C24. The assertions of the message handoff. Whatever the order in which the reader and control access the
  three one-slot rings, the request and the completion rings always have room; the assertion that a retired stream
  can be returned holds as long as no stream is retired between control's emptying of the retired ring and its
  look at the request ring, in particular when that part of \<^verbatim>\<open>take_request\<close> is not interrupted.\<close>

theorem handoff_asserts:
  assumes "port_rings R cq cy cz" "cq (ring_q 1) = []" "cy (ring_y 1) = []" "cz (ring_z 1) = []"
    "h = handoff_run R so (handoff_new ring_q ring_y ring_z generation sequence content_index) steps"
  shows "(hs_assert h = None \<or> hs_assert h = Some AssertRetired \<and> hs_raced h) \<and> (atomic_takes steps \<longrightarrow> hs_assert h = None)"
proof -
  let ?h0 = "handoff_new ring_q ring_y ring_z generation sequence content_index"
  have "handoff_inv cq cy cz ?h0"
    using assms(2-4) by (simp add: handoff_inv_def handoff_ok_def handoff_new_def reader_new_def port_new_def credits_def streams_def)
  then have "handoff_inv cq cy cz h" using handoff_run_inv [OF assms(1)] assms(5) by simp
  then have one: "hs_assert h = None \<or> hs_assert h = Some AssertRetired \<and> hs_raced h" by (auto simp: handoff_inv_def)
  moreover have "\<not> hs_raced h" if "atomic_takes steps"
    using atomic_run_raced [OF that, of ?h0 R so] assms(5) by (simp add: handoff_new_def)
  ultimately show ?thesis by auto
qed

definition list_port_rings :: "(MessageRequest list, 's Ready list, 's list, 's) PortRings" where
  "list_port_rings = \<lparr>pr_requests = list_ring 1, pr_ready = list_ring 1, pr_retired = list_ring 1\<rparr>"

lemma list_port_rings: "port_rings list_port_rings id id id"
  by (simp add: port_rings_def list_port_rings_def list_ring_laws list_ring_capacity)

definition plain_stream :: "(nat, nat) StreamOps" where
  "plain_stream = \<lparr>so_start = id, so_rewind = id, so_defer_before_output = Pair False, so_render = (\<lambda>out s. (PrPending, out, s)), so_select_morse = (\<lambda>s. (MwPending, s)),
     so_cancel = id\<rparr>"

text \<open>States of a first and a second attempt on these rings.\<close>

definition attempt_of :: "u64 \<Rightarrow> MessageAttemptId" where
  "attempt_of n = \<lparr>ma_generation = 1, ma_sequence = n\<rparr>"

abbreviation request_of :: "u64 \<Rightarrow> MessageRequest list" where
  "request_of n \<equiv> [\<lparr>mq_attempt = attempt_of n, mq_content_index = 0\<rparr>]"

abbreviation ready_of :: "u64 \<Rightarrow> nat \<Rightarrow> nat Ready list" where
  "ready_of n s \<equiv> [\<lparr>ry_attempt = attempt_of n, ry_result = Inr s\<rparr>]"

definition run_state ::
    "MessageAttemptId option \<Rightarrow> bool \<Rightarrow> nat option \<Rightarrow> MessageRequest list \<Rightarrow> nat Ready list \<Rightarrow> nat list \<Rightarrow> u64 \<Rightarrow> bool \<Rightarrow> bool
       \<Rightarrow> (MessageRequest list, nat Ready list, nat list, nat) Handoff" where
  "run_state d out stream rq ry rz n drained raced =
    \<lparr>hs_reader = \<lparr>mr_generation = 1, mr_content_index = 0, mr_desired = d, mr_outstanding = out, mr_failed = False, mr_stream = stream\<rparr>,
     hs_back = None, hs_port = \<lparr>po_alive = True, po_requests = rq, po_ready = ry, po_retired = rz, po_waiting = None\<rparr>,
     hs_sequence = n, hs_drained = drained, hs_raced = raced, hs_assert = None\<rparr>"

abbreviation list_run where
  "list_run \<equiv> handoff_run (list_port_rings :: (MessageRequest list, nat Ready list, nat list, nat) PortRings) plain_stream"

lemmas run_state_defs = run_state_def attempt_of_def list_port_rings_def plain_stream_def list_ring_def retire_option_def
  reader_retire_def poll_ready_def poll_request_def next_attempt_def take_port_def complete_port_def drain_retired_def
  ring_drain_def or_assert_def Let_def

lemma run_new: "handoff_new (\<lambda>_. []) (\<lambda>_. []) (\<lambda>_. []) 1 0 0 = run_state None False None [] [] [] 0 False False"
  by (simp add: run_state_def handoff_new_def reader_new_def port_new_def)

lemma run_first_start:
  "list_run (run_state None False None [] [] [] 0 False False) (cancel_steps @ [HsStart] @ poll_steps)
     = run_state (Some (attempt_of 0)) True None (request_of 0) [] [] 1 False False"
  by (simp add: run_state_defs)

lemma run_first_prepare:
  "list_run (run_state (Some (attempt_of 0)) True None (request_of 0) [] [] 1 False False) [HsDrain, HsTake, HsComplete (Inr (Some 7))]
     = run_state (Some (attempt_of 0)) True None [] (ready_of 0 7) [] 1 False False"
  by (simp add: run_state_defs)

lemma run_first_play:
  "list_run (run_state (Some (attempt_of 0)) True None [] (ready_of 0 7) [] 1 False False) poll_steps
     = run_state (Some (attempt_of 0)) False (Some 7) [] [] [] 1 False False"
  by (simp add: run_state_defs)

text \<open>One full attempt: requested, prepared, played and retired.\<close>

theorem handoff_asserts_witness:
  "\<exists>h. hs_assert h = None \<and> mr_stream (hs_reader h) = None \<and> po_retired (hs_port h) = [7]
     \<and> h = list_run (handoff_new (\<lambda>_. []) (\<lambda>_. []) (\<lambda>_. []) 1 0 0)
         ((cancel_steps @ [HsStart] @ poll_steps) @ [HsDrain, HsTake, HsComplete (Inr (Some 7))] @ poll_steps @ cancel_steps)"
proof -
  let ?steps = "(cancel_steps @ [HsStart] @ poll_steps) @ [HsDrain, HsTake, HsComplete (Inr (Some 7))] @ poll_steps @ cancel_steps"
  define h where "h = list_run (handoff_new (\<lambda>_. []) (\<lambda>_. []) (\<lambda>_. []) 1 0 0) ?steps"
  have "hs_assert h = None"
    using handoff_asserts [OF list_port_rings _ _ _ h_def] by simp
  moreover have "h = list_run (run_state (Some (attempt_of 0)) False (Some 7) [] [] [] 1 False False) cancel_steps"
    unfolding h_def run_new handoff_run_append [of _ _ _ "cancel_steps @ [HsStart] @ poll_steps"] run_first_start
    unfolding handoff_run_append run_first_prepare run_first_play ..
  then have "mr_stream (hs_reader h) = None \<and> po_retired (hs_port h) = [7]"
    by (simp add: run_state_defs)
  ultimately show ?thesis using h_def by blast
qed

text \<open>C25. The assertion about the retired ring can fail. Control empties the retired ring of a port and, before
  it looks at the port's request ring, the reader restarts: it retires the stream it was playing and requests
  another. Control takes that request in the same call and completes it; when the reader has the new stream and
  is cancelled before control's next call, the retired ring still holds the first stream and
  \<^verbatim>\<open>assert!(returned.is_ok())\<close> fails on the audio thread. Both parties only run their own operations in their own
  order.\<close>

theorem retire_assert_race:
  "hs_assert (list_run (handoff_new (\<lambda>_. []) (\<lambda>_. []) (\<lambda>_. []) 1 0 0)
     ((cancel_steps @ [HsStart] @ poll_steps)        \<comment> \<open>start: request the first attempt\<close>
      @ [HsDrain, HsTake, HsComplete (Inr (Some 7))] \<comment> \<open>take_request, complete\<close>
      @ poll_steps                                   \<comment> \<open>render: play the first stream\<close>
      @ [HsDrain]                                    \<comment> \<open>take_request begins\<close>
      @ (cancel_steps @ [HsStart] @ poll_steps)      \<comment> \<open>start again\<close>
      @ [HsTake, HsComplete (Inr (Some 8))]          \<comment> \<open>take_request ends; complete\<close>
      @ poll_steps                                   \<comment> \<open>render: play the second stream\<close>
      @ cancel_steps)) = Some AssertRetired"
proof -
  let ?race = "cancel_steps @ [HsStart] @ poll_steps"
  have 4: "list_run (run_state (Some (attempt_of 0)) False (Some 7) [] [] [] 1 False False) [HsDrain]
      = run_state (Some (attempt_of 0)) False (Some 7) [] [] [] 1 True False" by (simp add: run_state_defs)
  have 5: "list_run (run_state (Some (attempt_of 0)) False (Some 7) [] [] [] 1 True False) ?race
      = run_state (Some (attempt_of 1)) True None (request_of 1) [] [7] 2 True True" by (simp add: run_state_defs)
  have 6: "list_run (run_state (Some (attempt_of 1)) True None (request_of 1) [] [7] 2 True True) [HsTake, HsComplete (Inr (Some 8))]
      = run_state (Some (attempt_of 1)) True None [] (ready_of 1 8) [7] 2 False True" by (simp add: run_state_defs)
  have 7: "list_run (run_state (Some (attempt_of 1)) True None [] (ready_of 1 8) [7] 2 False True) poll_steps
      = run_state (Some (attempt_of 1)) False (Some 8) [] [] [7] 2 False True" by (simp add: run_state_defs)
  have 8: "hs_assert (list_run (run_state (Some (attempt_of 1)) False (Some 8) [] [] [7] 2 False True) cancel_steps) = Some AssertRetired"
    by (simp add: run_state_defs)
  note app = handoff_run_append
  show ?thesis
    unfolding run_new app [of _ _ _ ?race] run_first_start
    unfolding app [of _ _ _ "[HsDrain, HsTake, HsComplete (Inr (Some 7))]"] run_first_prepare
    unfolding app [of _ _ _ poll_steps] run_first_play
    unfolding app [of _ _ _ "[HsDrain]"] 4
    unfolding app [of _ _ _ ?race] 5
    unfolding app [of _ _ _ "[HsTake, HsComplete (Inr (Some 8))]"] 6
    unfolding app [of _ _ _ poll_steps] 7 8 ..
qed

end
