(* ===== verification/Telemetry.thy ===== *)
theory Telemetry
  imports Playback Spsc_Ring
begin

text \<open>
  Prepared media and the planner that owns status and parrot playback, \<^verbatim>\<open>core/src/controller/telemetry.rs\<close>.
  Status media circulate between the control thread (\<^verbatim>\<open>ControllerControl\<close>) and the audio thread
  (\<^verbatim>\<open>TelemetryPlanner\<close>) over two rings of four slots, parrot media over two rings of one slot; the ring
  implementation is an argument. Cells other threads write (cancellation flags, message occurrences, the state of
  a peer a reply is for) are answered by the environment at each access (\<open>Cells\<close>): the number is the access
  within one audio step, so that a cell may change between two accesses.
\<close>

section \<open>Media\<close>

datatype PlaybackDestination = PdLocal | PdLocalAndLinks

record PlaybackPolicy =
  pp_repeat_during_playback :: bool
  pp_destination :: PlaybackDestination

datatype PoliteExpiry = PxSkip | PxMorse

datatype PoliteBusy = PySkip | PyWait

record PoliteDelivery =
  pd_maximum_wait_ms :: u64
  pd_expiry :: PoliteExpiry
  pd_busy :: PoliteBusy

datatype MediaKind = MkStatus | MkParrot

text \<open>Shared cells are named by addresses; \<open>'p\<close> is a peer reply.\<close>

record ('s, 'p) PreparedMedia =
  pm_playback :: "'s Playback"
  pm_available :: bool
  pm_kind :: MediaKind
  pm_reply :: "'p option"
  pm_cancelled :: "nat option"
  pm_delivery :: "(u64 \<times> PoliteDelivery \<times> bool) option"
  pm_occurrence :: "nat option"
  pm_policy :: "PlaybackPolicy option"
  pm_recipe :: "nat option"

record 'p Cells =
  ce_site_inhibit :: bool
  ce_cancel_message :: bool
  ce_cancelled :: "nat \<Rightarrow> nat \<Rightarrow> bool"
  ce_occurrence_cancelled :: "nat \<Rightarrow> nat \<Rightarrow> bool"
  ce_begin :: "nat \<Rightarrow> bool"
  ce_peer_ended :: "nat \<Rightarrow> 'p \<Rightarrow> bool"
  ce_peer_active :: "nat \<Rightarrow> 'p \<Rightarrow> bool"
  ce_peer_identity :: "'p \<Rightarrow> nat"

definition media_new_stream :: "'s \<Rightarrow> ('s, 'p) PreparedMedia" where
  "media_new_stream stream = \<lparr>pm_playback = playback_new stream, pm_available = True, pm_kind = MkStatus, pm_reply = None,
     pm_cancelled = None, pm_delivery = None, pm_occurrence = None, pm_policy = None, pm_recipe = None\<rparr>"

definition reply_to :: "'p option \<Rightarrow> ('s, 'p) PreparedMedia \<Rightarrow> ('s, 'p) PreparedMedia" where
  "reply_to peer m = m\<lparr>pm_reply := peer\<rparr>"

definition cancel_when :: "nat \<Rightarrow> ('s, 'p) PreparedMedia \<Rightarrow> ('s, 'p) PreparedMedia" where
  "cancel_when cancelled m = m\<lparr>pm_cancelled := Some cancelled\<rparr>"

definition with_delivery :: "u64 \<Rightarrow> PoliteDelivery \<Rightarrow> ('s, 'p) PreparedMedia \<Rightarrow> ('s, 'p) PreparedMedia" where
  "with_delivery deadline_sample policy m = m\<lparr>pm_delivery := Some (deadline_sample, policy, False)\<rparr>"

definition with_playback_policy :: "PlaybackPolicy \<Rightarrow> ('s, 'p) PreparedMedia \<Rightarrow> ('s, 'p) PreparedMedia" where
  "with_playback_policy policy m = m\<lparr>pm_policy := Some policy\<rparr>"

definition with_occurrence :: "nat option \<Rightarrow> ('s, 'p) PreparedMedia \<Rightarrow> ('s, 'p) PreparedMedia" where
  "with_occurrence occurrence m = m\<lparr>pm_occurrence := occurrence\<rparr>"

abbreviation on_playback :: "('s Playback \<Rightarrow> 's Playback) \<Rightarrow> ('s, 'p) PreparedMedia \<Rightarrow> ('s, 'p) PreparedMedia" where
  "on_playback f m \<equiv> m\<lparr>pm_playback := f (pm_playback m)\<rparr>"

definition media_expire ::
    "('s, 'f) StreamOps \<Rightarrow> u64 \<Rightarrow> bool \<Rightarrow> bool \<Rightarrow> bool \<Rightarrow> ('s, 'p) PreparedMedia \<Rightarrow> ('s, 'p) PreparedMedia" where
  "media_expire so now allowed busy primary_ready m =
     (case pm_delivery m of
        None \<Rightarrow> m
      | Some (deadline, policy, selected) \<Rightarrow>
          if pb_output_started (pm_playback m) \<or> is_finished (pm_playback m) \<or> selected \<or> now < deadline
             \<or> (pd_maximum_wait_ms policy = 0 \<and> now = deadline \<and> allowed \<and> \<not> busy \<and> primary_ready)
          then m
          else if pd_expiry policy = PxSkip \<or> \<not> allowed \<or> (busy \<and> pd_busy policy = PySkip)
          then on_playback (playback_cancel so) m
          else m\<lparr>pm_delivery := Some (deadline, policy, True)\<rparr>)"

definition force_morse :: "('s, 'p) PreparedMedia \<Rightarrow> bool" where
  "force_morse m = (case pm_delivery m of Some (_, _, selected) \<Rightarrow> selected | None \<Rightarrow> False)"

section \<open>The planner, on the audio thread\<close>

datatype Source = SrStatus | SrParrot | SrCourtesy nat | SrIdentifier nat | SrAnnouncement nat | SrTail nat

text \<open>All four rings hold prepared media; both ends of each are one value.\<close>

record ('s, 'p, 'q) TelemetryPlanner =
  tp_active :: "Source option"
  tp_status :: "('s, 'p) PreparedMedia option"
  tp_held_status :: bool
  tp_pending :: 'q
  tp_completed :: 'q
  tp_parrot_pending :: 'q
  tp_parrot_completed :: 'q
  tp_parrot :: "('s, 'p) PreparedMedia option"

type_synonym ('s, 'p, 'q) media_ring = "('q, ('s, 'p) PreparedMedia) Ring"

definition planner_new :: "(nat \<Rightarrow> 'q) \<Rightarrow> ('s, 'p, 'q) TelemetryPlanner" where
  "planner_new ring = \<lparr>tp_active = None, tp_status = None, tp_held_status = False, tp_pending = ring 4, tp_completed = ring 4,
     tp_parrot_pending = ring 1, tp_parrot_completed = ring 1, tp_parrot = None\<rparr>"

definition status_pending :: "('s, 'p, 'q) media_ring \<Rightarrow> ('s, 'p, 'q) TelemetryPlanner \<Rightarrow> bool" where
  "status_pending rb t \<longleftrightarrow> tp_status t \<noteq> None \<or> rb_slots rb (tp_pending t) \<noteq> 0"

text \<open>The loop over the pending media; \<open>blocked\<close> accumulates.\<close>

fun expire_pending ::
    "('s, 'f) StreamOps \<Rightarrow> u64 \<Rightarrow> bool \<Rightarrow> bool \<Rightarrow> bool \<Rightarrow> ('s, 'p) PreparedMedia list \<Rightarrow> ('s, 'p) PreparedMedia list" where
  "expire_pending so now allowed primary_ready blocked [] = []"
| "expire_pending so now allowed primary_ready blocked (m # ms) =
     (let m' = media_expire so now allowed blocked primary_ready m in
      m' # expire_pending so now allowed primary_ready (blocked \<or> \<not> is_finished (pm_playback m')) ms)"

definition expire_status ::
    "('s, 'p, 'q) media_ring \<Rightarrow> ('s, 'f) StreamOps \<Rightarrow> u64 \<Rightarrow> bool \<Rightarrow> bool \<Rightarrow> bool \<Rightarrow> ('s, 'p, 'q) TelemetryPlanner \<Rightarrow> ('s, 'p, 'q) TelemetryPlanner" where
  "expire_status rb so now allowed occupied0 primary_ready t =
     (let occupied = (occupied0 \<or> (case tp_active t of Some source \<Rightarrow> source \<noteq> SrStatus | None \<Rightarrow> False));
          status = map_option (media_expire so now allowed occupied primary_ready) (tp_status t);
          blocked = (occupied \<or> (case status of Some m \<Rightarrow> \<not> is_finished (pm_playback m) | None \<Rightarrow> False)) in
      t\<lparr>tp_status := status,
        tp_pending := rb_modify rb (expire_pending so now allowed primary_ready blocked) (tp_pending t)\<rparr>)"

definition status_morse :: "('s, 'p, 'q) TelemetryPlanner \<Rightarrow> bool" where
  "status_morse t = (case tp_status t of Some m \<Rightarrow> force_morse m | None \<Rightarrow> False)"

definition ignore_push :: "('s, 'p, 'q) media_ring \<Rightarrow> 'q \<Rightarrow> ('s, 'p) PreparedMedia option \<Rightarrow> 'q" where
  "ignore_push rb w m = (case m of None \<Rightarrow> w | Some x \<Rightarrow> (case rb_push rb w x of Some w' \<Rightarrow> w' | None \<Rightarrow> w))"

definition finish_status :: "('s, 'p, 'q) media_ring \<Rightarrow> ('s, 'p, 'q) TelemetryPlanner \<Rightarrow> ('s, 'p, 'q) TelemetryPlanner" where
  "finish_status rb t =
     t\<lparr>tp_held_status := False, tp_status := None, tp_completed := ignore_push rb (tp_completed t) (tp_status t)\<rparr>"

text \<open>What \<^verbatim>\<open>poll_status\<close> skips.\<close>

definition skippable :: "'p Cells \<Rightarrow> nat \<Rightarrow> ('s, 'p) PreparedMedia \<Rightarrow> bool" where
  "skippable ce k m \<longleftrightarrow>
     is_finished (pm_playback m)
     \<or> (case pm_occurrence m of Some a \<Rightarrow> ce_occurrence_cancelled ce k a | None \<Rightarrow> False)
     \<or> (case pm_reply m of Some p \<Rightarrow> ce_peer_ended ce k p | None \<Rightarrow> False)
     \<or> (case pm_cancelled m of Some a \<Rightarrow> ce_cancelled ce k a | None \<Rightarrow> False)"

definition admit_status :: "('s, 'p, 'q) media_ring \<Rightarrow> ('s, 'p, 'q) TelemetryPlanner \<Rightarrow> ('s, 'p, 'q) TelemetryPlanner" where
  "admit_status rb t =
     (case tp_status t of
        Some _ \<Rightarrow> t
      | None \<Rightarrow> (case rb_pop rb (tp_pending t) of
                   Some (m, w) \<Rightarrow> t\<lparr>tp_status := Some m, tp_pending := w\<rparr>
                 | None \<Rightarrow> t))"

text \<open>The loop, with fuel: every round but the last takes an item out of the pending ring.\<close>

fun poll_loop ::
    "('s, 'p, 'q) media_ring \<Rightarrow> ('s, 'f) StreamOps \<Rightarrow> 'p Cells \<Rightarrow> nat \<Rightarrow> nat \<Rightarrow> ('s, 'p, 'q) TelemetryPlanner \<Rightarrow> ('s, 'p, 'q) TelemetryPlanner" where
  "poll_loop rb so ce k 0 t = t"
| "poll_loop rb so ce k (Suc fuel) t =
     (let t1 = admit_status rb t in
      case tp_status t1 of
        Some m \<Rightarrow>
          if skippable ce k m
          then poll_loop rb so ce k fuel
                 (finish_status rb (t1\<lparr>tp_status := Some (on_playback (playback_cancel so) m),
                    tp_active := (if tp_active t1 = Some SrStatus then None else tp_active t1)\<rparr>))
          else t1
      | None \<Rightarrow> t1)"

definition poll_status ::
    "('s, 'p, 'q) media_ring \<Rightarrow> ('s, 'f) StreamOps \<Rightarrow> 'p Cells \<Rightarrow> nat \<Rightarrow> ('s, 'p, 'q) TelemetryPlanner \<Rightarrow> ('s, 'p, 'q) TelemetryPlanner" where
  "poll_status rb so ce k t = poll_loop rb so ce k (Suc (Suc (rb_slots rb (tp_pending t)))) t"

definition status_peer :: "('s, 'p, 'q) TelemetryPlanner \<Rightarrow> 'p option" where
  "status_peer t = Option.bind (tp_status t) pm_reply"

definition parrot_pending :: "('s, 'p, 'q) media_ring \<Rightarrow> ('s, 'p, 'q) TelemetryPlanner \<Rightarrow> bool" where
  "parrot_pending rb t \<longleftrightarrow> tp_parrot t \<noteq> None \<or> rb_slots rb (tp_parrot_pending t) \<noteq> 0"

definition start_parrot :: "('s, 'p, 'q) media_ring \<Rightarrow> ('s, 'f) StreamOps \<Rightarrow> ('s, 'p, 'q) TelemetryPlanner \<Rightarrow> ('s, 'p, 'q) TelemetryPlanner" where
  "start_parrot rb so t =
     (case rb_pop rb (tp_parrot_pending t) of
        Some (m, w) \<Rightarrow> t\<lparr>tp_parrot_pending := w, tp_parrot := Some (on_playback (playback_restart so False) m)\<rparr>
      | None \<Rightarrow> t\<lparr>tp_parrot := None\<rparr>)"

definition discard_pending_parrot :: "('s, 'p, 'q) media_ring \<Rightarrow> ('s, 'p, 'q) TelemetryPlanner \<Rightarrow> ('s, 'p, 'q) TelemetryPlanner" where
  "discard_pending_parrot rb t =
     (case rb_pop rb (tp_parrot_pending t) of
        Some (m, w) \<Rightarrow> t\<lparr>tp_parrot_pending := w, tp_parrot_completed := ignore_push rb (tp_parrot_completed t) (Some m)\<rparr>
      | None \<Rightarrow> t)"

definition finish_parrot :: "('s, 'p, 'q) media_ring \<Rightarrow> ('s, 'p, 'q) TelemetryPlanner \<Rightarrow> ('s, 'p, 'q) TelemetryPlanner" where
  "finish_parrot rb t = t\<lparr>tp_parrot := None, tp_parrot_completed := ignore_push rb (tp_parrot_completed t) (tp_parrot t)\<rparr>"

definition disable_parrot :: "('s, 'p, 'q) media_ring \<Rightarrow> ('s, 'p, 'q) TelemetryPlanner \<Rightarrow> ('s, 'p, 'q) TelemetryPlanner" where
  "disable_parrot rb t =
     (let t1 = discard_pending_parrot rb t in
      if tp_active t1 = Some SrParrot then finish_parrot rb (t1\<lparr>tp_active := None\<rparr>) else t1)"

definition start_status ::
    "('s, 'p, 'q) media_ring \<Rightarrow> ('s, 'f) StreamOps \<Rightarrow> 'p Cells \<Rightarrow> nat \<Rightarrow> ('s, 'p, 'q) TelemetryPlanner \<Rightarrow> ('s, 'p, 'q) TelemetryPlanner" where
  "start_status rb so ce k t =
     (let t1 = poll_status rb so ce k t in
      t1\<lparr>tp_active := map_option (\<lambda>_. SrStatus) (tp_status t1), tp_held_status := False\<rparr>)"

section \<open>The control thread's side\<close>

record TelemetryControl =
  tc_outstanding :: nat
  tc_parrot_busy :: bool
  tc_parrot_enabled :: bool

definition queue_prepared_status ::
    "('s, 'p, 'q) media_ring \<Rightarrow> ('s, 'p) PreparedMedia \<Rightarrow> TelemetryControl \<Rightarrow> ('s, 'p, 'q) TelemetryPlanner
       \<Rightarrow> bool \<times> TelemetryControl \<times> ('s, 'p, 'q) TelemetryPlanner" where
  "queue_prepared_status rb media c t =
     (if tc_outstanding c = 4 then (False, c, t)
      else (case rb_push rb (tp_pending t) media of
              None \<Rightarrow> (False, c, t)
            | Some w \<Rightarrow> (True, c\<lparr>tc_outstanding := tc_outstanding c + 1\<rparr>, t\<lparr>tp_pending := w\<rparr>)))"

definition queue_prepared_parrot ::
    "('s, 'p, 'q) media_ring \<Rightarrow> ('s, 'p) PreparedMedia \<Rightarrow> TelemetryControl \<Rightarrow> ('s, 'p, 'q) TelemetryPlanner
       \<Rightarrow> bool \<times> TelemetryControl \<times> ('s, 'p, 'q) TelemetryPlanner" where
  "queue_prepared_parrot rb media c t =
     (if \<not> tc_parrot_enabled c \<or> pm_kind media \<noteq> MkParrot \<or> tc_parrot_busy c then (False, c, t)
      else (case rb_push rb (tp_parrot_pending t) media of
              None \<Rightarrow> (False, c\<lparr>tc_parrot_busy := False\<rparr>, t)
            | Some w \<Rightarrow> (True, c\<lparr>tc_parrot_busy := True\<rparr>, t\<lparr>tp_parrot_pending := w\<rparr>)))"

definition can_queue_status :: "TelemetryControl \<Rightarrow> bool" where
  "can_queue_status c \<longleftrightarrow> tc_outstanding c < 4"

text \<open>One item of the iterator \<^verbatim>\<open>reclaim\<close>; the subtraction is on an unsigned integer, \<open>None\<close> is its overflow.\<close>

definition reclaim_next ::
    "('s, 'p, 'q) media_ring \<Rightarrow> ('s, 'p, 'q) media_ring \<Rightarrow> TelemetryControl \<Rightarrow> ('s, 'p, 'q) TelemetryPlanner
       \<Rightarrow> (('s, 'p) PreparedMedia option \<times> TelemetryControl \<times> ('s, 'p, 'q) TelemetryPlanner) option" where
  "reclaim_next rs rp c t =
     (case rb_pop rs (tp_completed t) of
        Some (m, w) \<Rightarrow>
          if tc_outstanding c = 0 then None
          else Some (Some m, c\<lparr>tc_outstanding := tc_outstanding c - 1\<rparr>, t\<lparr>tp_completed := w\<rparr>)
      | None \<Rightarrow>
          (case rb_pop rp (tp_parrot_completed t) of
             Some (m, w) \<Rightarrow> Some (Some m, c\<lparr>tc_parrot_busy := False\<rparr>, t\<lparr>tp_parrot_completed := w\<rparr>)
           | None \<Rightarrow> Some (None, c, t)))"

section \<open>Ownership of the media\<close>

lemma ignore_push_length:
  assumes "ring_laws rb con" "ring_capacity rb con cap" "m = None \<or> length (con w) < cap"
  shows "length (con (ignore_push rb w m)) = length (con w) + (if m = None then 0 else 1)"
proof (cases m)
  case (Some x)
  then obtain w' where "rb_push rb w x = Some w'" "con w' = con w @ [x]"
    using ring_push_fits [OF assms(1,2), of w x] assms(3) by auto
  then show ?thesis using Some by (simp add: ignore_push_def)
qed (simp add: ignore_push_def)

lemma length_expire_pending [simp]: "length (expire_pending so now a p b ms) = length ms"
  by (induction ms arbitrary: b) (simp_all add: Let_def)

text \<open>Where the status media are: \<open>slot_held\<close> counts the slot of the planner.\<close>

definition slot_held :: "'a option \<Rightarrow> nat" where
  "slot_held x = (if x = None then 0 else 1)"

lemma slot_held_simps [simp]: "slot_held None = 0" "slot_held (Some x) = 1" "slot_held (map_option f y) = slot_held y"
  by (simp_all add: slot_held_def)

definition status_total :: "('q \<Rightarrow> ('s, 'p) PreparedMedia list) \<Rightarrow> ('s, 'p, 'q) TelemetryPlanner \<Rightarrow> nat" where
  "status_total con t = length (con (tp_pending t)) + slot_held (tp_status t) + length (con (tp_completed t))"

definition parrot_total :: "('q \<Rightarrow> ('s, 'p) PreparedMedia list) \<Rightarrow> ('s, 'p, 'q) TelemetryPlanner \<Rightarrow> nat" where
  "parrot_total con t = length (con (tp_parrot_pending t)) + slot_held (tp_parrot t) + length (con (tp_parrot_completed t))"

lemma admit_status_total:
  assumes "ring_laws rb con"
  shows "status_total con (admit_status rb t) = status_total con t"
    and "length (con (tp_pending (admit_status rb t))) + slot_held (tp_status (admit_status rb t)) = length (con (tp_pending t)) + slot_held (tp_status t)"
    and "tp_status (admit_status rb t) = None \<Longrightarrow> con (tp_pending (admit_status rb t)) = []"
  using ring_popD [OF assms, of "tp_pending t"] by (auto simp: admit_status_def status_total_def split: option.splits)

lemma admit_status_keeps [simp]:
  "tp_completed (admit_status rb t) = tp_completed t" "tp_parrot_pending (admit_status rb t) = tp_parrot_pending t"
  "tp_parrot (admit_status rb t) = tp_parrot t" "tp_parrot_completed (admit_status rb t) = tp_parrot_completed t"
  "tp_active (admit_status rb t) = tp_active t"
  by (simp_all add: admit_status_def split: option.split)

lemma finish_status_total:
  assumes "ring_laws rb con" "ring_capacity rb con 4" "status_total con t \<le> 4"
  shows "status_total con (finish_status rb t) = status_total con t"
proof -
  have "tp_status t = None \<or> length (con (tp_completed t)) < 4"
    using assms(3) by (cases "tp_status t") (simp_all add: status_total_def)
  from ignore_push_length [OF assms(1,2) this] show ?thesis
    by (cases "tp_status t") (simp_all add: finish_status_def status_total_def)
qed

text \<open>
  The loop of \<^verbatim>\<open>poll_status\<close>: with the fuel it is given it ends at a status that is not to be skipped or with
  nothing pending, it keeps every medium, and it touches nothing of the parrot.
\<close>

definition parrot_part :: "('s, 'p, 'q) TelemetryPlanner \<Rightarrow> 'q \<times> ('s, 'p) PreparedMedia option \<times> 'q" where
  "parrot_part t = (tp_parrot_pending t, tp_parrot t, tp_parrot_completed t)"

lemma poll_loop_settles:
  assumes "ring_laws rb con" "ring_capacity rb con 4" "status_total con t \<le> 4"
    "length (con (tp_pending t)) + slot_held (tp_status t) < fuel"
  shows "status_total con (poll_loop rb so ce k fuel t) = status_total con t
    \<and> parrot_part (poll_loop rb so ce k fuel t) = parrot_part t
    \<and> (case tp_status (poll_loop rb so ce k fuel t) of
         Some m \<Rightarrow> \<not> skippable ce k m
       | None \<Rightarrow> con (tp_pending (poll_loop rb so ce k fuel t)) = [])
    \<and> (tp_active (poll_loop rb so ce k fuel t) = tp_active t \<or> tp_active t = Some SrStatus \<and> tp_active (poll_loop rb so ce k fuel t) = None)"
  using assms(3,4)
proof (induction fuel arbitrary: t)
  case (Suc fuel)
  define t1 where "t1 = admit_status rb t"
  note a = admit_status_total [OF assms(1), of t, folded t1_def]
  show ?case
  proof (cases "tp_status t1")
    case None
    then show ?thesis using a by (simp add: t1_def [symmetric] parrot_part_def) (simp add: t1_def)
  next
    case (Some m)
    show ?thesis
    proof (cases "skippable ce k m")
      case False
      then show ?thesis using Some a by (simp add: t1_def [symmetric] parrot_part_def) (simp add: t1_def)
    next
      case True
      define t2 where "t2 = t1\<lparr>tp_status := Some (on_playback (playback_cancel so) m),
        tp_active := (if tp_active t1 = Some SrStatus then None else tp_active t1)\<rparr>"
      define t3 where "t3 = finish_status rb t2"
      have tot2: "status_total con t2 = status_total con t" using Some a(1) by (simp add: t2_def status_total_def)
      have tot3: "status_total con t3 = status_total con t"
        using finish_status_total [OF assms(1,2), of t2] tot2 Suc.prems(1) by (simp add: t3_def)
      have "length (con (tp_pending t3)) + slot_held (tp_status t3) < fuel"
        using Suc.prems(2) a(2) Some by (simp add: t3_def finish_status_def t2_def)
      from Suc.IH [OF _ this] tot3 Suc.prems(1) have ih: "status_total con (poll_loop rb so ce k fuel t3) = status_total con t3
        \<and> parrot_part (poll_loop rb so ce k fuel t3) = parrot_part t3
        \<and> (case tp_status (poll_loop rb so ce k fuel t3) of Some m \<Rightarrow> \<not> skippable ce k m
            | None \<Rightarrow> con (tp_pending (poll_loop rb so ce k fuel t3)) = [])
        \<and> (tp_active (poll_loop rb so ce k fuel t3) = tp_active t3 \<or> tp_active t3 = Some SrStatus \<and> tp_active (poll_loop rb so ce k fuel t3) = None)"
        by simp
      have eq: "poll_loop rb so ce k (Suc fuel) t = poll_loop rb so ce k fuel t3"
        using Some True by (simp add: t1_def [symmetric] t3_def t2_def)
      have "parrot_part t3 = parrot_part t" by (simp add: t3_def finish_status_def t2_def t1_def parrot_part_def)
      moreover have "tp_active t3 = (if tp_active t = Some SrStatus then None else tp_active t)"
        by (simp add: t3_def finish_status_def t2_def t1_def)
      ultimately show ?thesis unfolding eq using ih tot3 by (auto split: if_splits)
    qed
  qed
qed simp

lemma poll_status_settles:
  assumes "ring_laws rb con" "ring_capacity rb con 4" "status_total con t \<le> 4"
  shows "status_total con (poll_status rb so ce k t) = status_total con t"
    "parrot_part (poll_status rb so ce k t) = parrot_part t"
    "case tp_status (poll_status rb so ce k t) of Some m \<Rightarrow> \<not> skippable ce k m | None \<Rightarrow> con (tp_pending (poll_status rb so ce k t)) = []"
    "tp_active (poll_status rb so ce k t) = tp_active t \<or> tp_active t = Some SrStatus \<and> tp_active (poll_status rb so ce k t) = None"
proof -
  have "length (con (tp_pending t)) + slot_held (tp_status t) < Suc (Suc (rb_slots rb (tp_pending t)))"
    using ring_slotsD [OF assms(1)] by (simp add: slot_held_def)
  from poll_loop_settles [OF assms this, of so ce k]
  show "status_total con (poll_status rb so ce k t) = status_total con t"
    "parrot_part (poll_status rb so ce k t) = parrot_part t"
    "case tp_status (poll_status rb so ce k t) of Some m \<Rightarrow> \<not> skippable ce k m | None \<Rightarrow> con (tp_pending (poll_status rb so ce k t)) = []"
    "tp_active (poll_status rb so ce k t) = tp_active t \<or> tp_active t = Some SrStatus \<and> tp_active (poll_status rb so ce k t) = None"
    by (simp_all only: poll_status_def)
qed

section \<open>Both threads\<close>

text \<open>
  The operations as the two threads use them; the end of an item's playback gives up the slot and returns the
  item, and the parrot starts only when no source is active. \<open>TeRender\<close> stands for playback of the current item.
\<close>

datatype ('s, 'p) TelemetryEvent =
  TeQueue "('s, 'p) PreparedMedia" | TeQueueParrot "('s, 'p) PreparedMedia" | TeReclaim
| TePoll "'p Cells" nat | TeStart "'p Cells" nat | TeExpire u64 bool bool bool | TeRender "('s, 'p) PreparedMedia \<Rightarrow> ('s, 'p) PreparedMedia"
| TeStatusEnd | TeParrotStart | TeParrotDiscard | TeParrotEnd | TeParrotDisable

fun telemetry_event ::
    "('s, 'p, 'q) media_ring \<Rightarrow> ('s, 'p, 'q) media_ring \<Rightarrow> ('s, 'f) StreamOps \<Rightarrow> TelemetryControl \<times> ('s, 'p, 'q) TelemetryPlanner
       \<Rightarrow> ('s, 'p) TelemetryEvent \<Rightarrow> (TelemetryControl \<times> ('s, 'p, 'q) TelemetryPlanner) option" where
  "telemetry_event rs rp so (c, t) (TeQueue m) = Some (snd (queue_prepared_status rs m c t))"
| "telemetry_event rs rp so (c, t) (TeQueueParrot m) = Some (snd (queue_prepared_parrot rp m c t))"
| "telemetry_event rs rp so (c, t) TeReclaim = map_option snd (reclaim_next rs rp c t)"
| "telemetry_event rs rp so (c, t) (TePoll ce k) = Some (c, poll_status rs so ce k t)"
| "telemetry_event rs rp so (c, t) (TeStart ce k) = Some (c, if tp_active t = None then start_status rs so ce k t else t)"
| "telemetry_event rs rp so (c, t) (TeExpire now allowed occupied ready) = Some (c, expire_status rs so now allowed occupied ready t)"
| "telemetry_event rs rp so (c, t) (TeRender f) =
     Some (c, t\<lparr>tp_status := map_option f (tp_status t), tp_parrot := map_option f (tp_parrot t)\<rparr>)"
| "telemetry_event rs rp so (c, t) TeStatusEnd =
     Some (c, if tp_active t = Some SrStatus then finish_status rs (t\<lparr>tp_active := None\<rparr>) else t)"
| "telemetry_event rs rp so (c, t) TeParrotStart =
     Some (c, if tp_active t = None
              then let t1 = start_parrot rp so t in t1\<lparr>tp_active := map_option (\<lambda>_. SrParrot) (tp_parrot t1)\<rparr> else t)"
| "telemetry_event rs rp so (c, t) TeParrotDiscard = Some (c, discard_pending_parrot rp t)"
| "telemetry_event rs rp so (c, t) TeParrotEnd =
     Some (c, if tp_active t = Some SrParrot then finish_parrot rp (t\<lparr>tp_active := None\<rparr>) else t)"
| "telemetry_event rs rp so (c, t) TeParrotDisable = Some (c, disable_parrot rp t)"

fun telemetry_run ::
    "('s, 'p, 'q) media_ring \<Rightarrow> ('s, 'p, 'q) media_ring \<Rightarrow> ('s, 'f) StreamOps \<Rightarrow> TelemetryControl \<times> ('s, 'p, 'q) TelemetryPlanner
       \<Rightarrow> ('s, 'p) TelemetryEvent list \<Rightarrow> (TelemetryControl \<times> ('s, 'p, 'q) TelemetryPlanner) option" where
  "telemetry_run rs rp so s [] = Some s"
| "telemetry_run rs rp so s (e # es) = Option.bind (telemetry_event rs rp so s e) (\<lambda>s'. telemetry_run rs rp so s' es)"

definition media_rings ::
    "('s, 'p, 'q) media_ring \<Rightarrow> ('s, 'p, 'q) media_ring \<Rightarrow> ('q \<Rightarrow> ('s, 'p) PreparedMedia list) \<Rightarrow> bool" where
  "media_rings rs rp con \<longleftrightarrow> ring_laws rs con \<and> ring_capacity rs con 4 \<and> ring_laws rp con \<and> ring_capacity rp con 1"

definition telemetry_inv ::
    "('q \<Rightarrow> ('s, 'p) PreparedMedia list) \<Rightarrow> TelemetryControl \<times> ('s, 'p, 'q) TelemetryPlanner \<Rightarrow> bool" where
  "telemetry_inv con s = (case s of (c, t) \<Rightarrow>
     status_total con t = tc_outstanding c \<and> tc_outstanding c \<le> 4
     \<and> parrot_total con t = (if tc_parrot_busy c then 1 else 0)
     \<and> (tp_parrot t \<noteq> None \<longleftrightarrow> tp_active t = Some SrParrot))"

lemma parrot_total_part: "parrot_part t = parrot_part t' \<Longrightarrow> parrot_total con t = parrot_total con t'"
  by (simp add: parrot_part_def parrot_total_def)

lemma poll_status_inv:
  assumes "media_rings rs rp con" "telemetry_inv con (c, t)"
  shows "telemetry_inv con (c, poll_status rs so ce k t)"
proof -
  have r: "ring_laws rs con" "ring_capacity rs con 4" using assms(1) by (simp_all add: media_rings_def)
  have "status_total con t \<le> 4" using assms(2) by (simp add: telemetry_inv_def)
  note p = poll_status_settles [OF r this, of so ce k]
  have "tp_parrot (poll_status rs so ce k t) = tp_parrot t" using p(2) by (simp add: parrot_part_def)
  then show ?thesis using assms(2) p(1,4) parrot_total_part [OF p(2), of con] by (auto simp: telemetry_inv_def)
qed

lemma discard_parrot_keeps:
  assumes "media_rings rs rp con" "parrot_total con t \<le> 1"
  shows "parrot_total con (discard_pending_parrot rp t) = parrot_total con t"
    "tp_parrot (discard_pending_parrot rp t) = tp_parrot t" "tp_active (discard_pending_parrot rp t) = tp_active t"
    "status_total con (discard_pending_parrot rp t) = status_total con t"
proof -
  have r: "ring_laws rp con" "ring_capacity rp con 1" using assms(1) by (simp_all add: media_rings_def)
  show "parrot_total con (discard_pending_parrot rp t) = parrot_total con t"
  proof (cases "rb_pop rp (tp_parrot_pending t)")
    case (Some mw)
    obtain m w where mw: "mw = (m, w)" by fastforce
    have con: "con (tp_parrot_pending t) = m # con w" using ring_popD(1) [OF r(1)] Some mw by simp
    then have "length (con (tp_parrot_completed t)) < 1" using assms(2) by (simp add: parrot_total_def)
    then show ?thesis using con Some mw ignore_push_length [OF r, of "Some m" "tp_parrot_completed t"]
      by (simp add: discard_pending_parrot_def parrot_total_def)
  qed (simp add: discard_pending_parrot_def)
qed (simp_all add: discard_pending_parrot_def status_total_def split: option.split)

lemma finish_parrot_keeps:
  assumes "media_rings rs rp con" "parrot_total con t \<le> 1"
  shows "parrot_total con (finish_parrot rp t) = parrot_total con t" "tp_parrot (finish_parrot rp t) = None"
    "tp_active (finish_parrot rp t) = tp_active t" "status_total con (finish_parrot rp t) = status_total con t"
proof -
  have r: "ring_laws rp con" "ring_capacity rp con 1" using assms(1) by (simp_all add: media_rings_def)
  have "tp_parrot t = None \<or> length (con (tp_parrot_completed t)) < 1"
    using assms(2) by (cases "tp_parrot t") (simp_all add: parrot_total_def)
  from ignore_push_length [OF r this] show "parrot_total con (finish_parrot rp t) = parrot_total con t"
    by (cases "tp_parrot t") (simp_all add: finish_parrot_def parrot_total_def)
qed (simp_all add: finish_parrot_def status_total_def)

lemma parrot_total_active [simp]: "parrot_total con (t\<lparr>tp_active := a\<rparr>) = parrot_total con t"
  "status_total con (t\<lparr>tp_active := a\<rparr>) = status_total con t"
  "status_total con (t\<lparr>tp_held_status := b\<rparr>) = status_total con t" "parrot_total con (t\<lparr>tp_held_status := b\<rparr>) = parrot_total con t"
  by (simp_all add: parrot_total_def status_total_def)

lemma telemetry_event_inv:
  assumes R: "media_rings rs rp con" and inv: "telemetry_inv con s"
  obtains s' where "telemetry_event rs rp so s e = Some s'" "telemetry_inv con s'"
proof -
  obtain c t where s: "s = (c, t)" by fastforce
  have rs: "ring_laws rs con" "ring_capacity rs con 4" and rp: "ring_laws rp con" "ring_capacity rp con 1"
    using R by (simp_all add: media_rings_def)
  have i: "status_total con t = tc_outstanding c" "tc_outstanding c \<le> 4" "parrot_total con t = (if tc_parrot_busy c then 1 else 0)"
    "tp_parrot t \<noteq> None \<longleftrightarrow> tp_active t = Some SrParrot" and p1: "parrot_total con t \<le> 1"
    using inv s by (simp_all add: telemetry_inv_def)
  have ok: "telemetry_inv con (c', t')" if "status_total con t' = tc_outstanding c'" "tc_outstanding c' \<le> 4"
    "parrot_total con t' = (if tc_parrot_busy c' then 1 else 0)" "tp_parrot t' \<noteq> None \<longleftrightarrow> tp_active t' = Some SrParrot" for c' t'
    using that by (simp add: telemetry_inv_def)
  show thesis
  proof (cases e)
    case (TeQueue m)
    have "length (con (tp_pending t)) < 4" if "tc_outstanding c \<noteq> 4" using i that by (simp add: status_total_def)
    then show ?thesis
    proof (cases "tc_outstanding c = 4")
      case False
      then obtain w where w: "rb_push rs (tp_pending t) m = Some w" "con w = con (tp_pending t) @ [m]"
        using ring_push_fits [OF rs] \<open>tc_outstanding c \<noteq> 4 \<Longrightarrow> _\<close> by metis
      have "telemetry_inv con (c\<lparr>tc_outstanding := tc_outstanding c + 1\<rparr>, t\<lparr>tp_pending := w\<rparr>)"
        using i False w(2) by (intro ok) (simp_all add: status_total_def parrot_total_def)
      then show ?thesis using that TeQueue s w(1) False by (simp add: queue_prepared_status_def)
    qed (use that TeQueue s inv in \<open>simp add: queue_prepared_status_def\<close>)
  next
    case (TeQueueParrot m)
    show ?thesis
    proof (cases "\<not> tc_parrot_enabled c \<or> pm_kind m \<noteq> MkParrot \<or> tc_parrot_busy c")
      case True
      then show ?thesis using that TeQueueParrot s inv by (simp add: queue_prepared_parrot_def)
    next
      case False
      then have "length (con (tp_parrot_pending t)) < 1" using i by (simp add: parrot_total_def)
      then obtain w where w: "rb_push rp (tp_parrot_pending t) m = Some w" "con w = con (tp_parrot_pending t) @ [m]"
        using ring_push_fits [OF rp] by metis
      have "telemetry_inv con (c\<lparr>tc_parrot_busy := True\<rparr>, t\<lparr>tp_parrot_pending := w\<rparr>)"
        using i False w(2) by (intro ok) (simp_all add: status_total_def parrot_total_def)
      then show ?thesis using that TeQueueParrot s w(1) False by (simp add: queue_prepared_parrot_def)
    qed
  next
    case TeReclaim
    show ?thesis
    proof (cases "rb_pop rs (tp_completed t)")
      case (Some mw)
      obtain m w where mw: "mw = (m, w)" by fastforce
      have con: "con (tp_completed t) = m # con w" using ring_popD(1) [OF rs(1)] Some mw by simp
      then have pos: "tc_outstanding c \<noteq> 0" using i(1) by (auto simp: status_total_def)
      have "telemetry_inv con (c\<lparr>tc_outstanding := tc_outstanding c - 1\<rparr>, t\<lparr>tp_completed := w\<rparr>)"
        using i con by (intro ok) (simp_all add: status_total_def parrot_total_def)
      then show ?thesis using that TeReclaim s Some mw pos by (simp add: reclaim_next_def)
    next
      case None
      show ?thesis
      proof (cases "rb_pop rp (tp_parrot_completed t)")
        case (Some mw)
        obtain m w where mw: "mw = (m, w)" by fastforce
        have con: "con (tp_parrot_completed t) = m # con w" using ring_popD(1) [OF rp(1)] Some mw by simp
        have "telemetry_inv con (c\<lparr>tc_parrot_busy := False\<rparr>, t\<lparr>tp_parrot_completed := w\<rparr>)"
          using i con by (intro ok) (auto simp: status_total_def parrot_total_def split: if_splits)
        then show ?thesis using that TeReclaim s None Some mw by (simp add: reclaim_next_def)
      qed (use that TeReclaim s None inv in \<open>simp add: reclaim_next_def\<close>)
    qed
  next
    case (TePoll ce k)
    then show ?thesis using that poll_status_inv [OF R inv [unfolded s], of so ce k] s by simp
  next
    case (TeStart ce k)
    have "telemetry_inv con (c, start_status rs so ce k t)" if "tp_active t = None"
      using poll_status_inv [OF R inv [unfolded s], of so ce k] poll_status_settles(2,4) [OF rs, of t so ce k] i that
      by (auto simp: start_status_def Let_def telemetry_inv_def parrot_part_def)
    then show ?thesis using that TeStart inv s by simp
  next
    case (TeExpire now allowed occupied ready)
    have "telemetry_inv con (c, expire_status rs so now allowed occupied ready t)"
      using i by (intro ok) (simp_all add: expire_status_def Let_def status_total_def parrot_total_def ring_modifyD [OF rs(1)])
    then show ?thesis using that TeExpire s by simp
  next
    case (TeRender f)
    have "telemetry_inv con (c, t\<lparr>tp_status := map_option f (tp_status t), tp_parrot := map_option f (tp_parrot t)\<rparr>)"
      using i by (intro ok) (simp_all add: status_total_def parrot_total_def)
    then show ?thesis using that TeRender s by simp
  next
    case TeStatusEnd
    have "telemetry_inv con (c, finish_status rs (t\<lparr>tp_active := None\<rparr>))" if "tp_active t = Some SrStatus"
      using i that finish_status_total [OF rs, of "t\<lparr>tp_active := None\<rparr>"]
      by (intro ok) (simp_all add: finish_status_def parrot_total_def)
    then show ?thesis using that TeStatusEnd s inv by simp
  next
    case TeParrotStart
    have "telemetry_inv con (c, let t1 = start_parrot rp so t in t1\<lparr>tp_active := map_option (\<lambda>_. SrParrot) (tp_parrot t1)\<rparr>)" if "tp_active t = None"
      using i that ring_popD [OF rp(1), of "tp_parrot_pending t"]
      by (intro ok; cases "rb_pop rp (tp_parrot_pending t)")
        (auto simp: start_parrot_def Let_def status_total_def parrot_total_def)
    then show ?thesis using that TeParrotStart s inv by simp
  next
    case TeParrotDiscard
    then show ?thesis using that i s discard_parrot_keeps [OF R p1] by (simp add: telemetry_inv_def)
  next
    case TeParrotEnd
    then show ?thesis using that i s inv finish_parrot_keeps [OF R, of "t\<lparr>tp_active := None\<rparr>"] p1 by (simp add: telemetry_inv_def)
  next
    case TeParrotDisable
    note d = discard_parrot_keeps [OF R p1]
    have "telemetry_inv con (c, disable_parrot rp t)"
      using i d p1 finish_parrot_keeps [OF R, of "(discard_pending_parrot rp t)\<lparr>tp_active := None\<rparr>"]
      by (intro ok) (simp_all add: disable_parrot_def Let_def)
    then show ?thesis using that TeParrotDisable s by simp
  qed
qed

lemma telemetry_run_inv:
  assumes "media_rings rs rp con" "telemetry_inv con s"
  shows "\<exists>s'. telemetry_run rs rp so s es = Some s' \<and> telemetry_inv con s'"
  using assms(2)
proof (induction es arbitrary: s)
  case (Cons e es)
  obtain s1 where "telemetry_event rs rp so s e = Some s1" "telemetry_inv con s1"
    using telemetry_event_inv [OF assms(1) Cons.prems] by metis
  then show ?case using Cons.IH by simp
qed simp

section \<open>Properties\<close>

text \<open>C13. No prepared media is lost between the threads. For every interleaving of the control thread's
  submissions and reclamations with the audio thread's polls, starts, expiries, ends and cancellations, and
  whatever other threads do to the shared cells, the outstanding count is exactly the number of status media
  that are pending, current or completed, and at most four (so the completed ring always has room for the
  current one and the unsigned count never underflows), and the parrot is marked busy exactly while its one
  media is in circulation.\<close>

theorem telemetry_conserves:
  assumes "media_rings rs rp con" "con (ring 4) = []" "con (ring 1) = []"
  shows "\<exists>c t. telemetry_run rs rp so (\<lparr>tc_outstanding = 0, tc_parrot_busy = False, tc_parrot_enabled = enabled\<rparr>, planner_new ring) es = Some (c, t)
    \<and> tc_outstanding c = length (con (tp_pending t)) + slot_held (tp_status t) + length (con (tp_completed t)) \<and> tc_outstanding c \<le> 4
    \<and> length (con (tp_parrot_pending t)) + slot_held (tp_parrot t) + length (con (tp_parrot_completed t)) = (if tc_parrot_busy c then 1 else 0)"
proof -
  let ?s = "(\<lparr>tc_outstanding = 0, tc_parrot_busy = False, tc_parrot_enabled = enabled\<rparr>, planner_new ring)"
  have "telemetry_inv con ?s"
    using assms(2,3) by (simp add: telemetry_inv_def planner_new_def status_total_def parrot_total_def)
  from telemetry_run_inv [OF assms(1) this, of so es] show ?thesis
    by (auto simp: telemetry_inv_def status_total_def parrot_total_def)
qed

text \<open>Two items submitted, the first polled, started and ended, and reclaimed.\<close>

definition quiet_stream :: "(nat, nat) StreamOps" where
  "quiet_stream = \<lparr>so_start = id, so_rewind = id, so_defer_before_output = Pair False,
     so_render = (\<lambda>out s. (PrPending, out, s)), so_select_morse = Pair MwPending, so_cancel = id\<rparr>"

definition quiet_cells :: "nat Cells" where
  "quiet_cells = \<lparr>ce_site_inhibit = False, ce_cancel_message = False, ce_cancelled = (\<lambda>_ _. False),
     ce_occurrence_cancelled = (\<lambda>_ _. False), ce_begin = (\<lambda>_. True), ce_peer_ended = (\<lambda>_ _. False),
     ce_peer_active = (\<lambda>_ _. False), ce_peer_identity = id\<rparr>"

theorem telemetry_conserves_witness:
  "\<exists>c t. telemetry_run (list_ring 4) (list_ring 1) quiet_stream
     (\<lparr>tc_outstanding = 0, tc_parrot_busy = False, tc_parrot_enabled = True\<rparr>, planner_new (\<lambda>_. []))
     [TeQueue (media_new_stream 5), TeQueue (media_new_stream 6), TePoll quiet_cells 0, TeStart quiet_cells 1, TeStatusEnd, TeReclaim]
     = Some (c, t) \<and> tc_outstanding c = 1 \<and> length (tp_pending t) + slot_held (tp_status t) + length (tp_completed t) = 1"
proof -
  let ?es = "[TeQueue (media_new_stream 5), TeQueue (media_new_stream 6), TePoll quiet_cells 0, TeStart quiet_cells 1, TeStatusEnd, TeReclaim]"
  let ?s = "(\<lparr>tc_outstanding = 0, tc_parrot_busy = False, tc_parrot_enabled = True\<rparr>, planner_new (\<lambda>_. []))"
  have rings: "media_rings (list_ring 4) (list_ring 1) id"
    by (simp add: media_rings_def list_ring_laws list_ring_capacity)
  obtain c t where r: "telemetry_run (list_ring 4) (list_ring 1) quiet_stream ?s ?es = Some (c, t)"
    "tc_outstanding c = length (id (tp_pending t)) + slot_held (tp_status t) + length (id (tp_completed t))"
    using telemetry_conserves [OF rings, of "\<lambda>_. []" quiet_stream True ?es] by auto
  have "map_option (\<lambda>(c, t). tc_outstanding c) (telemetry_run (list_ring 4) (list_ring 1) quiet_stream ?s ?es) = Some 1"
    by code_simp
  then show ?thesis using r by simp
qed

end
