(* ===== verification/Release_Planners.thy ===== *)
theory Release_Planners
  imports Telemetry
begin

text \<open>
  What a node plays when traffic ends: configured tails (\<^verbatim>\<open>core/src/controller/tail.rs\<close>), the courtesy tone of the
  last source (\<^verbatim>\<open>core/src/controller/courtesy.rs\<close>) and announcements (\<^verbatim>\<open>core/src/controller/announcement.rs\<close>). Times
  are sample counts of the audio clock.
\<close>

definition samples :: "u64 \<Rightarrow> u64" where
  "samples ms = sat_mul ms 48"

definition max_ms :: u64 where
  "max_ms = (- 1) div 48"

section \<open>Tails\<close>

record ('s, 'p) Tail =
  tl_media :: "('s, 'p) PreparedMedia"
  tl_interval_ms :: u64
  tl_delay_ms :: u64

record ('s, 'p) TailState =
  ts_tail :: "('s, 'p) Tail"
  ts_pending :: bool
  ts_started :: bool
  ts_suspended :: bool
  ts_deadline :: "u64 option"
  ts_completed :: "u64 option"

record ('s, 'p) TailPlanner =
  tn_items :: "('s, 'p) TailState list"
  tn_traffic :: bool
  tn_hang_until :: "u64 option"

definition tails_default :: "('s, 'p) TailPlanner" where
  "tails_default = \<lparr>tn_items = [], tn_traffic = False, tn_hang_until = None\<rparr>"

definition tails_new :: "('s, 'p) Tail list \<Rightarrow> unit + ('s, 'p) TailPlanner" where
  "tails_new tails =
     (if list_ex (\<lambda>t. tl_interval_ms t > max_ms \<or> tl_delay_ms t > max_ms) tails then Inl ()
      else Inr (tails_default\<lparr>tn_items := map (\<lambda>t. \<lparr>ts_tail = t, ts_pending = False, ts_started = False,
        ts_suspended = False, ts_deadline = None, ts_completed = None\<rparr>) tails\<rparr>))"

abbreviation on_tail_media :: "('s Playback \<Rightarrow> 's Playback) \<Rightarrow> ('s, 'p) TailState \<Rightarrow> ('s, 'p) TailState" where
  "on_tail_media f i \<equiv> i\<lparr>ts_tail := (ts_tail i)\<lparr>tl_media := on_playback f (tl_media (ts_tail i))\<rparr>\<rparr>"

definition tail_rekeyed :: "('s, 'f) StreamOps \<Rightarrow> bool \<Rightarrow> ('s, 'p) TailState \<Rightarrow> ('s, 'p) TailState" where
  "tail_rekeyed so playback_allowed i =
     (if ts_pending i \<and> \<not> ts_started i
      then (on_tail_media (playback_cancel so) i)\<lparr>ts_pending := False, ts_deadline := None\<rparr>
      else if ts_suspended i \<and> playback_allowed
      then on_tail_media (\<lambda>p. snd (snd (playback_render so True [] p))) i
      else i)"

definition tail_released :: "u64 \<Rightarrow> bool \<Rightarrow> ('s, 'p) TailState \<Rightarrow> ('s, 'p) TailState" where
  "tail_released now suppressed i =
     (if \<not> suppressed \<and> \<not> ts_pending i
         \<and> (case ts_completed i of None \<Rightarrow> True | Some t \<Rightarrow> sat_sub now t \<ge> samples (tl_interval_ms (ts_tail i)))
      then i\<lparr>ts_pending := True, ts_deadline := None\<rparr> else i)"

definition tails_observe ::
    "('s, 'f) StreamOps \<Rightarrow> bool \<Rightarrow> u64 \<Rightarrow> u64 \<Rightarrow> bool \<Rightarrow> bool \<Rightarrow> ('s, 'p) TailPlanner \<Rightarrow> ('s, 'p) TailPlanner" where
  "tails_observe so active now hang suppressed playback_allowed p =
     (let p1 = (if active
                then p\<lparr>tn_hang_until := None, tn_items := map (tail_rekeyed so playback_allowed) (tn_items p)\<rparr>
                else if tn_traffic p
                then p\<lparr>tn_hang_until := (if suppressed then None else Some (sat_add now hang)),
                       tn_items := map (tail_released now suppressed) (tn_items p)\<rparr>
                else p)
      in p1\<lparr>tn_traffic := active\<rparr>)"

definition tails_hanging :: "u64 \<Rightarrow> ('s, 'p) TailPlanner \<Rightarrow> bool" where
  "tails_hanging now p = (case tn_hang_until p of Some deadline \<Rightarrow> now < deadline | None \<Rightarrow> False)"

definition tails_pending :: "('s, 'p) TailPlanner \<Rightarrow> bool" where
  "tails_pending p \<longleftrightarrow> list_ex ts_pending (tn_items p)"

definition tail_ready :: "u64 \<Rightarrow> ('s, 'p) TailPlanner \<Rightarrow> ('s, 'p) TailState \<Rightarrow> bool" where
  "tail_ready now p i \<longleftrightarrow>
     ts_suspended i
     \<or> (\<not> tn_traffic p \<and> \<not> tails_hanging now p
        \<and> (tl_delay_ms (ts_tail i) = 0 \<or> (case ts_deadline i of Some deadline \<Rightarrow> now \<ge> deadline | None \<Rightarrow> False)))"

definition tails_ready :: "u64 \<Rightarrow> ('s, 'p) TailPlanner \<Rightarrow> nat option" where
  "tails_ready now p =
     (case position ts_pending (tn_items p) of
        None \<Rightarrow> None
      | Some i \<Rightarrow> if tail_ready now p (tn_items p ! i) then Some i else None)"

definition waiting_for_unkey :: "u64 \<Rightarrow> ('s, 'p) TailPlanner \<Rightarrow> bool" where
  "waiting_for_unkey now p \<longleftrightarrow>
     \<not> tn_traffic p \<and> \<not> tails_hanging now p
     \<and> (case find ts_pending (tn_items p) of
          Some i \<Rightarrow> \<not> ts_started i \<and> tl_delay_ms (ts_tail i) \<noteq> 0 \<and> ts_deadline i = None
        | None \<Rightarrow> False)"

definition tails_unkeyed :: "u64 \<Rightarrow> ('s, 'p) TailPlanner \<Rightarrow> ('s, 'p) TailPlanner" where
  "tails_unkeyed now p =
     (if waiting_for_unkey now p
      then p\<lparr>tn_items := update_first ts_pending
               (\<lambda>i. i\<lparr>ts_deadline := Some (sat_add now (samples (tl_delay_ms (ts_tail i))))\<rparr>) (tn_items p)\<rparr>
      else p)"

text \<open>The index is in range wherever it is called; the code panics otherwise.\<close>

definition tails_complete :: "nat \<Rightarrow> u64 \<Rightarrow> bool \<Rightarrow> ('s, 'p) TailPlanner \<Rightarrow> ('s, 'p) TailPlanner" where
  "tails_complete index now succeeded p =
     p\<lparr>tn_items := (tn_items p)[index := (let i = tn_items p ! index in
         (if succeeded then i\<lparr>ts_completed := Some now\<rparr> else i)
           \<lparr>ts_pending := False, ts_started := False, ts_suspended := False, ts_deadline := None\<rparr>)]\<rparr>"

section \<open>Courtesy\<close>

record ('s, 'p) CourtesySettings =
  cs_receiver :: "('s, 'p) PreparedMedia option"
  cs_link :: "('s, 'p) PreparedMedia option"
  cs_peers :: "(string \<times> ('s, 'p) PreparedMedia) list"

record CourtesyPending =
  cp_source :: string
  cp_media :: nat
  cp_due :: u64

record ('s, 'p) CourtesyPlanner =
  cy_media :: "('s, 'p) PreparedMedia list"
  cy_peers :: "(string \<times> nat) list"
  cy_receiver :: "nat option"
  cy_link :: "nat option"
  cy_pending :: "CourtesyPending option"

definition push_available ::
    "('s, 'p) PreparedMedia option \<Rightarrow> ('s, 'p) PreparedMedia list \<Rightarrow> nat option \<times> ('s, 'p) PreparedMedia list" where
  "push_available m media =
     (case m of Some x \<Rightarrow> if pm_available x then (Some (length media), media @ [x]) else (None, media) | None \<Rightarrow> (None, media))"

fun push_peers ::
    "(string \<times> ('s, 'p) PreparedMedia) list \<Rightarrow> ('s, 'p) PreparedMedia list \<Rightarrow> (string \<times> nat) list \<times> ('s, 'p) PreparedMedia list" where
  "push_peers [] media = ([], media)"
| "push_peers ((name, m) # peers) media =
     (if pm_available m
      then (case push_peers peers (media @ [m]) of (ps, media') \<Rightarrow> ((name, length media) # ps, media'))
      else push_peers peers media)"

definition courtesy_new :: "('s, 'p) CourtesySettings \<Rightarrow> ('s, 'p) CourtesyPlanner" where
  "courtesy_new settings =
     (let (receiver, m1) = push_available (cs_receiver settings) [];
          (link, m2) = push_available (cs_link settings) m1;
          (peers, m3) = push_peers (cs_peers settings) m2 in
      \<lparr>cy_media = m3, cy_peers = peers, cy_receiver = receiver, cy_link = link, cy_pending = None\<rparr>)"

text \<open>A source name of at most 63 bytes, padded with zero bytes.\<close>

definition courtesy_identity :: "string \<Rightarrow> string option" where
  "courtesy_identity source =
     (if length source \<ge> 64 then None else Some (source @ replicate (64 - length source) (CHR 0x00)))"

definition courtesy_cancel :: "string \<Rightarrow> ('s, 'p) CourtesyPlanner \<Rightarrow> ('s, 'p) CourtesyPlanner" where
  "courtesy_cancel source p =
     (case courtesy_identity source of
        None \<Rightarrow> p
      | Some key \<Rightarrow>
          (case cy_pending p of
             Some item \<Rightarrow> if cp_source item = key then p\<lparr>cy_pending := None\<rparr> else p
           | None \<Rightarrow> p))"

definition courtesy_choice :: "string \<Rightarrow> string \<Rightarrow> ('s, 'p) CourtesyPlanner \<Rightarrow> nat option" where
  "courtesy_choice source selected p =
     (if source = [] then cy_receiver p
      else (case find (\<lambda>(peer, _). peer = selected) (cy_peers p) of
              Some (_, index) \<Rightarrow> Some index
            | None \<Rightarrow>
                (case find (\<lambda>(peer, _). peer = source) (cy_peers p) of
                   Some (_, index) \<Rightarrow> Some index
                 | None \<Rightarrow> cy_link p)))"

definition courtesy_schedule :: "string \<Rightarrow> string \<Rightarrow> u64 \<Rightarrow> ('s, 'p) CourtesyPlanner \<Rightarrow> ('s, 'p) CourtesyPlanner" where
  "courtesy_schedule source selected due p =
     (case courtesy_identity source of
        None \<Rightarrow> p
      | Some key \<Rightarrow>
          p\<lparr>cy_pending := map_option (\<lambda>media. \<lparr>cp_source = key, cp_media = media, cp_due = due\<rparr>) (courtesy_choice source selected p)\<rparr>)"

definition courtesy_pending :: "('s, 'p) CourtesyPlanner \<Rightarrow> bool" where
  "courtesy_pending p \<longleftrightarrow> cy_pending p \<noteq> None"

definition courtesy_ready :: "u64 \<Rightarrow> ('s, 'p) CourtesyPlanner \<Rightarrow> bool" where
  "courtesy_ready now p = (case cy_pending p of Some item \<Rightarrow> now \<ge> cp_due item | None \<Rightarrow> False)"

definition courtesy_pop :: "('s, 'p) CourtesyPlanner \<Rightarrow> nat option \<times> ('s, 'p) CourtesyPlanner" where
  "courtesy_pop p = (map_option cp_media (cy_pending p), p\<lparr>cy_pending := None\<rparr>)"

section \<open>Announcements\<close>

record ('s, 'p) AnnouncementState =
  an_media :: "('s, 'p) PreparedMedia"
  an_interval_ms :: u64
  an_satisfied :: u64
  an_retry_after :: u64
  an_release_pending :: bool

definition announcement_due :: "u64 \<Rightarrow> ('s, 'p) AnnouncementState \<Rightarrow> bool" where
  "announcement_due now a \<longleftrightarrow>
     (if an_interval_ms a = 0 then an_release_pending a
      else now \<ge> an_retry_after a \<and> sat_sub now (an_satisfied a) \<ge> samples (an_interval_ms a))"

end
