(* ===== verification/Controller.thy ===== *)
theory Controller
  imports Release_Planners Tx_Policy
begin

text \<open>
  The node controller, \<^verbatim>\<open>core/src/controller/mod.rs\<close> with \<^verbatim>\<open>core/src/controller/timeout.rs\<close>: one step per 48 kHz
  sample that combines the receive state, the policies of \<open>Tx_Policy\<close>, the planners of \<open>Telemetry\<close> and
  \<open>Release_Planners\<close> and the playback of media into one transmit decision and one sample. The arithmetic on samples is
  an argument (\<open>FloatOps\<close>), as are the media streams, the ring implementations of the telemetry queues (\<open>rs\<close> for
  status, \<open>rp\<close> for the parrot) and the answers of shared cells (\<open>Cells\<close>). The step is written as a sequence of
  phases, in the order of the code, that hand on the values the code keeps in local variables (\<open>Locals\<close>).
\<close>

section \<open>State\<close>

record 'f FloatOps =
  fo_zero :: 'f
  fo_one :: 'f
  fo_duck_step :: 'f
  fo_release_step :: 'f
  fo_add :: "'f \<Rightarrow> 'f \<Rightarrow> 'f"
  fo_sub :: "'f \<Rightarrow> 'f \<Rightarrow> 'f"
  fo_mul :: "'f \<Rightarrow> 'f \<Rightarrow> 'f"
  fo_max :: "'f \<Rightarrow> 'f \<Rightarrow> 'f"
  fo_min :: "'f \<Rightarrow> 'f \<Rightarrow> 'f"
  fo_greater :: "'f \<Rightarrow> 'f \<Rightarrow> bool"
  fo_clamp :: "'f \<Rightarrow> 'f"

record ('s, 'p) Identifier =
  id_media :: "('s, 'p) PreparedMedia"
  id_interval_ms :: u64
  id_priority :: int
  id_first_key_only :: bool
  id_regardless_of_activity :: bool
  id_polite_maximum_wait_ms :: "u64 option"

record ControllerSettings =
  se_full_duplex :: bool
  se_hang_ms :: u64
  se_ctcss_encode_on_input :: bool
  se_ctcss_hang_ms :: u64
  se_transmit_timeout_ms :: u64
  se_kerchunk_max_ms :: u64
  se_courtesy_delay_ms :: u64

record ActivitySnapshot =
  av_last_sample :: u64
  av_active :: bool
  av_current_sample :: u64

record ('s, 'p, 'q, 'f) NodeController =
  nc_settings :: ControllerSettings
  nc_remote_non_fm :: bool
  nc_remote_unqualified_open :: bool
  nc_nonlocal_source_activity :: bool
  nc_duplex :: DuplexPolicy
  nc_identifiers :: IdentifierPolicy
  nc_ids :: "('s, 'p) Identifier list"
  nc_rules :: "IdentifierRule list"
  nc_satisfied :: "u64 list"
  nc_first_due :: "u64 list"
  nc_telemetry :: "('s, 'p, 'q) TelemetryPlanner"
  nc_gain :: 'f
  nc_duck_gain :: 'f
  nc_courtesy :: "('s, 'p) CourtesyPlanner"
  nc_announcements :: "('s, 'p) AnnouncementState list"
  nc_tails :: "('s, 'p) TailPlanner"
  nc_timeout :: TimeoutPolicy
  nc_timeout_media :: "(('s, 'p) PreparedMedia \<times> ('s, 'p) PreparedMedia) option"
  nc_activity :: ActivitySnapshot
  nc_now :: u64
  nc_receiver :: bool
  nc_linked :: bool
  nc_receiver_key :: u64
  nc_receiver_unkey :: u64
  nc_last_activity :: u64
  nc_key_idle :: u64
  nc_keyed :: bool
  nc_traffic_keyed :: bool
  nc_exempt_release :: bool
  nc_last_audio :: u64
  nc_release_hang :: u64
  nc_ctcss_hang_until :: u64
  nc_ctcss_enabled :: bool
  nc_release_pending :: bool
  nc_suppress_release :: bool

text \<open>What one step is given: the receive state, the input sample, and the outputs that are present.\<close>

record 'f ProgramInput =
  pi_reply :: bool
  pi_regeneration :: "'f option"
  pi_local_media :: "'f option"

record ('p, 'f) StepInput =
  in_receiving :: bool
  in_linked :: bool
  in_source_activity :: bool
  in_input :: "'f option"
  in_link_sample :: 'f
  in_output :: "'f ProgramInput option"
  in_cells :: "'p Cells"

record 'f PeerReplySample =
  pr_target :: nat
  pr_sample :: 'f
  pr_suppress_repeat :: bool
  pr_broadcast :: "'f option"

text \<open>\<open>ou_parrot_active\<close> says that the step sets the block's flag.\<close>

record 'f StepOutput =
  ou_rf :: 'f
  ou_parrot :: "'f option"
  ou_parrot_active :: bool
  ou_reply :: "'f PeerReplySample option"

definition repeats_local :: "('s, 'p, 'q, 'f) NodeController \<Rightarrow> bool" where
  "repeats_local c \<longleftrightarrow> se_full_duplex (nc_settings c) \<and> \<not> nc_remote_non_fm c"

definition transmits_during_receive :: "('s, 'p, 'q, 'f) NodeController \<Rightarrow> bool" where
  "transmits_during_receive c \<longleftrightarrow> se_full_duplex (nc_settings c) \<or> nc_remote_non_fm c"

definition set_remote_non_fm :: "bool \<Rightarrow> ('s, 'p, 'q, 'f) NodeController \<Rightarrow> ('s, 'p, 'q, 'f) NodeController" where
  "set_remote_non_fm enabled c = c\<lparr>nc_remote_non_fm := enabled\<rparr>"

definition set_remote_unqualified_open :: "bool \<Rightarrow> ('s, 'p, 'q, 'f) NodeController \<Rightarrow> ('s, 'p, 'q, 'f) NodeController" where
  "set_remote_unqualified_open enabled c = c\<lparr>nc_remote_unqualified_open := enabled\<rparr>"

definition set_nonlocal_source_activity :: "bool \<Rightarrow> ('s, 'p, 'q, 'f) NodeController \<Rightarrow> ('s, 'p, 'q, 'f) NodeController" where
  "set_nonlocal_source_activity active c = c\<lparr>nc_nonlocal_source_activity := active\<rparr>"

section \<open>Construction\<close>

text \<open>\<open>morse_ok\<close> is the outcome of constructing a Morse renderer with the status settings, \<open>duck_ok\<close> that the
  attenuation is from \<open>- 60\<close> through 0 dB, \<open>duck_gain\<close> its linear value.\<close>

definition settings_invalid ::
    "bool \<Rightarrow> bool \<Rightarrow> ControllerSettings \<Rightarrow> ('s, 'p) Identifier list \<Rightarrow> ('s, 'p) AnnouncementState list \<Rightarrow> ('s, 'p) CourtesySettings \<Rightarrow> bool" where
  "settings_invalid morse_ok duck_ok settings ids announcements courtesy \<longleftrightarrow>
     \<not> duck_ok \<or> se_ctcss_hang_ms settings > se_hang_ms settings
     \<or> list_ex (\<lambda>d. d > max_ms) [se_hang_ms settings, se_ctcss_hang_ms settings, se_transmit_timeout_ms settings,
          se_kerchunk_max_ms settings, se_courtesy_delay_ms settings]
     \<or> list_ex (\<lambda>i. id_interval_ms i > max_ms \<or> (case id_polite_maximum_wait_ms i of Some d \<Rightarrow> d > max_ms | None \<Rightarrow> False)) ids
     \<or> list_ex (\<lambda>a. an_interval_ms a > max_ms) announcements
     \<or> list_ex (\<lambda>(name, _). name = [] \<or> length name \<ge> 64 \<or> CHR 0x00 \<in> set name) (cs_peers courtesy)
     \<or> \<not> morse_ok"

definition identifier_rule :: "('s, 'p) Identifier \<Rightarrow> IdentifierRule" where
  "identifier_rule i = \<lparr>ir_interval_ms = samples (id_interval_ms i), ir_priority = id_priority i,
     ir_first_key_only = id_first_key_only i, ir_regardless_of_activity = id_regardless_of_activity i\<rparr>"

definition controller_new ::
    "'f FloatOps \<Rightarrow> (nat \<Rightarrow> 'q) \<Rightarrow> bool \<Rightarrow> bool \<Rightarrow> 'f \<Rightarrow> ControllerSettings \<Rightarrow> ('s, 'p) Identifier list
       \<Rightarrow> (('s, 'p) PreparedMedia \<times> u64) list \<Rightarrow> ('s, 'p) CourtesySettings \<Rightarrow> unit + ('s, 'p, 'q, 'f) NodeController" where
  "controller_new fo ring morse_ok duck_ok duck_gain settings ids announcements courtesy =
     (let states = map (\<lambda>(m, interval). \<lparr>an_media = m, an_interval_ms = interval, an_satisfied = 0, an_retry_after = 0,
            an_release_pending = False\<rparr>) announcements;
          rules = map identifier_rule ids in
      if settings_invalid morse_ok duck_ok settings ids states courtesy then Inl ()
      else Inr \<lparr>nc_settings = settings, nc_remote_non_fm = False, nc_remote_unqualified_open = False,
        nc_nonlocal_source_activity = False, nc_duplex = duplex_default, nc_identifiers = identifier_new rules, nc_ids = ids,
        nc_rules = rules, nc_satisfied = replicate (length ids) 0, nc_first_due = replicate (length ids) 0,
        nc_telemetry = planner_new ring, nc_gain = fo_one fo, nc_duck_gain = duck_gain, nc_courtesy = courtesy_new courtesy,
        nc_announcements = states, nc_tails = tails_default, nc_timeout = timeout_default, nc_timeout_media = None,
        nc_activity = \<lparr>av_last_sample = 0, av_active = False, av_current_sample = 0\<rparr>, nc_now = 0, nc_receiver = False,
        nc_linked = False, nc_receiver_key = 0, nc_receiver_unkey = 0, nc_last_activity = 0, nc_key_idle = 0, nc_keyed = False,
        nc_traffic_keyed = False, nc_exempt_release = False, nc_last_audio = 0, nc_release_hang = 0, nc_ctcss_hang_until = 0,
        nc_ctcss_enabled = (\<not> se_ctcss_encode_on_input settings), nc_release_pending = False, nc_suppress_release = False\<rparr>)"

definition set_tails :: "('s, 'p) Tail list \<Rightarrow> ('s, 'p, 'q, 'f) NodeController \<Rightarrow> unit + ('s, 'p, 'q, 'f) NodeController" where
  "set_tails tails c = (case tails_new tails of Inl e \<Rightarrow> Inl e | Inr t \<Rightarrow> Inr (c\<lparr>nc_tails := t\<rparr>))"

definition set_timeout_media ::
    "('s, 'p) PreparedMedia \<times> ('s, 'p) PreparedMedia \<Rightarrow> ('s, 'p, 'q, 'f) NodeController \<Rightarrow> ('s, 'p, 'q, 'f) NodeController" where
  "set_timeout_media media c = c\<lparr>nc_timeout_media := Some media\<rparr>"

section \<open>Receive edges reported by the link mixer\<close>

definition link_keyed :: "string \<Rightarrow> ('s, 'p, 'q, 'f) NodeController \<Rightarrow> ('s, 'p, 'q, 'f) NodeController" where
  "link_keyed direct c = (if direct \<noteq> [] then c\<lparr>nc_courtesy := courtesy_cancel direct (nc_courtesy c)\<rparr> else c)"

definition receive_unkeyed :: "bool \<Rightarrow> ('s, 'p, 'q, 'f) NodeController \<Rightarrow> ('s, 'p, 'q, 'f) NodeController" where
  "receive_unkeyed kerchunk c =
     (let c1 = c\<lparr>nc_timeout := timeout_unkey (nc_timeout c) (nc_now c), nc_suppress_release := kerchunk\<rparr> in
      if kerchunk then c1\<lparr>nc_duplex := duplex_default, nc_release_hang := 0\<rparr> else c1)"

definition link_unkeyed :: "string \<Rightarrow> string \<Rightarrow> bool \<Rightarrow> ('s, 'p, 'q, 'f) NodeController \<Rightarrow> ('s, 'p, 'q, 'f) NodeController" where
  "link_unkeyed direct selected kerchunk c =
     (let c1 = receive_unkeyed kerchunk c in
      if \<not> kerchunk \<and> direct \<noteq> []
      then c1\<lparr>nc_courtesy := courtesy_schedule direct selected
             (sat_add (nc_now c1) (samples (se_courtesy_delay_ms (nc_settings c1)))) (nc_courtesy c1)\<rparr>
      else c1)"

section \<open>Identifier selection\<close>

definition id_ready :: "('s, 'p, 'q, 'f) NodeController \<Rightarrow> nat \<Rightarrow> bool \<Rightarrow> bool" where
  "id_ready c selected busy =
     (if selected < length (nc_ids c)
      then (let i = nc_ids c ! selected in
            case (if busy then id_polite_maximum_wait_ms i else None) of
              None \<Rightarrow> True
            | Some maximum \<Rightarrow>
                (let due = (if id_first_key_only i
                            then (if selected < length (nc_first_due c) then nc_first_due c ! selected else nc_now c)
                            else sat_add (if selected < length (nc_satisfied c) then nc_satisfied c ! selected else nc_now c)
                                   (samples (id_interval_ms i)))
                 in sat_sub (nc_now c) due \<ge> samples maximum))
      else False)"

definition id_expired :: "('s, 'p, 'q, 'f) NodeController \<Rightarrow> nat \<Rightarrow> bool" where
  "id_expired c index \<longleftrightarrow> id_polite_maximum_wait_ms (nc_ids c ! index) \<noteq> None \<and> id_ready c index True"

definition select_identifier :: "('s, 'p, 'q, 'f) NodeController \<Rightarrow> bool \<Rightarrow> bool \<Rightarrow> bool \<Rightarrow> nat option" where
  "select_identifier c receiving busy after_hang =
     (let selected = identifier_select (nc_identifiers c) (nc_rules c) (nc_now c) receiving (transmits_during_receive c);
          first = (case selected of
                     Some index \<Rightarrow> if id_first_key_only (nc_ids c ! index) \<and> id_polite_maximum_wait_ms (nc_ids c ! index) \<noteq> None
                                   then Some (id_priority (nc_ids c ! index)) else None
                   | None \<Rightarrow> None);
          minimum_ok = (\<lambda>index. case first of Some priority \<Rightarrow> id_priority (nc_ids c ! index) \<ge> priority | None \<Rightarrow> True);
          kept = (case selected of
                    Some index \<Rightarrow> if id_expired c index \<or> (after_hang \<and> id_ready c index busy) then Some index else None
                  | None \<Rightarrow> None) in
      case kept of
        Some index \<Rightarrow> Some index
      | None \<Rightarrow> identifier_select_where (nc_identifiers c) (nc_rules c) (nc_now c) receiving (transmits_during_receive c)
                  (\<lambda>index. id_expired c index \<and> minimum_ok index))"

section \<open>Media\<close>

text \<open>\<^verbatim>\<open>media\<close> borrows the item of a source, which \<open>on_media\<close> updates in place.\<close>

definition nth_option :: "nat \<Rightarrow> 'a list \<Rightarrow> 'a option" where
  "nth_option i xs = (if i < length xs then Some (xs ! i) else None)"

fun media_of :: "('s, 'p, 'q, 'f) NodeController \<Rightarrow> Source option \<Rightarrow> ('s, 'p) PreparedMedia option" where
  "media_of c None = None"
| "media_of c (Some SrStatus) = tp_status (nc_telemetry c)"
| "media_of c (Some SrParrot) = tp_parrot (nc_telemetry c)"
| "media_of c (Some (SrCourtesy i)) = nth_option i (cy_media (nc_courtesy c))"
| "media_of c (Some (SrIdentifier i)) = map_option id_media (nth_option i (nc_ids c))"
| "media_of c (Some (SrAnnouncement i)) = map_option an_media (nth_option i (nc_announcements c))"
| "media_of c (Some (SrTail i)) = map_option (tl_media \<circ> ts_tail) (nth_option i (tn_items (nc_tails c)))"

abbreviation on_telemetry ::
    "(('s, 'p, 'q) TelemetryPlanner \<Rightarrow> ('s, 'p, 'q) TelemetryPlanner) \<Rightarrow> ('s, 'p, 'q, 'f) NodeController \<Rightarrow> ('s, 'p, 'q, 'f) NodeController" where
  "on_telemetry f c \<equiv> c\<lparr>nc_telemetry := f (nc_telemetry c)\<rparr>"

abbreviation on_identifier :: "nat \<Rightarrow> ('s Playback \<Rightarrow> 's Playback) \<Rightarrow> ('s, 'p, 'q, 'f) NodeController \<Rightarrow> ('s, 'p, 'q, 'f) NodeController" where
  "on_identifier i f c \<equiv> c\<lparr>nc_ids := (nc_ids c)[i := (nc_ids c ! i)\<lparr>id_media := on_playback f (id_media (nc_ids c ! i))\<rparr>]\<rparr>"

abbreviation on_announcement :: "nat \<Rightarrow> (('s, 'p) AnnouncementState \<Rightarrow> ('s, 'p) AnnouncementState) \<Rightarrow> ('s, 'p, 'q, 'f) NodeController \<Rightarrow> ('s, 'p, 'q, 'f) NodeController" where
  "on_announcement i f c \<equiv> c\<lparr>nc_announcements := (nc_announcements c)[i := f (nc_announcements c ! i)]\<rparr>"

abbreviation on_tail :: "nat \<Rightarrow> (('s, 'p) TailState \<Rightarrow> ('s, 'p) TailState) \<Rightarrow> ('s, 'p, 'q, 'f) NodeController \<Rightarrow> ('s, 'p, 'q, 'f) NodeController" where
  "on_tail i f c \<equiv> c\<lparr>nc_tails := (nc_tails c)\<lparr>tn_items := (tn_items (nc_tails c))[i := f (tn_items (nc_tails c) ! i)]\<rparr>\<rparr>"

fun on_media :: "Source \<Rightarrow> ('s Playback \<Rightarrow> 's Playback) \<Rightarrow> ('s, 'p, 'q, 'f) NodeController \<Rightarrow> ('s, 'p, 'q, 'f) NodeController" where
  "on_media SrStatus f c = on_telemetry (\<lambda>t. t\<lparr>tp_status := map_option (on_playback f) (tp_status t)\<rparr>) c"
| "on_media SrParrot f c = on_telemetry (\<lambda>t. t\<lparr>tp_parrot := map_option (on_playback f) (tp_parrot t)\<rparr>) c"
| "on_media (SrCourtesy i) f c =
     c\<lparr>nc_courtesy := (nc_courtesy c)\<lparr>cy_media := (cy_media (nc_courtesy c))[i := on_playback f (cy_media (nc_courtesy c) ! i)]\<rparr>\<rparr>"
| "on_media (SrIdentifier i) f c = on_identifier i f c"
| "on_media (SrAnnouncement i) f c = on_announcement i (\<lambda>a. a\<lparr>an_media := on_playback f (an_media a)\<rparr>) c"
| "on_media (SrTail i) f c = on_tail i (on_tail_media f) c"

definition satisfy_identifier :: "nat \<Rightarrow> ('s, 'p, 'q, 'f) NodeController \<Rightarrow> ('s, 'p, 'q, 'f) NodeController" where
  "satisfy_identifier index c =
     c\<lparr>nc_identifiers := identifier_complete (nc_identifiers c) (nc_rules c) index (nc_now c),
       nc_satisfied := map (\<lambda>i. if i < length (nc_ids c) \<and> (i = index \<or> id_priority (nc_ids c ! i) < id_priority (nc_ids c ! index))
                                then nc_now c else nc_satisfied c ! i) [0..<length (nc_satisfied c)]\<rparr>"

text \<open>A status played to its end also satisfies the identifier and the tail of the same recipe.\<close>

definition complete_status :: "('s, 'p, 'q) media_ring \<Rightarrow> ('s, 'g) StreamOps \<Rightarrow> PlaybackOutcome \<Rightarrow> ('s, 'p, 'q, 'f) NodeController \<Rightarrow> ('s, 'p, 'q, 'f) NodeController" where
  "complete_status rs so outcome c =
     (let c1 = (case (if outcome = PoSucceeded then Option.bind (tp_status (nc_telemetry c)) pm_recipe else None) of
                  None \<Rightarrow> c
                | Some recipe \<Rightarrow>
                    (let c2 = (case position (\<lambda>i. pm_recipe (id_media i) = Some recipe) (nc_ids c) of
                                 Some index \<Rightarrow> satisfy_identifier index (on_identifier index (playback_cancel so) c)
                               | None \<Rightarrow> c)
                     in case position (\<lambda>t. pm_recipe (tl_media (ts_tail t)) = Some recipe) (tn_items (nc_tails c2)) of
                          Some index \<Rightarrow>
                            (let c3 = on_tail index (on_tail_media (playback_cancel so)) c2
                             in c3\<lparr>nc_tails := tails_complete index (nc_now c3) True (nc_tails c3)\<rparr>)
                        | None \<Rightarrow> c2))
      in on_telemetry (finish_status rs) c1)"

fun complete_playback ::
    "('s, 'p, 'q) media_ring \<Rightarrow> ('s, 'p, 'q) media_ring \<Rightarrow> ('s, 'g) StreamOps \<Rightarrow> Source option \<Rightarrow> PlaybackOutcome
       \<Rightarrow> ('s, 'p, 'q, 'f) NodeController \<Rightarrow> ('s, 'p, 'q, 'f) NodeController" where
  "complete_playback rs rp so (Some (SrIdentifier index)) outcome c =
     (if outcome = PoSucceeded then satisfy_identifier index c
      else c\<lparr>nc_identifiers := identifier_defer (nc_identifiers c) (nc_rules c) index (nc_now c)\<rparr>)"
| "complete_playback rs rp so (Some (SrAnnouncement index)) outcome c =
     on_announcement index (\<lambda>a. if outcome = PoSucceeded then a\<lparr>an_satisfied := nc_now c\<rparr>
       else a\<lparr>an_retry_after := sat_add (nc_now c) (samples (an_interval_ms a))\<rparr>) c"
| "complete_playback rs rp so (Some SrStatus) outcome c = complete_status rs so outcome c"
| "complete_playback rs rp so (Some SrParrot) outcome c = on_telemetry (finish_parrot rp) c"
| "complete_playback rs rp so (Some (SrTail index)) outcome c =
     c\<lparr>nc_tails := tails_complete index (nc_now c) (outcome = PoSucceeded) (nc_tails c)\<rparr>"
| "complete_playback rs rp so _ outcome c = c"

section \<open>The transmit watchdog's notices\<close>

definition begin_timeout :: "('s, 'g) StreamOps \<Rightarrow> ('s, 'p, 'q, 'f) NodeController \<Rightarrow> ('s, 'p, 'q, 'f) NodeController" where
  "begin_timeout so c =
     (let hold = (\<lambda>p. playback_defer so False (playback_restart so False p));
          source = tp_active (nc_telemetry c);
          c1 = (case source of Some src \<Rightarrow> if media_of c source = None then c else on_media src hold c | None \<Rightarrow> c);
          c2 = c1\<lparr>nc_tails := (nc_tails c1)\<lparr>tn_items := map (\<lambda>i. if ts_suspended i then on_tail_media hold i else i)
                   (tn_items (nc_tails c1))\<rparr>\<rparr>;
          c3 = c2\<lparr>nc_timeout_media := map_option (\<lambda>(a, b). (on_playback (playback_restart so False) a,
                   on_playback (playback_restart so False) b)) (nc_timeout_media c2)\<rparr> in
      c3\<lparr>nc_duplex := duplex_default, nc_traffic_keyed := False, nc_exempt_release := False, nc_release_pending := False,
         nc_release_hang := 0\<rparr>)"

definition sample_of :: "'f FloatOps \<Rightarrow> 'f list \<Rightarrow> 'f" where
  "sample_of fo out = (case out of x # _ \<Rightarrow> x | [] \<Rightarrow> fo_zero fo)"

text \<open>The notice playing in a phase: the first when the limit expired, the second when traffic has ceased.\<close>

definition notice_index :: "Phase \<Rightarrow> bool option" where
  "notice_index phase = (case phase of Expired \<Rightarrow> Some False | Cleared \<Rightarrow> Some True | _ \<Rightarrow> None)"

definition play_notice ::
    "'f FloatOps \<Rightarrow> ('s, 'f) StreamOps \<Rightarrow> bool \<Rightarrow> bool \<Rightarrow> 'f option \<Rightarrow> bool \<Rightarrow> ('s, 'p, 'q, 'f) NodeController
       \<Rightarrow> nat \<times> 'f \<times> bool \<times> ('s, 'p, 'q, 'f) NodeController" where
  "play_notice fo so activity inhibited input second c =
     (case nc_timeout_media c of
        Some (m0, m1) \<Rightarrow>
          (let m = (if second then m1 else m0);
               (made, out, pb) = (if \<not> inhibited \<and> input \<noteq> None then playback_render so False [fo_zero fo] (pm_playback m)
                                  else (0, [fo_zero fo], pm_playback m));
               m' = m\<lparr>pm_playback := pb\<rparr>;
               c1 = c\<lparr>nc_timeout_media := Some (if second then (m0, m') else (m', m1))\<rparr>;
               c2 = (if is_finished pb
                     then c1\<lparr>nc_timeout := timeout_unkey ((nc_timeout c1)\<lparr>to_phase := (if second then Normal else Waiting)\<rparr>) (nc_now c1)\<rparr>
                     else c1) in
           (made, sample_of fo out, pb_output_started pb \<and> \<not> is_finished pb, c2))
      | None \<Rightarrow>
          (0, fo_zero fo, False,
           c\<lparr>nc_timeout := timeout_unkey ((nc_timeout c)\<lparr>to_phase := (if activity then Waiting else Normal)\<rparr>) (nc_now c)\<rparr>))"

definition notice_phase ::
    "'f FloatOps \<Rightarrow> ('s, 'f) StreamOps \<Rightarrow> bool \<Rightarrow> bool \<Rightarrow> 'f option \<Rightarrow> ('s, 'p, 'q, 'f) NodeController
       \<Rightarrow> nat \<times> 'f \<times> bool \<times> ('s, 'p, 'q, 'f) NodeController" where
  "notice_phase fo so activity inhibited input c =
     (let c1 = c\<lparr>nc_courtesy := snd (courtesy_pop (nc_courtesy c))\<rparr>;
          c2 = (if to_phase (nc_timeout c1) = Waiting \<and> \<not> activity
                then c1\<lparr>nc_timeout := (nc_timeout c1)\<lparr>to_phase := Cleared\<rparr>\<rparr> else c1) in
      case notice_index (to_phase (nc_timeout c2)) of
        Some second \<Rightarrow> play_notice fo so activity inhibited input second c2
      | None \<Rightarrow> (0, fo_zero fo, False, c2))"

definition notice_audible :: "nat \<Rightarrow> ('s, 'p, 'q, 'f) NodeController \<Rightarrow> ('s, 'p, 'q, 'f) NodeController" where
  "notice_audible made c =
     (if made \<noteq> 0 then c\<lparr>nc_last_audio := nc_now c, nc_release_hang := 2400, nc_exempt_release := True\<rparr> else c)"

definition notice_key :: "bool \<Rightarrow> nat \<Rightarrow> bool \<Rightarrow> ('s, 'p, 'q, 'f) NodeController \<Rightarrow> ('s, 'p, 'q, 'f) NodeController" where
  "notice_key inhibited made continuing c =
     (let keyed = (\<not> inhibited \<and> (made \<noteq> 0 \<or> continuing
                   \<or> (nc_exempt_release c \<and> sat_sub (nc_now c) (nc_last_audio c) < nc_release_hang c)));
          c1 = c\<lparr>nc_traffic_keyed := False, nc_ctcss_enabled := (\<not> se_ctcss_encode_on_input (nc_settings c)), nc_keyed := keyed\<rparr> in
      if keyed then c1 else c1\<lparr>nc_exempt_release := False, nc_tails := tails_unkeyed (nc_now c1) (nc_tails c1)\<rparr>)"

definition timeout_sample ::
    "'f FloatOps \<Rightarrow> ('s, 'f) StreamOps \<Rightarrow> bool \<Rightarrow> bool \<Rightarrow> 'f option \<Rightarrow> 'f ProgramInput option \<Rightarrow> ('s, 'p, 'q, 'f) NodeController
       \<Rightarrow> 'f StepOutput \<times> ('s, 'p, 'q, 'f) NodeController" where
  "timeout_sample fo so activity inhibited input output c =
     (case notice_phase fo so activity inhibited input c of
        (made, sample, continuing, c1) \<Rightarrow>
          (\<lparr>ou_rf = fo_clamp fo sample, ou_parrot = map_option (\<lambda>_. fo_zero fo) output, ou_parrot_active = False,
            ou_reply = (case output of
                          Some po \<Rightarrow> if pi_reply po then Some \<lparr>pr_target = 0, pr_sample = fo_zero fo, pr_suppress_repeat = False, pr_broadcast = None\<rparr> else None
                        | None \<Rightarrow> None)\<rparr>,
           notice_key inhibited made continuing (notice_audible made c1)))"

section \<open>One step\<close>

definition receive_in :: "('p, 'f) StepInput \<Rightarrow> bool" where
  "receive_in i \<longleftrightarrow> in_receiving i \<or> in_linked i"

definition local_media_in :: "('p, 'f) StepInput \<Rightarrow> 'f option" where
  "local_media_in i = Option.bind (in_output i) pi_local_media"

definition regeneration_in :: "('p, 'f) StepInput \<Rightarrow> 'f option" where
  "regeneration_in i = Option.bind (in_output i) pi_regeneration"

text \<open>An operator's cancellation.\<close>

definition cancel_phase ::
    "('s, 'p, 'q) media_ring \<Rightarrow> ('s, 'p, 'q) media_ring \<Rightarrow> ('s, 'f) StreamOps \<Rightarrow> ('p, 'f) StepInput
       \<Rightarrow> ('s, 'p, 'q, 'f) NodeController \<Rightarrow> ('s, 'p, 'q, 'f) NodeController" where
  "cancel_phase rs rp so i c =
     (if ce_cancel_message (in_cells i)
      then (let t = nc_telemetry c;
                source = (case tp_active t of Some s \<Rightarrow> Some s | None \<Rightarrow> if tp_held_status t then Some SrStatus else None);
                c1 = on_telemetry (\<lambda>t. t\<lparr>tp_active := None\<rparr>) c in
            case source of
              None \<Rightarrow> c1
            | Some s \<Rightarrow> if media_of c1 source = None then c1
                        else complete_playback rs rp so source PoCancelled (on_media s (playback_cancel so) c1))
      else c)"

text \<open>The status poll, and the release of a status attempt that has not been audible when traffic appears.\<close>

definition status_idle_in :: "('p, 'f) StepInput \<Rightarrow> ('s, 'p, 'q, 'f) NodeController \<Rightarrow> bool" where
  "status_idle_in i c \<longleftrightarrow>
     \<not> in_linked i \<and> \<not> nc_nonlocal_source_activity c
     \<and> (nc_remote_non_fm c \<and> nc_remote_unqualified_open c \<or> \<not> receive_in i \<and> \<not> in_source_activity i)
     \<and> local_media_in i = None
     \<and> (case status_peer (nc_telemetry c) of None \<Rightarrow> True | Some p \<Rightarrow> \<not> ce_peer_active (in_cells i) 0 p)"

definition hold_phase ::
    "('s, 'p, 'q) media_ring \<Rightarrow> ('s, 'f) StreamOps \<Rightarrow> ('p, 'f) StepInput \<Rightarrow> ('s, 'p, 'q, 'f) NodeController
       \<Rightarrow> bool \<times> ('s, 'p, 'q, 'f) NodeController" where
  "hold_phase rs so i c =
     (let c1 = on_telemetry (poll_status rs so (in_cells i) 0) c;
          status_idle = status_idle_in i c1;
          active_status = (\<not> timeout_blocked (nc_timeout c1) \<and> tp_active (nc_telemetry c1) = Some SrStatus) in
      case tp_status (nc_telemetry c1) of
        Some m \<Rightarrow>
          if \<not> status_idle \<and> active_status \<and> \<not> pb_output_started (pm_playback m) \<and> \<not> force_morse m
          then (status_idle, on_telemetry (\<lambda>t. t\<lparr>tp_status := Some (on_playback (\<lambda>p. playback_defer so False (playback_restart so False p)) m),
                  tp_active := None, tp_held_status := True\<rparr>) c1)
          else (status_idle, c1)
      | None \<Rightarrow> (status_idle, c1))"

text \<open>Receive edges of this node; the first component is the idle time before this step.\<close>

definition receive_active :: "u64 \<Rightarrow> ('s, 'p, 'q, 'f) NodeController \<Rightarrow> ('s, 'p, 'q, 'f) NodeController" where
  "receive_active idle c =
     (let d = c\<lparr>nc_ctcss_hang_until := sat_add (sat_add (nc_now c) 1) (samples (se_ctcss_hang_ms (nc_settings c)))\<rparr>;
          e = (if \<not> nc_receiver c \<and> \<not> nc_linked c then d\<lparr>nc_key_idle := idle, nc_suppress_release := False\<rparr> else d)
      in e\<lparr>nc_last_activity := nc_now c, nc_activity := (nc_activity c)\<lparr>av_last_sample := sat_add (nc_now c) 1\<rparr>,
           nc_identifiers := identifier_activity (nc_identifiers c)\<rparr>)"

definition local_keyed :: "('s, 'p, 'q, 'f) NodeController \<Rightarrow> ('s, 'p, 'q, 'f) NodeController" where
  "local_keyed c = c\<lparr>nc_receiver_key := nc_now c, nc_courtesy := courtesy_cancel [] (nc_courtesy c)\<rparr>"

definition local_unkeyed :: "('s, 'p, 'q, 'f) NodeController \<Rightarrow> ('s, 'p, 'q, 'f) NodeController" where
  "local_unkeyed c =
     (let kerchunk = (se_kerchunk_max_ms (nc_settings c) \<noteq> 0
            \<and> sat_sub (nc_now c) (nc_receiver_key c) \<le> samples (se_kerchunk_max_ms (nc_settings c)));
          d = receive_unkeyed kerchunk (c\<lparr>nc_receiver_unkey := nc_now c\<rparr>)
      in if kerchunk then d
         else d\<lparr>nc_courtesy := courtesy_schedule [] []
                (sat_add (nc_now d) (samples (se_courtesy_delay_ms (nc_settings d)))) (nc_courtesy d)\<rparr>)"

definition suppress_final_release :: "('s, 'p, 'q, 'f) NodeController \<Rightarrow> ('s, 'p, 'q, 'f) NodeController" where
  "suppress_final_release c =
     c\<lparr>nc_courtesy := snd (courtesy_pop (nc_courtesy c)),
       nc_announcements := map (\<lambda>a. if an_interval_ms a = 0 then a\<lparr>an_release_pending := False\<rparr> else a) (nc_announcements c)\<rparr>"

definition receive_phase :: "('p, 'f) StepInput \<Rightarrow> ('s, 'p, 'q, 'f) NodeController \<Rightarrow> u64 \<times> ('s, 'p, 'q, 'f) NodeController" where
  "receive_phase i c =
     (let idle = sat_sub (nc_now c) (nc_last_activity c);
          c1 = (if receive_in i then receive_active idle c else c);
          c2 = (if in_receiving i \<and> \<not> nc_receiver c1 then local_keyed c1 else c1);
          c3 = (if \<not> in_receiving i \<and> nc_receiver c2 then local_unkeyed c2 else c2);
          c4 = (if nc_suppress_release c3 \<and> \<not> receive_in i \<and> (nc_receiver c3 \<or> nc_linked c3) then suppress_final_release c3 else c3) in
      (idle, c4))"

definition observe_phase ::
    "('s, 'p, 'q) media_ring \<Rightarrow> ('s, 'p, 'q) media_ring \<Rightarrow> ('s, 'f) StreamOps \<Rightarrow> ('p, 'f) StepInput
       \<Rightarrow> ('s, 'p, 'q, 'f) NodeController \<Rightarrow> ('s, 'p, 'q, 'f) NodeController" where
  "observe_phase rs rp so i c =
     (let c1 = c\<lparr>nc_tails := tails_observe so (receive_in i \<or> in_source_activity i) (nc_now c) (samples (se_hang_ms (nc_settings c)))
                  (nc_suppress_release c) (\<not> timeout_blocked (nc_timeout c)) (nc_tails c)\<rparr>;
          c2 = (case tp_active (nc_telemetry c1) of
                  Some (SrTail index) \<Rightarrow>
                    if \<not> ts_started (tn_items (nc_tails c1) ! index) \<and> \<not> tails_pending (nc_tails c1)
                    then on_telemetry (\<lambda>t. t\<lparr>tp_active := None\<rparr>) c1 else c1
                | _ \<Rightarrow> c1);
          c3 = c2\<lparr>nc_receiver := in_receiving i, nc_linked := in_linked i\<rparr> in
      if in_source_activity i \<and> parrot_pending rp (nc_telemetry c3)
      then on_telemetry (discard_pending_parrot rp) c3 else c3)"

text \<open>The values the rest of the step keeps.\<close>

record Locals =
  lo_idle :: u64
  lo_inhibited :: bool
  lo_may_transmit :: bool
  lo_status_idle :: bool
  lo_courtesy_ready :: bool
  lo_active_before :: "Source option"
  lo_announcement_due :: "nat option"
  lo_ordinary :: bool
  lo_release_expired :: bool
  lo_pending_status :: bool
  lo_peer_ready :: bool
  lo_status_ready :: bool
  lo_parrot_ready :: bool
  lo_peer_status :: bool
  lo_active_stream :: bool

definition streaming :: "('s, 'p) PreparedMedia option \<Rightarrow> bool" where
  "streaming m = (case m of Some x \<Rightarrow> is_streaming (pm_playback x) | None \<Rightarrow> False)"

definition addressed :: "('s, 'p, 'q) TelemetryPlanner \<Rightarrow> bool" where
  "addressed t = (case tp_status t of Some m \<Rightarrow> pm_reply m \<noteq> None \<and> pm_policy m = None | None \<Rightarrow> False)"

definition ordinary_source :: "bool \<Rightarrow> Source option \<Rightarrow> bool" where
  "ordinary_source with_identifier s =
     (case s of
        Some SrStatus \<Rightarrow> True | Some (SrCourtesy _) \<Rightarrow> True | Some (SrIdentifier _) \<Rightarrow> with_identifier | _ \<Rightarrow> False)"

definition may_transmit_in :: "('p, 'f) StepInput \<Rightarrow> ('s, 'p, 'q, 'f) NodeController \<Rightarrow> bool" where
  "may_transmit_in i c \<longleftrightarrow> \<not> ce_site_inhibit (in_cells i) \<and> (transmits_during_receive c \<or> \<not> in_receiving i)"

definition courtesy_ready_in :: "('p, 'f) StepInput \<Rightarrow> ('s, 'p, 'q, 'f) NodeController \<Rightarrow> bool" where
  "courtesy_ready_in i c \<longleftrightarrow> \<not> receive_in i \<and> courtesy_ready (nc_now c) (nc_courtesy c)"

definition settled :: "('s, 'p, 'q, 'f) NodeController \<Rightarrow> bool" where
  "settled c \<longleftrightarrow> sat_sub (nc_now c) (nc_receiver_unkey c) \<ge> 12000"

definition expire_phase ::
    "('s, 'p, 'q) media_ring \<Rightarrow> ('s, 'f) StreamOps \<Rightarrow> ('p, 'f) StepInput \<Rightarrow> bool \<Rightarrow> ('s, 'p, 'q, 'f) NodeController \<Rightarrow> ('s, 'p, 'q, 'f) NodeController" where
  "expire_phase rs so i status_idle c =
     on_telemetry (poll_status rs so (in_cells i) 1
        \<circ> expire_status rs so (nc_now c) (may_transmit_in i c) (courtesy_ready_in i c) (status_idle \<and> settled c)) c"

definition peer_before :: "('s, 'p, 'q) TelemetryPlanner \<Rightarrow> bool" where
  "peer_before t \<longleftrightarrow> tp_active t = Some SrStatus \<and> addressed t"

definition ordinary_in :: "bool \<Rightarrow> ('p, 'f) StepInput \<Rightarrow> ('s, 'p, 'q) TelemetryPlanner \<Rightarrow> bool" where
  "ordinary_in with_identifier i t \<longleftrightarrow> receive_in i \<or> (\<not> peer_before t \<and> ordinary_source with_identifier (tp_active t))"

definition close_release :: "('p, 'f) StepInput \<Rightarrow> ('s, 'p, 'q, 'f) NodeController \<Rightarrow> ('s, 'p, 'q, 'f) NodeController" where
  "close_release i c = (if ordinary_in False i (nc_telemetry c) then c\<lparr>nc_release_pending := False\<rparr> else c)"

definition release_expired_in :: "('p, 'f) StepInput \<Rightarrow> ('s, 'p, 'q, 'f) NodeController \<Rightarrow> bool" where
  "release_expired_in i c \<longleftrightarrow>
     nc_keyed c \<and> \<not> ordinary_in True i (nc_telemetry c) \<and> tp_active (nc_telemetry c) = None
     \<and> sat_sub (nc_now c) (nc_last_audio c) \<ge> nc_release_hang c"

definition due_announcement :: "('s, 'p, 'q, 'f) NodeController \<Rightarrow> nat option" where
  "due_announcement c = position (announcement_due (nc_now c)) (nc_announcements c)"

definition open_release :: "('p, 'f) StepInput \<Rightarrow> ('s, 'p, 'q, 'f) NodeController \<Rightarrow> ('s, 'p, 'q, 'f) NodeController" where
  "open_release i c =
     (case due_announcement c of
        Some index \<Rightarrow>
          if release_expired_in i c \<or> (\<not> nc_keyed c \<and> \<not> receive_in i \<and> an_interval_ms (nc_announcements c ! index) \<noteq> 0)
          then c\<lparr>nc_release_pending := True\<rparr> else c
      | None \<Rightarrow> c)"

definition pending_status_in :: "('s, 'p, 'q) media_ring \<Rightarrow> ('s, 'p, 'q) TelemetryPlanner \<Rightarrow> bool" where
  "pending_status_in rs t \<longleftrightarrow> status_pending rs t \<and> status_peer t = None"

definition peer_ready_in :: "('p, 'f) StepInput \<Rightarrow> ('s, 'p, 'q) TelemetryPlanner \<Rightarrow> bool" where
  "peer_ready_in i t = (case status_peer t of Some p \<Rightarrow> \<not> ce_peer_active (in_cells i) 1 p | None \<Rightarrow> False)"

definition locals_of ::
    "('s, 'p, 'q) media_ring \<Rightarrow> ('s, 'p, 'q) media_ring \<Rightarrow> ('p, 'f) StepInput \<Rightarrow> bool \<Rightarrow> u64 \<Rightarrow> ('s, 'p, 'q, 'f) NodeController \<Rightarrow> Locals" where
  "locals_of rs rp i status_idle idle c =
     (let t = nc_telemetry c in
      \<lparr>lo_idle = idle, lo_inhibited = ce_site_inhibit (in_cells i), lo_may_transmit = may_transmit_in i c, lo_status_idle = status_idle,
       lo_courtesy_ready = courtesy_ready_in i c, lo_active_before = tp_active t, lo_announcement_due = due_announcement c,
       lo_ordinary = ordinary_in True i t, lo_release_expired = release_expired_in i c, lo_pending_status = pending_status_in rs t,
       lo_peer_ready = peer_ready_in i t,
       lo_status_ready = (status_morse t \<or> (status_idle \<and> (peer_ready_in i t \<or> (settled c \<and> pending_status_in rs t)))),
       lo_parrot_ready = (\<not> in_source_activity i \<and> parrot_pending rp t), lo_peer_status = False, lo_active_stream = False\<rparr>)"

text \<open>The locals do not depend on \<open>nc_release_pending\<close>, the one field \<open>close_release\<close> and \<open>open_release\<close> change.\<close>

definition admit_phase ::
    "('s, 'p, 'q) media_ring \<Rightarrow> ('s, 'p, 'q) media_ring \<Rightarrow> ('s, 'f) StreamOps \<Rightarrow> ('p, 'f) StepInput \<Rightarrow> bool \<Rightarrow> u64
       \<Rightarrow> ('s, 'p, 'q, 'f) NodeController \<Rightarrow> Locals \<times> ('s, 'p, 'q, 'f) NodeController" where
  "admit_phase rs rp so i status_idle idle c =
     (let c1 = expire_phase rs so i status_idle c
      in (locals_of rs rp i status_idle idle c1, open_release i (close_release i c1)))"

text \<open>Courtesy, status and parrot take the free playback slot, in this order.\<close>

definition take_courtesy :: "('s, 'f) StreamOps \<Rightarrow> ('s, 'p, 'q, 'f) NodeController \<Rightarrow> ('s, 'p, 'q, 'f) NodeController" where
  "take_courtesy so c =
     (case courtesy_pop (nc_courtesy c) of
        (index, p) \<Rightarrow>
          (let d = c\<lparr>nc_courtesy := p\<rparr> in
           case Option.bind index (\<lambda>k. map_option (\<lambda>_. k) (nth_option k (cy_media p))) of
             Some k \<Rightarrow> on_telemetry (\<lambda>t. t\<lparr>tp_active := Some (SrCourtesy k)\<rparr>) (on_media (SrCourtesy k) (playback_restart so False) d)
           | None \<Rightarrow> on_telemetry (\<lambda>t. t\<lparr>tp_active := None\<rparr>) d))"

definition fill_slot ::
    "('s, 'p, 'q) media_ring \<Rightarrow> ('s, 'p, 'q) media_ring \<Rightarrow> ('s, 'f) StreamOps \<Rightarrow> ('p, 'f) StepInput \<Rightarrow> Locals
       \<Rightarrow> ('s, 'p, 'q, 'f) NodeController \<Rightarrow> ('s, 'p, 'q, 'f) NodeController" where
  "fill_slot rs rp so i l c =
     (if lo_courtesy_ready l then take_courtesy so c
      else if lo_status_ready l then on_telemetry (start_status rs so (in_cells i) 2) c
      else if lo_parrot_ready l
      then on_telemetry (\<lambda>t. let t1 = start_parrot rp so t in t1\<lparr>tp_active := map_option (\<lambda>_. SrParrot) (tp_parrot t1)\<rparr>) c
      else c)"

definition status_phase ::
    "('s, 'p, 'q) media_ring \<Rightarrow> ('s, 'p, 'q) media_ring \<Rightarrow> ('s, 'f) StreamOps \<Rightarrow> ('p, 'f) StepInput
       \<Rightarrow> Locals \<times> ('s, 'p, 'q, 'f) NodeController \<Rightarrow> Locals \<times> ('s, 'p, 'q, 'f) NodeController" where
  "status_phase rs rp so i lc = (case lc of (l, c) \<Rightarrow>
     (let c1 = (if (lo_may_transmit l \<or> lo_peer_ready l) \<and> tp_active (nc_telemetry c) = None
                then fill_slot rs rp so i l c else c) in
      (l\<lparr>lo_peer_status := (tp_active (nc_telemetry c1) = Some SrStatus \<and> addressed (nc_telemetry c1)),
         lo_active_stream := streaming (media_of c1 (lo_active_before l))\<rparr>, c1)))"

text \<open>The identifier for this step, if any; a demand on an idle transmitter arms the first-key identifier.\<close>

definition busy_in :: "('p, 'f) StepInput \<Rightarrow> Locals \<Rightarrow> ('s, 'p, 'q, 'f) NodeController \<Rightarrow> bool" where
  "busy_in i l c \<longleftrightarrow>
     receive_in i \<or> in_source_activity i \<or> lo_pending_status l \<or> lo_parrot_ready l \<or> courtesy_pending (nc_courtesy c)
     \<or> tp_active (nc_telemetry c) \<noteq> None \<or> tails_pending (nc_tails c) \<or> tails_hanging (nc_now c) (nc_tails c)"

definition demand_in :: "('p, 'f) StepInput \<Rightarrow> Locals \<Rightarrow> nat option \<Rightarrow> ('s, 'p, 'q, 'f) NodeController \<Rightarrow> bool" where
  "demand_in i l selected c \<longleftrightarrow>
     local_media_in i \<noteq> None \<or> regeneration_in i \<noteq> None \<or> in_linked i \<or> (repeats_local c \<and> in_receiving i)
     \<or> (tp_active (nc_telemetry c) \<noteq> None \<and> \<not> lo_peer_status l \<and> \<not> lo_active_stream l)
     \<or> courtesy_pending (nc_courtesy c) \<or> lo_parrot_ready l
     \<or> (in_input i \<noteq> None \<and> selected \<noteq> None
        \<and> \<not> streaming (media_of c (map_option SrIdentifier selected)))
     \<or> (nc_release_pending c \<and> lo_announcement_due l \<noteq> None)"

definition select_phase ::
    "('p, 'f) StepInput \<Rightarrow> Locals \<times> ('s, 'p, 'q, 'f) NodeController \<Rightarrow> nat option \<times> ('s, 'p, 'q, 'f) NodeController" where
  "select_phase i lc = (case lc of (l, c) \<Rightarrow>
     (let busy = busy_in i l c;
          after_hang = (lo_announcement_due l = None \<or> \<not> nc_keyed c \<or> lo_release_expired l \<or> nc_release_pending c);
          selected = select_identifier c (in_receiving i) busy after_hang in
      if lo_may_transmit l \<and> demand_in i l selected c \<and> \<not> nc_keyed c
      then (let key_idle = max (nc_key_idle c) (lo_idle l);
                (first, ids) = identifier_first_key (nc_identifiers c) (nc_rules c) key_idle (nc_now c);
                c1 = c\<lparr>nc_identifiers := ids, nc_key_idle := 0,
                       nc_first_due := (case first of Some k \<Rightarrow> (nc_first_due c)[k := nc_now c] | None \<Rightarrow> nc_first_due c)\<rparr>
            in (select_identifier c1 (in_receiving i) busy after_hang, c1))
      else (selected, c)))"

text \<open>
  A due identifier preempts a tail, and then identifier, tail or announcement take the free slot. \<open>None\<close> is the
  panic of a rewind without a stream.
\<close>

definition preempt_tail ::
    "('s, 'f) StreamOps \<Rightarrow> ('p, 'f) StepInput \<Rightarrow> Locals \<Rightarrow> nat option \<Rightarrow> ('s, 'p, 'q, 'f) NodeController \<Rightarrow> ('s, 'p, 'q, 'f) NodeController option" where
  "preempt_tail so i l selected c =
     (if lo_may_transmit l \<and> selected \<noteq> None \<and> in_input i \<noteq> None
      then (case tp_active (nc_telemetry c) of
              Some (SrTail index) \<Rightarrow>
                (let item = tn_items (nc_tails c) ! index;
                     release = on_telemetry (\<lambda>t. t\<lparr>tp_active := None\<rparr>) in
                 if ts_started item
                 then map_option (\<lambda>pb. release (on_tail index (\<lambda>t. (on_tail_media (\<lambda>_. pb) t)\<lparr>ts_suspended := True\<rparr>) c))
                        (playback_rewind so (pm_playback (tl_media (ts_tail item))))
                 else Some (release (on_tail index (on_tail_media (playback_cancel so)) c)))
            | _ \<Rightarrow> Some c)
      else Some c)"

definition start_phase ::
    "('s, 'f) StreamOps \<Rightarrow> ('p, 'f) StepInput \<Rightarrow> Locals \<Rightarrow> nat option \<Rightarrow> ('s, 'p, 'q, 'f) NodeController \<Rightarrow> ('s, 'p, 'q, 'f) NodeController" where
  "start_phase so i l selected c =
     (let activate = (\<lambda>s c. on_telemetry (\<lambda>t. t\<lparr>tp_active := Some s\<rparr>) c) in
      if in_input i \<noteq> None \<and> lo_may_transmit l \<and> tp_active (nc_telemetry c) = None
      then (case selected of
              Some index \<Rightarrow>
                if index < length (nc_ids c)
                then activate (SrIdentifier index) (on_identifier index (playback_restart so (receive_in i)) c) else c
            | None \<Rightarrow>
                (case tails_ready (nc_now c) (nc_tails c) of
                   Some index \<Rightarrow>
                     activate (SrTail index)
                       (on_tail index (\<lambda>t. (if ts_suspended t then t else on_tail_media (playback_restart so False) t)\<lparr>ts_suspended := False\<rparr>) c)
                 | None \<Rightarrow>
                     if nc_release_pending c \<and> \<not> lo_pending_status l \<and> \<not> courtesy_pending (nc_courtesy c)
                     then (case lo_announcement_due l of
                             Some index \<Rightarrow>
                               if index < length (nc_announcements c)
                               then activate (SrAnnouncement index)
                                      (on_announcement index (\<lambda>a. a\<lparr>an_release_pending := False,
                                         an_media := on_playback (playback_restart so False) (an_media a)\<rparr>) c)
                               else c
                           | None \<Rightarrow> c)
                     else c))
      else c)"

text \<open>Playback of the source that has the slot: how many samples (0 or 1), the sample, and whether the item waits or goes on.\<close>

record 'f Rendered =
  re_source :: "Source option"
  re_policy :: "PlaybackPolicy option"
  re_exempt :: bool
  re_made :: nat
  re_sample :: 'f
  re_waiting :: bool
  re_continuing :: bool

definition ctcss_phase :: "('p, 'f) StepInput \<Rightarrow> Locals \<Rightarrow> ('s, 'p, 'q, 'f) NodeController \<Rightarrow> ('s, 'p, 'q, 'f) NodeController" where
  "ctcss_phase i l c =
     c\<lparr>nc_ctcss_enabled :=
       (if \<not> se_ctcss_encode_on_input (nc_settings c) then True
        else (case tp_active (nc_telemetry c) of
                Some s \<Rightarrow> s = SrStatus \<and> \<not> lo_peer_status l
              | None \<Rightarrow> lo_pending_status l \<or> receive_in i \<or> nc_now c < nc_ctcss_hang_until c))\<rparr>"

definition interrupts :: "('p, 'f) StepInput \<Rightarrow> Locals \<Rightarrow> bool \<Rightarrow> Source \<Rightarrow> bool" where
  "interrupts i l forced source \<longleftrightarrow>
     forced
     \<or> ((receive_in i \<or> in_source_activity i \<or> (local_media_in i \<noteq> None \<and> \<not> lo_peer_status l))
        \<and> (case source of SrIdentifier _ \<Rightarrow> True | SrAnnouncement _ \<Rightarrow> True | SrTail _ \<Rightarrow> True | SrStatus \<Rightarrow> True | _ \<Rightarrow> False))
     \<or> (in_source_activity i \<and> source = SrParrot)"

definition render_phase ::
    "'f FloatOps \<Rightarrow> ('s, 'p, 'q) media_ring \<Rightarrow> ('s, 'p, 'q) media_ring \<Rightarrow> ('s, 'f) StreamOps \<Rightarrow> ('p, 'f) StepInput \<Rightarrow> Locals
       \<Rightarrow> ('s, 'p, 'q, 'f) NodeController \<Rightarrow> 'f Rendered \<times> ('s, 'p, 'q, 'f) NodeController" where
  "render_phase fo rs rp so i l c0 =
     (let c = ctcss_phase i l c0;
          source = tp_active (nc_telemetry c);
          policy = Option.bind (media_of c source) pm_policy;
          exempt = ((case source of Some (SrTail _) \<Rightarrow> True | _ \<Rightarrow> False) \<or> (source = Some SrStatus \<and> policy \<noteq> None));
          allowed = (lo_may_transmit l \<and> (exempt \<or> allows_playback (nc_timeout c) (nc_traffic_keyed c) (nc_now c)
                       (samples (se_transmit_timeout_ms (nc_settings c)))));
          forced = (source = Some SrStatus \<and> status_morse (nc_telemetry c));
          none = \<lparr>re_source = source, re_policy = policy, re_exempt = exempt, re_made = 0, re_sample = fo_zero fo,
                  re_waiting = False, re_continuing = False\<rparr> in
      case source of
        None \<Rightarrow> (none, c)
      | Some s \<Rightarrow>
          (case media_of c source of
             None \<Rightarrow> (none, c)
           | Some m \<Rightarrow>
               (let p0 = pm_playback m;
                    interrupt = interrupts i l forced s;
                    (made0, out, p1) =
                      (if (if lo_peer_status l then lo_peer_ready l else allowed) \<and> in_input i \<noteq> None
                       then playback_render so interrupt [fo_zero fo] p0
                       else (0, [fo_zero fo], playback_defer so interrupt p0));
                    lost = (\<not> pb_output_started p0 \<and> made0 \<noteq> 0
                            \<and> (case pm_occurrence m of Some a \<Rightarrow> \<not> ce_begin (in_cells i) a | None \<Rightarrow> False));
                    p2 = (if lost then playback_cancel so p1 else p1);
                    made = (if lost then 0 else made0);
                    sample = (if lost then fo_zero fo else sample_of fo out);
                    c1 = on_media s (\<lambda>_. p2) c;
                    c2 = (if is_finished p2
                          then complete_playback rs rp so source (pb_outcome p2) (on_telemetry (\<lambda>t. t\<lparr>tp_active := None\<rparr>) c1)
                          else c1) in
                (none\<lparr>re_made := made, re_sample := sample, re_waiting := pb_waiting_for_stream p2,
                      re_continuing := (pb_output_started p2 \<and> \<not> is_finished p2)\<rparr>, c2))))"

text \<open>A tail that was heard is started; a release opportunity ends when nothing is due any more.\<close>

definition settle_phase :: "'f Rendered \<Rightarrow> ('s, 'p, 'q, 'f) NodeController \<Rightarrow> ('s, 'p, 'q, 'f) NodeController" where
  "settle_phase r c =
     (let c1 = (case tp_active (nc_telemetry c) of
                  Some (SrTail index) \<Rightarrow> on_tail index (\<lambda>t. t\<lparr>ts_started := (ts_started t \<or> re_made r \<noteq> 0)\<rparr>) c
                | _ \<Rightarrow> c) in
      if \<not> list_ex (announcement_due (nc_now c1)) (nc_announcements c1)
         \<and> (case tp_active (nc_telemetry c1) of Some (SrAnnouncement _) \<Rightarrow> False | _ \<Rightarrow> True)
      then c1\<lparr>nc_release_pending := False\<rparr> else c1)"

text \<open>The transmit decision. \<open>other\<close> is traffic, \<open>transmit\<close> everything that keys as traffic, \<open>message_audio\<close> exempt media.\<close>

definition telemetry_audio :: "Locals \<Rightarrow> 'f Rendered \<Rightarrow> bool" where
  "telemetry_audio l r \<longleftrightarrow> re_made r \<noteq> 0 \<and> \<not> lo_peer_status l"

definition message_audio :: "Locals \<Rightarrow> 'f Rendered \<Rightarrow> bool" where
  "message_audio l r \<longleftrightarrow> re_exempt r \<and> (telemetry_audio l r \<or> (re_continuing r \<and> \<not> lo_peer_status l))"

definition suppress_repeat :: "'f Rendered \<Rightarrow> bool" where
  "suppress_repeat r \<longleftrightarrow>
     (case re_policy r of Some p \<Rightarrow> \<not> pp_repeat_during_playback p | None \<Rightarrow> False) \<and> (re_made r \<noteq> 0 \<or> re_continuing r)"

definition other_in :: "('p, 'f) StepInput \<Rightarrow> Locals \<Rightarrow> 'f Rendered \<Rightarrow> ('s, 'p, 'q, 'f) NodeController \<Rightarrow> bool" where
  "other_in i l r c \<longleftrightarrow>
     in_linked i \<or> (repeats_local c \<and> in_receiving i) \<or> courtesy_pending (nc_courtesy c)
     \<or> (lo_status_ready l \<and> \<not> lo_peer_status l \<and> \<not> re_exempt r)"

definition transmit_in :: "('p, 'f) StepInput \<Rightarrow> Locals \<Rightarrow> 'f Rendered \<Rightarrow> ('s, 'p, 'q, 'f) NodeController \<Rightarrow> bool" where
  "transmit_in i l r c \<longleftrightarrow>
     local_media_in i \<noteq> None \<or> regeneration_in i \<noteq> None \<or> other_in i l r c
     \<or> (telemetry_audio l r \<and> \<not> re_exempt r)
     \<or> (re_continuing r \<and> \<not> lo_peer_status l \<and> \<not> re_exempt r)
     \<or> (tp_active (nc_telemetry c) \<noteq> None \<and> \<not> lo_peer_status l \<and> \<not> re_exempt r \<and> \<not> re_waiting r \<and> \<not> lo_active_stream l)"

definition hang_in :: "('p, 'f) StepInput \<Rightarrow> Locals \<Rightarrow> 'f Rendered \<Rightarrow> ('s, 'p, 'q, 'f) NodeController \<Rightarrow> u64" where
  "hang_in i l r c =
     (if (case re_source r of Some (SrIdentifier _) \<Rightarrow> True | Some (SrAnnouncement _) \<Rightarrow> True | Some (SrTail _) \<Rightarrow> True | _ \<Rightarrow> False)
         \<and> \<not> other_in i l r c
      then 2400 else samples (se_hang_ms (nc_settings c)))"

text \<open>What is requested of the transmitter before the watchdog: the duplex policy, held through the traffic hang,
  released for a delayed tail, and held for a ready tail.\<close>

definition request_in :: "('p, 'f) StepInput \<Rightarrow> Locals \<Rightarrow> 'f Rendered \<Rightarrow> ('s, 'p, 'q, 'f) NodeController \<Rightarrow> bool \<times> DuplexPolicy" where
  "request_in i l r c =
     (let (requested, duplex) = duplex_update (nc_duplex c) (transmits_during_receive c) (in_receiving i \<and> \<not> nc_remote_non_fm c)
                                  (transmit_in i l r c) (nc_now c) (hang_in i l r c);
          r1 = (requested \<or> lo_may_transmit l \<and> nc_traffic_keyed c \<and> tails_hanging (nc_now c) (nc_tails c));
          r2 = (r1 \<and> \<not> (\<not> transmit_in i l r c \<and> tp_active (nc_telemetry c) = None \<and> waiting_for_unkey (nc_now c) (nc_tails c)
                       \<and> sat_sub (nc_now c) (nc_last_audio c) \<ge> min (nc_release_hang c) 2400));
          r3 = (r2 \<or> lo_may_transmit l \<and> nc_traffic_keyed c \<and> tails_ready (nc_now c) (nc_tails c) \<noteq> None \<and> \<not> re_exempt r) in
      (r3, duplex))"

definition watchdog_phase :: "('p, 'f) StepInput \<Rightarrow> Locals \<Rightarrow> 'f Rendered \<Rightarrow> ('s, 'p, 'q, 'f) NodeController \<Rightarrow> ('s, 'p, 'q, 'f) NodeController" where
  "watchdog_phase i l r c =
     (let (requested, duplex) = request_in i l r c;
          (keyed, timeout) = timeout_apply (nc_timeout c) (requested \<and> \<not> lo_inhibited l) (nc_traffic_keyed c) (nc_now c)
                               (samples (se_transmit_timeout_ms (nc_settings c))) in
      c\<lparr>nc_duplex := duplex, nc_traffic_keyed := keyed, nc_timeout := timeout\<rparr>)"

text \<open>\<open>prior\<close> is the controller before the watchdog, of which the local variables were computed.\<close>

definition mark_audio ::
    "('p, 'f) StepInput \<Rightarrow> Locals \<Rightarrow> 'f Rendered \<Rightarrow> ('s, 'p, 'q, 'f) NodeController \<Rightarrow> ('s, 'p, 'q, 'f) NodeController \<Rightarrow> ('s, 'p, 'q, 'f) NodeController" where
  "mark_audio i l r prior c =
     (let c1 = (if nc_traffic_keyed c then c else c\<lparr>nc_duplex := duplex_default\<rparr>);
          c2 = (if transmit_in i l r prior \<and> lo_may_transmit l
                then c1\<lparr>nc_last_audio := nc_now c1, nc_release_hang := hang_in i l r prior, nc_exempt_release := False\<rparr> else c1) in
      if message_audio l r \<and> lo_may_transmit l
      then c2\<lparr>nc_last_audio := nc_now c2, nc_release_hang := 2400, nc_exempt_release := (\<not> nc_traffic_keyed c2 \<or> \<not> other_in i l r prior)\<rparr>
      else c2)"

definition key_now :: "Locals \<Rightarrow> 'f Rendered \<Rightarrow> ('s, 'p, 'q, 'f) NodeController \<Rightarrow> bool" where
  "key_now l r c \<longleftrightarrow>
     nc_traffic_keyed c
     \<or> (lo_may_transmit l \<and> (message_audio l r
          \<or> (nc_exempt_release c \<and> sat_sub (nc_now c) (nc_last_audio c) < nc_release_hang c)))"

definition apply_key :: "bool \<Rightarrow> ('s, 'p, 'q, 'f) NodeController \<Rightarrow> ('s, 'p, 'q, 'f) NodeController" where
  "apply_key keyed c =
     (let c1 = c\<lparr>nc_keyed := keyed\<rparr> in
      if keyed then c1 else c1\<lparr>nc_exempt_release := False, nc_tails := tails_unkeyed (nc_now c1) (nc_tails c1)\<rparr>)"

definition arm_releases :: "Locals \<Rightarrow> 'f Rendered \<Rightarrow> ('s, 'p, 'q, 'f) NodeController \<Rightarrow> ('s, 'p, 'q, 'f) NodeController" where
  "arm_releases l r c =
     (if nc_keyed c \<and> \<not> nc_suppress_release c
         \<and> (lo_ordinary l \<or> (telemetry_audio l r \<and> (case re_source r of Some (SrAnnouncement _) \<Rightarrow> False | Some (SrTail _) \<Rightarrow> False | _ \<Rightarrow> True)))
      then c\<lparr>nc_announcements := map (\<lambda>a. if an_interval_ms a = 0 then a\<lparr>an_release_pending := True\<rparr> else a) (nc_announcements c)\<rparr>
      else c)"

definition key_phase ::
    "('p, 'f) StepInput \<Rightarrow> Locals \<Rightarrow> 'f Rendered \<Rightarrow> ('s, 'p, 'q, 'f) NodeController \<Rightarrow> ('s, 'p, 'q, 'f) NodeController \<Rightarrow> ('s, 'p, 'q, 'f) NodeController" where
  "key_phase i l r prior c =
     (let c1 = mark_audio i l r prior c
      in arm_releases l r (apply_key (key_now l r c1) c1))"

section \<open>The samples\<close>

definition gain_step :: "'f FloatOps \<Rightarrow> bool \<Rightarrow> 'f \<Rightarrow> 'f \<Rightarrow> 'f" where
  "gain_step fo receive duck gain =
     (let target = (if receive then duck else fo_one fo) in
      if fo_greater fo gain target then fo_max fo (fo_sub fo gain (fo_duck_step fo)) target
      else fo_min fo (fo_add fo gain (fo_release_step fo)) target)"

text \<open>\<open>reply\<close> is the addressed peer with its activity, read when the source was chosen.\<close>

definition mix_phase ::
    "'f FloatOps \<Rightarrow> ('p, 'f) StepInput \<Rightarrow> Locals \<Rightarrow> 'f Rendered \<Rightarrow> (nat \<times> bool) option \<Rightarrow> ('s, 'p, 'q, 'f) NodeController
       \<Rightarrow> 'f StepOutput \<times> ('s, 'p, 'q, 'f) NodeController" where
  "mix_phase fo i l r reply c =
     (let gain = (if in_input i \<noteq> None then gain_step fo (receive_in i) (nc_duck_gain c) (nc_gain c) else nc_gain c);
          quiet = suppress_repeat r;
          own = (if repeats_local c \<and> in_receiving i \<and> nc_traffic_keyed c \<and> \<not> quiet
                   then (case in_input i of Some x \<Rightarrow> x | None \<Rightarrow> fo_zero fo) else fo_zero fo);
          link = (if lo_may_transmit l \<and> in_linked i \<and> \<not> quiet then in_link_sample i else fo_zero fo);
          telemetry = (if lo_peer_status l then fo_zero fo else fo_mul fo (re_sample r) gain);
          parrot = (re_source r = Some SrParrot \<and> re_made r \<noteq> 0);
          broadcast = (if re_made r \<noteq> 0 \<and> (case re_policy r of Some p \<Rightarrow> pp_destination p = PdLocalAndLinks | None \<Rightarrow> False)
                       then Some (fo_mul fo (re_sample r) gain) else None);
          answer = (case reply of
                      Some (target, False) \<Rightarrow> if re_made r \<noteq> 0 then (target, re_sample r) else (0, fo_zero fo)
                    | _ \<Rightarrow> (0, fo_zero fo));
          incoming = (if lo_may_transmit l \<and> nc_traffic_keyed c \<and> \<not> quiet
                      then (case local_media_in i of Some x \<Rightarrow> x | None \<Rightarrow> fo_zero fo) else fo_zero fo);
          rf = (case regeneration_in i of
                  Some x \<Rightarrow> if lo_may_transmit l then x else fo_zero fo
                | None \<Rightarrow> if lo_inhibited l then fo_zero fo
                          else fo_clamp fo (fo_add fo (fo_add fo (fo_add fo own link) telemetry) incoming)) in
      (\<lparr>ou_rf = rf, ou_parrot = map_option (\<lambda>_. if parrot then telemetry else fo_zero fo) (in_output i),
        ou_parrot_active = (in_output i \<noteq> None \<and> parrot),
        ou_reply = (case in_output i of
                      Some po \<Rightarrow> if pi_reply po
                                 then Some \<lparr>pr_target = fst answer, pr_sample = snd answer, pr_suppress_repeat = quiet, pr_broadcast = broadcast\<rparr>
                                 else None
                    | None \<Rightarrow> None)\<rparr>,
       c\<lparr>nc_gain := gain\<rparr>))"

section \<open>The step and the loop over a block\<close>

text \<open>Everything up to the check of the watchdog.\<close>

definition prepare_step ::
    "('s, 'p, 'q) media_ring \<Rightarrow> ('s, 'p, 'q) media_ring \<Rightarrow> ('s, 'f) StreamOps \<Rightarrow> ('p, 'f) StepInput
       \<Rightarrow> ('s, 'p, 'q, 'f) NodeController \<Rightarrow> bool \<times> u64 \<times> ('s, 'p, 'q, 'f) NodeController" where
  "prepare_step rs rp so i c =
     (let (status_idle, c1) = hold_phase rs so i (cancel_phase rs rp so i c);
          (idle, c2) = receive_phase i c1 in
      (status_idle, idle, observe_phase rs rp so i c2))"

definition program_step ::
    "'f FloatOps \<Rightarrow> ('s, 'p, 'q) media_ring \<Rightarrow> ('s, 'p, 'q) media_ring \<Rightarrow> ('s, 'f) StreamOps \<Rightarrow> ('p, 'f) StepInput \<Rightarrow> bool \<Rightarrow> u64
       \<Rightarrow> ('s, 'p, 'q, 'f) NodeController \<Rightarrow> ('f StepOutput \<times> ('s, 'p, 'q, 'f) NodeController) option" where
  "program_step fo rs rp so i status_idle idle c =
     (case status_phase rs rp so i (admit_phase rs rp so i status_idle idle c) of
        (l, c1) \<Rightarrow>
          (case select_phase i (l, c1) of
             (selected, c2) \<Rightarrow>
               Option.bind (preempt_tail so i l selected c2) (\<lambda>c3.
                 (let c4 = start_phase so i l selected c3;
                      reply = (if lo_peer_status l
                               then map_option (\<lambda>p. (ce_peer_identity (in_cells i) p, ce_peer_active (in_cells i) 2 p)) (status_peer (nc_telemetry c4))
                               else None);
                      (r, c5) = render_phase fo rs rp so i l c4;
                      c6 = settle_phase r c5;
                      c7 = watchdog_phase i l r c6 in
                  if timeout_blocked (nc_timeout c7)
                  then Some (timeout_sample fo so (receive_in i \<or> in_source_activity i) (lo_inhibited l) (in_input i) (in_output i) (begin_timeout so c7))
                  else Some (mix_phase fo i l r reply (key_phase i l r c6 c7))))))"

definition controller_step ::
    "'f FloatOps \<Rightarrow> ('s, 'p, 'q) media_ring \<Rightarrow> ('s, 'p, 'q) media_ring \<Rightarrow> ('s, 'f) StreamOps \<Rightarrow> ('p, 'f) StepInput
       \<Rightarrow> ('s, 'p, 'q, 'f) NodeController \<Rightarrow> ('f StepOutput \<times> ('s, 'p, 'q, 'f) NodeController) option" where
  "controller_step fo rs rp so i c =
     (case prepare_step rs rp so i c of
        (status_idle, idle, c1) \<Rightarrow>
          if timeout_blocked (nc_timeout c1)
          then Some (timeout_sample fo so (receive_in i \<or> in_source_activity i) (ce_site_inhibit (in_cells i)) (in_input i) (in_output i) c1)
          else program_step fo rs rp so i status_idle idle c1)"

text \<open>A block: one step per sample, each advancing the clock; the shared cells may answer differently in each.\<close>

fun block_steps ::
    "'f FloatOps \<Rightarrow> ('s, 'p, 'q) media_ring \<Rightarrow> ('s, 'p, 'q) media_ring \<Rightarrow> ('s, 'f) StreamOps \<Rightarrow> ('p, 'f) StepInput list
       \<Rightarrow> ('s, 'p, 'q, 'f) NodeController \<Rightarrow> ('f StepOutput list \<times> ('s, 'p, 'q, 'f) NodeController) option" where
  "block_steps fo rs rp so [] c = Some ([], c)"
| "block_steps fo rs rp so (i # is) c =
     Option.bind (controller_step fo rs rp so i c) (\<lambda>(out, c1).
       map_option (\<lambda>(outs, c2). (out # outs, c2))
         (block_steps fo rs rp so is (c1\<lparr>nc_now := sat_add (nc_now c1) 1\<rparr>)))"

text \<open>The parrot switch is a shared flag; a cleared flag stops parrot playback before the steps.\<close>

definition apply_parrot_disable :: "('s, 'p, 'q) media_ring \<Rightarrow> bool \<Rightarrow> ('s, 'p, 'q, 'f) NodeController \<Rightarrow> ('s, 'p, 'q, 'f) NodeController" where
  "apply_parrot_disable rp parrot_enabled c = (if parrot_enabled then c else on_telemetry (disable_parrot rp) c)"

definition begin_block :: "('s, 'p, 'q) media_ring \<Rightarrow> bool \<Rightarrow> bool \<Rightarrow> ('s, 'p, 'q, 'f) NodeController \<Rightarrow> ('s, 'p, 'q, 'f) NodeController" where
  "begin_block rp parrot_enabled source_activity c =
     (let c1 = apply_parrot_disable rp parrot_enabled c
      in c1\<lparr>nc_activity := (nc_activity c1)\<lparr>av_active := source_activity\<rparr>\<rparr>)"

definition process_event ::
    "'f FloatOps \<Rightarrow> ('s, 'p, 'q) media_ring \<Rightarrow> ('s, 'p, 'q) media_ring \<Rightarrow> ('s, 'f) StreamOps \<Rightarrow> bool \<Rightarrow> bool \<Rightarrow> bool \<Rightarrow> bool \<Rightarrow> 'p Cells
       \<Rightarrow> ('s, 'p, 'q, 'f) NodeController \<Rightarrow> (bool \<times> ('s, 'p, 'q, 'f) NodeController) option" where
  "process_event fo rs rp so parrot_enabled receiving linked source_activity ce c =
     map_option (\<lambda>(_, c'). (nc_keyed c', c'))
       (controller_step fo rs rp so
          \<lparr>in_receiving = receiving, in_linked = linked, in_source_activity = source_activity, in_input = None,
           in_link_sample = fo_zero fo, in_output = None, in_cells = ce\<rparr>
          (begin_block rp parrot_enabled source_activity c))"

text \<open>\<open>sized\<close>: the outputs that are present have the length of the block. A block of which they do not is handled as an
  event, like an empty one.\<close>

definition process_audio ::
    "'f FloatOps \<Rightarrow> ('s, 'p, 'q) media_ring \<Rightarrow> ('s, 'p, 'q) media_ring \<Rightarrow> ('s, 'f) StreamOps \<Rightarrow> bool \<Rightarrow> bool \<Rightarrow> bool \<Rightarrow> bool \<Rightarrow> 'f list
       \<Rightarrow> 'f list \<Rightarrow> bool \<Rightarrow> (nat \<Rightarrow> 'f ProgramInput option) \<Rightarrow> (nat \<Rightarrow> 'p Cells) \<Rightarrow> ('s, 'p, 'q, 'f) NodeController
       \<Rightarrow> (bool \<times> 'f StepOutput list \<times> ('s, 'p, 'q, 'f) NodeController) option" where
  "process_audio fo rs rp so parrot_enabled receiving linked source_activity link_audio audio sized outputs cells c =
     (if audio = [] \<or> \<not> sized
      then map_option (\<lambda>(k, c'). (k, [], c'))
        (process_event fo rs rp so parrot_enabled receiving linked source_activity (cells 0) (apply_parrot_disable rp parrot_enabled c))
      else map_option (\<lambda>(outs, c'). (nc_keyed c', outs, c'\<lparr>nc_activity := (nc_activity c')\<lparr>av_current_sample := nc_now c'\<rparr>\<rparr>))
        (block_steps fo rs rp so
           (map (\<lambda>k. \<lparr>in_receiving = receiving, in_linked = linked, in_source_activity = source_activity, in_input = Some (audio ! k),
                     in_link_sample = (if k < length link_audio then link_audio ! k else fo_zero fo), in_output = outputs k,
                     in_cells = cells k\<rparr>) [0..<length audio])
           (begin_block rp parrot_enabled source_activity c)))"

end
