(* ===== verification/Controller_Shape.thy ===== *)
theory Controller_Shape
  imports Controller
begin

text \<open>
  Well-formedness of the node controller: the tables that run in parallel stay in step, the source that plays is an
  item that exists, and the tails keep their streams, so that the one panic of a step, rewinding a tail without a
  stream, does not happen. The sizes are one value (\<open>shape\<close>) that every phase leaves as it is.
\<close>

section \<open>Playback keeps its stream\<close>

abbreviation lacks_stream :: "'s Playback \<Rightarrow> bool" where
  "lacks_stream p \<equiv> pb_stream p = None"

lemma finish_stream [simp]: "lacks_stream (playback_finish so r p) = lacks_stream p" "lacks_stream (playback_cancel so p) = lacks_stream p"
  by (simp_all add: playback_finish_def playback_cancel_def)

lemma start_stream_stream [simp]: "lacks_stream (start_stream so r out p) = lacks_stream p"
  by (simp add: start_stream_def)

lemma select_morse_stream [simp]: "lacks_stream (snd (select_morse so r p)) = lacks_stream p"
proof -
  have "lacks_stream (if r \<and> pb_morse p = None then p\<lparr>pb_morse := Some MwPending\<rparr> else p) = lacks_stream p" by simp
  then show ?thesis
    by (auto simp del: not_None_eq simp: select_morse_def Let_def split: prod.splits option.splits MorseSwitch.splits)
qed

lemma read_stream_stream [simp]: "lacks_stream (snd (snd (read_stream so out p))) = lacks_stream p"
  by (auto simp del: not_None_eq simp: read_stream_def Let_def split: prod.splits option.splits PcmRead.splits)

lemma render_stream [simp]: "lacks_stream (snd (snd (playback_render so r out p))) = lacks_stream p"
proof (cases "is_finished p")
  case False
  obtain go p1 where s: "select_morse so r (start_stream so r out p) = (go, p1)" by fastforce
  then have p1: "lacks_stream p1 = lacks_stream p" using select_morse_stream [of so r "start_stream so r out p"] by simp
  then show ?thesis using False read_stream_stream [of so out p1] by (cases go) (simp_all add: playback_render_def s)
qed (simp add: playback_render_def)

lemma restart_stream [simp]: "lacks_stream (playback_restart so r p) = lacks_stream p"
  by (simp add: playback_restart_def Let_def)

lemma defer_stream [simp]: "lacks_stream (playback_defer so r p) = lacks_stream p"
  by (auto simp del: not_None_eq simp: playback_defer_def split: option.split prod.split bool.split)

lemma rewind_stream: "playback_rewind so p = Some p' \<Longrightarrow> \<not> lacks_stream p'"
  by (auto simp: playback_rewind_def)

section \<open>The shape\<close>

definition tail_silent :: "('s, 'p) TailState \<Rightarrow> bool" where
  "tail_silent t \<longleftrightarrow> lacks_stream (pm_playback (tl_media (ts_tail t)))"

definition silences :: "('s, 'p) TailPlanner \<Rightarrow> bool list" where
  "silences t = map tail_silent (tn_items t)"

type_synonym controller_shape = "IdentifierRule list \<times> IdentifierRule list \<times> nat \<times> nat \<times> nat \<times> nat \<times> nat \<times> bool list"

definition shape :: "('s, 'p, 'q, 'f) NodeController \<Rightarrow> controller_shape" where
  "shape c = (map identifier_rule (nc_ids c), nc_rules c, length (nc_satisfied c), length (nc_first_due c),
     length (ip_states (nc_identifiers c)), length (nc_announcements c), length (cy_media (nc_courtesy c)),
     silences (nc_tails c))"

definition source_in :: "controller_shape \<Rightarrow> Source option \<Rightarrow> bool" where
  "source_in sh s = (case sh of (ids, _, _, _, _, announcements, courtesies, tails) \<Rightarrow>
     (case s of
        Some (SrCourtesy k) \<Rightarrow> k < courtesies | Some (SrIdentifier k) \<Rightarrow> k < length ids
      | Some (SrAnnouncement k) \<Rightarrow> k < announcements | Some (SrTail k) \<Rightarrow> k < length tails | _ \<Rightarrow> True))"

definition shape_ok :: "controller_shape \<Rightarrow> bool" where
  "shape_ok sh = (case sh of (ids, rules, satisfied, first_due, states, announcements, courtesies, tails) \<Rightarrow>
     rules = ids \<and> satisfied = length ids \<and> first_due = length ids \<and> states = length ids \<and> True \<notin> set tails)"

definition controller_wf :: "('s, 'p, 'q, 'f) NodeController \<Rightarrow> bool" where
  "controller_wf c \<longleftrightarrow> shape_ok (shape c) \<and> source_in (shape c) (tp_active (nc_telemetry c))"

lemma source_in_simps [simp]: "source_in sh None" "source_in sh (Some SrStatus)" "source_in sh (Some SrParrot)"
  "source_in sh (map_option (\<lambda>_. SrStatus) y)" "source_in sh (map_option (\<lambda>_. SrParrot) z)"
  by (simp_all add: source_in_def split: prod.split option.split)

lemma map_self_update [simp]: "(map f xs)[k := f (xs ! k)] = map f xs"
  by (metis list_update_id map_update)

lemma identifier_rule_media [simp]: "identifier_rule (i\<lparr>id_media := m\<rparr>) = identifier_rule i"
  by (simp add: identifier_rule_def)

lemma silences_update [simp]:
  "tail_silent y = tail_silent (tn_items t ! k) \<Longrightarrow> silences (t\<lparr>tn_items := (tn_items t)[k := y]\<rparr>) = silences t"
  "(\<And>x. tail_silent (h x) = tail_silent x) \<Longrightarrow> silences (t\<lparr>tn_items := map h (tn_items t)\<rparr>) = silences t"
  by (simp_all add: silences_def map_update)

lemma silences_complete [simp]: "silences (tails_complete k n b t) = silences t"
  by (simp add: tails_complete_def Let_def tail_silent_def)

declare tail_silent_def [simp]

lemma shape_telemetry [simp]: "shape (c\<lparr>nc_telemetry := t\<rparr>) = shape c"
  by (simp add: shape_def)

lemma shape_tails [simp]: "silences t = silences (nc_tails c) \<Longrightarrow> shape (c\<lparr>nc_tails := t\<rparr>) = shape c"
  by (simp add: shape_def)

lemma shape_ids [simp]: "shape (on_identifier k f c) = shape c"
  by (simp add: shape_def map_update)

lemma shape_on_media:
  assumes "\<And>m. media_of c (Some s) = Some m \<Longrightarrow> lacks_stream (f (pm_playback m)) = lacks_stream (pm_playback m)"
  shows "shape (on_media s f c) = shape c"
proof (cases s)
  case (SrTail k)
  show ?thesis
  proof (cases "k < length (tn_items (nc_tails c))")
    case True
    then have "lacks_stream (f (pm_playback (tl_media (ts_tail (tn_items (nc_tails c) ! k))))) = tail_silent (tn_items (nc_tails c) ! k)"
      using assms SrTail by (simp add: nth_option_def)
    then show ?thesis using SrTail by (simp del: not_None_eq)
  qed (simp add: SrTail shape_def silences_def list_update_beyond)
qed (simp_all add: shape_def map_update)

lemma active_on_media [simp]: "tp_active (nc_telemetry (on_media s f c)) = tp_active (nc_telemetry c)"
  by (cases s) simp_all

lemma shape_satisfy [simp]: "shape (satisfy_identifier k c) = shape c" "nc_telemetry (satisfy_identifier k c) = nc_telemetry c"
  "nc_tails (satisfy_identifier k c) = nc_tails c"
  by (simp_all add: satisfy_identifier_def shape_def complete_length)

lemma shape_complete_status [simp]: "shape (complete_status rs so o1 c) = shape c"
    "tp_active (nc_telemetry (complete_status rs so o1 c)) = tp_active (nc_telemetry c)"
  by (simp_all add: complete_status_def Let_def finish_status_def split: option.split)

lemma defer_length [simp]: "length (ip_states (identifier_defer p rules k t)) = length (ip_states p)"
  by (simp add: identifier_defer_def)

lemma shape_complete [simp]: "shape (complete_playback rs rp so s o1 c) = shape c"
  "tp_active (nc_telemetry (complete_playback rs rp so s o1 c)) = tp_active (nc_telemetry c)"
  by (cases "(rs, rp, so, s, o1, c)" rule: complete_playback.cases; simp; simp add: shape_def finish_parrot_def)+

section \<open>The phases keep the shape and play only what exists\<close>

text \<open>\<open>same_slot\<close>: the source that plays is the one before, or none.\<close>

definition same_slot :: "('s, 'p, 'q) TelemetryPlanner \<Rightarrow> ('s, 'p, 'q) TelemetryPlanner \<Rightarrow> bool" where
  "same_slot t t' \<longleftrightarrow> tp_active t' = tp_active t \<or> tp_active t' = None"

lemma wf_keep: "controller_wf c \<Longrightarrow> shape c' = shape c \<Longrightarrow> same_slot (nc_telemetry c) (nc_telemetry c') \<Longrightarrow> controller_wf c'"
  by (auto simp: controller_wf_def same_slot_def)

lemma wf_start: "controller_wf c \<Longrightarrow> shape c' = shape c \<Longrightarrow> source_in (shape c) (tp_active (nc_telemetry c')) \<Longrightarrow> controller_wf c'"
  by (simp add: controller_wf_def)

lemma admit_status_active [simp]: "tp_active (finish_status rs t) = tp_active t"
  by (simp add: finish_status_def)

lemma poll_loop_active: "tp_active (poll_loop rs so ce k n t) = tp_active t \<or> tp_active (poll_loop rs so ce k n t) = None"
proof (induction n arbitrary: t)
  case (Suc n)
  show ?case
  proof (cases "tp_status (admit_status rs t)")
    case (Some m)
    then show ?thesis
      using Suc [of "finish_status rs ((admit_status rs t)\<lparr>tp_status := Some (on_playback (playback_cancel so) m),
                    tp_active := (if tp_active (admit_status rs t) = Some SrStatus then None else tp_active (admit_status rs t))\<rparr>)"]
      by (auto simp: Let_def split: if_splits)
  qed (simp add: Let_def)
qed simp

lemma poll_active: "tp_active (poll_status rs so ce k t) = tp_active t \<or> tp_active (poll_status rs so ce k t) = None"
  by (simp add: poll_status_def poll_loop_active del: poll_loop.simps)

lemma shape_cancel: "controller_wf c \<Longrightarrow> controller_wf (cancel_phase rs rp so i c)"
proof (rule wf_keep, assumption)
  show "shape (cancel_phase rs rp so i c) = shape c"
    by (simp add: cancel_phase_def Let_def shape_on_media split: option.split)
  show "same_slot (nc_telemetry c) (nc_telemetry (cancel_phase rs rp so i c))"
    by (simp add: cancel_phase_def Let_def same_slot_def split: option.split)
qed

lemma shape_hold: "controller_wf c \<Longrightarrow> controller_wf (snd (hold_phase rs so i c))"
proof (rule wf_keep, assumption)
  show "shape (snd (hold_phase rs so i c)) = shape c"
    by (simp add: hold_phase_def Let_def split: option.split)
  show "same_slot (nc_telemetry c) (nc_telemetry (snd (hold_phase rs so i c)))"
    using poll_active [of rs so "in_cells i" 0 "nc_telemetry c"] by (auto simp: hold_phase_def Let_def same_slot_def split: option.split)
qed

lemma courtesy_sizes [simp]: "length (cy_media (courtesy_cancel s p)) = length (cy_media p)"
  "length (cy_media (courtesy_schedule s d n p)) = length (cy_media p)" "length (cy_media (snd (courtesy_pop p))) = length (cy_media p)"
  by (simp_all add: courtesy_cancel_def courtesy_schedule_def courtesy_pop_def split: option.split)

lemma shape_receive_steps [simp]:
  "shape (receive_active u c) = shape c" "nc_telemetry (receive_active u c) = nc_telemetry c"
  "shape (local_keyed c) = shape c" "nc_telemetry (local_keyed c) = nc_telemetry c"
  "shape (local_unkeyed c) = shape c" "nc_telemetry (local_unkeyed c) = nc_telemetry c"
  "shape (suppress_final_release c) = shape c" "nc_telemetry (suppress_final_release c) = nc_telemetry c"
  by (simp_all add: receive_active_def local_keyed_def local_unkeyed_def receive_unkeyed_def suppress_final_release_def shape_def Let_def)

lemma shape_receive: "controller_wf c \<Longrightarrow> controller_wf (snd (receive_phase i c))"
  by (rule wf_keep, assumption) (simp_all add: receive_phase_def Let_def same_slot_def)

lemma tail_step_silent [simp]: "tail_silent (tail_rekeyed so al x) = tail_silent x" "tail_silent (tail_released n sp x) = tail_silent x"
  by (simp_all add: tail_rekeyed_def tail_released_def)

lemma silences_observe [simp]: "silences (tails_observe so a n h sp al t) = silences t"
  by (simp add: tails_observe_def silences_def Let_def del: tail_silent_def)

lemma shape_observe: "controller_wf c \<Longrightarrow> controller_wf (observe_phase rs rp so i c)"
proof (rule wf_keep, assumption)
  have r: "shape (c\<lparr>nc_receiver := a, nc_linked := b\<rparr>) = shape c" for a b and c :: "('a, 'b, 'c, 'd) NodeController" by (simp add: shape_def)
  show "shape (observe_phase rs rp so i c) = shape c"
    by (simp add: observe_phase_def Let_def r split: option.split Source.split)
  show "same_slot (nc_telemetry c) (nc_telemetry (observe_phase rs rp so i c))"
    by (simp add: observe_phase_def Let_def same_slot_def discard_pending_parrot_def split: option.split Source.split)
qed

lemma shape_admit: "controller_wf c \<Longrightarrow> controller_wf (snd (admit_phase rs rp so i b u c))"
proof (rule wf_keep, assumption)
  have r: "shape (close_release i d) = shape d" "nc_telemetry (close_release i d) = nc_telemetry d"
    "shape (open_release i d) = shape d" "nc_telemetry (open_release i d) = nc_telemetry d" for i and d :: "('a, 'b, 'c, 'd) NodeController"
    by (simp_all add: close_release_def open_release_def shape_def split: option.split)
  show "shape (snd (admit_phase rs rp so i b u c)) = shape c"
    by (simp add: admit_phase_def Let_def expire_phase_def r)
  show "same_slot (nc_telemetry c) (nc_telemetry (snd (admit_phase rs rp so i b u c)))"
    using poll_active [of rs so "in_cells i" 1 "expire_status rs so (nc_now c) (may_transmit_in i c) (courtesy_ready_in i c) (b \<and> settled c) (nc_telemetry c)"]
    by (auto simp: admit_phase_def Let_def expire_phase_def r same_slot_def expire_status_def)
qed

lemma shape_pop [simp]: "shape (c\<lparr>nc_courtesy := snd (courtesy_pop (nc_courtesy c))\<rparr>) = shape c"
  by (simp add: shape_def)

lemma source_in_limits:
  "source_in (shape c) (Some (SrCourtesy k)) \<longleftrightarrow> k < length (cy_media (nc_courtesy c))"
  "source_in (shape c) (Some (SrIdentifier k)) \<longleftrightarrow> k < length (nc_ids c)"
  "source_in (shape c) (Some (SrAnnouncement k)) \<longleftrightarrow> k < length (nc_announcements c)"
  "source_in (shape c) (Some (SrTail k)) \<longleftrightarrow> k < length (tn_items (nc_tails c))"
  by (simp_all add: source_in_def shape_def silences_def)

lemma wf_take_courtesy:
  assumes "controller_wf c"
  shows "controller_wf (take_courtesy so c)"
proof -
  obtain index p where p: "courtesy_pop (nc_courtesy c) = (index, p)" by fastforce
  define d where "d = c\<lparr>nc_courtesy := p\<rparr>"
  have d: "shape d = shape c" using shape_pop [of c] by (simp add: d_def p)
  show ?thesis
  proof (cases "Option.bind index (\<lambda>k. map_option (\<lambda>_. k) (nth_option k (cy_media p)))")
    case None
    have "take_courtesy so c = on_telemetry (\<lambda>t. t\<lparr>tp_active := None\<rparr>) d"
      unfolding take_courtesy_def p prod.case Let_def d_def [symmetric] None option.case ..
    then show ?thesis using d by (intro wf_start [OF assms]) simp_all
  next
    case (Some k)
    let ?e = "on_media (SrCourtesy k) (playback_restart so False) d"
    have e: "take_courtesy so c = on_telemetry (\<lambda>t. t\<lparr>tp_active := Some (SrCourtesy k)\<rparr>) ?e"
      unfolding take_courtesy_def p prod.case Let_def d_def [symmetric] Some option.case ..
    from Some have "k < length (cy_media (nc_courtesy d))" by (auto simp: Option.bind_eq_Some_conv nth_option_def d_def split: if_splits)
    then have "source_in (shape c) (Some (SrCourtesy k))" using source_in_limits(1) [of d] d by simp
    moreover have "shape ?e = shape d" by (rule shape_on_media) simp
    ultimately show ?thesis using d unfolding e by (intro wf_start [OF assms]) (simp_all del: on_media.simps)
  qed
qed

lemma shape_status:
  assumes "controller_wf c"
  shows "controller_wf (snd (status_phase rs rp so i (l, c)))"
proof -
  have "controller_wf (on_telemetry (start_status rs so (in_cells i) 2) c)"
    by (intro wf_start [OF assms]) (simp_all add: start_status_def Let_def)
  moreover have "controller_wf (on_telemetry (\<lambda>t. let t1 = start_parrot rp so t in t1\<lparr>tp_active := map_option (\<lambda>_. SrParrot) (tp_parrot t1)\<rparr>) c)"
    by (intro wf_start [OF assms]) (simp_all add: Let_def)
  ultimately have "controller_wf (fill_slot rs rp so i l c)"
    using assms wf_take_courtesy [OF assms, of so] unfolding fill_slot_def by (cases "lo_courtesy_ready l"; cases "lo_status_ready l"; cases "lo_parrot_ready l") simp_all
  then show ?thesis using assms by (simp add: status_phase_def Let_def)
qed

lemma first_key_length [simp]: "length (ip_states (snd (identifier_first_key p rules a b))) = length (ip_states p)"
  by (simp add: identifier_first_key_def split: option.split)

lemma shape_select: "controller_wf c \<Longrightarrow> controller_wf (snd (select_phase i (l, c)))"
proof (rule wf_keep, assumption)
  obtain first ids where f: "identifier_first_key (nc_identifiers c) (nc_rules c) (max (nc_key_idle c) (lo_idle l)) (nc_now c) = (first, ids)" by fastforce
  have "length (ip_states ids) = length (ip_states (nc_identifiers c))"
    using first_key_length [of "nc_identifiers c" "nc_rules c" "max (nc_key_idle c) (lo_idle l)" "nc_now c"] by (simp add: f)
  then show "shape (snd (select_phase i (l, c))) = shape c"
    by (simp add: select_phase_def Let_def f shape_def split: option.split)
  show "same_slot (nc_telemetry c) (nc_telemetry (snd (select_phase i (l, c))))"
    by (simp add: select_phase_def Let_def f same_slot_def)
qed

text \<open>The one place a step can panic.\<close>

lemma tail_stream:
  assumes "controller_wf c" "k < length (tn_items (nc_tails c))"
  shows "\<not> tail_silent (tn_items (nc_tails c) ! k)"
proof -
  have "True \<notin> set (silences (nc_tails c))" using assms(1) by (simp add: controller_wf_def shape_ok_def shape_def)
  moreover have "silences (nc_tails c) ! k \<in> set (silences (nc_tails c))" using assms(2) by (simp add: silences_def)
  ultimately show ?thesis using assms(2) by (metis (full_types) nth_map silences_def)
qed

lemma preempt_ok:
  assumes "controller_wf c"
  obtains c' where "preempt_tail so i l selected c = Some c'" "controller_wf c'"
proof (cases "lo_may_transmit l \<and> selected \<noteq> None \<and> in_input i \<noteq> None")
  case True
  show thesis
  proof (cases "\<exists>k. tp_active (nc_telemetry c) = Some (SrTail k)")
    case False
    then have "preempt_tail so i l selected c = Some c" using True by (auto simp: preempt_tail_def split: option.split Source.split)
    then show thesis using assms that by blast
  next
    case tail: True
    then obtain k where k: "tp_active (nc_telemetry c) = Some (SrTail k)" by blast
    define item where "item = tn_items (nc_tails c) ! k"
    have "k < length (tn_items (nc_tails c))" using assms k source_in_limits(4) [of c] by (simp add: controller_wf_def)
    then have ne: "\<not> lacks_stream (pm_playback (tl_media (ts_tail item)))" using tail_stream [OF assms] by (simp add: item_def)
    then obtain pb where pb: "playback_rewind so (pm_playback (tl_media (ts_tail item))) = Some pb" by (auto simp: playback_rewind_def)
    show thesis
    proof (cases "ts_started item")
      case started: True
      let ?d = "on_tail k (\<lambda>t. (on_tail_media (\<lambda>_. pb) t)\<lparr>ts_suspended := True\<rparr>) c"
      have "shape ?d = shape c" using rewind_stream [OF pb] ne by (simp add: item_def del: not_None_eq)
      then have "controller_wf (on_telemetry (\<lambda>t. t\<lparr>tp_active := None\<rparr>) ?d)" by (intro wf_start [OF assms]) simp_all
      moreover have "preempt_tail so i l selected c = Some (on_telemetry (\<lambda>t. t\<lparr>tp_active := None\<rparr>) ?d)"
        using True k started pb by (simp add: preempt_tail_def Let_def item_def)
      ultimately show thesis using that by blast
    next
      case fresh: False
      let ?d = "on_tail k (on_tail_media (playback_cancel so)) c"
      have "controller_wf (on_telemetry (\<lambda>t. t\<lparr>tp_active := None\<rparr>) ?d)" by (intro wf_start [OF assms]) simp_all
      moreover have "preempt_tail so i l selected c = Some (on_telemetry (\<lambda>t. t\<lparr>tp_active := None\<rparr>) ?d)"
        using True k fresh by (simp add: preempt_tail_def Let_def item_def)
      ultimately show thesis using that by blast
    qed
  qed
next
  case False
  then have "preempt_tail so i l selected c = Some c" by (auto simp: preempt_tail_def)
  then show thesis using assms that by blast
qed

lemma shape_on_tail: "tail_silent (f (tn_items (nc_tails c) ! k)) = tail_silent (tn_items (nc_tails c) ! k) \<Longrightarrow> shape (on_tail k f c) = shape c"
  by (simp del: tail_silent_def)

lemma wf_activate: "controller_wf c \<Longrightarrow> shape d = shape c \<Longrightarrow> source_in (shape c) (Some s) \<Longrightarrow> controller_wf (on_telemetry (\<lambda>t. t\<lparr>tp_active := Some s\<rparr>) d)"
  by (rule wf_start) simp_all

lemma tails_ready_in: "tails_ready n t = Some k \<Longrightarrow> k < length (tn_items t)"
  by (auto simp: tails_ready_def dest: position_Some split: option.splits if_splits)

lemma shape_start:
  assumes "controller_wf c"
  shows "controller_wf (start_phase so i l selected c)"
proof (cases "in_input i \<noteq> None \<and> lo_may_transmit l \<and> tp_active (nc_telemetry c) = None")
  case True
  show ?thesis
  proof (cases selected)
    case (Some k)
    have "controller_wf (on_telemetry (\<lambda>t. t\<lparr>tp_active := Some (SrIdentifier k)\<rparr>) (on_identifier k (playback_restart so (receive_in i)) c))"
      if "k < length (nc_ids c)"
      by (rule wf_activate [OF assms shape_ids]) (use that in \<open>simp add: source_in_limits\<close>)
    then show ?thesis using True assms Some by (simp add: start_phase_def Let_def)
  next
    case None
    show ?thesis
    proof (cases "tails_ready (nc_now c) (nc_tails c)")
      case (Some k)
      have "shape (on_tail k (\<lambda>t. (if ts_suspended t then t else on_tail_media (playback_restart so False) t)\<lparr>ts_suspended := False\<rparr>) c) = shape c"
        by (rule shape_on_tail) simp
      from wf_activate [OF assms this, of "SrTail k"] show ?thesis using True None Some tails_ready_in [OF Some]
        by (simp add: start_phase_def Let_def source_in_limits)
    next
      case no: None
      have "controller_wf (on_telemetry (\<lambda>t. t\<lparr>tp_active := Some (SrAnnouncement k)\<rparr>)
          (on_announcement k (\<lambda>a. a\<lparr>an_release_pending := False, an_media := on_playback (playback_restart so False) (an_media a)\<rparr>) c))"
        if "k < length (nc_announcements c)" for k
        by (rule wf_activate [OF assms]) (simp add: shape_def, use that in \<open>simp add: source_in_limits\<close>)
      then show ?thesis using True None no assms by (simp add: start_phase_def Let_def split: option.split)
    qed
  qed
qed (use assms in \<open>auto simp: start_phase_def\<close>)

lemma shape_ctcss [simp]: "shape (ctcss_phase i l c) = shape c" "nc_telemetry (ctcss_phase i l c) = nc_telemetry c"
  by (simp_all add: ctcss_phase_def shape_def)

lemma render_streamD: "playback_render so r out p = (n, out', p') \<Longrightarrow> lacks_stream p' = lacks_stream p"
  by (metis render_stream snd_conv)

lemma shape_render: "controller_wf c \<Longrightarrow> controller_wf (snd (render_phase fo rs rp so i l c))"
proof (rule wf_keep, assumption)
  define d where "d = ctcss_phase i l c"
  have d: "shape d = shape c" "nc_telemetry d = nc_telemetry c" by (simp_all add: d_def)
  have keep: "shape (on_media s (\<lambda>_. p) d) = shape d" if "media_of d (Some s) = Some m" "lacks_stream p = lacks_stream (pm_playback m)" for s p m
    by (rule shape_on_media) (use that in simp)
  have lost: "lacks_stream (if b then playback_cancel so p else p) = lacks_stream p" for b p by simp
  show "shape (snd (render_phase fo rs rp so i l c)) = shape c"
  proof (cases "tp_active (nc_telemetry c)")
    case (Some s)
    show ?thesis
    proof (cases "media_of d (Some s)")
      case None
      then show ?thesis using Some d by (simp add: render_phase_def Let_def d_def [symmetric])
    next
      case m: (Some m)
      note k = keep [OF m]
      show ?thesis
        unfolding render_phase_def Let_def d_def [symmetric] d(2) Some option.case m
        by (auto simp: d lost k simp del: not_None_eq dest!: render_streamD split: prod.splits if_splits)
    qed
  qed (simp add: render_phase_def Let_def d_def [symmetric] d)
  show "same_slot (nc_telemetry c) (nc_telemetry (snd (render_phase fo rs rp so i l c)))"
    by (auto simp: render_phase_def Let_def same_slot_def split: option.split prod.split)
qed

lemma shape_settle: "controller_wf c \<Longrightarrow> controller_wf (settle_phase r c)"
proof (rule wf_keep, assumption)
  have p: "shape (d\<lparr>nc_release_pending := b\<rparr>) = shape d" for b and d :: "('a, 'b, 'c, 'd) NodeController" by (simp add: shape_def)
  show "shape (settle_phase r c) = shape c" "same_slot (nc_telemetry c) (nc_telemetry (settle_phase r c))"
    by (simp_all add: settle_phase_def Let_def p same_slot_def split: option.split Source.split)
qed

lemma shape_watchdog: "controller_wf c \<Longrightarrow> controller_wf (watchdog_phase i l r c)"
  by (rule wf_keep, assumption) (simp_all add: watchdog_phase_def shape_def Let_def same_slot_def split: prod.split)

lemma update_first_map: "(\<And>x. f (g x) = f x) \<Longrightarrow> map f (update_first P g xs) = map f xs"
  by (induction xs) simp_all

lemma silences_unkeyed [simp]: "silences (tails_unkeyed n t) = silences t"
  by (simp add: tails_unkeyed_def silences_def update_first_map)

lemma shape_key_steps [simp]:
  "shape (mark_audio i l r b c) = shape c" "nc_telemetry (mark_audio i l r b c) = nc_telemetry c"
  "shape (apply_key k c) = shape c" "nc_telemetry (apply_key k c) = nc_telemetry c"
  "shape (arm_releases l r c) = shape c" "nc_telemetry (arm_releases l r c) = nc_telemetry c"
  by (simp_all add: mark_audio_def apply_key_def arm_releases_def shape_def Let_def)

lemma shape_key: "controller_wf c \<Longrightarrow> controller_wf (key_phase i l r b c)"
  by (rule wf_keep, assumption) (simp_all add: key_phase_def Let_def same_slot_def)

lemma shape_mix: "controller_wf c \<Longrightarrow> controller_wf (snd (mix_phase fo i l r reply c))"
  by (rule wf_keep, assumption) (simp_all add: mix_phase_def Let_def same_slot_def shape_def)

lemma shape_notice_steps [simp]:
  "shape (notice_audible n c) = shape c" "nc_telemetry (notice_audible n c) = nc_telemetry c"
  "shape (notice_key b n k c) = shape c" "nc_telemetry (notice_key b n k c) = nc_telemetry c"
  "shape (c\<lparr>nc_timeout := t\<rparr>) = shape c" "shape (c\<lparr>nc_timeout_media := m\<rparr>) = shape c"
  by (simp_all add: notice_audible_def notice_key_def shape_def Let_def)

lemma shape_play_notice:
  "play_notice fo so a b x second c = (n, v, k, c') \<Longrightarrow> shape c' = shape c \<and> nc_telemetry c' = nc_telemetry c"
  by (auto simp: play_notice_def Let_def split: option.splits prod.splits if_splits)

lemma shape_notice:
  assumes "notice_phase fo so a b x c = (n, v, k, c')"
  shows "shape c' = shape c \<and> nc_telemetry c' = nc_telemetry c"
  using assms by (auto simp: notice_phase_def Let_def dest!: shape_play_notice split: option.splits if_splits)

lemma shape_timeout_sample: "controller_wf c \<Longrightarrow> controller_wf (snd (timeout_sample fo so a b x y c))"
  by (rule wf_keep, assumption) (auto simp: timeout_sample_def same_slot_def dest: shape_notice split: prod.split)

lemma shape_begin_timeout: "controller_wf c \<Longrightarrow> controller_wf (begin_timeout so c)"
proof (rule wf_keep, assumption)
  have z: "shape (d\<lparr>nc_duplex := p, nc_traffic_keyed := a, nc_exempt_release := b, nc_release_pending := e, nc_release_hang := h\<rparr>) = shape d"
    for p a b e h and d :: "('a, 'b, 'c, 'd) NodeController" by (simp add: shape_def)
  show "shape (begin_timeout so c) = shape c"
    by (simp add: begin_timeout_def Let_def z shape_on_media split: option.split)
  show "same_slot (nc_telemetry c) (nc_telemetry (begin_timeout so c))"
    by (simp add: begin_timeout_def Let_def same_slot_def split: option.split)
qed

section \<open>Steps are total\<close>

lemma program_step_total:
  assumes "controller_wf c"
  obtains out c' where "program_step fo rs rp so i b u c = Some (out, c')" "controller_wf c'"
proof -
  obtain l c1 where a: "status_phase rs rp so i (admit_phase rs rp so i b u c) = (l, c1)" by fastforce
  obtain l0 c0 where a0: "admit_phase rs rp so i b u c = (l0, c0)" by fastforce
  obtain selected c2 where s: "select_phase i (l, c1) = (selected, c2)" by fastforce
  have c1: "controller_wf c1" using shape_status [OF shape_admit [OF assms, of rs rp so i b u], of rs rp so i l0] a by (simp add: a0)
  have "controller_wf c2" using shape_select [OF c1, of i l] s by simp
  from preempt_ok [OF this, of so i l selected] obtain c3 where p: "preempt_tail so i l selected c2 = Some c3" and c3: "controller_wf c3" by blast
  define c4 where "c4 = start_phase so i l selected c3"
  obtain r c5 where e: "render_phase fo rs rp so i l c4 = (r, c5)" by fastforce
  define c7 where "c7 = watchdog_phase i l r (settle_phase r c5)"
  have c4: "controller_wf c4" unfolding c4_def by (rule shape_start [OF c3])
  have "controller_wf c5" using shape_render [OF c4, of fo rs rp so i l] by (simp add: e)
  then have c7: "controller_wf c7" unfolding c7_def by (intro shape_watchdog shape_settle)
  note wf = shape_timeout_sample [OF shape_begin_timeout [OF c7]] shape_mix [OF shape_key [OF c7]]
  define reply where "reply = (if lo_peer_status l
    then map_option (\<lambda>p. (ce_peer_identity (in_cells i) p, ce_peer_active (in_cells i) 2 p)) (status_peer (nc_telemetry c4)) else None)"
  have step: "program_step fo rs rp so i b u c = (if timeout_blocked (nc_timeout c7)
       then Some (timeout_sample fo so (receive_in i \<or> in_source_activity i) (lo_inhibited l) (in_input i) (in_output i) (begin_timeout so c7))
       else Some (mix_phase fo i l r reply (key_phase i l r (settle_phase r c5) c7)))"
    unfolding program_step_def a prod.case s p bind.bind_lunit Let_def c4_def [symmetric] e c7_def [symmetric] reply_def [symmetric] ..
  define end1 where "end1 = (if timeout_blocked (nc_timeout c7)
       then timeout_sample fo so (receive_in i \<or> in_source_activity i) (lo_inhibited l) (in_input i) (in_output i) (begin_timeout so c7)
       else mix_phase fo i l r reply (key_phase i l r (settle_phase r c5) c7))"
  have "program_step fo rs rp so i b u c = Some (fst end1, snd end1)" "controller_wf (snd end1)"
    by (simp_all add: step end1_def wf)
  then show thesis by (rule that)
qed

lemma prepare_wf: "controller_wf c \<Longrightarrow> controller_wf (snd (snd (prepare_step rs rp so i c)))"
  using shape_observe [OF shape_receive [OF shape_hold [OF shape_cancel]], of c rs rp so i i rs so i rs rp so i]
  by (simp add: prepare_step_def case_prod_beta)

lemma controller_step_total:
  assumes "controller_wf c"
  obtains out c' where "controller_step fo rs rp so i c = Some (out, c')" "controller_wf c'"
proof -
  obtain b u c1 where p: "prepare_step rs rp so i c = (b, u, c1)" by (metis prod_cases3)
  have c1: "controller_wf c1" using prepare_wf [OF assms, of rs rp so i] by (simp add: p)
  show thesis
  proof (cases "timeout_blocked (nc_timeout c1)")
    case True
    define end1 where "end1 = timeout_sample fo so (receive_in i \<or> in_source_activity i) (ce_site_inhibit (in_cells i)) (in_input i) (in_output i) c1"
    have "controller_step fo rs rp so i c = Some (fst end1, snd end1)" "controller_wf (snd end1)"
      using shape_timeout_sample [OF c1] True by (simp_all add: controller_step_def p end1_def)
    then show thesis by (rule that)
  next
    case False
    then have "controller_step fo rs rp so i c = program_step fo rs rp so i b u c1" by (simp add: controller_step_def p)
    with program_step_total [OF c1, of fo rs rp so i b u] show thesis using that by metis
  qed
qed

lemma block_steps_total:
  "controller_wf c \<Longrightarrow> \<exists>outs c'. block_steps fo rs rp so is c = Some (outs, c') \<and> length outs = length is \<and> controller_wf c'"
proof (induction "is" arbitrary: c)
  case (Cons i "is")
  obtain out c1 where s: "controller_step fo rs rp so i c = Some (out, c1)" and w: "controller_wf c1"
    by (rule controller_step_total [OF Cons.prems])
  have "controller_wf (c1\<lparr>nc_now := sat_add (nc_now c1) 1\<rparr>)" by (rule wf_keep [OF w]) (simp_all add: shape_def same_slot_def)
  from Cons.IH [OF this] show ?case by (auto simp: s)
qed simp

lemma disable_wf: "controller_wf c \<Longrightarrow> controller_wf (apply_parrot_disable rp e c)"
  by (rule wf_keep, assumption)
    (auto simp: apply_parrot_disable_def Let_def shape_def same_slot_def disable_parrot_def discard_pending_parrot_def finish_parrot_def split: option.split)

lemma begin_block_wf: "controller_wf c \<Longrightarrow> controller_wf (begin_block rp e a c)"
  by (rule wf_keep [OF disable_wf]) (auto simp: begin_block_def Let_def shape_def same_slot_def)

lemma controller_new_wf: "controller_new fo ring m d g settings ids anns courtesy = Inr c \<Longrightarrow> controller_wf c"
  by (auto simp: controller_new_def Let_def controller_wf_def shape_ok_def shape_def planner_new_def silences_def tails_default_def
      identifier_new_def split: if_splits)

lemma set_tails_wf:
  assumes "set_tails tails c = Inr c'" and "controller_wf c" and "tp_active (nc_telemetry c) = None"
    and "list_all (\<lambda>t. \<not> lacks_stream (pm_playback (tl_media t))) tails"
  shows "controller_wf c'"
proof -
  obtain t where t: "tails_new tails = Inr t" and c': "c' = c\<lparr>nc_tails := t\<rparr>"
    using assms(1) by (auto simp: set_tails_def split: sum.splits)
  have "True \<notin> set (silences t)" using t assms(4)
    by (auto simp: tails_new_def silences_def tails_default_def list_all_iff split: if_splits)
  then show ?thesis using assms(2,3) by (simp add: controller_wf_def shape_ok_def shape_def c')
qed

section \<open>Runs\<close>

text \<open>What happens to a controller between its construction and its end: blocks of audio, events of the links, the mode of
  a remote base, and media that the control thread queues (a full ring refuses them).\<close>

datatype ('s, 'p, 'f) ControllerEvent =
  EvBlock bool bool bool bool "'f list" "'f list" bool "nat \<Rightarrow> 'f ProgramInput option" "nat \<Rightarrow> 'p Cells"
| EvLinkKeyed string
| EvLinkUnkeyed string string bool
| EvRemote bool bool bool
| EvStatus "('s, 'p) PreparedMedia"
| EvParrot "('s, 'p) PreparedMedia"

fun controller_event ::
    "'f FloatOps \<Rightarrow> ('s, 'p, 'q) media_ring \<Rightarrow> ('s, 'p, 'q) media_ring \<Rightarrow> ('s, 'f) StreamOps \<Rightarrow> ('s, 'p, 'f) ControllerEvent
       \<Rightarrow> ('s, 'p, 'q, 'f) NodeController \<Rightarrow> ('f StepOutput list \<times> ('s, 'p, 'q, 'f) NodeController) option" where
  "controller_event fo rs rp so (EvBlock enabled receiving linked activity link_audio audio sized outputs cells) c =
     map_option snd (process_audio fo rs rp so enabled receiving linked activity link_audio audio sized outputs cells c)"
| "controller_event fo rs rp so (EvLinkKeyed direct) c = Some ([], link_keyed direct c)"
| "controller_event fo rs rp so (EvLinkUnkeyed direct selected kerchunk) c = Some ([], link_unkeyed direct selected kerchunk c)"
| "controller_event fo rs rp so (EvRemote non_fm unqualified nonlocal) c =
     Some ([], set_nonlocal_source_activity nonlocal (set_remote_unqualified_open unqualified (set_remote_non_fm non_fm c)))"
| "controller_event fo rs rp so (EvStatus m) c = Some ([], on_telemetry (\<lambda>t. t\<lparr>tp_pending := ignore_push rs (tp_pending t) (Some m)\<rparr>) c)"
| "controller_event fo rs rp so (EvParrot m) c = Some ([], on_telemetry (\<lambda>t. t\<lparr>tp_parrot_pending := ignore_push rp (tp_parrot_pending t) (Some m)\<rparr>) c)"

fun controller_run ::
    "'f FloatOps \<Rightarrow> ('s, 'p, 'q) media_ring \<Rightarrow> ('s, 'p, 'q) media_ring \<Rightarrow> ('s, 'f) StreamOps \<Rightarrow> ('s, 'p, 'f) ControllerEvent list
       \<Rightarrow> ('s, 'p, 'q, 'f) NodeController \<Rightarrow> (nat \<times> ('s, 'p, 'q, 'f) NodeController) option" where
  "controller_run fo rs rp so [] c = Some (0, c)"
| "controller_run fo rs rp so (e # es) c =
     Option.bind (controller_event fo rs rp so e c) (\<lambda>(outs, c1).
       map_option (\<lambda>(n, c2). (length outs + n, c2)) (controller_run fo rs rp so es c1))"

text \<open>The samples an event yields.\<close>

fun event_samples :: "('s, 'p, 'f) ControllerEvent \<Rightarrow> nat" where
  "event_samples (EvBlock _ _ _ _ _ audio sized _ _) = (if sized then length audio else 0)"
| "event_samples _ = 0"

lemma process_audio_total:
  assumes "controller_wf c"
  shows "\<exists>k outs c'. process_audio fo rs rp so pe re li ac la audio sized outputs cells c = Some (k, outs, c') \<and> length outs = (if sized then length audio else 0) \<and> controller_wf c'"
proof (cases "audio = [] \<or> \<not> sized")
  case True
  obtain out c' where "controller_step fo rs rp so \<lparr>in_receiving = re, in_linked = li, in_source_activity = ac, in_input = None,
      in_link_sample = fo_zero fo, in_output = None, in_cells = cells 0\<rparr> (begin_block rp pe ac (apply_parrot_disable rp pe c)) = Some (out, c')" "controller_wf c'"
    by (rule controller_step_total [OF begin_block_wf [OF disable_wf [OF assms]]])
  then show ?thesis using True by (auto simp: process_audio_def process_event_def)
next
  case False
  have k: "controller_wf (d\<lparr>nc_activity := a\<rparr>)" if "controller_wf d" for d a
    by (rule wf_keep [OF that]) (simp_all add: shape_def same_slot_def)
  define steps where "steps = map (\<lambda>k. \<lparr>in_receiving = re, in_linked = li, in_source_activity = ac, in_input = Some (audio ! k),
      in_link_sample = (if k < length la then la ! k else fo_zero fo), in_output = outputs k, in_cells = cells k\<rparr>) [0..<length audio]"
  obtain outs c' where b: "block_steps fo rs rp so steps (begin_block rp pe ac c) = Some (outs, c')" "length outs = length steps" "controller_wf c'"
    using block_steps_total [OF begin_block_wf [OF assms]] by blast
  then show ?thesis using False k by (simp add: process_audio_def steps_def)
qed

lemma controller_event_total:
  assumes "controller_wf c"
  shows "\<exists>outs c'. controller_event fo rs rp so e c = Some (outs, c') \<and> length outs = event_samples e \<and> controller_wf c'"
proof (cases e)
  case (EvBlock pe re li ac la audio sized outputs cells)
  then show ?thesis using process_audio_total [OF assms, of fo rs rp so pe re li ac la audio sized outputs cells] by auto
qed (auto intro!: wf_keep [OF assms] simp: same_slot_def shape_def link_keyed_def link_unkeyed_def receive_unkeyed_def set_remote_non_fm_def
    set_remote_unqualified_open_def set_nonlocal_source_activity_def Let_def)


text \<open>A full-duplex node with a transmit limit of one millisecond and one tail.\<close>

definition nat_ops :: "nat FloatOps" where
  "nat_ops = \<lparr>fo_zero = 0, fo_one = 1, fo_duck_step = 0, fo_release_step = 0, fo_add = (+), fo_sub = (-), fo_mul = (*), fo_max = max,
     fo_min = min, fo_greater = (>), fo_clamp = min 1000\<rparr>"

definition plain_settings :: ControllerSettings where
  "plain_settings = \<lparr>se_full_duplex = True, se_hang_ms = 100, se_ctcss_encode_on_input = False, se_ctcss_hang_ms = 0,
     se_transmit_timeout_ms = 1, se_kerchunk_max_ms = 0, se_courtesy_delay_ms = 0\<rparr>"

definition plain_controller :: "(nat, nat, (nat, nat) PreparedMedia list, nat) NodeController" where
  "plain_controller = projr (controller_new nat_ops (\<lambda>_. []) True True 1 plain_settings [] [] \<lparr>cs_receiver = None, cs_link = None, cs_peers = []\<rparr>)"

lemma plain_valid: "\<not> settings_invalid True True plain_settings [] [] \<lparr>cs_receiver = None, cs_link = None, cs_peers = []\<rparr>"
  by (simp add: settings_invalid_def plain_settings_def max_ms_def)

lemma plain_new: "controller_new nat_ops (\<lambda>_. []) True True 1 plain_settings [] [] \<lparr>cs_receiver = None, cs_link = None, cs_peers = []\<rparr> = Inr plain_controller"
  by (simp add: plain_controller_def controller_new_def Let_def plain_valid)

lemma plain_fields [simp]:
  "nc_settings plain_controller = plain_settings" "nc_receiver plain_controller = False" "nc_now plain_controller = 0"
  "nc_timeout plain_controller = timeout_default" "nc_remote_non_fm plain_controller = False"
  by (simp_all add: plain_controller_def controller_new_def Let_def plain_valid)

lemma plain_wf: "controller_wf plain_controller"
  by (rule controller_new_wf [OF plain_new])


end
