(* ===== verification/Controller_Props.thy ===== *)
theory Controller_Props
  imports Controller_Shape
begin

text \<open>Properties of the node controller: what each phase leaves alone, and what follows for the transmitter.\<close>

section \<open>What the phases leave alone\<close>

text \<open>The values the transmit decision depends on besides the planners.\<close>

definition core ::
    "('s, 'p, 'q, 'f) NodeController \<Rightarrow> u64 \<times> ControllerSettings \<times> bool \<times> bool \<times> DuplexPolicy \<times> bool \<times> u64 \<times> u64" where
  "core c = (nc_now c, nc_settings c, nc_traffic_keyed c, nc_remote_non_fm c, nc_duplex c, nc_exempt_release c, nc_last_audio c, nc_release_hang c)"

lemma core_on_media [simp]: "core (on_media s f c) = core c" "nc_timeout (on_media s f c) = nc_timeout c"
  "nc_receiver (on_media s f c) = nc_receiver c"
  by (cases s; simp add: core_def)+

lemma core_satisfy [simp]: "core (satisfy_identifier k c) = core c" "nc_timeout (satisfy_identifier k c) = nc_timeout c"
  "nc_receiver (satisfy_identifier k c) = nc_receiver c"
  by (simp_all add: satisfy_identifier_def core_def)

lemma core_complete_status [simp]: "core (complete_status rs so o1 c) = core c" "nc_timeout (complete_status rs so o1 c) = nc_timeout c"
  "nc_receiver (complete_status rs so o1 c) = nc_receiver c"
  by (simp_all add: complete_status_def Let_def core_def satisfy_identifier_def split: option.split)

lemma core_complete [simp]: "core (complete_playback rs rp so s o1 c) = core c"
  "nc_timeout (complete_playback rs rp so s o1 c) = nc_timeout c" "nc_receiver (complete_playback rs rp so s o1 c) = nc_receiver c"
proof -
  show "core (complete_playback rs rp so s o1 c) = core c"
    by (cases "(rs, rp, so, s, o1, c)" rule: complete_playback.cases) (simp_all, simp_all add: core_def)
  show "nc_timeout (complete_playback rs rp so s o1 c) = nc_timeout c"
    by (cases "(rs, rp, so, s, o1, c)" rule: complete_playback.cases) simp_all
  show "nc_receiver (complete_playback rs rp so s o1 c) = nc_receiver c"
    by (cases "(rs, rp, so, s, o1, c)" rule: complete_playback.cases) simp_all
qed

lemma core_telemetry [simp]: "core (c\<lparr>nc_telemetry := t\<rparr>) = core c"
  by (simp add: core_def)

lemma core_cancel [simp]: "core (cancel_phase rs rp so i c) = core c" "nc_timeout (cancel_phase rs rp so i c) = nc_timeout c"
  "nc_receiver (cancel_phase rs rp so i c) = nc_receiver c"
  by (simp_all add: cancel_phase_def Let_def split: option.split)

lemma core_hold [simp]: "core (snd (hold_phase rs so i c)) = core c" "nc_timeout (snd (hold_phase rs so i c)) = nc_timeout c"
  "nc_receiver (snd (hold_phase rs so i c)) = nc_receiver c"
  by (simp_all add: hold_phase_def Let_def split: option.split)

lemma core_observe [simp]: "core (observe_phase rs rp so i c) = core c" "nc_timeout (observe_phase rs rp so i c) = nc_timeout c"
  "nc_receiver (observe_phase rs rp so i c) = in_receiving i"
  by (simp_all add: observe_phase_def Let_def core_def split: option.split Source.split)

lemma core_admission [simp]:
  "core (expire_phase rs so i b c) = core c" "nc_timeout (expire_phase rs so i b c) = nc_timeout c" "nc_receiver (expire_phase rs so i b c) = nc_receiver c"
  "core (close_release i c) = core c" "nc_timeout (close_release i c) = nc_timeout c" "nc_receiver (close_release i c) = nc_receiver c"
  "core (open_release i c) = core c" "nc_timeout (open_release i c) = nc_timeout c" "nc_receiver (open_release i c) = nc_receiver c"
  by (simp_all add: expire_phase_def)
    (simp_all add: close_release_def open_release_def core_def split: option.split)

lemma core_admit [simp]: "core (snd (admit_phase rs rp so i b u c)) = core c" "nc_timeout (snd (admit_phase rs rp so i b u c)) = nc_timeout c"
  "nc_receiver (snd (admit_phase rs rp so i b u c)) = nc_receiver c"
  by (simp_all add: admit_phase_def Let_def)

lemma core_fill [simp]: "core (fill_slot rs rp so i l c) = core c" "nc_timeout (fill_slot rs rp so i l c) = nc_timeout c"
  "nc_receiver (fill_slot rs rp so i l c) = nc_receiver c"
  by (simp_all add: fill_slot_def take_courtesy_def Let_def courtesy_pop_def core_def split: option.split)

lemma core_status [simp]: "core (snd (status_phase rs rp so i lc)) = core (snd lc)" "nc_timeout (snd (status_phase rs rp so i lc)) = nc_timeout (snd lc)"
  "nc_receiver (snd (status_phase rs rp so i lc)) = nc_receiver (snd lc)"
  by (cases lc; simp add: status_phase_def Let_def)+

lemma core_select [simp]: "core (snd (select_phase i lc)) = core (snd lc)" "nc_timeout (snd (select_phase i lc)) = nc_timeout (snd lc)"
  "nc_receiver (snd (select_phase i lc)) = nc_receiver (snd lc)"
  by (cases lc; simp add: select_phase_def Let_def core_def split: prod.split)+

lemma core_preempt: "preempt_tail so i l k c = Some c' \<Longrightarrow> core c' = core c \<and> nc_timeout c' = nc_timeout c \<and> nc_receiver c' = nc_receiver c"
  by (auto simp: preempt_tail_def Let_def core_def split: if_splits option.splits Source.splits)

lemma core_start [simp]: "core (start_phase so i l k c) = core c" "nc_timeout (start_phase so i l k c) = nc_timeout c"
  "nc_receiver (start_phase so i l k c) = nc_receiver c"
  by (simp_all add: start_phase_def Let_def core_def split: option.split)

lemma core_render [simp]: "core (snd (render_phase fo rs rp so i l c)) = core c" "nc_timeout (snd (render_phase fo rs rp so i l c)) = nc_timeout c"
  "nc_receiver (snd (render_phase fo rs rp so i l c)) = nc_receiver c"
proof -
  have ct: "core (ctcss_phase i l c) = core c" "nc_timeout (ctcss_phase i l c) = nc_timeout c" "nc_receiver (ctcss_phase i l c) = nc_receiver c"
    by (simp_all add: ctcss_phase_def core_def)
  show "core (snd (render_phase fo rs rp so i l c)) = core c" "nc_timeout (snd (render_phase fo rs rp so i l c)) = nc_timeout c"
    "nc_receiver (snd (render_phase fo rs rp so i l c)) = nc_receiver c"
    by (simp_all add: render_phase_def Let_def ct split: option.split prod.split)
qed

lemma core_settle [simp]: "core (settle_phase r c) = core c" "nc_timeout (settle_phase r c) = nc_timeout c" "nc_receiver (settle_phase r c) = nc_receiver c"
  by (simp_all add: settle_phase_def Let_def core_def split: option.split Source.split)


lemma receive_frames [simp]:
  "nc_now (receive_active u c) = nc_now c" "nc_settings (receive_active u c) = nc_settings c"
  "nc_traffic_keyed (receive_active u c) = nc_traffic_keyed c" "nc_remote_non_fm (receive_active u c) = nc_remote_non_fm c"
  "nc_timeout (receive_active u c) = nc_timeout c" "nc_receiver (receive_active u c) = nc_receiver c"
  "nc_now (local_keyed c) = nc_now c" "nc_settings (local_keyed c) = nc_settings c"
  "nc_traffic_keyed (local_keyed c) = nc_traffic_keyed c" "nc_remote_non_fm (local_keyed c) = nc_remote_non_fm c"
  "nc_timeout (local_keyed c) = nc_timeout c" "nc_receiver (local_keyed c) = nc_receiver c"
  "nc_now (suppress_final_release c) = nc_now c" "nc_settings (suppress_final_release c) = nc_settings c"
  "nc_traffic_keyed (suppress_final_release c) = nc_traffic_keyed c" "nc_remote_non_fm (suppress_final_release c) = nc_remote_non_fm c"
  "nc_timeout (suppress_final_release c) = nc_timeout c"
  by (simp_all add: receive_active_def local_keyed_def suppress_final_release_def Let_def)

lemma local_unkeyed_frames [simp]:
  "nc_now (local_unkeyed c) = nc_now c" "nc_settings (local_unkeyed c) = nc_settings c"
  "nc_traffic_keyed (local_unkeyed c) = nc_traffic_keyed c" "nc_remote_non_fm (local_unkeyed c) = nc_remote_non_fm c"
  "nc_timeout (local_unkeyed c) = (nc_timeout c)\<lparr>to_key := nc_now c\<rparr>" "nc_receiver (local_unkeyed c) = nc_receiver c"
  by (simp_all add: local_unkeyed_def receive_unkeyed_def timeout_unkey_def Let_def)

lemma receive_phase_keeps:
  "nc_now (snd (receive_phase i c)) = nc_now c" "nc_settings (snd (receive_phase i c)) = nc_settings c"
  "nc_traffic_keyed (snd (receive_phase i c)) = nc_traffic_keyed c" "nc_remote_non_fm (snd (receive_phase i c)) = nc_remote_non_fm c"
  "nc_timeout (snd (receive_phase i c)) = (if \<not> in_receiving i \<and> nc_receiver c then (nc_timeout c)\<lparr>to_key := nc_now c\<rparr> else nc_timeout c)"
  by (simp_all add: receive_phase_def Let_def)

lemma core_fields:
  assumes "core c = core c'"
  shows "nc_now c = nc_now c'" "nc_settings c = nc_settings c'" "nc_traffic_keyed c = nc_traffic_keyed c'"
    "nc_remote_non_fm c = nc_remote_non_fm c'" "transmits_during_receive c = transmits_during_receive c'"
  using assms by (simp_all add: core_def transmits_during_receive_def)

lemma prepare_step_keeps:
  assumes "prepare_step rs rp so i c = (status_idle, idle, c')"
  shows "nc_now c' = nc_now c" "nc_settings c' = nc_settings c" "nc_traffic_keyed c' = nc_traffic_keyed c"
    "nc_remote_non_fm c' = nc_remote_non_fm c" "transmits_during_receive c' = transmits_during_receive c"
    "nc_timeout c' = (if \<not> in_receiving i \<and> nc_receiver c then (nc_timeout c)\<lparr>to_key := nc_now c\<rparr> else nc_timeout c)"
    "nc_receiver c' = in_receiving i"
proof -
  define c1 where "c1 = snd (hold_phase rs so i (cancel_phase rs rp so i c))"
  have c1: "core c1 = core c" "nc_timeout c1 = nc_timeout c" "nc_receiver c1 = nc_receiver c" by (simp_all add: c1_def)
  have c': "c' = observe_phase rs rp so i (snd (receive_phase i c1))"
    using assms by (auto simp: prepare_step_def c1_def split: prod.splits)
  have "core c' = core (snd (receive_phase i c1))" by (simp add: c')
  note f = core_fields [OF this, unfolded receive_phase_keeps] core_fields [OF c1(1)]
  show "nc_now c' = nc_now c" "nc_settings c' = nc_settings c" "nc_traffic_keyed c' = nc_traffic_keyed c"
    "nc_remote_non_fm c' = nc_remote_non_fm c" using f by simp_all
  then show "transmits_during_receive c' = transmits_during_receive c" by (simp add: transmits_during_receive_def)
  show "nc_timeout c' = (if \<not> in_receiving i \<and> nc_receiver c then (nc_timeout c)\<lparr>to_key := nc_now c\<rparr> else nc_timeout c)"
    using c1 f by (simp add: c' receive_phase_keeps)
  show "nc_receiver c' = in_receiving i" by (simp add: c')
qed

lemma status_phase_locals:
  "lo_inhibited (fst (status_phase rs rp so i lc)) = lo_inhibited (fst lc)"
  "lo_may_transmit (fst (status_phase rs rp so i lc)) = lo_may_transmit (fst lc)"
  by (cases lc; simp add: status_phase_def Let_def)+

lemma admit_phase_locals:
  "lo_inhibited (fst (admit_phase rs rp so i b u c)) = ce_site_inhibit (in_cells i)"
  "lo_may_transmit (fst (admit_phase rs rp so i b u c)) = (\<not> ce_site_inhibit (in_cells i) \<and> (transmits_during_receive c \<or> \<not> in_receiving i))"
proof -
  have "transmits_during_receive (expire_phase rs so i b c) = transmits_during_receive c"
    by (rule core_fields) simp
  then show "lo_may_transmit (fst (admit_phase rs rp so i b u c)) = (\<not> ce_site_inhibit (in_cells i) \<and> (transmits_during_receive c \<or> \<not> in_receiving i))"
    by (simp add: admit_phase_def Let_def locals_of_def may_transmit_in_def)
qed (simp add: admit_phase_def Let_def locals_of_def)

text \<open>The outcome of a step that is not in the watchdog's notices, in terms of the state its decision is taken in.\<close>

lemma program_decides:
  assumes "program_step fo rs rp so i status_idle idle c = Some (out, c')"
  obtains l r reply c6 where "core c6 = core c" "nc_timeout c6 = nc_timeout c" "nc_receiver c6 = nc_receiver c"
    "lo_inhibited l = ce_site_inhibit (in_cells i)"
    "lo_may_transmit l = (\<not> ce_site_inhibit (in_cells i) \<and> (transmits_during_receive c \<or> \<not> in_receiving i))"
    "(out, c') = (if timeout_blocked (nc_timeout (watchdog_phase i l r c6))
       then timeout_sample fo so (receive_in i \<or> in_source_activity i) (lo_inhibited l) (in_input i) (in_output i) (begin_timeout so (watchdog_phase i l r c6))
       else mix_phase fo i l r reply (key_phase i l r c6 (watchdog_phase i l r c6)))"
proof -
  obtain l c1 where a: "status_phase rs rp so i (admit_phase rs rp so i status_idle idle c) = (l, c1)" by fastforce
  obtain selected c2 where b: "select_phase i (l, c1) = (selected, c2)" by fastforce
  obtain c3 where d: "preempt_tail so i l selected c2 = Some c3"
    using assms by (auto simp: program_step_def a b Option.bind_eq_Some_conv)
  define c4 where "c4 = start_phase so i l selected c3"
  obtain r c5 where e: "render_phase fo rs rp so i l c4 = (r, c5)" by fastforce
  define c6 where "c6 = settle_phase r c5"
  have "core c1 = core c \<and> nc_timeout c1 = nc_timeout c \<and> nc_receiver c1 = nc_receiver c"
    using core_status [of rs rp so i "admit_phase rs rp so i status_idle idle c"] a by simp
  moreover have "core c2 = core c1 \<and> nc_timeout c2 = nc_timeout c1 \<and> nc_receiver c2 = nc_receiver c1"
    using core_select [of i "(l, c1)"] b by simp
  moreover note core_preempt [OF d]
  moreover have "core c5 = core c4 \<and> nc_timeout c5 = nc_timeout c4 \<and> nc_receiver c5 = nc_receiver c4"
    using core_render [of fo rs rp so i l c4] unfolding e by simp
  ultimately have frame: "core c6 = core c" "nc_timeout c6 = nc_timeout c" "nc_receiver c6 = nc_receiver c"
    by (simp_all add: c6_def c4_def)
  have "lo_inhibited l = ce_site_inhibit (in_cells i)"
    "lo_may_transmit l = (\<not> ce_site_inhibit (in_cells i) \<and> (transmits_during_receive c \<or> \<not> in_receiving i))"
    using status_phase_locals [of rs rp so i "admit_phase rs rp so i status_idle idle c"] a by (simp_all add: admit_phase_locals)
  note locals = this
  define reply where "reply = (if lo_peer_status l
    then map_option (\<lambda>p. (ce_peer_identity (in_cells i) p, ce_peer_active (in_cells i) 2 p)) (status_peer (nc_telemetry c4)) else None)"
  have step: "(if timeout_blocked (nc_timeout (watchdog_phase i l r c6))
       then Some (timeout_sample fo so (receive_in i \<or> in_source_activity i) (lo_inhibited l) (in_input i) (in_output i) (begin_timeout so (watchdog_phase i l r c6)))
       else Some (mix_phase fo i l r reply (key_phase i l r c6 (watchdog_phase i l r c6)))) = Some (out, c')"
    using assms unfolding program_step_def a prod.case b d bind.bind_lunit Let_def c4_def [symmetric] e c6_def [symmetric] reply_def [symmetric] .
  show thesis by (rule that [OF frame locals, of r reply]) (use step in \<open>simp split: if_splits\<close>)
qed

section \<open>The decision\<close>

lemma watchdog_fields [simp]:
  "nc_now (watchdog_phase i l r c) = nc_now c" "nc_settings (watchdog_phase i l r c) = nc_settings c"
  "nc_receiver (watchdog_phase i l r c) = nc_receiver c"
  by (simp_all add: watchdog_phase_def Let_def split: prod.split)

lemma key_frames [simp]:
  "nc_traffic_keyed (mark_audio i l r b c) = nc_traffic_keyed c" "nc_timeout (mark_audio i l r b c) = nc_timeout c"
  "nc_now (mark_audio i l r b c) = nc_now c" "nc_settings (mark_audio i l r b c) = nc_settings c" "nc_receiver (mark_audio i l r b c) = nc_receiver c"
  "nc_traffic_keyed (apply_key k c) = nc_traffic_keyed c" "nc_timeout (apply_key k c) = nc_timeout c"
  "nc_now (apply_key k c) = nc_now c" "nc_settings (apply_key k c) = nc_settings c" "nc_receiver (apply_key k c) = nc_receiver c"
  "nc_keyed (apply_key k c) = k"
  "nc_traffic_keyed (arm_releases l r c) = nc_traffic_keyed c" "nc_timeout (arm_releases l r c) = nc_timeout c"
  "nc_now (arm_releases l r c) = nc_now c" "nc_settings (arm_releases l r c) = nc_settings c" "nc_receiver (arm_releases l r c) = nc_receiver c"
  "nc_keyed (arm_releases l r c) = nc_keyed c"
  by (simp_all add: mark_audio_def apply_key_def arm_releases_def Let_def)

lemma key_phase_fields [simp]:
  "nc_traffic_keyed (key_phase i l r b c) = nc_traffic_keyed c" "nc_timeout (key_phase i l r b c) = nc_timeout c"
  "nc_now (key_phase i l r b c) = nc_now c" "nc_settings (key_phase i l r b c) = nc_settings c" "nc_receiver (key_phase i l r b c) = nc_receiver c"
  by (simp_all add: key_phase_def Let_def)

lemma key_phase_keyed: "nc_keyed (key_phase i l r b c) \<Longrightarrow> nc_traffic_keyed c \<or> lo_may_transmit l"
  by (auto simp: key_phase_def Let_def key_now_def)

lemma mix_phase_fields [simp]:
  "nc_traffic_keyed (snd (mix_phase fo i l r reply c)) = nc_traffic_keyed c" "nc_keyed (snd (mix_phase fo i l r reply c)) = nc_keyed c"
  "nc_timeout (snd (mix_phase fo i l r reply c)) = nc_timeout c" "nc_now (snd (mix_phase fo i l r reply c)) = nc_now c"
  "nc_settings (snd (mix_phase fo i l r reply c)) = nc_settings c" "nc_receiver (snd (mix_phase fo i l r reply c)) = nc_receiver c"
  by (simp_all add: mix_phase_def Let_def)

lemma notice_frames [simp]:
  "nc_traffic_keyed (notice_key b n k c) = False" "nc_now (notice_key b n k c) = nc_now c"
  "nc_settings (notice_key b n k c) = nc_settings c" "nc_receiver (notice_key b n k c) = nc_receiver c"
  "\<not> nc_keyed (notice_key True n k c)" "nc_timeout (notice_key b n k c) = nc_timeout c"
  "nc_now (notice_audible n c) = nc_now c" "nc_timeout (notice_audible n c) = nc_timeout c"
  "nc_settings (notice_audible n c) = nc_settings c" "nc_receiver (notice_audible n c) = nc_receiver c"
  by (simp_all add: notice_key_def notice_audible_def Let_def)

lemma play_notice_frames:
  assumes "play_notice fo so a b x second c = (n, v, k, c')"
  shows "nc_now c' = nc_now c \<and> nc_settings c' = nc_settings c \<and> nc_receiver c' = nc_receiver c \<and> (b \<longrightarrow> v = fo_zero fo)"
  using assms by (auto simp: play_notice_def Let_def sample_of_def split: option.splits prod.splits if_splits)

lemma notice_phase_frames:
  assumes "notice_phase fo so a b x c = (n, v, k, c')"
  shows "nc_now c' = nc_now c \<and> nc_settings c' = nc_settings c \<and> nc_receiver c' = nc_receiver c \<and> (b \<longrightarrow> v = fo_zero fo)"
proof -
  define c2 where "c2 = (let c1 = c\<lparr>nc_courtesy := snd (courtesy_pop (nc_courtesy c))\<rparr> in
    if to_phase (nc_timeout c1) = Waiting \<and> \<not> a then c1\<lparr>nc_timeout := (nc_timeout c1)\<lparr>to_phase := Cleared\<rparr>\<rparr> else c1)"
  have c2: "nc_now c2 = nc_now c" "nc_settings c2 = nc_settings c" "nc_receiver c2 = nc_receiver c" by (simp_all add: c2_def Let_def)
  have e: "notice_phase fo so a b x c = (case notice_index (to_phase (nc_timeout c2)) of
      Some second \<Rightarrow> play_notice fo so a b x second c2 | None \<Rightarrow> (0, fo_zero fo, False, c2))"
    unfolding notice_phase_def c2_def Let_def by (rule refl)
  show ?thesis
  proof (cases "notice_index (to_phase (nc_timeout c2))")
    case None
    then show ?thesis using assms e c2 by auto
  next
    case (Some second)
    with assms e have "play_notice fo so a b x second c2 = (n, v, k, c')" by simp
    from play_notice_frames [OF this] c2 show ?thesis by simp
  qed
qed

lemma timeout_sample_fields [simp]:
  "nc_traffic_keyed (snd (timeout_sample fo so a b x y c)) = False" "nc_now (snd (timeout_sample fo so a b x y c)) = nc_now c"
  "nc_settings (snd (timeout_sample fo so a b x y c)) = nc_settings c" "nc_receiver (snd (timeout_sample fo so a b x y c)) = nc_receiver c"
  "\<not> nc_keyed (snd (timeout_sample fo so a True x y c))" "ou_rf (fst (timeout_sample fo so a True x y c)) = fo_clamp fo (fo_zero fo)"
  by (auto simp: timeout_sample_def dest: notice_phase_frames split: prod.split)

lemma on_media_frames [simp]: "nc_now (on_media s f c) = nc_now c" "nc_settings (on_media s f c) = nc_settings c"
  by (cases s; simp)+

lemma begin_timeout_fields [simp]:
  "nc_now (begin_timeout so c) = nc_now c" "nc_settings (begin_timeout so c) = nc_settings c" "nc_receiver (begin_timeout so c) = nc_receiver c"
  by (simp_all add: begin_timeout_def Let_def split: option.split)

lemma request_denied:
  assumes "\<not> lo_may_transmit l" and "\<not> transmits_during_receive c" and "in_receiving i"
  shows "\<not> fst (request_in i l r c)"
  using assms
  by (auto simp: request_in_def duplex_update_def transmits_during_receive_def Let_def split: prod.splits)

lemma watchdog_silent:
  assumes "lo_inhibited l \<or> \<not> fst (request_in i l r c)"
  shows "\<not> nc_traffic_keyed (watchdog_phase i l r c)" "nc_timeout (watchdog_phase i l r c) = nc_timeout c"
  using assms by (auto simp: watchdog_phase_def timeout_apply_def Let_def split: prod.split)

lemma mix_phase_inhibited:
  assumes "lo_inhibited l" and "\<not> lo_may_transmit l"
  shows "ou_rf (fst (mix_phase fo i l r reply c)) = fo_zero fo"
  using assms by (simp add: mix_phase_def Let_def split: option.split)

text \<open>C10. The transmitter stays off while it may not be on. In a step under the site's inhibit the transmitter is released,
  whatever was playing and whatever the watchdog announces, and the sample is silence (clamped silence during a notice); in
  a step in which a half-duplex node receives, outside the watchdog's notices, it is released too.\<close>

theorem transmitter_silenced:
  assumes "controller_step fo rs rp so i c = Some (out, c')"
    and "ce_site_inhibit (in_cells i) \<or> (in_receiving i \<and> \<not> transmits_during_receive c \<and> \<not> timeout_blocked (nc_timeout c))"
  shows "\<not> nc_keyed c' \<and> \<not> nc_traffic_keyed c'
    \<and> (if ce_site_inhibit (in_cells i) then ou_rf out \<in> {fo_zero fo, fo_clamp fo (fo_zero fo)} else True)"
proof -
  obtain status_idle idle c1 where p: "prepare_step rs rp so i c = (status_idle, idle, c1)" by (metis prod_cases3)
  note keep = prepare_step_keeps [OF p]
  show ?thesis
  proof (cases "timeout_blocked (nc_timeout c1)")
    case True
    with keep(6) have b: "timeout_blocked (nc_timeout c)" by (auto simp: timeout_blocked_def split: if_splits)
    with assms(2) have inh: "ce_site_inhibit (in_cells i)" by simp
    from assms(1) True inh have "(out, c') = timeout_sample fo so (receive_in i \<or> in_source_activity i) True (in_input i) (in_output i) c1"
      by (simp add: controller_step_def p)
    then have "out = fst (timeout_sample fo so (receive_in i \<or> in_source_activity i) True (in_input i) (in_output i) c1)"
      "c' = snd (timeout_sample fo so (receive_in i \<or> in_source_activity i) True (in_input i) (in_output i) c1)" by (metis fst_conv, metis snd_conv)
    then show ?thesis by simp
  next
    case False
    with assms(1) have "program_step fo rs rp so i status_idle idle c1 = Some (out, c')" by (simp add: controller_step_def p)
    then show ?thesis
    proof (cases rule: program_decides)
      case (1 l r reply c6)
      have tr: "transmits_during_receive c6 = transmits_during_receive c" using core_fields(5) [OF 1(1)] keep(5) by simp
      have may: "\<not> lo_may_transmit l" using 1(5) keep(5) assms(2) by auto
      have "lo_inhibited l \<or> \<not> fst (request_in i l r c6)"
        using assms(2) 1(4) request_denied [OF may, of c6 i r] tr by blast
      note w = watchdog_silent [OF this]
      from 1(6) False w 1(2) have "(out, c') = mix_phase fo i l r reply (key_phase i l r c6 (watchdog_phase i l r c6))" by simp
      then have o: "out = fst (mix_phase fo i l r reply (key_phase i l r c6 (watchdog_phase i l r c6)))"
        and k: "c' = snd (mix_phase fo i l r reply (key_phase i l r c6 (watchdog_phase i l r c6)))" by (metis fst_conv, metis snd_conv)
      have "\<not> nc_keyed (key_phase i l r c6 (watchdog_phase i l r c6))" using key_phase_keyed w(1) may by blast
      moreover have "ce_site_inhibit (in_cells i) \<Longrightarrow> ou_rf out = fo_zero fo"
        unfolding o using 1(4) may by (intro mix_phase_inhibited) simp_all
      ultimately show ?thesis using w(1) by (simp add: k)
    qed
  qed
qed

text \<open>The controller of \<open>Controller_Shape\<close> with its transmitter on: the inhibit, and half-duplex reception, release it.\<close>

definition keyed_controller :: "(nat, nat, (nat, nat) PreparedMedia list, nat) NodeController" where
  "keyed_controller = plain_controller\<lparr>nc_keyed := True, nc_traffic_keyed := True\<rparr>"

definition half_duplex_controller :: "(nat, nat, (nat, nat) PreparedMedia list, nat) NodeController" where
  "half_duplex_controller = keyed_controller\<lparr>nc_settings := plain_settings\<lparr>se_full_duplex := False\<rparr>\<rparr>"

definition busy_input :: "bool \<Rightarrow> (nat, nat) StepInput" where
  "busy_input inhibit = \<lparr>in_receiving = True, in_linked = True, in_source_activity = True, in_input = Some 3, in_link_sample = 4, in_output = None,
     in_cells = quiet_cells\<lparr>ce_site_inhibit := inhibit\<rparr>\<rparr>"

theorem transmitter_silenced_witness:
  "(\<exists>out c'. controller_step nat_ops (list_ring 4) (list_ring 1) quiet_stream (busy_input True) keyed_controller = Some (out, c')
        \<and> \<not> nc_keyed c' \<and> ou_rf out = 0)
    \<and> (\<exists>out c'. controller_step nat_ops (list_ring 4) (list_ring 1) quiet_stream (busy_input False) half_duplex_controller = Some (out, c')
        \<and> \<not> nc_keyed c')"
proof -
  let ?c = keyed_controller and ?h = half_duplex_controller
  note defs = keyed_controller_def half_duplex_controller_def
  have h: "\<not> transmits_during_receive ?h" "\<not> timeout_blocked (nc_timeout ?h)" "in_receiving (busy_input b)"
    "ce_site_inhibit (in_cells (busy_input b)) = b" for b
    by (simp_all add: defs busy_input_def transmits_during_receive_def plain_settings_def timeout_blocked_def timeout_default_def)
  have wf: "controller_wf ?c" "controller_wf ?h"
    by (rule wf_keep [OF plain_wf]; simp add: defs shape_def same_slot_def)+
  obtain out c' where s: "controller_step nat_ops (list_ring 4) (list_ring 1) quiet_stream (busy_input True) ?c = Some (out, c')"
    by (rule controller_step_total [OF wf(1)])
  obtain out2 c2 where t: "controller_step nat_ops (list_ring 4) (list_ring 1) quiet_stream (busy_input False) ?h = Some (out2, c2)"
    by (rule controller_step_total [OF wf(2)])
  show ?thesis using transmitter_silenced [OF s] transmitter_silenced [OF t] h s t by (auto simp: nat_ops_def)
qed

section \<open>The watchdog over a block\<close>

lemma step_keeps:
  fixes c c' :: "('s, 'p, 'q, 'f) NodeController"
  assumes "controller_step fo rs rp so i c = Some (out, c')"
  shows "nc_now c' = nc_now c" "nc_settings c' = nc_settings c" "nc_receiver c' = in_receiving i"
    and "nc_traffic_keyed c' \<Longrightarrow> in_receiving i \<or> \<not> nc_receiver c \<Longrightarrow>
      to_key (nc_timeout c') = (if nc_traffic_keyed c then to_key (nc_timeout c) else nc_now c)
      \<and> (nc_traffic_keyed c \<longrightarrow> allows_playback (nc_timeout c) True (nc_now c) (samples (se_transmit_timeout_ms (nc_settings c))))"
proof -
  obtain status_idle idle c1 where p: "prepare_step rs rp so i c = (status_idle, idle, c1)" by (metis prod_cases3)
  note keep = prepare_step_keeps [OF p]
  define notice where "notice = (\<lambda>d :: ('s, 'p, 'q, 'f) NodeController.
    timeout_sample fo so (receive_in i \<or> in_source_activity i) (ce_site_inhibit (in_cells i)) (in_input i) (in_output i) d)"
  have "nc_now c' = nc_now c \<and> nc_settings c' = nc_settings c \<and> nc_receiver c' = in_receiving i
    \<and> (nc_traffic_keyed c' \<longrightarrow> in_receiving i \<or> \<not> nc_receiver c \<longrightarrow>
      to_key (nc_timeout c') = (if nc_traffic_keyed c then to_key (nc_timeout c) else nc_now c)
      \<and> (nc_traffic_keyed c \<longrightarrow> allows_playback (nc_timeout c) True (nc_now c) (samples (se_transmit_timeout_ms (nc_settings c)))))"
  proof (cases "timeout_blocked (nc_timeout c1)")
    case True
    with assms have "(out, c') = notice c1" by (simp add: controller_step_def p notice_def)
    then have "c' = snd (notice c1)" by (metis snd_conv)
    then show ?thesis using keep by (simp add: notice_def)
  next
    case False
    with assms have "program_step fo rs rp so i status_idle idle c1 = Some (out, c')" by (simp add: controller_step_def p)
    then show ?thesis
    proof (cases rule: program_decides)
      case (1 l r reply c6)
      define c7 where "c7 = watchdog_phase i l r c6"
      note f = core_fields [OF 1(1)]
      have now: "nc_now c7 = nc_now c" "nc_settings c7 = nc_settings c" "nc_receiver c7 = in_receiving i"
        using f keep 1(3) by (simp_all add: c7_def)
      show ?thesis
      proof (cases "timeout_blocked (nc_timeout c7)")
        case True
        with 1(4,6) have "(out, c') = notice (begin_timeout so c7)" by (simp add: c7_def notice_def)
        then have "c' = snd (notice (begin_timeout so c7))" by (metis snd_conv)
        then show ?thesis using now by (simp add: notice_def)
      next
        case False
        with 1(6) have "(out, c') = mix_phase fo i l r reply (key_phase i l r c6 c7)" by (simp add: c7_def)
        then have c': "c' = snd (mix_phase fo i l r reply (key_phase i l r c6 c7))" by (metis snd_conv)
        have "in_receiving i \<or> \<not> nc_receiver c \<Longrightarrow> nc_timeout c6 = nc_timeout c" using 1(2) keep(6) by auto
        moreover have "nc_traffic_keyed c7 \<Longrightarrow>
            to_key (nc_timeout c7) = (if nc_traffic_keyed c6 then to_key (nc_timeout c6) else nc_now c6)
            \<and> (nc_traffic_keyed c6 \<longrightarrow> allows_playback (nc_timeout c6) True (nc_now c6) (samples (se_transmit_timeout_ms (nc_settings c6))))"
          by (auto simp: c7_def watchdog_phase_def timeout_apply_def allows_playback_def Let_def split: prod.splits if_splits)
        ultimately show ?thesis using now f(1-3) keep(1-3) by (auto simp: c')
      qed
    qed
  qed
  then show "nc_now c' = nc_now c" "nc_settings c' = nc_settings c" "nc_receiver c' = in_receiving i"
    and "nc_traffic_keyed c' \<Longrightarrow> in_receiving i \<or> \<not> nc_receiver c \<Longrightarrow>
      to_key (nc_timeout c') = (if nc_traffic_keyed c then to_key (nc_timeout c) else nc_now c)
      \<and> (nc_traffic_keyed c \<longrightarrow> allows_playback (nc_timeout c) True (nc_now c) (samples (se_transmit_timeout_ms (nc_settings c))))"
    by blast+
qed

text \<open>No sample of the block ends a reception of the local receiver; \<open>r\<close> is the receiver before the block.\<close>

primrec no_release :: "bool \<Rightarrow> ('p, 'f) StepInput list \<Rightarrow> bool" where
  "no_release r [] = True"
| "no_release r (i # is) = ((in_receiving i \<or> \<not> r) \<and> no_release (in_receiving i) is)"

text \<open>Traffic is keyed after every sample of the block.\<close>

fun held_keyed ::
    "'f FloatOps \<Rightarrow> ('s, 'p, 'q) media_ring \<Rightarrow> ('s, 'p, 'q) media_ring \<Rightarrow> ('s, 'f) StreamOps \<Rightarrow> ('p, 'f) StepInput list
       \<Rightarrow> ('s, 'p, 'q, 'f) NodeController \<Rightarrow> bool" where
  "held_keyed fo rs rp so [] c = True"
| "held_keyed fo rs rp so (i # is) c =
     (case controller_step fo rs rp so i c of
        Some (out, c1) \<Rightarrow> nc_traffic_keyed c1 \<and> held_keyed fo rs rp so is (c1\<lparr>nc_now := sat_add (nc_now c1) 1\<rparr>)
      | None \<Rightarrow> False)"

lemma unat_sat_step: "unat (n :: u64) + 1 < 2 ^ 64 \<Longrightarrow> unat (sat_add n 1) = unat n + 1"
  by (simp add: unat_sat_add)

lemma held_bound:
  assumes "held_keyed fo rs rp so is c" and "no_release (nc_receiver c) is" and "nc_traffic_keyed c"
    and "unat (to_key (nc_timeout c)) \<le> unat (nc_now c)" and "unat (nc_now c) + length is < 2 ^ 64"
    and "samples (se_transmit_timeout_ms (nc_settings c)) = limit" and "limit \<noteq> 0" and "is \<noteq> []"
  shows "unat (nc_now c) + length is \<le> unat (to_key (nc_timeout c)) + unat limit"
  using assms
proof (induction "is" arbitrary: c)
  case (Cons i "is")
  from Cons.prems(1) obtain out c1 where s: "controller_step fo rs rp so i c = Some (out, c1)" and k: "nc_traffic_keyed c1"
    and h: "held_keyed fo rs rp so is (c1\<lparr>nc_now := sat_add (nc_now c1) 1\<rparr>)" by (auto split: option.splits)
  note f = step_keeps [OF s]
  have key: "to_key (nc_timeout c1) = to_key (nc_timeout c)" and a: "allows_playback (nc_timeout c) True (nc_now c) limit"
    using f(4) [OF k] Cons.prems(2,3,6) by auto
  have lt: "unat (nc_now c) - unat (to_key (nc_timeout c)) < unat limit"
    using a Cons.prems(7) by (simp add: allows_playback_def word_less_nat_alt unat_sat_sub)
  have now: "unat (sat_add (nc_now c1) 1) = unat (nc_now c) + 1" using Cons.prems(5) f(1) by (intro trans [OF unat_sat_step]) simp_all
  show ?case
  proof (cases "is = []")
    case True
    with lt Cons.prems(4) show ?thesis by simp
  next
    case False
    have "unat (sat_add (nc_now c1) 1) + length is \<le> unat (to_key (nc_timeout c1)) + unat limit"
      using Cons.IH [OF h] k f Cons.prems False key now by simp
    with key now show ?thesis by simp
  qed
qed simp



end
