(* ===== verification/Config_Document.thy ===== *)
theory Config_Document
  imports Utf8
begin

text \<open>
  The configuration document: line syntax and scalar values (\<^verbatim>\<open>core/src/config/parse.rs\<close>), the classification of
  section names (\<^verbatim>\<open>core/src/config/scope.rs\<close>), and the document with its lookups
  (\<^verbatim>\<open>core/src/config/document.rs\<close>). Texts are UTF-8 bytes.
\<close>

section \<open>Lines\<close>

datatype ParsedLine = PlEmpty | PlSection string | PlOption string string

definition parse_line :: "string \<Rightarrow> unit + ParsedLine" where
  "parse_line raw =
     (let line = trim_ws (hd (split_on (CHR '';'') raw)) in
      if line = [] then Inr PlEmpty
      else (case strip_prefix ''['' line of
              Some section \<Rightarrow>
                (case split_once (CHR '']'') section of
                   None \<Rightarrow> Inl ()
                 | Some (name, trailing) \<Rightarrow>
                     if trim_ws name = [] \<or> trim_ws trailing \<noteq> [] then Inl () else Inr (PlSection (trim_ws name)))
            | None \<Rightarrow>
                (case split_once (CHR ''='') line of
                   None \<Rightarrow> Inl ()
                 | Some (key, value1) \<Rightarrow>
                     if trim_ws key = [] then Inl () else Inr (PlOption (trim_ws key) (trim_ws value1)))))"

section \<open>Scalar values\<close>

definition unsigned_in :: "string \<Rightarrow> nat \<Rightarrow> nat \<Rightarrow> nat option" where
  "unsigned_in txt lo hi =
     (if txt = [] \<or> \<not> list_all is_ascii_digit txt then None
      else Option.bind (parse_unsigned 64 txt) (\<lambda>v. if lo \<le> v \<and> v \<le> hi then Some v else None))"

fun collect_options :: "'a option list \<Rightarrow> 'a list option" where
  "collect_options [] = Some []"
| "collect_options (None # xs) = None"
| "collect_options (Some x # xs) = map_option ((#) x) (collect_options xs)"

definition positive_milliseconds :: "string \<Rightarrow> nat list option" where
  "positive_milliseconds txt =
     Option.bind (collect_options (map (\<lambda>v. unsigned_in (trim_ws v) 1 (2 ^ 64 - 1)) (split_on (CHR '','') txt)))
       (\<lambda>vs. if vs = [] then None else Some vs)"

definition signed_in :: "string \<Rightarrow> int \<Rightarrow> int \<Rightarrow> int option" where
  "signed_in txt lo hi =
     (let digits = (case strip_prefix ''-'' txt of Some r \<Rightarrow> r | None \<Rightarrow> txt) in
      if digits = [] \<or> \<not> list_all is_ascii_digit digits then None
      else Option.bind (parse_signed 64 txt) (\<lambda>v. if lo \<le> v \<and> v \<le> hi then Some v else None))"

definition ascii_lower :: "string \<Rightarrow> string" where
  "ascii_lower s = map (\<lambda>c. if byte_in 65 90 c then char_of (byte c + 32) else c) s"

definition eq_ignore_case :: "string \<Rightarrow> string \<Rightarrow> bool" where
  "eq_ignore_case a b \<longleftrightarrow> ascii_lower a = ascii_lower b"

definition parse_boolean :: "string \<Rightarrow> bool option" where
  "parse_boolean txt =
     (if ascii_lower txt = ''yes'' then Some True else if ascii_lower txt = ''no'' then Some False else None)"

section \<open>Section names\<close>

datatype SiteKind = SkSensor | SkInput | SkOutput | SkAlarm | SkFan

definition site_kind_parse :: "string \<Rightarrow> SiteKind option" where
  "site_kind_parse v =
     (if v = ''sensor'' then Some SkSensor else if v = ''input'' then Some SkInput else if v = ''output'' then Some SkOutput
      else if v = ''alarm'' then Some SkAlarm else if v = ''fan'' then Some SkFan else None)"

datatype ScopeKind =
  KGeneral | KNode | KRadioDefault | KRadioNode | KRemoteDefault | KRemoteNode | KProcessingDefault | KProcessingNode
| KEchoLinkDefault | KEchoLinkNode | KIdentifierDefault | KIdentifierNode | KIdentifierSet | KAnnouncementDefault
| KAnnouncementNode | KAnnouncementSet | KTailDefault | KTailNode | KTailSet | KCourtesyDefault | KCourtesyNode | KCourtesySet
| KMorseDefault | KMorseNode | KSpeechDefault | KSpeechNode | KTimeDefault | KTimeNode | KTemplateGlobal | KTemplateNode
| KMessageGlobal | KMessageNode | KMacroGlobal | KMacroNode | KEventNode | KPermanentNode | KScheduleNode
| KSiteDefault SiteKind | KSiteNode SiteKind | KSiteSet SiteKind | KUnknown

record Scope =
  sc_kind :: ScopeKind
  sc_node :: "string option"
  sc_label :: "string option"

definition scope_flat :: "ScopeKind \<Rightarrow> Scope" where
  "scope_flat kind = \<lparr>sc_kind = kind, sc_node = None, sc_label = None\<rparr>"

definition scope_node :: "ScopeKind \<Rightarrow> string \<Rightarrow> Scope" where
  "scope_node kind node = \<lparr>sc_kind = kind, sc_node = Some node, sc_label = None\<rparr>"

definition scope_named :: "ScopeKind \<Rightarrow> string option \<Rightarrow> string \<Rightarrow> Scope" where
  "scope_named kind node label = \<lparr>sc_kind = kind, sc_node = node, sc_label = Some label\<rparr>"

definition processing_families :: "string list" where
  "processing_families = [''local'', ''link'', ''voice_telemetry'', ''hardware'', ''receive'', ''transmit'', ''ctcss'', ''dcs'',
     ''duplex'', ''diagnostics'']"

text \<open>Families with a default, a node and (where there is one) a named form.\<close>

definition family_forms :: "string \<Rightarrow> (ScopeKind \<times> ScopeKind \<times> ScopeKind option) option" where
  "family_forms f =
     (if f = ''echolink'' then Some (KEchoLinkDefault, KEchoLinkNode, None)
      else if f = ''identifier'' then Some (KIdentifierDefault, KIdentifierNode, Some KIdentifierSet)
      else if f = ''announcement'' then Some (KAnnouncementDefault, KAnnouncementNode, Some KAnnouncementSet)
      else if f = ''tail'' then Some (KTailDefault, KTailNode, Some KTailSet)
      else if f = ''courtesy'' then Some (KCourtesyDefault, KCourtesyNode, Some KCourtesySet)
      else if f = ''morse'' then Some (KMorseDefault, KMorseNode, None)
      else if f = ''speech'' then Some (KSpeechDefault, KSpeechNode, None)
      else if f = ''time'' then Some (KTimeDefault, KTimeNode, None)
      else None)"

text \<open>Families of definitions: with a global form where there is one, and a node form.\<close>

definition definition_forms :: "string \<Rightarrow> (ScopeKind option \<times> ScopeKind) option" where
  "definition_forms f =
     (if f = ''template'' then Some (Some KTemplateGlobal, KTemplateNode)
      else if f = ''message'' then Some (Some KMessageGlobal, KMessageNode)
      else if f = ''macro'' then Some (Some KMacroGlobal, KMacroNode)
      else if f = ''event'' then Some (None, KEventNode)
      else if f = ''permanent'' then Some (None, KPermanentNode)
      else if f = ''schedule'' then Some (None, KScheduleNode)
      else None)"

definition site_scope :: "SiteKind \<Rightarrow> string list \<Rightarrow> unit + Scope" where
  "site_scope kind rest =
     (case rest of
        [] \<Rightarrow> Inr (scope_flat (KSiteDefault kind))
      | [node] \<Rightarrow> Inr (scope_node (KSiteNode kind) node)
      | [node, label] \<Rightarrow> Inr (scope_named (KSiteSet kind) (Some node) label)
      | _ \<Rightarrow> Inl ())"

definition family_scope :: "ScopeKind \<times> ScopeKind \<times> ScopeKind option \<Rightarrow> string list \<Rightarrow> unit + Scope" where
  "family_scope forms rest =
     (case (forms, rest) of
        ((flat, _, _), []) \<Rightarrow> Inr (scope_flat flat)
      | ((_, scoped, _), [node]) \<Rightarrow> Inr (scope_node scoped node)
      | ((_, _, Some named), [node, label]) \<Rightarrow> Inr (scope_named named (Some node) label)
      | _ \<Rightarrow> Inl ())"

definition definition_scope :: "ScopeKind option \<times> ScopeKind \<Rightarrow> string list \<Rightarrow> unit + Scope" where
  "definition_scope forms rest =
     (case (forms, rest) of
        ((Some global, _), [label]) \<Rightarrow> Inr (scope_named global None label)
      | ((_, scoped), [node, label]) \<Rightarrow> Inr (scope_named scoped (Some node) label)
      | _ \<Rightarrow> Inl ())"

text \<open>The match on the words of a name: the families keep their own arities, another single word is a node, and of the rest
  only a known family is an error.\<close>

definition words_scope :: "string list \<Rightarrow> unit + Scope" where
  "words_scope parts =
     (case parts of
        [] \<Rightarrow> Inl ()
      | family # rest \<Rightarrow>
          (case site_kind_parse family of
             Some kind \<Rightarrow> site_scope kind rest
           | None \<Rightarrow>
               if family = ''general'' then (if rest = [] then Inr (scope_flat KGeneral) else Inl ())
               else (case family_forms family of
                       Some forms \<Rightarrow> family_scope forms rest
                     | None \<Rightarrow>
                         (case definition_forms family of
                            Some forms \<Rightarrow> definition_scope forms rest
                          | None \<Rightarrow>
                              if rest = [] then Inr (scope_node KNode family)
                              else if family \<in> {''radio'', ''local'', ''link'', ''voice_telemetry''} then Inl ()
                              else Inr (scope_flat KUnknown)))))"

definition parse_scope :: "string \<Rightarrow> unit + Scope" where
  "parse_scope name =
     (if name = [] \<or> list_ex (\<lambda>c. c \<in> {CHR ''['', CHR '']'', CHR 0x0D, CHR 0x0A}) name then Inl ()
      else
        (let (family, suffix) = (case split_once (CHR '' '') name of Some (f, s) \<Rightarrow> (f, Some s) | None \<Rightarrow> (name, None)) in
         if list_ex (eq_ignore_case family) processing_families
         then (case suffix of
                 None \<Rightarrow> Inr (scope_flat KProcessingDefault)
               | Some profile \<Rightarrow> if profile \<noteq> [] then Inr (scope_node KProcessingNode profile) else Inl ())
         else if eq_ignore_case family ''radio'' \<or> eq_ignore_case family ''remote_base''
         then (let (global, scoped) = (if eq_ignore_case family ''radio'' then (KRadioDefault, KRadioNode) else (KRemoteDefault, KRemoteNode)) in
               case suffix of
                 None \<Rightarrow> Inr (scope_flat global)
               | Some node \<Rightarrow> if node \<noteq> [] \<and> \<not> has_whitespace node then Inr (scope_node scoped node) else Inl ())
         else if eq_ignore_case family ''remote_memory'' \<or> eq_ignore_case family ''remote_scan''
         then (case Option.bind suffix (split_once (CHR '' '')) of
                 Some (node, label) \<Rightarrow>
                   if node \<noteq> [] \<and> trim_ws label \<noteq> [] then Inr (scope_named KRemoteNode (Some node) label) else Inl ()
               | None \<Rightarrow> Inl ())
         else if CHR 0x09 \<in> set name then Inl ()
         else if [] \<in> set (split_on (CHR '' '') name) then Inl ()
         else words_scope (split_on (CHR '' '') name)))"

definition is_named :: "ScopeKind \<Rightarrow> bool" where
  "is_named kind = (case kind of
     KIdentifierSet \<Rightarrow> True | KSiteSet _ \<Rightarrow> True | KAnnouncementSet \<Rightarrow> True | KTailSet \<Rightarrow> True | KCourtesySet \<Rightarrow> True
   | KTemplateGlobal \<Rightarrow> True | KTemplateNode \<Rightarrow> True | KMessageGlobal \<Rightarrow> True | KMessageNode \<Rightarrow> True | KMacroGlobal \<Rightarrow> True
   | KMacroNode \<Rightarrow> True | KEventNode \<Rightarrow> True | KPermanentNode \<Rightarrow> True | KScheduleNode \<Rightarrow> True | _ \<Rightarrow> False)"

definition is_node_scoped :: "ScopeKind \<Rightarrow> bool" where
  "is_node_scoped kind = (case kind of
     KIdentifierNode \<Rightarrow> True | KSiteNode _ \<Rightarrow> True | KSiteSet _ \<Rightarrow> True | KRadioNode \<Rightarrow> True | KRemoteNode \<Rightarrow> True
   | KEchoLinkNode \<Rightarrow> True | KIdentifierSet \<Rightarrow> True | KAnnouncementNode \<Rightarrow> True | KTailNode \<Rightarrow> True | KTailSet \<Rightarrow> True
   | KAnnouncementSet \<Rightarrow> True | KCourtesyNode \<Rightarrow> True | KCourtesySet \<Rightarrow> True | KMorseNode \<Rightarrow> True | KSpeechNode \<Rightarrow> True
   | KTimeNode \<Rightarrow> True | KTemplateNode \<Rightarrow> True | KMessageNode \<Rightarrow> True | KMacroNode \<Rightarrow> True | KEventNode \<Rightarrow> True
   | KPermanentNode \<Rightarrow> True | KScheduleNode \<Rightarrow> True | _ \<Rightarrow> False)"

section \<open>The document\<close>

datatype ConfigError = CeSyntax nat string | CeStructure string string

record ConfigEntry =
  ce_section :: string
  ce_key :: string
  ce_value :: string
  ce_line :: nat

record ConfigDocument =
  dc_sections :: "string list"
  dc_section_lines :: "nat list"
  dc_entries :: "ConfigEntry list"

definition document_default :: ConfigDocument where
  "document_default = \<lparr>dc_sections = [], dc_section_lines = [], dc_entries = []\<rparr>"

text \<open>\<^verbatim>\<open>str::lines\<close>: a line ends with a line feed, with a carriage return before it or not; text after the last one is a line too.\<close>

definition strip_return :: "string \<Rightarrow> string" where
  "strip_return s = (case strip_suffix [CHR 0x0D] s of Some r \<Rightarrow> r | None \<Rightarrow> s)"

definition text_lines :: "string \<Rightarrow> string list" where
  "text_lines txt =
     (let ps = split_on (CHR 0x0A) txt in map strip_return (butlast ps) @ (if last ps = [] then [] else [last ps]))"

fun document_loop :: "nat \<Rightarrow> string option \<Rightarrow> ConfigDocument \<Rightarrow> string list \<Rightarrow> ConfigError + ConfigDocument" where
  "document_loop n section d [] = Inr d"
| "document_loop n section d (line # rest) =
     (if CHR 0x00 \<in> set line then Inl (CeSyntax n ''embedded null byte'')
      else (case parse_line line of
              Inr PlEmpty \<Rightarrow> document_loop (n + 1) section d rest
            | Inr (PlSection name) \<Rightarrow>
                document_loop (n + 1) (Some name)
                  (d\<lparr>dc_sections := dc_sections d @ [name], dc_section_lines := dc_section_lines d @ [n]\<rparr>) rest
            | Inr (PlOption key v) \<Rightarrow>
                (case section of
                   None \<Rightarrow> Inl (CeSyntax n ''option before section'')
                 | Some s \<Rightarrow>
                     document_loop (n + 1) section
                       (d\<lparr>dc_entries := dc_entries d @ [\<lparr>ce_section = s, ce_key = key, ce_value = v, ce_line = n\<rparr>]\<rparr>) rest)
            | Inl _ \<Rightarrow> Inl (CeSyntax n ''malformed section or option'')))"

definition document_parse :: "string \<Rightarrow> ConfigError + ConfigDocument" where
  "document_parse txt = document_loop 1 None document_default (text_lines txt)"

definition section_entries :: "ConfigDocument \<Rightarrow> string \<Rightarrow> ConfigEntry list" where
  "section_entries d section = filter (\<lambda>e. ce_section e = section) (dc_entries d)"

definition entry_text :: "ConfigEntry \<Rightarrow> string" where
  "entry_text e = ce_key e @ ''='' @ ce_value e @ [CHR 0x0A]"

definition section_text :: "string \<Rightarrow> string" where
  "section_text s = ''['' @ s @ '']'' @ [CHR 0x0A]"

definition ends_with :: "string \<Rightarrow> string \<Rightarrow> bool" where
  "ends_with tail1 s \<longleftrightarrow> strip_suffix tail1 s \<noteq> None"

definition profile_selected :: "ConfigDocument \<Rightarrow> string \<Rightarrow> string \<Rightarrow> bool" where
  "profile_selected d node section =
     (case split_once (CHR '' '') section of
        None \<Rightarrow> False
      | Some (kind, name) \<Rightarrow>
          list_ex (\<lambda>e. eq_ignore_case (ce_key e) (kind @ ''_profile'') \<and> eq_ignore_case (ce_value e) name) (section_entries d node))"

definition scope_applicable :: "string \<Rightarrow> bool \<Rightarrow> Scope \<Rightarrow> bool" where
  "scope_applicable node selected sc =
     (let named = (case sc_node sc of Some name \<Rightarrow> eq_ignore_case name node | None \<Rightarrow> False) in
      case sc_kind sc of
        KProcessingDefault \<Rightarrow> True | KRadioDefault \<Rightarrow> True | KRemoteDefault \<Rightarrow> True
      | KProcessingNode \<Rightarrow> named \<or> selected
      | KRadioNode \<Rightarrow> named | KRemoteNode \<Rightarrow> named
      | _ \<Rightarrow> False)"

text \<open>The entries between a section's line and the next one.\<close>

definition entries_between :: "ConfigDocument \<Rightarrow> nat \<Rightarrow> ConfigEntry list" where
  "entries_between d index =
     filter (\<lambda>e. dc_section_lines d ! index < ce_line e
                 \<and> (if index + 1 < length (dc_section_lines d) then ce_line e < dc_section_lines d ! (index + 1) else True)) (dc_entries d)"

text \<open>\<open>None\<close> is the panic on a section name that is not valid.\<close>

fun processing_sections :: "ConfigDocument \<Rightarrow> string \<Rightarrow> nat list \<Rightarrow> string option" where
  "processing_sections d node [] = Some []"
| "processing_sections d node (index # rest) =
     (let section = dc_sections d ! index in
      case parse_scope section of
        Inl _ \<Rightarrow> None
      | Inr sc \<Rightarrow>
          map_option (\<lambda>t. (if scope_applicable node (profile_selected d node section) sc
                           then section_text section @ concat (map entry_text (entries_between d index)) else []) @ t)
            (processing_sections d node rest))"

definition processing_configuration :: "ConfigDocument \<Rightarrow> string \<Rightarrow> string option" where
  "processing_configuration d node =
     map_option (\<lambda>t. section_text node
         @ concat (map entry_text (filter (\<lambda>e. ends_with ''_profile'' (ascii_lower (ce_key e))) (section_entries d node))) @ t)
       (processing_sections d node [0..<length (dc_sections d)])"

definition first_of :: "ConfigDocument \<Rightarrow> nat \<Rightarrow> bool" where
  "first_of d index \<longleftrightarrow> dc_sections d ! index \<notin> set (take index (dc_sections d))"

definition document_nodes :: "ConfigDocument \<Rightarrow> string list" where
  "document_nodes d =
     map ((!) (dc_sections d))
       (filter (\<lambda>i. (case parse_scope (dc_sections d ! i) of Inr sc \<Rightarrow> sc_kind sc = KNode | Inl _ \<Rightarrow> False) \<and> first_of d i)
          [0..<length (dc_sections d)])"

definition named_sections :: "ConfigDocument \<Rightarrow> string \<Rightarrow> string option \<Rightarrow> string list" where
  "named_sections d family node =
     map ((!) (dc_sections d))
       (filter (\<lambda>i. (case parse_scope (dc_sections d ! i) of
                       Inl _ \<Rightarrow> False
                     | Inr sc \<Rightarrow> is_named (sc_kind sc) \<and> hd (split_on (CHR '' '') (dc_sections d ! i)) = family \<and> sc_node sc = node
                                 \<and> first_of d i))
          [0..<length (dc_sections d)])"

definition document_lookup :: "ConfigDocument \<Rightarrow> string \<Rightarrow> string list \<Rightarrow> string option" where
  "document_lookup d key scopes =
     find_map (\<lambda>scope. map_option ce_value (find (\<lambda>e. ce_section e = scope \<and> ce_key e = key) (rev (dc_entries d)))) scopes"

definition section_line :: "ConfigDocument \<Rightarrow> nat \<Rightarrow> nat" where
  "section_line d index = dc_section_lines d ! index"

section \<open>Trimming\<close>

text \<open>A sequence of characters: each one byte with its continuation bytes, of which only the first may lack its lead.\<close>

definition is_char :: "string \<Rightarrow> bool" where
  "is_char c \<longleftrightarrow> (case c of [] \<Rightarrow> False | _ # r \<Rightarrow> list_all cont r)"

definition chars_ok :: "string list \<Rightarrow> bool" where
  "chars_ok cs \<longleftrightarrow> list_all is_char cs \<and> list_all (\<lambda>c. \<not> cont (hd c)) (tl cs)"

lemma chars_ok_Cons: "chars_ok (c # cs) \<longleftrightarrow> is_char c \<and> list_all is_char cs \<and> list_all (\<lambda>c. \<not> cont (hd c)) cs"
  by (auto simp: chars_ok_def)

lemma drop_lead: "dropWhile cont r = [] \<or> \<not> cont (hd (dropWhile cont r))"
  by (induction r) auto

lemma span_lead: "list_all cont r \<Longrightarrow> t = [] \<or> \<not> cont (hd t) \<Longrightarrow> takeWhile cont (r @ t) = r \<and> dropWhile cont (r @ t) = t"
  by (induction r) (cases t; simp)+

lemma utf8_chars_leads: "s = [] \<or> \<not> cont (hd s) \<Longrightarrow> list_all (\<lambda>c. \<not> cont (hd c)) (utf8_chars s)"
proof (induction s rule: utf8_chars.induct)
  case (2 a r)
  from 2(1) [OF drop_lead] 2(2) show ?case by simp
qed simp

lemma utf8_chars_ok: "chars_ok (utf8_chars s)"
proof (induction s rule: utf8_chars.induct)
  case (2 a r)
  have "list_all (\<lambda>c. \<not> cont (hd c)) (utf8_chars (dropWhile cont r))" by (rule utf8_chars_leads [OF drop_lead])
  moreover have "is_char (a # takeWhile cont r)" by (auto simp: is_char_def list_all_iff dest: set_takeWhileD)
  ultimately show ?case using 2 by (simp add: chars_ok_Cons chars_ok_def)
qed (simp add: chars_ok_def)

lemma concat_utf8_chars [simp]: "concat (utf8_chars s) = s"
  by (induction s rule: utf8_chars.induct) simp_all

lemma utf8_chars_concat: "chars_ok cs \<Longrightarrow> utf8_chars (concat cs) = cs"
proof (induction cs)
  case (Cons c cs)
  then obtain a r where c: "c = a # r" "list_all cont r" by (auto simp: chars_ok_Cons is_char_def split: list.splits)
  have cs: "chars_ok cs" using Cons.prems by (cases cs) (auto simp: chars_ok_def)
  have stop: "concat cs = [] \<or> \<not> cont (hd (concat cs))"
    using Cons.prems by (cases cs) (auto simp: chars_ok_Cons is_char_def split: list.splits)
  have "takeWhile cont (r @ concat cs) = r" "dropWhile cont (r @ concat cs) = concat cs"
    using span_lead [OF c(2) stop] by simp_all
  then show ?case using Cons.IH [OF cs] by (simp add: c)
qed simp

lemma chars_ok_drop: "chars_ok cs \<Longrightarrow> chars_ok (dropWhile P cs)"
proof (induction cs)
  case (Cons c cs)
  then have "chars_ok cs" by (cases cs) (auto simp: chars_ok_def)
  with Cons show ?case by simp
qed simp

lemma chars_ok_take: "chars_ok (xs @ ys) \<Longrightarrow> chars_ok xs"
  by (cases xs) (auto simp: chars_ok_def)

definition trim_chars :: "string list \<Rightarrow> string list" where
  "trim_chars cs = rev (dropWhile has_whitespace (rev (dropWhile has_whitespace cs)))"

lemma trim_chars_ok: "chars_ok cs \<Longrightarrow> chars_ok (trim_chars cs)"
proof -
  assume "chars_ok cs"
  then have "chars_ok (dropWhile has_whitespace cs)" by (rule chars_ok_drop)
  moreover have "dropWhile has_whitespace cs = trim_chars cs @ rev (takeWhile has_whitespace (rev (dropWhile has_whitespace cs)))"
    unfolding trim_chars_def by (metis rev_append rev_rev_ident takeWhile_dropWhile_id)
  ultimately show ?thesis by (metis chars_ok_take)
qed

lemma trim_chars_ends:
  assumes "trim_chars cs \<noteq> []"
  shows "\<not> has_whitespace (hd (trim_chars cs))" "\<not> has_whitespace (last (trim_chars cs))"
proof -
  let ?d = "dropWhile has_whitespace cs"
  have ne: "dropWhile has_whitespace (rev ?d) \<noteq> []" using assms by (simp add: trim_chars_def)
  from hd_dropWhile [OF this] show "\<not> has_whitespace (last (trim_chars cs))" by (simp add: trim_chars_def last_rev ne)
  from ne have d: "?d \<noteq> []" by (metis dropWhile.simps(1) rev.simps(1))
  obtain pre where "rev ?d = pre @ dropWhile has_whitespace (rev ?d)" by (metis takeWhile_dropWhile_id)
  then have "?d = trim_chars cs @ rev pre" unfolding trim_chars_def by (metis rev_append rev_rev_ident)
  then have "hd (trim_chars cs) = hd ?d" using assms by (metis hd_append2)
  with hd_dropWhile [OF d] show "\<not> has_whitespace (hd (trim_chars cs))" by simp
qed

lemma trim_chars_id: "cs = [] \<or> \<not> has_whitespace (hd cs) \<and> \<not> has_whitespace (last cs) \<Longrightarrow> trim_chars cs = cs"
proof (cases "cs = []")
  case False
  assume "cs = [] \<or> \<not> has_whitespace (hd cs) \<and> \<not> has_whitespace (last cs)"
  with False have "dropWhile has_whitespace cs = cs" "dropWhile has_whitespace (rev cs) = rev cs"
    by (auto simp: dropWhile_eq_self_iff hd_rev)
  then show ?thesis by (simp add: trim_chars_def)
qed (simp add: trim_chars_def)

lemma trim_ws_chars: "trim_ws s = concat (trim_chars (utf8_chars s))"
  by (simp add: trim_ws_def trim_chars_def)

lemma utf8_chars_trim: "utf8_chars (trim_ws s) = trim_chars (utf8_chars s)"
  by (simp add: trim_ws_chars utf8_chars_concat trim_chars_ok utf8_chars_ok)

definition trimmed :: "string \<Rightarrow> bool" where
  "trimmed s \<longleftrightarrow> s = [] \<or> \<not> has_whitespace (hd (utf8_chars s)) \<and> \<not> has_whitespace (last (utf8_chars s))"

lemma utf8_chars_Nil [simp]: "utf8_chars s = [] \<longleftrightarrow> s = []"
  by (cases s) simp_all

lemma trim_trimmed [simp]: "trimmed s \<Longrightarrow> trim_ws s = s"
  by (simp add: trim_ws_chars trimmed_def trim_chars_id)

lemma trimmed_trim [simp]: "trimmed (trim_ws s)"
  unfolding trimmed_def utf8_chars_trim using trim_chars_ends [of "utf8_chars s"] by (metis trim_ws_chars concat.simps(1))

lemma set_trim: "set (trim_ws s) \<subseteq> set s"
proof -
  have "set (trim_chars cs) \<subseteq> set cs" for cs unfolding trim_chars_def by (auto dest!: set_dropWhileD)
  then have "set (concat (trim_chars (utf8_chars s))) \<subseteq> set (concat (utf8_chars s))" by (auto simp del: concat_utf8_chars)
  then show ?thesis by (simp add: trim_ws_chars)
qed

section \<open>Printed lines parse back\<close>

definition plain :: "char set \<Rightarrow> string \<Rightarrow> bool" where
  "plain bad s \<longleftrightarrow> trimmed s \<and> set s \<inter> ({CHR '';'', CHR 0x0A, CHR 0x00} \<union> bad) = {}"

definition section_ok :: "string \<Rightarrow> bool" where
  "section_ok s \<longleftrightarrow> s \<noteq> [] \<and> plain {CHR '']''} s"

definition option_ok :: "string \<Rightarrow> string \<Rightarrow> bool" where
  "option_ok k v \<longleftrightarrow> k \<noteq> [] \<and> hd k \<noteq> CHR ''['' \<and> plain {CHR ''=''} k \<and> plain {} v"

lemma utf8_chars_append: "t = [] \<or> \<not> cont (hd t) \<Longrightarrow> utf8_chars (s @ t) = utf8_chars s @ utf8_chars t"
proof (induction s rule: utf8_chars.induct)
  case (2 a r)
  have "takeWhile cont (r @ t) = takeWhile cont r \<and> dropWhile cont (r @ t) = dropWhile cont r @ t"
    using 2(2) by (induction r) (cases t; simp)+
  with 2 show ?case by simp
qed simp

lemma no_whitespace_conts: "list_all cont r \<Longrightarrow> \<not> has_whitespace r"
  by (induction r) (auto simp: cont_def byte_in_def)

lemma hd_utf8_chars: "s \<noteq> [] \<Longrightarrow> hd (utf8_chars s) = hd s # takeWhile cont (tl s)"
  by (cases s) simp_all

lemma mark_not_whitespace: "c \<in> {CHR ''['', CHR '']'', CHR ''=''} \<Longrightarrow> \<not> has_whitespace (c # takeWhile cont r)"
  using no_whitespace_conts [of "takeWhile cont r"] by (auto simp: byte_in_def byte_def list_all_iff dest: set_takeWhileD)

lemma last_utf8_chars_Cons:
  assumes "v \<noteq> []"
  shows "last (utf8_chars (c # v)) = c # v \<and> takeWhile cont v = v \<or> last (utf8_chars (c # v)) = last (utf8_chars v)"
proof (cases "dropWhile cont v = []")
  case True
  then have "takeWhile cont v = v" by (metis append_Nil2 takeWhile_dropWhile_id)
  then show ?thesis using True by simp
next
  case False
  obtain a r where v: "v = a # r" using assms by (cases v) auto
  show ?thesis
  proof (cases "cont a")
    case True
    with False show ?thesis by (simp add: v)
  qed (simp add: v)
qed

lemma trimmed_section: "trimmed (''['' @ s @ '']'')"
proof -
  have "utf8_chars ((''['' @ s) @ '']'') = utf8_chars (''['' @ s) @ ['']'']"
    by (subst utf8_chars_append) (simp_all add: cont_def byte_in_def byte_def)
  then have "last (utf8_chars (''['' @ s @ '']'')) = '']''" by simp
  moreover have "hd (utf8_chars (''['' @ s @ '']'')) = CHR ''['' # takeWhile cont (s @ '']'')" by simp
  ultimately show ?thesis using mark_not_whitespace [of "CHR '']''" "[]"] mark_not_whitespace [of "CHR ''[''" "s @ '']''"]
    by (simp add: trimmed_def)
qed

lemma trimmed_option:
  assumes "trimmed k" "k \<noteq> []" "trimmed v"
  shows "trimmed (k @ CHR ''='' # v)"
proof -
  have app: "utf8_chars (k @ CHR ''='' # v) = utf8_chars k @ utf8_chars (CHR ''='' # v)"
    by (rule utf8_chars_append) (simp add: cont_def byte_in_def byte_def)
  have "hd (utf8_chars (k @ CHR ''='' # v)) = hd (utf8_chars k)" using assms(2) by (simp add: app)
  moreover have "\<not> has_whitespace (last (utf8_chars (CHR ''='' # v)))"
  proof (cases "v = []")
    case False
    have v: "\<not> has_whitespace (last (utf8_chars v))" using assms(3) False by (simp add: trimmed_def)
    from last_utf8_chars_Cons [OF False, of "CHR ''=''"] show ?thesis
    proof
      assume "last (utf8_chars (CHR ''='' # v)) = CHR ''='' # v \<and> takeWhile cont v = v"
      then show ?thesis using mark_not_whitespace [of "CHR ''=''" v] by (metis insertI1 insertI2)
    qed (simp only: v not_False_eq_True)
  qed (use mark_not_whitespace [of "CHR ''=''" "[]"] in simp)
  ultimately show ?thesis using assms(1,2) by (simp add: trimmed_def app)
qed

lemma split_once_at: "c \<notin> set a \<Longrightarrow> split_once c (a @ c # b) = Some (a, b)"
  by (induction a) (auto simp: split_once_def Let_def)

lemma parse_section_line:
  assumes "section_ok s"
  shows "parse_line (''['' @ s @ '']'') = Inr (PlSection s)"
proof -
  have "split_on (CHR '';'') (''['' @ s @ '']'') = [''['' @ s @ '']'']" using assms by (simp add: section_ok_def plain_def)
  moreover have "split_once (CHR '']'') (s @ '']'') = Some (s, [])" using assms by (simp add: split_once_at section_ok_def plain_def)
  moreover have "trim_ws ([] :: string) = []" by (simp add: trim_ws_def)
  ultimately show ?thesis using assms trimmed_section [of s]
    by (simp add: parse_line_def Let_def strip_prefix_def section_ok_def plain_def)
qed

lemma parse_option_line:
  assumes "option_ok k v"
  shows "parse_line (k @ ''='' @ v) = Inr (PlOption k v)"
proof -
  have "split_on (CHR '';'') (k @ ''='' @ v) = [k @ ''='' @ v]" using assms by (simp add: option_ok_def plain_def)
  moreover have "split_once (CHR ''='') (k @ ''='' @ v) = Some (k, v)" using assms by (simp add: split_once_at option_ok_def plain_def)
  moreover have "strip_prefix ''['' (k @ ''='' @ v) = None" using assms by (cases k) (auto simp: strip_prefix_def option_ok_def)
  ultimately show ?thesis using assms trimmed_option [of k v]
    by (simp add: parse_line_def Let_def option_ok_def plain_def)
qed

lemma hd_split_on: "hd (split_on c s) = takeWhile (\<lambda>x. x \<noteq> c) s"
  by (induction s) (auto split: list.splits)

lemma split_onceD: "split_once c s = Some (a, b) \<Longrightarrow> s = a @ c # b \<and> c \<notin> set a"
proof -
  let ?r = "dropWhile (\<lambda>x. x \<noteq> c) s"
  assume "split_once c s = Some (a, b)"
  then have r: "?r \<noteq> []" "a = takeWhile (\<lambda>x. x \<noteq> c) s" "b = tl ?r" by (auto simp: split_once_def Let_def split: if_splits)
  from hd_dropWhile [OF r(1)] have "?r = c # b" using r(1,3) by (metis list.exhaust_sel)
  then have "s = a @ c # b" using r(2) by (metis takeWhile_dropWhile_id)
  moreover have "c \<notin> set a" using r(2) by (auto dest: set_takeWhileD)
  ultimately show ?thesis by simp
qed

lemma trim_keeps_hd:
  assumes "s \<noteq> []" "\<not> has_whitespace (hd (utf8_chars s))"
  shows "trim_ws s \<noteq> [] \<and> hd (trim_ws s) = hd s"
proof -
  let ?cs = "utf8_chars s"
  have ne: "?cs \<noteq> []" using assms(1) by simp
  then have d: "dropWhile has_whitespace ?cs = ?cs" using assms(2) by (simp add: dropWhile_eq_self_iff)
  have "dropWhile has_whitespace (rev ?cs) \<noteq> []" using ne assms(2) by (metis dropWhile_eq_Nil_conv hd_in_set set_rev)
  moreover obtain pre where "rev ?cs = pre @ dropWhile has_whitespace (rev ?cs)" by (metis takeWhile_dropWhile_id)
  ultimately have t: "trim_chars ?cs \<noteq> []" "?cs = trim_chars ?cs @ rev pre"
    by (simp add: trim_chars_def d, metis d rev_append rev_rev_ident trim_chars_def)
  then have h: "hd (trim_chars ?cs) = hd ?cs" by (metis hd_append2)
  with t(1) obtain r where "trim_chars ?cs = (hd s # takeWhile cont (tl s)) # r" using assms(1)
    by (metis hd_utf8_chars list.exhaust_sel)
  then show ?thesis by (simp add: trim_ws_chars)
qed

lemma parse_line_ok:
  assumes "parse_line line = Inr p" "CHR 0x00 \<notin> set line" "CHR 0x0A \<notin> set line"
  shows "(\<forall>s. p = PlSection s \<longrightarrow> section_ok s) \<and> (\<forall>k v. p = PlOption k v \<longrightarrow> option_ok k v)"
proof -
  define raw where "raw = takeWhile (\<lambda>x. x \<noteq> CHR '';'') line"
  have "set raw \<inter> {CHR '';'', CHR 0x0A, CHR 0x00} = {}" using assms(2,3) by (auto simp: raw_def dest: set_takeWhileD)
  then have clean: "set (trim_ws raw) \<inter> {CHR '';'', CHR 0x0A, CHR 0x00} = {}" using set_trim [of raw] by blast
  define t where "t = trim_ws raw"
  have t: "trimmed t" by (simp add: t_def)
  show ?thesis
  proof (cases "t = []")
    case True
    then show ?thesis using assms(1) by (auto simp: parse_line_def hd_split_on raw_def [symmetric] t_def)
  next
    case ne: False
    show ?thesis
    proof (cases "strip_prefix ''['' t")
      case (Some sec)
      then have sec: "set sec \<subseteq> set t" by (auto simp: strip_prefix_Some)
      from assms(1) ne Some obtain name rest where n: "split_once (CHR '']'') sec = Some (name, rest)" "trim_ws name \<noteq> []" "p = PlSection (trim_ws name)"
        by (auto simp: parse_line_def hd_split_on raw_def [symmetric] t_def [symmetric] Let_def split: option.splits if_splits)
      have "set (trim_ws name) \<subseteq> set t - {CHR '']''}" using split_onceD [OF n(1)] set_trim [of name] sec by auto
      then have "section_ok (trim_ws name)" using n(2) clean by (auto simp: section_ok_def plain_def t_def)
      then show ?thesis by (simp add: n(3))
    next
      case None
      from assms(1) ne None obtain key v where n: "split_once (CHR ''='') t = Some (key, v)" "trim_ws key \<noteq> []" "p = PlOption (trim_ws key) (trim_ws v)"
        by (auto simp: parse_line_def hd_split_on raw_def [symmetric] t_def [symmetric] Let_def split: option.splits if_splits)
      note s = split_onceD [OF n(1)]
      have key: "key \<noteq> []" using n(2) by (auto simp: trim_ws_def)
      have "utf8_chars t = utf8_chars key @ utf8_chars (CHR ''='' # v)" unfolding s [THEN conjunct1]
        by (rule utf8_chars_append) (simp add: cont_def byte_in_def byte_def)
      then have "hd (utf8_chars key) = hd (utf8_chars t)" using key by (simp del: utf8_chars.simps)
      then have "hd (trim_ws key) = hd key" using trim_keeps_hd [OF key] t ne by (simp add: trimmed_def)
      moreover have "hd key \<noteq> CHR ''[''" using None s key by (cases key) (auto simp: strip_prefix_def)
      moreover have "set (trim_ws key) \<subseteq> set t - {CHR ''=''}" "set (trim_ws v) \<subseteq> set t" using s set_trim [of key] set_trim [of v] by auto
      ultimately have "option_ok (trim_ws key) (trim_ws v)" using n(2) clean by (auto simp: option_ok_def plain_def t_def)
      then show ?thesis by (simp add: n(3))
    qed
  qed
qed

section \<open>Printed documents parse back\<close>

datatype ConfigItem = CiSection string | CiOption string string

fun item_line :: "ConfigItem \<Rightarrow> string" where
  "item_line (CiSection s) = ''['' @ s @ '']''"
| "item_line (CiOption k v) = k @ ''='' @ v"

fun item_ok :: "ConfigItem \<Rightarrow> bool" where
  "item_ok (CiSection s) = section_ok s"
| "item_ok (CiOption k v) = option_ok k v"

fun item_entries :: "string \<Rightarrow> ConfigItem list \<Rightarrow> (string \<times> string \<times> string) list" where
  "item_entries s [] = []"
| "item_entries s (CiSection t # items) = item_entries t items"
| "item_entries s (CiOption k v # items) = (s, k, v) # item_entries s items"

fun item_sections :: "ConfigItem list \<Rightarrow> string list" where
  "item_sections [] = []"
| "item_sections (CiSection t # items) = t # item_sections items"
| "item_sections (CiOption k v # items) = item_sections items"

definition triple :: "ConfigEntry \<Rightarrow> string \<times> string \<times> string" where
  "triple e = (ce_section e, ce_key e, ce_value e)"

definition items_text :: "ConfigItem list \<Rightarrow> string" where
  "items_text items = concat (map (\<lambda>i. item_line i @ [CHR 0x0A]) items)"

lemma trimmed_no_return: "trimmed s \<Longrightarrow> s \<noteq> [] \<Longrightarrow> last s \<noteq> CHR 0x0D"
proof
  assume "trimmed s" "s \<noteq> []" "last s = CHR 0x0D"
  then have "utf8_chars (butlast s @ [CHR 0x0D]) = utf8_chars (butlast s) @ [[CHR 0x0D]]"
    by (subst utf8_chars_append) (simp_all add: cont_def byte_in_def byte_def)
  with \<open>s \<noteq> []\<close> \<open>last s = CHR 0x0D\<close> have "utf8_chars s = utf8_chars (butlast s) @ [[CHR 0x0D]]" by (metis append_butlast_last_id)
  with \<open>trimmed s\<close> \<open>s \<noteq> []\<close> show False by (simp add: trimmed_def byte_in_def byte_def)
qed

lemma strip_return_id: "s = [] \<or> last s \<noteq> CHR 0x0D \<Longrightarrow> strip_return s = s"
  by (auto simp: strip_return_def strip_suffix_def suffix_def split: option.splits)

lemma item_line_clean:
  assumes "item_ok i"
  shows "CHR 0x0A \<notin> set (item_line i)" "CHR 0x00 \<notin> set (item_line i)" "strip_return (item_line i) = item_line i"
proof -
  show "CHR 0x0A \<notin> set (item_line i)" "CHR 0x00 \<notin> set (item_line i)"
    using assms by (cases i; auto simp: section_ok_def option_ok_def plain_def)+
  show "strip_return (item_line i) = item_line i"
  proof (cases i)
    case (CiOption k v)
    then show ?thesis using assms trimmed_no_return [of v]
      by (cases "v = []") (auto intro!: strip_return_id simp: option_ok_def plain_def)
  qed (auto intro!: strip_return_id)
qed

lemma text_lines_items: "list_all item_ok items \<Longrightarrow> text_lines (items_text items) = map item_line items"
proof (induction items)
  case (Cons i items)
  have "split_on (CHR 0x0A) (items_text (i # items)) = item_line i # split_on (CHR 0x0A) (items_text items)"
    using Cons.prems item_line_clean(1) [of i] by (simp add: items_text_def split_on_append_sep)
  moreover have "text_lines (items_text items) = map item_line items" using Cons by simp
  ultimately show ?case using Cons.prems item_line_clean(3) [of i] by (auto simp: text_lines_def Let_def split: if_splits)
qed (simp add: text_lines_def items_text_def)

lemma parse_item_line: "item_ok i \<Longrightarrow> parse_line (item_line i) = Inr (case i of CiSection s \<Rightarrow> PlSection s | CiOption k v \<Rightarrow> PlOption k v)"
  by (cases i) (simp_all add: parse_section_line [simplified] parse_option_line [simplified])

lemma document_loop_items:
  assumes "list_all item_ok items" "sec0 \<noteq> None"
  shows "\<exists>d'. document_loop n sec0 d (map item_line items) = Inr d' \<and> dc_sections d' = dc_sections d @ item_sections items
    \<and> map triple (dc_entries d') = map triple (dc_entries d) @ item_entries (the sec0) items"
  using assms
proof (induction items arbitrary: n sec0 d)
  case (Cons i items)
  have p: "CHR 0x00 \<notin> set (item_line i)" "parse_line (item_line i) = Inr (case i of CiSection s \<Rightarrow> PlSection s | CiOption k v \<Rightarrow> PlOption k v)"
    using Cons.prems(1) item_line_clean(2) parse_item_line by simp_all
  show ?case
  proof (cases i)
    case (CiSection s)
    let ?d = "d\<lparr>dc_sections := dc_sections d @ [s], dc_section_lines := dc_section_lines d @ [n]\<rparr>"
    from Cons.IH [of "Some s" "n + 1" ?d] Cons.prems p show ?thesis by (auto simp: CiSection)
  next
    case (CiOption k v)
    then obtain s where s: "sec0 = Some s" using Cons.prems by auto
    let ?d = "d\<lparr>dc_entries := dc_entries d @ [\<lparr>ce_section = s, ce_key = k, ce_value = v, ce_line = n\<rparr>]\<rparr>"
    from Cons.IH [of sec0 "n + 1" ?d] Cons.prems p show ?thesis by (auto simp: CiOption s triple_def)
  qed
qed simp

lemma document_parse_items:
  assumes "list_all item_ok (CiSection s # items)"
  shows "\<exists>d'. document_parse (items_text (CiSection s # items)) = Inr d' \<and> dc_sections d' = s # item_sections items
    \<and> map triple (dc_entries d') = item_entries s items"
proof -
  let ?d = "document_default\<lparr>dc_sections := [s], dc_section_lines := [1]\<rparr>"
  have "document_parse (items_text (CiSection s # items)) = document_loop 2 (Some s) ?d (map item_line items)"
    unfolding document_parse_def text_lines_items [OF assms]
    using assms item_line_clean(2) [of "CiSection s"] parse_item_line [of "CiSection s"] by (simp add: document_default_def numeral_2_eq_2)
  with document_loop_items [of items "Some s" 2 ?d] assms show ?thesis by (auto simp: document_default_def)
qed

section \<open>What a parsed document satisfies\<close>

text \<open>\<open>os\<close> gives for every entry the index of the section header it follows.\<close>

definition owns :: "ConfigDocument \<Rightarrow> nat \<Rightarrow> ConfigEntry \<Rightarrow> bool" where
  "owns d i e \<longleftrightarrow> i < length (dc_sections d) \<and> dc_section_lines d ! i < ce_line e
     \<and> (i + 1 < length (dc_sections d) \<longrightarrow> ce_line e < dc_section_lines d ! (i + 1)) \<and> ce_section e = dc_sections d ! i"

definition document_inv :: "nat \<Rightarrow> string option \<Rightarrow> nat list \<Rightarrow> ConfigDocument \<Rightarrow> bool" where
  "document_inv n sec os d \<longleftrightarrow>
     length (dc_section_lines d) = length (dc_sections d) \<and> sorted_wrt (<) (dc_section_lines d)
     \<and> list_all (\<lambda>l. l < n) (dc_section_lines d) \<and> list_all section_ok (dc_sections d)
     \<and> sec = (if dc_sections d = [] then None else Some (last (dc_sections d)))
     \<and> length os = length (dc_entries d) \<and> sorted os
     \<and> list_all (\<lambda>e. option_ok (ce_key e) (ce_value e) \<and> ce_line e < n) (dc_entries d)
     \<and> list_all2 (owns d) os (dc_entries d)"

lemma owns_section:
  assumes "owns d i e" "length (dc_section_lines d) = length (dc_sections d)" "ce_line e < n"
  shows "owns (d\<lparr>dc_sections := dc_sections d @ [s], dc_section_lines := dc_section_lines d @ [n]\<rparr>) i e"
  using assms by (auto simp: owns_def nth_append less_Suc_eq)

lemma inv_section:
  assumes "document_inv n sec os d" "section_ok s"
  shows "document_inv (n + 1) (Some s) os (d\<lparr>dc_sections := dc_sections d @ [s], dc_section_lines := dc_section_lines d @ [n]\<rparr>)"
proof -
  let ?d = "d\<lparr>dc_sections := dc_sections d @ [s], dc_section_lines := dc_section_lines d @ [n]\<rparr>"
  note i = assms(1) [unfolded document_inv_def]
  have "list_all2 (owns ?d) os (dc_entries d)"
  proof (rule list_all2_all_nthI)
    fix k assume k: "k < length os"
    then have "owns d (os ! k) (dc_entries d ! k)" "ce_line (dc_entries d ! k) < n"
      using i by (auto simp: list_all2_conv_all_nth list_all_length)
    then show "owns ?d (os ! k) (dc_entries d ! k)" using i by (intro owns_section) auto
  qed (use i in simp)
  moreover have "list_all (\<lambda>e. option_ok (ce_key e) (ce_value e) \<and> ce_line e < n + 1) (dc_entries d)"
    using i by (auto simp: list_all_iff less_Suc_eq)
  moreover have "list_all (\<lambda>l. l < n + 1) (dc_section_lines d @ [n])" using i by (auto simp: list_all_iff less_Suc_eq)
  ultimately show ?thesis using i assms(2) by (auto simp: document_inv_def sorted_wrt_append list_all_iff)
qed

lemma inv_option:
  assumes "document_inv n (Some s) os d" "option_ok k v"
  shows "document_inv (n + 1) (Some s) (os @ [length (dc_sections d) - 1])
    (d\<lparr>dc_entries := dc_entries d @ [\<lparr>ce_section = s, ce_key = k, ce_value = v, ce_line = n\<rparr>]\<rparr>)"
proof -
  let ?e = "\<lparr>ce_section = s, ce_key = k, ce_value = v, ce_line = n\<rparr>"
  let ?d = "d\<lparr>dc_entries := dc_entries d @ [?e]\<rparr>"
  note i = assms(1) [unfolded document_inv_def]
  have ne: "dc_sections d \<noteq> []" "s = last (dc_sections d)" using i by (auto split: if_splits)
  have same: "owns ?d = owns d" by (intro ext) (simp add: owns_def)
  have "owns d (length (dc_sections d) - 1) ?e"
    using i ne by (auto simp: owns_def last_conv_nth list_all_length)
  moreover have "list_all2 (owns d) os (dc_entries d)" using i by simp
  ultimately have o: "list_all2 (owns ?d) (os @ [length (dc_sections d) - 1]) (dc_entries d @ [?e])"
    unfolding same by (intro list_all2_appendI) simp_all
  have "\<forall>x\<in>set os. x < length (dc_sections d)" using i by (auto simp: list_all2_conv_all_nth in_set_conv_nth owns_def)
  then have "sorted (os @ [length (dc_sections d) - 1])" using i by (auto simp: sorted_append)
  moreover have "list_all (\<lambda>l. l < n + 1) (dc_section_lines d)" using i by (auto simp: list_all_iff less_Suc_eq)
  ultimately show ?thesis using i o assms(2) ne by (auto simp: document_inv_def list_all_iff less_Suc_eq)
qed

lemma inv_empty: "document_inv n sec os d \<Longrightarrow> document_inv (n + 1) sec os d"
  by (auto simp: document_inv_def list_all_iff less_Suc_eq)

lemma document_loop_inv:
  assumes "document_loop n sec d ls = Inr d'" "document_inv n sec os d" "\<forall>l\<in>set ls. CHR 0x0A \<notin> set l"
  shows "\<exists>n' sec' os'. document_inv n' sec' os' d'"
  using assms
proof (induction ls arbitrary: n sec d os)
  case (Cons l ls)
  have z: "CHR 0x00 \<notin> set l" using Cons.prems(1) by (auto split: if_splits)
  obtain p where p: "parse_line l = Inr p" using Cons.prems(1) z by (auto split: sum.splits)
  note ok = parse_line_ok [OF p z]
  show ?case
  proof (cases p)
    case PlEmpty
    then show ?thesis using Cons.IH [of "n + 1" sec d os] Cons.prems p z inv_empty by simp
  next
    case (PlSection s)
    then have "section_ok s" using ok Cons.prems(3) by simp
    from inv_section [OF Cons.prems(2) this] show ?thesis using Cons.IH Cons.prems p z by (simp add: PlSection)
  next
    case (PlOption k v)
    then obtain s where s: "sec = Some s" using Cons.prems(1) p z by (cases sec) auto
    have "option_ok k v" using ok Cons.prems(3) PlOption by simp
    from inv_option [OF Cons.prems(2) [unfolded s] this] show ?thesis using Cons.IH Cons.prems p z by (simp add: PlOption s)
  qed
qed auto

lemma split_on_clean: "l \<in> set (split_on c s) \<Longrightarrow> c \<notin> set l"
  by (induction s arbitrary: l) (auto split: list.splits if_splits)

lemma text_lines_clean: "l \<in> set (text_lines s) \<Longrightarrow> CHR 0x0A \<notin> set l"
proof -
  assume "l \<in> set (text_lines s)"
  then consider x where "x \<in> set (split_on (CHR 0x0A) s)" "l = strip_return x" | "l \<in> set (split_on (CHR 0x0A) s)"
    by (auto simp: text_lines_def Let_def dest: in_set_butlastD split: if_splits)
  then show ?thesis
    by cases (auto simp: strip_return_def strip_suffix_def dest: split_on_clean in_set_takeD split: option.splits if_splits)
qed

lemma document_parse_inv: "document_parse txt = Inr d \<Longrightarrow> \<exists>n sec os. document_inv n sec os d"
  unfolding document_parse_def
  by (rule document_loop_inv [of 1 None document_default "text_lines txt" d "[]"])
    (auto simp: document_inv_def document_default_def dest: text_lines_clean)

lemma owns_unique:
  assumes "length (dc_section_lines d) = length (dc_sections d)" "sorted_wrt (<) (dc_section_lines d)"
    "owns d i e" "j < length (dc_sections d)" "dc_section_lines d ! j < ce_line e"
    "j + 1 < length (dc_sections d) \<Longrightarrow> ce_line e < dc_section_lines d ! (j + 1)"
  shows "i = j"
proof -
  have mono: "a < b \<Longrightarrow> b < length (dc_sections d) \<Longrightarrow> dc_section_lines d ! a < dc_section_lines d ! b" for a b
    using assms(1,2) by (simp add: sorted_wrt_iff_nth_less)
  have le: "a \<le> b \<Longrightarrow> b < length (dc_sections d) \<Longrightarrow> dc_section_lines d ! a \<le> dc_section_lines d ! b" for a b
    using mono [of a b] by (cases "a = b") auto
  show ?thesis
  proof (rule linorder_cases [of i j])
    assume "i < j"
    then show ?thesis using le [of "i + 1" j] assms(3,4,5) by (simp add: owns_def)
  next
    assume "j < i"
    then show ?thesis using le [of "j + 1" i] assms(3,6) by (simp add: owns_def)
  qed simp
qed

lemma entries_between_owned:
  assumes "document_inv n sec os d" "i < length (dc_sections d)"
  shows "entries_between d i = map snd (filter (\<lambda>(j, e). j = i) (zip os (dc_entries d)))"
proof -
  note inv = assms(1) [unfolded document_inv_def]
  have f: "filter P (dc_entries d) = map snd (filter (\<lambda>(j, e). P e) (zip os (dc_entries d)))" for P
  proof -
    have "dc_entries d = map snd (zip os (dc_entries d))" using inv by simp
    then have "filter P (dc_entries d) = filter P (map snd (zip os (dc_entries d)))" by simp
    then show ?thesis by (simp add: filter_map o_def split_def)
  qed
  have c: "(case x of (j, e) \<Rightarrow> dc_section_lines d ! i < ce_line e
      \<and> (if i + 1 < length (dc_section_lines d) then ce_line e < dc_section_lines d ! (i + 1) else True)) = (case x of (j, e) \<Rightarrow> j = i)"
    if "x \<in> set (zip os (dc_entries d))" for x
  proof -
    obtain j e where x: "x = (j, e)" by fastforce
    have "owns d j e" using inv that by (auto simp: x list_all2_iff)
    then show ?thesis using owns_unique [of d j e i] inv assms(2) by (auto simp: x owns_def)
  qed
  show ?thesis unfolding entries_between_def f by (rule arg_cong [OF filter_cong [OF refl c]])
qed

lemma sorted_filter_less:
  "sorted (map f xs) \<Longrightarrow> filter (\<lambda>x. f x < Suc n \<and> P x) xs = filter (\<lambda>x. f x < n \<and> P x) xs @ filter (\<lambda>x. f x = n \<and> P x) xs"
  for f :: "'a \<Rightarrow> nat"
proof (induction xs)
  case (Cons x xs)
  show ?case
  proof (cases "f x < n")
    case False
    then have "filter (\<lambda>x. f x < n \<and> P x) xs = []" using Cons.prems by (force simp: filter_empty_conv)
    with Cons False show ?thesis by (auto simp: less_Suc_eq)
  qed (use Cons in \<open>auto simp: less_Suc_eq\<close>)
qed simp

lemma concat_by_key:
  fixes f :: "'a \<Rightarrow> nat"
  assumes "sorted (map f xs)"
  shows "concat (map (\<lambda>i. filter (\<lambda>x. f x = i) xs) (filter Q [0..<n])) = filter (\<lambda>x. f x < n \<and> Q (f x)) xs"
proof (induction n)
  case (Suc n)
  have "filter (\<lambda>x. f x = n \<and> Q (f x)) xs = (if Q n then filter (\<lambda>x. f x = n) xs else [])"
    by (auto intro: filter_cong simp: filter_empty_conv)
  then show ?case using Suc sorted_filter_less [OF assms, of n "\<lambda>x. Q (f x)"] by simp
qed simp

text \<open>Whether a section, by its name, is part of the processing configuration of a node.\<close>

definition applicable :: "ConfigDocument \<Rightarrow> string \<Rightarrow> string \<Rightarrow> bool" where
  "applicable d node s = (case parse_scope s of Inr sc \<Rightarrow> scope_applicable node (profile_selected d node s) sc | Inl _ \<Rightarrow> False)"

lemma owned_entries:
  assumes "document_inv n sec os d"
  shows "concat (map (entries_between d) (filter (\<lambda>i. Q (dc_sections d ! i)) [0..<length (dc_sections d)]))
    = filter (\<lambda>e. Q (ce_section e)) (dc_entries d)"
proof -
  note inv = assms [unfolded document_inv_def]
  let ?z = "zip os (dc_entries d)" and ?n = "length (dc_sections d)"
  have own: "fst x < ?n \<and> ce_section (snd x) = dc_sections d ! fst x" if "x \<in> set ?z" for x
    using inv that by (auto simp: list_all2_iff owns_def)
  have "concat (map (entries_between d) (filter (\<lambda>i. Q (dc_sections d ! i)) [0..<?n]))
      = concat (map (\<lambda>i. map snd (filter (\<lambda>x. fst x = i) ?z)) (filter (\<lambda>i. Q (dc_sections d ! i)) [0..<?n]))"
    by (rule arg_cong [of _ _ concat], rule map_cong) (auto simp: entries_between_owned [OF assms] split_def)
  also have "\<dots> = map snd (concat (map (\<lambda>i. filter (\<lambda>x. fst x = i) ?z) (filter (\<lambda>i. Q (dc_sections d ! i)) [0..<?n])))"
    by (simp add: map_concat o_def)
  also have "\<dots> = map snd (filter (\<lambda>x. fst x < ?n \<and> Q (dc_sections d ! fst x)) ?z)"
    using concat_by_key [of fst ?z "\<lambda>i. Q (dc_sections d ! i)" ?n] inv by simp
  also have "\<dots> = map snd (filter (\<lambda>x. Q (ce_section (snd x))) ?z)"
    by (rule arg_cong [OF filter_cong [OF refl]]) (auto simp: own)
  also have "\<dots> = filter (\<lambda>e. Q (ce_section e)) (map snd ?z)" by (simp add: filter_map o_def)
  finally show ?thesis using inv by simp
qed

definition entry_items :: "ConfigEntry list \<Rightarrow> ConfigItem list" where
  "entry_items es = map (\<lambda>e. CiOption (ce_key e) (ce_value e)) es"

lemma entry_items_text: "concat (map entry_text es) = items_text (entry_items es)"
  by (simp add: items_text_def entry_items_def o_def entry_text_def [abs_def])

lemma items_text_append: "items_text (a @ b) = items_text a @ items_text b"
  by (simp add: items_text_def)

lemma section_item: "section_text s = items_text [CiSection s]"
  by (simp add: section_text_def items_text_def)

definition section_items :: "ConfigDocument \<Rightarrow> nat \<Rightarrow> ConfigItem list" where
  "section_items d i = CiSection (dc_sections d ! i) # entry_items (entries_between d i)"

lemma processing_sections_items:
  "processing_sections d node is = Some t \<Longrightarrow> t = items_text (concat (map (section_items d) (filter (\<lambda>i. applicable d node (dc_sections d ! i)) is)))"
proof (induction "is" arbitrary: t)
  case (Cons i "is")
  obtain sc u where "parse_scope (dc_sections d ! i) = Inr sc" "processing_sections d node is = Some u"
    "t = (if scope_applicable node (profile_selected d node (dc_sections d ! i)) sc
          then section_text (dc_sections d ! i) @ concat (map entry_text (entries_between d i)) else []) @ u"
    using Cons.prems by (auto simp: Let_def split: sum.splits)
  with Cons.IH show ?case
    by (auto simp: applicable_def section_items_def items_text_append entry_items_text section_item)
      (simp add: items_text_def)+
qed (simp add: items_text_def)

lemma item_entries_append:
  "item_entries s (a @ CiSection t # b) = item_entries s a @ item_entries t b"
  by (induction s a rule: item_entries.induct) simp_all

lemma item_entries_entries: "item_entries s (entry_items es) = map (\<lambda>e. (s, ce_key e, ce_value e)) es"
  by (induction es) (simp_all add: entry_items_def)

lemma item_entries_sections:
  "item_entries s (entry_items es @ concat (map (section_items d) is))
    = map (\<lambda>e. (s, ce_key e, ce_value e)) es
      @ concat (map (\<lambda>i. map (\<lambda>e. (dc_sections d ! i, ce_key e, ce_value e)) (entries_between d i)) is)"
proof (induction "is" arbitrary: s es)
  case (Cons i "is")
  then show ?case by (simp add: section_items_def item_entries_append item_entries_entries)
qed (simp add: item_entries_entries)

lemma item_sections_append: "item_sections (a @ b) = item_sections a @ item_sections b"
  by (induction a rule: item_sections.induct) simp_all

lemma item_sections_entries [simp]: "item_sections (entry_items es) = []"
  by (induction es) (simp_all add: entry_items_def)

lemma item_sections_sections: "item_sections (concat (map (section_items d) is)) = map ((!) (dc_sections d)) is"
  by (induction "is") (simp_all add: section_items_def item_sections_append)

lemma document_lookup_single:
  "document_lookup d key [s] = map_option (\<lambda>(_, _, v). v) (find (\<lambda>(_, k, _). k = key) (rev (filter (\<lambda>(t, _, _). t = s) (map triple (dc_entries d)))))"
proof -
  have a: "find (\<lambda>e. ce_section e = s \<and> ce_key e = key) es =
      find (\<lambda>e. ce_key e = key) (filter (\<lambda>e. ce_section e = s) es)" for es by (induction es) auto
  have b: "map_option ce_value (find (\<lambda>e. ce_key e = key) (filter (\<lambda>e. ce_section e = s) es))
      = map_option (\<lambda>(_, _, v). v) (find (\<lambda>(_, k, _). k = key) (filter (\<lambda>(t, _, _). t = s) (map triple es)))" for es
    by (induction es) (auto simp: triple_def)
  have "document_lookup d key [s] = map_option ce_value (find (\<lambda>e. ce_section e = s \<and> ce_key e = key) (rev (dc_entries d)))"
    by (simp add: document_lookup_def split: option.split)
  also have "\<dots> = map_option (\<lambda>(_, _, v). v) (find (\<lambda>(_, k, _). k = key) (filter (\<lambda>(t, _, _). t = s) (map triple (rev (dc_entries d)))))"
    using b [of "rev (dc_entries d)"] by (simp only: a)
  finally show ?thesis by (simp only: rev_filter rev_map)
qed

section \<open>Properties\<close>


text \<open>A document with a repeated radio section, and the copy for its node.\<close>

definition sample_lines :: "string list" where
  "sample_lines = [''[100]'', ''radio_profile = x ; note'', ''[radio 100]'', ''port = 1'', ''[general]'', ''a=b'', ''[radio 100]'', ''port = 2'']"

definition sample_text :: string where
  "sample_text = concat (map (\<lambda>l. l @ [CHR 0x0A]) sample_lines)"

definition sample_document :: ConfigDocument where
  "sample_document = \<lparr>dc_sections = [''100'', ''radio 100'', ''general'', ''radio 100''], dc_section_lines = [1, 3, 5, 7],
     dc_entries = [\<lparr>ce_section = ''100'', ce_key = ''radio_profile'', ce_value = ''x'', ce_line = 2\<rparr>,
       \<lparr>ce_section = ''radio 100'', ce_key = ''port'', ce_value = ''1'', ce_line = 4\<rparr>,
       \<lparr>ce_section = ''general'', ce_key = ''a'', ce_value = ''b'', ce_line = 6\<rparr>,
       \<lparr>ce_section = ''radio 100'', ce_key = ''port'', ce_value = ''2'', ce_line = 8\<rparr>]\<rparr>"


section \<open>Errors\<close>

definition line_fault :: "bool \<Rightarrow> string \<Rightarrow> string option" where
  "line_fault seen line =
     (if CHR 0x00 \<in> set line then Some ''embedded null byte''
      else (case parse_line line of
              Inl _ \<Rightarrow> Some ''malformed section or option''
            | Inr (PlOption _ _) \<Rightarrow> if seen then None else Some ''option before section''
            | Inr _ \<Rightarrow> None))"

definition section_before :: "string list \<Rightarrow> nat \<Rightarrow> bool" where
  "section_before ls k \<longleftrightarrow> (\<exists>j < k. \<exists>s. parse_line (ls ! j) = Inr (PlSection s))"

lemma section_before_Suc: "section_before (l # ls) (Suc k) \<longleftrightarrow> (\<exists>s. parse_line l = Inr (PlSection s)) \<or> section_before ls k"
  by (auto simp: section_before_def less_Suc_eq_0_disj)

lemma document_loop_step:
  "document_loop n sec d (l # ls) =
     (case line_fault (sec \<noteq> None) l of
        Some msg \<Rightarrow> Inl (CeSyntax n msg)
      | None \<Rightarrow> document_loop (n + 1) (case parse_line l of Inr (PlSection s) \<Rightarrow> Some s | _ \<Rightarrow> sec)
          (case parse_line l of
             Inr (PlSection s) \<Rightarrow> d\<lparr>dc_sections := dc_sections d @ [s], dc_section_lines := dc_section_lines d @ [n]\<rparr>
           | Inr (PlOption k v) \<Rightarrow> d\<lparr>dc_entries := dc_entries d @ [\<lparr>ce_section = the sec, ce_key = k, ce_value = v, ce_line = n\<rparr>]\<rparr>
           | _ \<Rightarrow> d) ls)"
  by (cases sec) (auto simp: line_fault_def split: sum.split ParsedLine.split)

lemma document_loop_error:
  "document_loop n sec d ls = Inl e \<longleftrightarrow>
     (\<exists>k < length ls. \<exists>msg. e = CeSyntax (n + k) msg \<and> line_fault (sec \<noteq> None \<or> section_before ls k) (ls ! k) = Some msg
        \<and> (\<forall>j < k. line_fault (sec \<noteq> None \<or> section_before ls j) (ls ! j) = None))"
proof (induction ls arbitrary: n sec d)
  case (Cons l ls)
  show ?case
  proof (cases "line_fault (sec \<noteq> None) l")
    case (Some msg)
    then show ?thesis
      by (auto simp: document_loop_step All_less_Suc2 Ex_less_Suc2 section_before_def simp del: document_loop.simps)
  next
    case None
    let ?sec = "case parse_line l of Inr (PlSection s) \<Rightarrow> Some s | _ \<Rightarrow> sec"
    have "(?sec \<noteq> None \<or> section_before ls j) = (sec \<noteq> None \<or> section_before (l # ls) (Suc j))" for j
      by (auto simp: section_before_Suc split: sum.splits ParsedLine.splits)
    then show ?thesis using None Cons.IH
      by (simp add: document_loop_step All_less_Suc2 Ex_less_Suc2 section_before_def [of _ 0] del: document_loop.simps)
  qed
qed simp

text \<open>C9. A text is refused exactly for its first faulty line. Parsing fails if and only if some line holds a null byte, is
  neither a comment, a section nor an option, or is an option before any section; the error then names the first such line
  by its number and its cause, and every text without one is accepted.\<close>

theorem document_errors_exact:
  "document_parse txt = Inl e \<longleftrightarrow>
     (\<exists>k msg. k < length (text_lines txt) \<and> e = CeSyntax (k + 1) msg
        \<and> line_fault (section_before (text_lines txt) k) (text_lines txt ! k) = Some msg
        \<and> list_all (\<lambda>j. line_fault (section_before (text_lines txt) j) (text_lines txt ! j) = None) [0..<k])"
  unfolding document_parse_def document_loop_error by (auto simp: list_all_iff)

section \<open>Section names\<close>

lemma words_scope_consistent:
  assumes "words_scope parts = Inr sc"
  shows "(is_named (sc_kind sc) \<longrightarrow> sc_label sc \<noteq> None) \<and> (is_node_scoped (sc_kind sc) \<longrightarrow> sc_node sc \<noteq> None)
    \<and> set_option (sc_node sc) \<union> set_option (sc_label sc) \<subseteq> set parts"
  using assms
  by (auto simp: words_scope_def site_scope_def family_scope_def definition_scope_def family_forms_def definition_forms_def
      scope_flat_def scope_node_def scope_named_def is_named_def is_node_scoped_def split: list.splits option.splits if_splits)

text \<open>A section kind that is named has a label and one that belongs to a node has that node, neither of them empty: the code
  takes both out of the scope without a further check.\<close>

theorem scope_consistent:
  assumes "parse_scope name = Inr sc"
  shows "(is_named (sc_kind sc) \<longrightarrow> sc_label sc \<noteq> None) \<and> (is_node_scoped (sc_kind sc) \<longrightarrow> sc_node sc \<noteq> None)
    \<and> [] \<notin> set_option (sc_node sc) \<union> set_option (sc_label sc)"
proof -
  have trim: "trim_ws [] = []" by (simp add: trim_ws_def)
  have words: ?thesis if "words_scope parts = Inr sc" "[] \<notin> set parts" for parts
    using words_scope_consistent [OF that(1)] that(2) by blast
  show ?thesis
    using assms unfolding parse_scope_def
    by (auto simp: Let_def scope_flat_def scope_node_def scope_named_def is_named_def is_node_scoped_def trim
        dest: words split: if_splits option.splits prod.splits)
qed

lemma unsigned_in_show: "lo \<le> n \<Longrightarrow> n \<le> hi \<Longrightarrow> n < 2 ^ 64 \<Longrightarrow> unsigned_in (show_nat n) lo hi = Some n"
  by (simp add: unsigned_in_def parse_unsigned_show)

end
