(* ===== verification/Reload.thy ===== *)
theory Reload
  imports Node_Host
begin

text \<open>
  The configuration transaction, \<^verbatim>\<open>core/src/runtime/reload.rs\<close>, with the device part of its commit and the shutdown of
  a node (\<^verbatim>\<open>core/src/runtime/aggregate.rs\<close>). Radio devices are external code and so an argument, a record of the operations of
  the trait \<^verbatim>\<open>DeviceHandoff\<close>; so are the hosts of the nodes, of which the transaction asks the owners outstanding and that it
  gates, restores and stops. A panic of the code is \<open>None\<close>. Of a node and of a candidate only the fields the devices depend on are
  kept; the errors drop what they carry of a document or a link.
\<close>

section \<open>Devices, hosts and nodes\<close>

datatype RuntimeError =
  RtConfig | RtPreparation | RtBusy | RtDevice | RtRestore | RtClock | RtMissingNode | RtRejected | RtLink

record 'v DeviceOps =
  do_update :: "GenerationSettings \<Rightarrow> 'v \<Rightarrow> (RuntimeError + bool) \<times> 'v"
  do_finish_update :: "bool \<Rightarrow> 'v \<Rightarrow> bool \<times> 'v"
  do_quiesce :: "'v \<Rightarrow> bool \<times> 'v"
  do_close :: "'v \<Rightarrow> 'v"
  do_open :: "GenerationSettings \<Rightarrow> 'v \<Rightarrow> bool \<times> 'v"
  do_ready :: "'v \<Rightarrow> (RuntimeError + bool) \<times> 'v"

record 'h HostOps =
  ho_outstanding :: "u64 \<Rightarrow> 'h \<Rightarrow> nat"
  ho_protected :: "u64 \<Rightarrow> 'h \<Rightarrow> nat"
  ho_gate :: "'h \<Rightarrow> 'h"
  ho_restore :: "'h \<Rightarrow> 'h"
  ho_stop :: "u64 \<Rightarrow> 'h \<Rightarrow> 'h"
  ho_close_links :: "'h \<Rightarrow> 'h"
  ho_detach :: "'h \<Rightarrow> 'h \<Rightarrow> 'h"
  ho_publish :: "string \<Rightarrow> bool \<Rightarrow> 'h \<Rightarrow> 'h"
  ho_fresh :: "string \<Rightarrow> 'h"

record ('v, 'h, 'r) ReloadNode =
  rn_name :: string
  rn_bounds :: GenerationSettings
  rn_radio :: 'r
  rn_device :: 'v
  rn_open :: bool
  rn_host :: 'h

record ('v, 'r) ReloadCandidate =
  ca_name :: string
  ca_bounds :: GenerationSettings
  ca_radio :: 'r
  ca_device :: "'v option"

text \<open>\<open>ho_detach\<close> gets the host before the stop; it detaches its generations where nothing else holds them.\<close>

definition stop_node :: "'v DeviceOps \<Rightarrow> 'h HostOps \<Rightarrow> u64 \<Rightarrow> ('v, 'h, 'r) ReloadNode \<Rightarrow> ('v, 'h, 'r) ReloadNode" where
  "stop_node dv ho now node =
     (let n1 = node\<lparr>rn_host := ho_close_links ho (ho_stop ho now (rn_host node))\<rparr>;
          n2 = (if rn_open n1
                then (case do_quiesce dv (rn_device n1) of
                        (True, v) \<Rightarrow> n1\<lparr>rn_device := do_close dv v, rn_open := False\<rparr>
                      | (False, v) \<Rightarrow> n1\<lparr>rn_device := v\<rparr>)
                else n1) in
      if rn_open n2 then n2 else n2\<lparr>rn_host := ho_detach ho (rn_host node) (rn_host n2)\<rparr>)"

section \<open>The transaction\<close>

datatype DeviceProgress = DpPrepare | DpQuiescing nat | DpOpen "nat option" | DpWaiting "nat option" | DpReady

datatype RestoreProgress = RpClose | RpOpen | RpWaiting | RpFailed | RpDone

text \<open>What the transaction carries to its commit besides the candidates (document, warnings, events, scheduler, revisions) is \<open>'x\<close>.\<close>

record ('v, 'r, 'x) ReloadTransaction =
  rl_payload :: 'x
  rl_candidates :: "('v, 'r) ReloadCandidate list"
  rl_changed :: "nat list"
  rl_updated :: "string list"
  rl_opened :: "nat list"
  rl_states :: "DeviceProgress list"
  rl_failure :: "RuntimeError option"
  rl_fresh_closed :: nat
  rl_restoring :: "RestoreProgress list"
  rl_updates_restored :: nat
  rl_restored :: bool

definition reload_new :: "'x \<Rightarrow> ('v, 'r) ReloadCandidate list \<Rightarrow> ('v, 'r, 'x) ReloadTransaction" where
  "reload_new payload candidates =
     \<lparr>rl_payload = payload, rl_candidates = candidates, rl_changed = [], rl_updated = [], rl_opened = [],
      rl_states = replicate (length candidates) DpPrepare, rl_failure = None, rl_fresh_closed = 0, rl_restoring = [],
      rl_updates_restored = 0, rl_restored = True\<rparr>"

definition reload_fail :: "RuntimeError \<Rightarrow> ('v, 'r, 'x) ReloadTransaction \<Rightarrow> ('v, 'r, 'x) ReloadTransaction" where
  "reload_fail e tx = tx\<lparr>rl_failure := Some e, rl_restoring := replicate (length (rl_changed tx)) RpClose\<rparr>"

definition set_progress :: "nat \<Rightarrow> DeviceProgress \<Rightarrow> ('v, 'r, 'x) ReloadTransaction \<Rightarrow> ('v, 'r, 'x) ReloadTransaction" where
  "set_progress i p tx = tx\<lparr>rl_states := (rl_states tx)[i := p]\<rparr>"

definition set_candidate_device :: "nat \<Rightarrow> 'v \<Rightarrow> ('v, 'r, 'x) ReloadTransaction \<Rightarrow> ('v, 'r, 'x) ReloadTransaction" where
  "set_candidate_device i v tx = tx\<lparr>rl_candidates := (rl_candidates tx)[i := (rl_candidates tx ! i)\<lparr>ca_device := Some v\<rparr>]\<rparr>"

section \<open>Forward\<close>

text \<open>One round of the loop: \<open>Inr True\<close> returns, \<open>Inr False\<close> goes on with the next state, \<open>Inl\<close> is the error.\<close>

type_synonym ('v, 'h, 'r, 'x) reload_state = "('v, 'r, 'x) ReloadTransaction \<times> ('v, 'h, 'r) ReloadNode list"

definition stage_update :: "'v DeviceOps \<Rightarrow> ('v, 'r) ReloadCandidate \<Rightarrow> ('v, 'h, 'r) ReloadNode \<Rightarrow> (RuntimeError + bool) \<times> ('v, 'h, 'r) ReloadNode" where
  "stage_update dv ca node =
     (if gs_device (rn_bounds node) = gs_device (ca_bounds ca) \<and> gs_receive_maximum (rn_bounds node) = gs_receive_maximum (ca_bounds ca)
         \<and> gs_transmit_maximum (rn_bounds node) = gs_transmit_maximum (ca_bounds ca)
      then (case do_update dv (ca_bounds ca) (rn_device node) of (a, v) \<Rightarrow> (a, node\<lparr>rn_device := v\<rparr>))
      else (Inr False, node))"

definition forward_prepare ::
    "'v DeviceOps \<Rightarrow> 'h HostOps \<Rightarrow> u64 \<Rightarrow> nat \<Rightarrow> ('v, 'h, 'r, 'x) reload_state \<Rightarrow> (RuntimeError + bool) \<times> ('v, 'h, 'r, 'x) reload_state" where
  "forward_prepare dv ho now i s = (case s of (tx, ns) \<Rightarrow>
     (let ca = rl_candidates tx ! i in
      case position (\<lambda>n. rn_name n = ca_name ca) ns of
        None \<Rightarrow> (Inr False, set_progress i (DpOpen None) tx, ns)
      | Some k \<Rightarrow>
          if gs_device (rn_bounds (ns ! k)) = gs_device (ca_bounds ca) \<and> rn_radio (ns ! k) = ca_radio ca
          then (Inr True, set_progress i DpReady tx, ns)
          else (case stage_update dv ca (ns ! k) of
                  (Inl e, node) \<Rightarrow> (Inl e, tx\<lparr>rl_updated := rl_updated tx @ [rn_name node]\<rparr>, ns[k := node])
                | (Inr True, node) \<Rightarrow>
                    (Inr True, set_progress i DpReady (tx\<lparr>rl_updated := rl_updated tx @ [rn_name node]\<rparr>), ns[k := node])
                | (Inr False, node) \<Rightarrow>
                    if ho_outstanding ho now (rn_host node) \<noteq> 0 \<or> ho_protected ho now (rn_host node) \<noteq> 0
                    then (Inl RtBusy, tx, ns[k := node])
                    else (Inr False, set_progress i (DpQuiescing k) (tx\<lparr>rl_changed := rl_changed tx @ [k]\<rparr>), ns[k := node]))))"

definition forward_quiesce ::
    "'v DeviceOps \<Rightarrow> 'h HostOps \<Rightarrow> u64 \<Rightarrow> nat \<Rightarrow> nat \<Rightarrow> ('v, 'h, 'r, 'x) reload_state \<Rightarrow> (RuntimeError + bool) \<times> ('v, 'h, 'r, 'x) reload_state" where
  "forward_quiesce dv ho now i k s = (case s of (tx, ns) \<Rightarrow>
     (let node = ns ! k in
      case do_quiesce dv (rn_device node) of
        (False, v) \<Rightarrow> (Inr True, tx, ns[k := node\<lparr>rn_device := v\<rparr>])
      | (True, v) \<Rightarrow>
          (let gated = node\<lparr>rn_device := v, rn_host := ho_gate ho (rn_host node)\<rparr> in
           if ho_protected ho now (rn_host gated) \<noteq> 0 then (Inr True, tx, ns[k := gated])
           else (Inr False, set_progress i (DpOpen (Some k)) tx, ns[k := gated\<lparr>rn_device := do_close dv v, rn_open := False\<rparr>]))))"

definition forward_open ::
    "'v DeviceOps \<Rightarrow> nat \<Rightarrow> nat option \<Rightarrow> ('v, 'h, 'r, 'x) reload_state \<Rightarrow> (RuntimeError + bool) \<times> ('v, 'h, 'r, 'x) reload_state" where
  "forward_open dv i old s = (case s of (tx, ns) \<Rightarrow>
     (let ca = rl_candidates tx ! i in
      case old of
        Some k \<Rightarrow>
          (case do_open dv (ca_bounds ca) (rn_device (ns ! k)) of
             (accepted, v) \<Rightarrow>
               (let ns' = ns[k := (ns ! k)\<lparr>rn_device := v, rn_open := accepted\<rparr>] in
                if accepted then (Inr False, set_progress i (DpWaiting old) tx, ns') else (Inl RtDevice, tx, ns')))
      | None \<Rightarrow>
          (let tx1 = tx\<lparr>rl_opened := rl_opened tx @ [i]\<rparr> in
           case ca_device ca of
             None \<Rightarrow> (Inl RtPreparation, tx1, ns)
           | Some d \<Rightarrow>
               (case do_open dv (ca_bounds ca) d of
                  (accepted, v) \<Rightarrow>
                    (let tx2 = set_candidate_device i v tx1 in
                     if accepted then (Inr False, set_progress i (DpWaiting old) tx2, ns) else (Inl RtDevice, tx2, ns))))))"

definition forward_wait ::
    "'v DeviceOps \<Rightarrow> nat \<Rightarrow> nat option \<Rightarrow> ('v, 'h, 'r, 'x) reload_state \<Rightarrow> (RuntimeError + bool) \<times> ('v, 'h, 'r, 'x) reload_state" where
  "forward_wait dv i old s = (case s of (tx, ns) \<Rightarrow>
     (let done1 = (\<lambda>a tx1 ns1. (case a of
             Inl e \<Rightarrow> (Inl e, tx1, ns1)
           | Inr ready \<Rightarrow> if ready then (Inr False, set_progress i DpReady tx1, ns1) else (Inr True, tx1, ns1))) in
      case old of
        Some k \<Rightarrow> (case do_ready dv (rn_device (ns ! k)) of (a, v) \<Rightarrow> done1 a tx (ns[k := (ns ! k)\<lparr>rn_device := v\<rparr>]))
      | None \<Rightarrow>
          (case ca_device (rl_candidates tx ! i) of
             None \<Rightarrow> (Inl RtPreparation, tx, ns)
           | Some d \<Rightarrow> (case do_ready dv d of (a, v) \<Rightarrow> done1 a (set_candidate_device i v tx) ns))))"

definition forward_step ::
    "'v DeviceOps \<Rightarrow> 'h HostOps \<Rightarrow> u64 \<Rightarrow> nat \<Rightarrow> ('v, 'h, 'r, 'x) reload_state \<Rightarrow> (RuntimeError + bool) \<times> ('v, 'h, 'r, 'x) reload_state" where
  "forward_step dv ho now i s =
     (case rl_states (fst s) ! i of
        DpPrepare \<Rightarrow> forward_prepare dv ho now i s
      | DpQuiescing k \<Rightarrow> forward_quiesce dv ho now i k s
      | DpOpen old \<Rightarrow> forward_open dv i old s
      | DpWaiting old \<Rightarrow> forward_wait dv i old s
      | DpReady \<Rightarrow> (Inr True, s))"

text \<open>The loop, with fuel: every round that goes on advances the state, so five rounds are enough.\<close>

fun forward_loop ::
    "'v DeviceOps \<Rightarrow> 'h HostOps \<Rightarrow> u64 \<Rightarrow> nat \<Rightarrow> nat \<Rightarrow> ('v, 'h, 'r, 'x) reload_state \<Rightarrow> ((RuntimeError + unit) \<times> ('v, 'h, 'r, 'x) reload_state) option" where
  "forward_loop dv ho now i 0 s = None"
| "forward_loop dv ho now i (Suc fuel) s =
     (case forward_step dv ho now i s of
        (Inl e, s') \<Rightarrow> Some (Inl e, s')
      | (Inr True, s') \<Rightarrow> Some (Inr (), s')
      | (Inr False, s') \<Rightarrow> forward_loop dv ho now i fuel s')"

definition reload_forward ::
    "'v DeviceOps \<Rightarrow> 'h HostOps \<Rightarrow> u64 \<Rightarrow> nat \<Rightarrow> ('v, 'h, 'r, 'x) reload_state \<Rightarrow> ((RuntimeError + unit) \<times> ('v, 'h, 'r, 'x) reload_state) option" where
  "reload_forward dv ho now i s = forward_loop dv ho now i 5 s"

fun forward_all ::
    "'v DeviceOps \<Rightarrow> 'h HostOps \<Rightarrow> u64 \<Rightarrow> nat list \<Rightarrow> ('v, 'h, 'r, 'x) reload_state \<Rightarrow> ('v, 'h, 'r, 'x) reload_state option" where
  "forward_all dv ho now [] s = Some s"
| "forward_all dv ho now (i # is) s =
     (case reload_forward dv ho now i s of
        None \<Rightarrow> None
      | Some (Inl e, tx, ns) \<Rightarrow> Some (reload_fail e tx, ns)
      | Some (Inr _, s') \<Rightarrow> forward_all dv ho now is s')"

section \<open>Rollback\<close>

text \<open>The devices of the candidates, the last opened first; the number counts those still open.\<close>

fun close_fresh :: "'v DeviceOps \<Rightarrow> nat \<Rightarrow> ('v, 'r, 'x) ReloadTransaction \<Rightarrow> ('v, 'r, 'x) ReloadTransaction option" where
  "close_fresh dv 0 tx = Some tx"
| "close_fresh dv (Suc n) tx =
     (let i = rl_opened tx ! n in
      case ca_device (rl_candidates tx ! i) of
        None \<Rightarrow> None
      | Some d \<Rightarrow>
          (case do_quiesce dv d of
             (False, v) \<Rightarrow> Some (set_candidate_device i v tx)
           | (True, v) \<Rightarrow>
               close_fresh dv n ((set_candidate_device i (do_close dv v) tx)\<lparr>rl_fresh_closed := rl_fresh_closed tx + 1\<rparr>)))"

definition set_restoring :: "nat \<Rightarrow> RestoreProgress \<Rightarrow> ('v, 'r, 'x) ReloadTransaction \<Rightarrow> ('v, 'r, 'x) ReloadTransaction" where
  "set_restoring p r tx = tx\<lparr>rl_restoring := (rl_restoring tx)[p := r]\<rparr>"

text \<open>One round for the node at a position of the changed ones: whether the loop goes on, and the new state.\<close>

definition restore_step ::
    "'v DeviceOps \<Rightarrow> 'h HostOps \<Rightarrow> bool \<Rightarrow> u64 \<Rightarrow> nat \<Rightarrow> ('v, 'h, 'r, 'x) reload_state \<Rightarrow> bool \<times> ('v, 'h, 'r, 'x) reload_state" where
  "restore_step dv ho stopping now p s = (case s of (tx, ns) \<Rightarrow>
     (let k = rl_changed tx ! p; node = ns ! k in
      case rl_restoring tx ! p of
        RpClose \<Rightarrow>
          (case do_quiesce dv (rn_device node) of
             (False, v) \<Rightarrow> (False, tx, ns[k := node\<lparr>rn_device := v\<rparr>])
           | (True, v) \<Rightarrow>
               (True, set_restoring p (if stopping then RpDone else RpOpen) tx, ns[k := node\<lparr>rn_device := do_close dv v, rn_open := False\<rparr>]))
      | RpOpen \<Rightarrow>
          (case do_open dv (rn_bounds node) (rn_device node) of
             (accepted, v) \<Rightarrow>
               (True, set_restoring p (if accepted then RpWaiting else RpFailed) tx, ns[k := node\<lparr>rn_device := v, rn_open := accepted\<rparr>]))
      | RpWaiting \<Rightarrow>
          (case do_ready dv (rn_device node) of
             (Inr False, v) \<Rightarrow> (False, tx, ns[k := node\<lparr>rn_device := v\<rparr>])
           | (Inr True, v) \<Rightarrow> (True, set_restoring p RpDone tx, ns[k := node\<lparr>rn_device := v, rn_host := ho_restore ho (rn_host node)\<rparr>])
           | (Inl _, v) \<Rightarrow> (True, set_restoring p RpFailed tx, ns[k := node\<lparr>rn_device := v\<rparr>]))
      | RpFailed \<Rightarrow>
          (case do_quiesce dv (rn_device node) of
             (False, v) \<Rightarrow> (False, tx, ns[k := node\<lparr>rn_device := v\<rparr>])
           | (True, v) \<Rightarrow>
               (True, (set_restoring p RpDone tx)\<lparr>rl_restored := False\<rparr>,
                ns[k := node\<lparr>rn_device := do_close dv v, rn_open := False, rn_host := ho_stop ho now (rn_host node)\<rparr>]))
      | RpDone \<Rightarrow> (False, s)))"

fun restore_loop ::
    "'v DeviceOps \<Rightarrow> 'h HostOps \<Rightarrow> bool \<Rightarrow> u64 \<Rightarrow> nat \<Rightarrow> nat \<Rightarrow> ('v, 'h, 'r, 'x) reload_state \<Rightarrow> ('v, 'h, 'r, 'x) reload_state option" where
  "restore_loop dv ho stopping now p 0 s = None"
| "restore_loop dv ho stopping now p (Suc fuel) s =
     (case restore_step dv ho stopping now p s of
        (False, s') \<Rightarrow> Some s'
      | (True, s') \<Rightarrow> restore_loop dv ho stopping now p fuel s')"

text \<open>The positions from the last to the first; the number counts those to do.\<close>

fun restore_all :: "'v DeviceOps \<Rightarrow> 'h HostOps \<Rightarrow> bool \<Rightarrow> u64 \<Rightarrow> nat \<Rightarrow> ('v, 'h, 'r, 'x) reload_state \<Rightarrow> ('v, 'h, 'r, 'x) reload_state option" where
  "restore_all dv ho stopping now 0 s = Some s"
| "restore_all dv ho stopping now (Suc n) s = Option.bind (restore_loop dv ho stopping now n 5 s) (restore_all dv ho stopping now n)"

fun restore_updates :: "'v DeviceOps \<Rightarrow> 'h HostOps \<Rightarrow> u64 \<Rightarrow> nat \<Rightarrow> ('v, 'h, 'r, 'x) reload_state \<Rightarrow> ('v, 'h, 'r, 'x) reload_state option" where
  "restore_updates dv ho now 0 s = Some s"
| "restore_updates dv ho now (Suc n) s = (case s of (tx, ns) \<Rightarrow>
     (case position (\<lambda>node. rn_name node = rl_updated tx ! n) ns of
        None \<Rightarrow> None
      | Some k \<Rightarrow>
          (case do_finish_update dv False (rn_device (ns ! k)) of
             (ok, v) \<Rightarrow>
               (let node = (ns ! k)\<lparr>rn_device := v\<rparr>;
                    tx1 = tx\<lparr>rl_updates_restored := rl_updates_restored tx + 1\<rparr> in
                restore_updates dv ho now n
                  (if ok then (tx1, ns[k := node]) else (tx1\<lparr>rl_restored := False\<rparr>, ns[k := stop_node dv ho now node]))))))"

definition rollback_complete :: "('v, 'r, 'x) ReloadTransaction \<Rightarrow> bool" where
  "rollback_complete tx \<longleftrightarrow> rl_fresh_closed tx = length (rl_opened tx) \<and> list_all (\<lambda>r. r = RpDone) (rl_restoring tx)"

definition reload_rollback ::
    "'v DeviceOps \<Rightarrow> 'h HostOps \<Rightarrow> bool \<Rightarrow> u64 \<Rightarrow> ('v, 'h, 'r, 'x) reload_state \<Rightarrow> ((RuntimeError + bool) \<times> ('v, 'h, 'r, 'x) reload_state) option" where
  "reload_rollback dv ho stopping now s = (case s of (tx, ns) \<Rightarrow>
     Option.bind (close_fresh dv (length (rl_opened tx) - rl_fresh_closed tx) tx) (\<lambda>tx1.
     Option.bind (restore_all dv ho stopping now (length (rl_changed tx1)) (tx1, ns)) (\<lambda>(tx2, ns2).
     Option.bind (restore_updates dv ho now (length (rl_updated tx2) - rl_updates_restored tx2) (tx2, ns2)) (\<lambda>(tx3, ns3).
       if \<not> rollback_complete tx3 then Some (Inr False, tx3, ns3)
       else if rl_restored tx3
       then map_option (\<lambda>e. (Inl e, tx3\<lparr>rl_failure := None\<rparr>, ns3)) (rl_failure tx3)
       else Some (Inl RtRestore, tx3, ns3)))))"

section \<open>A poll\<close>

definition reload_advance ::
    "'v DeviceOps \<Rightarrow> 'h HostOps \<Rightarrow> bool \<Rightarrow> u64 \<Rightarrow> ('v, 'h, 'r, 'x) reload_state \<Rightarrow> ((RuntimeError + bool) \<times> ('v, 'h, 'r, 'x) reload_state) option" where
  "reload_advance dv ho stopping now s = (case s of (tx, ns) \<Rightarrow>
     (let tx0 = (if stopping \<and> rl_failure tx = None then reload_fail RtBusy tx else tx) in
      Option.bind (if rl_failure tx0 = None then forward_all dv ho now [0..<length (rl_candidates tx0)] (tx0, ns) else Some (tx0, ns)) (\<lambda>(tx1, ns1).
        if rl_failure tx1 \<noteq> None then reload_rollback dv ho stopping now (tx1, ns1)
        else Some (Inr (list_all (\<lambda>p. p = DpReady) (rl_states tx1)), tx1, ns1))))"

section \<open>Commit\<close>

text \<open>A commit whose staged update cannot be finished stops the nodes the transaction touched and closes the devices it opened.\<close>

definition stop_touched :: "'v DeviceOps \<Rightarrow> 'h HostOps \<Rightarrow> u64 \<Rightarrow> ('v, 'r, 'x) ReloadTransaction \<Rightarrow> ('v, 'h, 'r) ReloadNode list \<Rightarrow> ('v, 'h, 'r) ReloadNode list" where
  "stop_touched dv ho now tx ns =
     map (\<lambda>(k, node). if k \<in> set (rl_changed tx) \<or> rn_name node \<in> set (rl_updated tx) then stop_node dv ho now node else node) (enumerate 0 ns)"

definition close_opened :: "'v DeviceOps \<Rightarrow> ('v, 'r, 'x) ReloadTransaction \<Rightarrow> ('v, 'r, 'x) ReloadTransaction" where
  "close_opened dv tx =
     tx\<lparr>rl_candidates := fold (\<lambda>i cs. cs[i := (cs ! i)\<lparr>ca_device := map_option (do_close dv) (ca_device (cs ! i))\<rparr>]) (rev (rl_opened tx)) (rl_candidates tx)\<rparr>"

fun commit_updates ::
    "'v DeviceOps \<Rightarrow> 'h HostOps \<Rightarrow> u64 \<Rightarrow> string list \<Rightarrow> ('v, 'h, 'r, 'x) reload_state \<Rightarrow> ((RuntimeError + unit) \<times> ('v, 'h, 'r, 'x) reload_state) option" where
  "commit_updates dv ho now [] s = Some (Inr (), s)"
| "commit_updates dv ho now (name # names) s = (case s of (tx, ns) \<Rightarrow>
     (case position (\<lambda>node. rn_name node = name) ns of
        None \<Rightarrow> None
      | Some k \<Rightarrow>
          (case do_finish_update dv True (rn_device (ns ! k)) of
             (ok, v) \<Rightarrow>
               (let ns1 = ns[k := (ns ! k)\<lparr>rn_device := v\<rparr>] in
                if ok then commit_updates dv ho now names (tx, ns1)
                else Some (Inl RtRestore, close_opened dv tx, stop_touched dv ho now tx ns1)))))"

text \<open>
  The nodes of the candidates, in their order, and the nodes left over. The hosts take the candidates' generations; the flag says
  that the device was handed over, when the host detaches its prior generation at once unless an adapter holds it.
\<close>

definition adopt_node ::
    "'h HostOps \<Rightarrow> string list \<Rightarrow> ('v, 'r) ReloadCandidate \<Rightarrow> ('v, 'h, 'r) ReloadNode \<Rightarrow> ('v, 'h, 'r) ReloadNode" where
  "adopt_node ho updated ca old =
     (let handoff = gs_device (rn_bounds old) \<noteq> gs_device (ca_bounds ca) \<or> (rn_radio old \<noteq> ca_radio ca \<and> ca_name ca \<notin> set updated) in
      old\<lparr>rn_host := ho_publish ho (ca_name ca) handoff (rn_host old), rn_bounds := ca_bounds ca, rn_radio := ca_radio ca\<rparr>)"

definition fresh_node :: "'h HostOps \<Rightarrow> ('v, 'r) ReloadCandidate \<Rightarrow> 'v \<Rightarrow> ('v, 'h, 'r) ReloadNode" where
  "fresh_node ho ca d =
     \<lparr>rn_name = ca_name ca, rn_bounds = ca_bounds ca, rn_radio = ca_radio ca, rn_device = d, rn_open = True, rn_host = ho_fresh ho (ca_name ca)\<rparr>"

fun commit_candidates ::
    "'h HostOps \<Rightarrow> string list \<Rightarrow> ('v, 'r) ReloadCandidate list \<Rightarrow> ('v, 'h, 'r) ReloadNode list \<Rightarrow> (('v, 'h, 'r) ReloadNode list \<times> ('v, 'h, 'r) ReloadNode list) option" where
  "commit_candidates ho updated [] ns = Some ([], ns)"
| "commit_candidates ho updated (ca # cs) ns =
     (case position (\<lambda>node. rn_name node = ca_name ca) ns of
        Some k \<Rightarrow>
          map_option (\<lambda>(next, rest). (adopt_node ho updated ca (ns ! k) # next, rest))
            (commit_candidates ho updated cs (take k ns @ drop (Suc k) ns))
      | None \<Rightarrow>
          (case ca_device ca of
             None \<Rightarrow> None
           | Some d \<Rightarrow> map_option (\<lambda>(next, rest). (fresh_node ho ca d # next, rest)) (commit_candidates ho updated cs ns)))"

text \<open>The nodes and the retired ones after the commit.\<close>

definition commit_reload ::
    "'v DeviceOps \<Rightarrow> 'h HostOps \<Rightarrow> u64 \<Rightarrow> ('v, 'h, 'r, 'x) reload_state
      \<Rightarrow> ((RuntimeError + unit) \<times> ('v, 'r, 'x) ReloadTransaction \<times> ('v, 'h, 'r) ReloadNode list \<times> ('v, 'h, 'r) ReloadNode list) option" where
  "commit_reload dv ho now s =
     (case commit_updates dv ho now (rl_updated (fst s)) s of
        None \<Rightarrow> None
      | Some (Inl e, tx, ns) \<Rightarrow> Some (Inl e, tx, ns, [])
      | Some (Inr _, tx, ns) \<Rightarrow>
          map_option (\<lambda>(next, rest). (Inr (), tx, next, map (stop_node dv ho now) rest)) (commit_candidates ho (rl_updated tx) (rl_candidates tx) ns))"

end
