(* ===== verification/Reload_Leases.thy ===== *)
theory Reload_Leases
  imports Reload
begin

text \<open>
  The leases of the devices during a configuration transaction. Every device carries a ghost that follows the calls made on it
  and breaks when they leave the order the trait \<^verbatim>\<open>DeviceHandoff\<close> documents: an opening needs a closed lease, a close a quiescence
  just reported, a poll of the activation or an update a lease opened before. The invariants of the forward and of the rollback
  phase then show what the transaction does to every lease, whatever the devices answer and the hosts do between the polls.
\<close>

section \<open>The lease of a device\<close>

datatype lease = LeaseClosed | LeaseLive GenerationSettings | LeaseStopping | LeaseQuiet | LeaseBroken

record 'v tracked_device =
  td_dev :: 'v
  td_lease :: lease

fun lease_used :: "lease \<Rightarrow> lease" where
  "lease_used (LeaseLive b) = LeaseLive b"
| "lease_used _ = LeaseBroken"

fun lease_quiesced :: "bool \<Rightarrow> lease \<Rightarrow> lease" where
  "lease_quiesced q LeaseClosed = LeaseBroken"
| "lease_quiesced q LeaseBroken = LeaseBroken"
| "lease_quiesced q _ = (if q then LeaseQuiet else LeaseStopping)"

fun lease_closed :: "lease \<Rightarrow> lease" where
  "lease_closed LeaseQuiet = LeaseClosed"
| "lease_closed _ = LeaseBroken"

fun lease_opened :: "GenerationSettings \<Rightarrow> lease \<Rightarrow> lease" where
  "lease_opened b LeaseClosed = LeaseLive b"
| "lease_opened b _ = LeaseBroken"

definition track :: "(lease \<Rightarrow> lease) \<Rightarrow> 'v tracked_device \<Rightarrow> 'a \<times> 'v \<Rightarrow> 'a \<times> 'v tracked_device" where
  "track f t r = (fst r, \<lparr>td_dev = snd r, td_lease = f (td_lease t)\<rparr>)"

text \<open>The end of an update keeps the lease, whatever it is: the code may end an update of a device it has stopped.\<close>

definition tracked :: "'v DeviceOps \<Rightarrow> 'v tracked_device DeviceOps" where
  "tracked dv =
     \<lparr>do_update = (\<lambda>b t. track lease_used t (do_update dv b (td_dev t))),
      do_finish_update = (\<lambda>commit t. track id t (do_finish_update dv commit (td_dev t))),
      do_quiesce = (\<lambda>t. (let r = do_quiesce dv (td_dev t) in track (lease_quiesced (fst r)) t r)),
      do_close = (\<lambda>t. \<lparr>td_dev = do_close dv (td_dev t), td_lease = lease_closed (td_lease t)\<rparr>),
      do_open = (\<lambda>b t. track (lease_opened b) t (do_open dv b (td_dev t))),
      do_ready = (\<lambda>t. track lease_used t (do_ready dv (td_dev t)))\<rparr>"

definition lease_held :: "'v tracked_device \<Rightarrow> bool" where
  "lease_held t \<longleftrightarrow> td_lease t \<noteq> LeaseClosed \<and> td_lease t \<noteq> LeaseBroken"

lemma tracked_update: "do_update (tracked dv) b t = (a, t') \<Longrightarrow> td_lease t' = lease_used (td_lease t)"
  by (auto simp: tracked_def track_def)

lemma tracked_finish: "do_finish_update (tracked dv) c t = (a, t') \<Longrightarrow> td_lease t' = td_lease t"
  by (auto simp: tracked_def track_def)

lemma tracked_quiesce:
  "do_quiesce (tracked dv) t = (q, t') \<Longrightarrow> lease_held t \<Longrightarrow> td_lease t' = (if q then LeaseQuiet else LeaseStopping)"
  by (cases "td_lease t") (auto simp: tracked_def track_def Let_def lease_held_def)

lemma tracked_close: "td_lease t = LeaseQuiet \<Longrightarrow> td_lease (do_close (tracked dv) t) = LeaseClosed"
  by (simp add: tracked_def)

lemma tracked_open: "do_open (tracked dv) b t = (a, t') \<Longrightarrow> td_lease t = LeaseClosed \<Longrightarrow> td_lease t' = LeaseLive b"
  by (auto simp: tracked_def track_def)

lemma tracked_ready: "do_ready (tracked dv) t = (a, t') \<Longrightarrow> td_lease t = LeaseLive b \<Longrightarrow> td_lease t' = LeaseLive b"
  by (auto simp: tracked_def track_def)

lemmas tracked_steps = tracked_update tracked_finish tracked_quiesce tracked_close tracked_open tracked_ready

section \<open>What holds while the transaction goes forward\<close>

text \<open>A node is served by a lease on the device its settings name; a reload that keeps the device may have changed the other bounds.\<close>

definition served :: "('v tracked_device, 'h, 'r) ReloadNode \<Rightarrow> bool" where
  "served n \<longleftrightarrow> (\<exists>b. td_lease (rn_device n) = LeaseLive b \<and> gs_device b = gs_device (rn_bounds n)) \<and> rn_open n"

definition moved :: "GenerationSettings \<Rightarrow> ('v tracked_device, 'h, 'r) ReloadNode \<Rightarrow> bool" where
  "moved b n \<longleftrightarrow> td_lease (rn_device n) = LeaseLive b \<and> rn_open n"

definition down :: "('v tracked_device, 'h, 'r) ReloadNode \<Rightarrow> bool" where
  "down n \<longleftrightarrow> td_lease (rn_device n) = LeaseClosed \<and> \<not> rn_open n"

definition owner :: "('v, 'r, 'x) ReloadTransaction \<Rightarrow> ('v, 'h, 'r) ReloadNode list \<Rightarrow> nat \<Rightarrow> nat option" where
  "owner tx ns i = position (\<lambda>n. rn_name n = ca_name (rl_candidates tx ! i)) ns"

fun fresh_ok :: "bool \<Rightarrow> GenerationSettings \<Rightarrow> DeviceProgress \<Rightarrow> lease \<Rightarrow> bool" where
  "fresh_ok op b DpPrepare l \<longleftrightarrow> \<not> op \<and> l = LeaseClosed"
| "fresh_ok op b (DpOpen None) l \<longleftrightarrow> \<not> op \<and> l = LeaseClosed"
| "fresh_ok op b (DpWaiting None) l \<longleftrightarrow> op \<and> l = LeaseLive b"
| "fresh_ok op b DpReady l \<longleftrightarrow> op \<and> l = LeaseLive b"
| "fresh_ok op b _ l \<longleftrightarrow> False"

fun owned_ok :: "bool \<Rightarrow> bool \<Rightarrow> GenerationSettings \<Rightarrow> nat \<Rightarrow> DeviceProgress \<Rightarrow> ('v tracked_device, 'h, 'r) ReloadNode \<Rightarrow> bool" where
  "owned_ok ch up b k DpPrepare n \<longleftrightarrow> \<not> ch \<and> \<not> up"
| "owned_ok ch up b k (DpQuiescing k') n \<longleftrightarrow> k' = k \<and> ch \<and> lease_held (rn_device n)"
| "owned_ok ch up b k (DpOpen old) n \<longleftrightarrow> old = Some k \<and> ch \<and> td_lease (rn_device n) = LeaseClosed"
| "owned_ok ch up b k (DpWaiting old) n \<longleftrightarrow> old = Some k \<and> ch \<and> moved b n"
| "owned_ok ch up b k DpReady n \<longleftrightarrow> (if ch then moved b n else gs_device (rn_bounds n) = gs_device b)"

definition cand_ok :: "('v tracked_device, 'r, 'x) ReloadTransaction \<Rightarrow> ('v tracked_device, 'h, 'r) ReloadNode list \<Rightarrow> nat \<Rightarrow> bool" where
  "cand_ok tx ns i \<longleftrightarrow> (let ca = rl_candidates tx ! i in
     case owner tx ns i of
       None \<Rightarrow> (case ca_device ca of
                 None \<Rightarrow> False
               | Some d \<Rightarrow> fresh_ok (i \<in> set (rl_opened tx)) (ca_bounds ca) (rl_states tx ! i) (td_lease d))
     | Some k \<Rightarrow> i \<notin> set (rl_opened tx) \<and> pred_option (\<lambda>d. td_lease d = LeaseClosed) (ca_device ca)
                 \<and> owned_ok (k \<in> set (rl_changed tx)) (ca_name ca \<in> set (rl_updated tx)) (ca_bounds ca) k (rl_states tx ! i) (ns ! k))"

definition node_ok :: "('v tracked_device, 'r, 'x) ReloadTransaction \<Rightarrow> ('v tracked_device, 'h, 'r) ReloadNode list \<Rightarrow> nat \<Rightarrow> bool" where
  "node_ok tx ns k \<longleftrightarrow>
     (if k \<in> set (rl_changed tx)
      then (\<exists>i < length (rl_candidates tx). owner tx ns i = Some k) \<and> rn_name (ns ! k) \<notin> set (rl_updated tx)
      else served (ns ! k))"

definition reload_shape_ok :: "('v, 'r, 'x) ReloadTransaction \<Rightarrow> ('v, 'h, 'r) ReloadNode list \<Rightarrow> bool" where
  "reload_shape_ok tx ns \<longleftrightarrow>
     distinct (map rn_name ns) \<and> distinct (map ca_name (rl_candidates tx)) \<and> distinct (rl_changed tx) \<and> distinct (rl_opened tx)
     \<and> set (rl_changed tx) \<subseteq> {..<length ns} \<and> set (rl_opened tx) \<subseteq> {..<length (rl_candidates tx)}
     \<and> set (rl_updated tx) \<subseteq> rn_name ` set ns \<and> length (rl_states tx) = length (rl_candidates tx)"

definition fresh_start :: "('v, 'r, 'x) ReloadTransaction \<Rightarrow> bool" where
  "fresh_start tx \<longleftrightarrow> rl_failure tx = None \<and> rl_fresh_closed tx = 0 \<and> rl_updates_restored tx = 0 \<and> rl_restored tx"

definition forward_inv :: "('v tracked_device, 'r, 'x) ReloadTransaction \<Rightarrow> ('v tracked_device, 'h, 'r) ReloadNode list \<Rightarrow> bool" where
  "forward_inv tx ns \<longleftrightarrow> reload_shape_ok tx ns \<and> fresh_start tx
     \<and> (\<forall>i < length (rl_candidates tx). cand_ok tx ns i) \<and> (\<forall>k < length ns. node_ok tx ns k)"

text \<open>Between two calls of \<open>reload_forward\<close> no candidate is about to open.\<close>

definition is_opening :: "DeviceProgress \<Rightarrow> bool" where
  "is_opening p \<longleftrightarrow> (case p of DpOpen _ \<Rightarrow> True | _ \<Rightarrow> False)"

definition settled_but :: "nat set \<Rightarrow> ('v, 'r, 'x) ReloadTransaction \<Rightarrow> bool" where
  "settled_but I tx \<longleftrightarrow> (\<forall>j < length (rl_states tx). j \<notin> I \<longrightarrow> \<not> is_opening (rl_states tx ! j))"

text \<open>What a failure leaves.\<close>

definition failed_inv :: "('v tracked_device, 'r, 'x) ReloadTransaction \<Rightarrow> ('v tracked_device, 'h, 'r) ReloadNode list \<Rightarrow> bool" where
  "failed_inv tx ns \<longleftrightarrow> reload_shape_ok tx ns \<and> fresh_start tx
     \<and> (\<forall>i < length (rl_candidates tx).
          if i \<in> set (rl_opened tx) then (\<exists>d. ca_device (rl_candidates tx ! i) = Some d \<and> lease_held d)
          else pred_option (\<lambda>d. td_lease d = LeaseClosed) (ca_device (rl_candidates tx ! i)))
     \<and> (\<forall>k < length ns. if k \<in> set (rl_changed tx) then lease_held (rn_device (ns ! k)) \<and> rn_name (ns ! k) \<notin> set (rl_updated tx)
          else served (ns ! k))"


section \<open>Candidates and their nodes\<close>

lemma position_map: "position P (map f xs) = position (\<lambda>x. P (f x)) xs"
  by (induction xs) auto

lemma owner_names: "owner tx ns i = position (\<lambda>m. m = ca_name (rl_candidates tx ! i)) (map rn_name ns)"
  by (simp add: owner_def position_map)

lemma owner_cong:
  "map rn_name ns' = map rn_name ns \<Longrightarrow> ca_name (rl_candidates tx' ! i) = ca_name (rl_candidates tx ! i) \<Longrightarrow> owner tx' ns' i = owner tx ns i"
  by (simp add: owner_names)

lemma owner_Some: "owner tx ns i = Some k \<Longrightarrow> k < length ns \<and> rn_name (ns ! k) = ca_name (rl_candidates tx ! i)"
  unfolding owner_def by (drule position_Some) simp

lemma distinct_names_nth:
  "distinct (map f xs) \<Longrightarrow> i < length xs \<Longrightarrow> j < length xs \<Longrightarrow> f (xs ! i) = f (xs ! j) \<Longrightarrow> i = j"
  by (metis length_map nth_eq_iff_index_eq nth_map)

lemma owner_inj:
  assumes "reload_shape_ok tx ns" "owner tx ns i = Some k" "owner tx ns j = Some k" "i < length (rl_candidates tx)" "j < length (rl_candidates tx)"
  shows "i = j"
  using assms owner_Some[of tx ns i k] owner_Some[of tx ns j k]
  by (auto simp: reload_shape_ok_def intro: distinct_names_nth[where f = ca_name])

lemmas names_update = map_update_same[where f = rn_name]

lemma names_image: "rn_name n = rn_name (ns ! k) \<Longrightarrow> rn_name ` set (ns[k := n]) = rn_name ` set ns"
  by (metis names_update set_map)

lemma forward_frame_node:
  assumes inv: "forward_inv tx ns"
    and i: "i < length (rl_candidates tx)" and own: "owner tx ns i = Some k"
    and cands: "rl_candidates tx' = rl_candidates tx" and opened: "rl_opened tx' = rl_opened tx" and start: "fresh_start tx'"
    and states: "rl_states tx' = (rl_states tx)[i := p]" and name: "rn_name n = rn_name (ns ! k)"
    and changed: "rl_changed tx' = rl_changed tx \<or> (k \<notin> set (rl_changed tx) \<and> rl_changed tx' = rl_changed tx @ [k])"
    and updated: "rl_updated tx' = rl_updated tx \<or> rl_updated tx' = rl_updated tx @ [rn_name (ns ! k)]"
    and ok: "cand_ok tx' (ns[k := n]) i" "node_ok tx' (ns[k := n]) k"
  shows "forward_inv tx' (ns[k := n])"
proof -
  have shape: "reload_shape_ok tx ns" and co: "\<And>j. j < length (rl_candidates tx) \<Longrightarrow> cand_ok tx ns j"
    and no: "\<And>j. j < length ns \<Longrightarrow> node_ok tx ns j"
    using inv by (auto simp: forward_inv_def)
  have k: "k < length ns" and kn: "rn_name (ns ! k) = ca_name (rl_candidates tx ! i)"
    using owner_Some[OF own] by auto
  have own': "owner tx' (ns[k := n]) j = owner tx ns j" for j
    by (rule owner_cong) (simp_all add: names_update name cands)
  have shape': "reload_shape_ok tx' (ns[k := n])"
    using shape k changed updated
    by (auto simp: reload_shape_ok_def cands opened states names_update[OF name] names_image[OF name] simp del: set_map)
  have c': "cand_ok tx' (ns[k := n]) j" if j: "j < length (rl_candidates tx)" "j \<noteq> i" for j
  proof -
    have nk: "owner tx ns j \<noteq> Some k" using owner_inj[OF shape own] j i by blast
    have nn: "ca_name (rl_candidates tx ! j) \<noteq> rn_name (ns ! k)"
      using shape j i kn distinct_names_nth[of ca_name "rl_candidates tx" j i] by (auto simp: reload_shape_ok_def)
    have mem: "(k' \<in> set (rl_changed tx')) = (k' \<in> set (rl_changed tx))" if "k' \<noteq> k" for k'
      using changed that by auto
    have upd: "(ca_name (rl_candidates tx ! j) \<in> set (rl_updated tx')) = (ca_name (rl_candidates tx ! j) \<in> set (rl_updated tx))"
      using updated nn by auto
    show ?thesis
    proof (cases "owner tx ns j")
      case None
      then show ?thesis using co[OF j(1)] j(2) by (simp add: cand_ok_def Let_def own' cands opened states split: option.splits)
    next
      case (Some k')
      then have "k' \<noteq> k" using nk by auto
      then show ?thesis using co[OF j(1)] j(2) Some by (simp add: cand_ok_def Let_def own' cands opened states mem upd)
    qed
  qed
  have n': "node_ok tx' (ns[k := n]) j" if j: "j < length ns" "j \<noteq> k" for j
  proof -
    have nn: "rn_name (ns ! j) \<noteq> rn_name (ns ! k)"
      using shape j k distinct_names_nth[of rn_name ns j k] by (auto simp: reload_shape_ok_def)
    have "(j \<in> set (rl_changed tx')) = (j \<in> set (rl_changed tx))" "(rn_name (ns ! j) \<in> set (rl_updated tx')) = (rn_name (ns ! j) \<in> set (rl_updated tx))"
      using changed updated j nn by auto
    then show ?thesis using no[OF j(1)] j by (simp add: node_ok_def own' cands)
  qed
  show ?thesis
    unfolding forward_inv_def using shape' start c' n' ok cands by (metis length_list_update)
qed

lemma forward_frame_fresh:
  assumes inv: "forward_inv tx ns"
    and i: "i < length (rl_candidates tx)" and own: "owner tx ns i = None"
    and cands: "rl_candidates tx' = (rl_candidates tx)[i := c]" and name: "ca_name c = ca_name (rl_candidates tx ! i)"
    and same: "rl_changed tx' = rl_changed tx" "rl_updated tx' = rl_updated tx" and start: "fresh_start tx'"
    and states: "rl_states tx' = (rl_states tx)[i := p]"
    and opened: "rl_opened tx' = rl_opened tx \<or> (i \<notin> set (rl_opened tx) \<and> rl_opened tx' = rl_opened tx @ [i])"
    and ok: "cand_ok tx' ns i"
  shows "forward_inv tx' ns"
proof -
  have shape: "reload_shape_ok tx ns" and co: "\<And>j. j < length (rl_candidates tx) \<Longrightarrow> cand_ok tx ns j"
    and no: "\<And>j. j < length ns \<Longrightarrow> node_ok tx ns j"
    using inv by (auto simp: forward_inv_def)
  have nm: "ca_name (rl_candidates tx' ! j) = ca_name (rl_candidates tx ! j)" for j
    using i name by (cases "j = i") (auto simp: cands)
  have own': "owner tx' ns j = owner tx ns j" for j
    by (rule owner_cong) (simp_all add: nm)
  have names: "map ca_name (rl_candidates tx') = map ca_name (rl_candidates tx)"
    using i name by (simp add: cands map_update) (metis length_map list_update_id nth_map)
  have len: "length (rl_candidates tx') = length (rl_candidates tx)" by (simp add: cands)
  have shape': "reload_shape_ok tx' ns"
    using shape i opened by (fastforce simp: reload_shape_ok_def names same states len)
  have c': "cand_ok tx' ns j" if j: "j < length (rl_candidates tx)" "j \<noteq> i" for j
  proof -
    have "(j \<in> set (rl_opened tx')) = (j \<in> set (rl_opened tx))" using opened j by auto
    then show ?thesis using co[OF j(1)] j by (cases "owner tx ns j"; cases "ca_device (rl_candidates tx ! j)") (simp_all add: cand_ok_def Let_def own' cands same states)
  qed
  have n': "node_ok tx' ns j" if "j < length ns" for j
    using no[OF that] by (simp add: node_ok_def own' cands same)
  show ?thesis
    unfolding forward_inv_def using shape' start c' n' ok cands by (metis length_list_update)
qed

section \<open>One round forward\<close>

lemma set_progress_sels [simp]:
  "rl_candidates (set_progress i p tx) = rl_candidates tx" "rl_changed (set_progress i p tx) = rl_changed tx"
  "rl_updated (set_progress i p tx) = rl_updated tx" "rl_opened (set_progress i p tx) = rl_opened tx"
  "rl_states (set_progress i p tx) = (rl_states tx)[i := p]" "fresh_start (set_progress i p tx) = fresh_start tx"
  "set_progress i q (set_progress i p tx) = set_progress i q tx"
  by (simp_all add: set_progress_def fresh_start_def)

lemma set_progress_id [simp]: "set_progress i (rl_states tx ! i) tx = tx"
  by (simp add: set_progress_def)

lemma set_device_sels [simp]:
  "rl_candidates (set_candidate_device i v tx) = (rl_candidates tx)[i := (rl_candidates tx ! i)\<lparr>ca_device := Some v\<rparr>]"
  "rl_changed (set_candidate_device i v tx) = rl_changed tx" "rl_updated (set_candidate_device i v tx) = rl_updated tx"
  "rl_opened (set_candidate_device i v tx) = rl_opened tx" "rl_states (set_candidate_device i v tx) = rl_states tx"
  "fresh_start (set_candidate_device i v tx) = fresh_start tx" "rl_fresh_closed (set_candidate_device i v tx) = rl_fresh_closed tx"
  by (simp_all add: set_candidate_device_def fresh_start_def)

lemma forward_invD:
  assumes "forward_inv tx ns"
  shows "reload_shape_ok tx ns" "fresh_start tx" "i < length (rl_candidates tx) \<Longrightarrow> cand_ok tx ns i" "k < length ns \<Longrightarrow> node_ok tx ns k"
    "length (rl_states tx) = length (rl_candidates tx)"
  using assms by (auto simp: forward_inv_def reload_shape_ok_def)

text \<open>The outcome of a round: on an error the progress \<open>p\<close> stands for what the failing call left.\<close>

definition round_ok ::
    "nat \<Rightarrow> ('v tracked_device, 'r, 'x) ReloadTransaction \<Rightarrow> RuntimeError + bool \<Rightarrow> ('v tracked_device, 'h, 'r, 'x) reload_state \<Rightarrow> bool" where
  "round_ok i tx r s \<longleftrightarrow>
     (\<exists>p. forward_inv (set_progress i p (fst s)) (snd s) \<and> (\<exists>q. rl_states (fst s) = (rl_states tx)[i := q])
        \<and> (case r of Inl e \<Rightarrow> \<not> is_opening p
           | Inr fin \<Rightarrow> p = rl_states (fst s) ! i \<and> (fin \<longrightarrow> \<not> is_opening p)))"

lemma round_node:
  assumes inv: "forward_inv tx ns" and i: "i < length (rl_candidates tx)" and own: "owner tx ns i = Some k"
    and tx': "tx' = tx \<or> tx' = tx\<lparr>rl_updated := rl_updated tx @ [rn_name (ns ! k)]\<rparr> \<or> (k \<notin> set (rl_changed tx) \<and> tx' = tx\<lparr>rl_changed := rl_changed tx @ [k]\<rparr>)"
    and name: "rn_name n = rn_name (ns ! k)"
    and ok: "owned_ok (k \<in> set (rl_changed tx')) (ca_name (rl_candidates tx ! i) \<in> set (rl_updated tx')) (ca_bounds (rl_candidates tx ! i)) k p n"
      "if k \<in> set (rl_changed tx') then rn_name (ns ! k) \<notin> set (rl_updated tx') else served n"
  shows "forward_inv (set_progress i p tx') (ns[k := n])"
proof -
  have c: "cand_ok tx ns i" and start: "fresh_start tx" using forward_invD[OF inv] i by auto
  have k: "k < length ns" using owner_Some[OF own] by simp
  have same: "rl_candidates tx' = rl_candidates tx" "rl_opened tx' = rl_opened tx" "rl_states tx' = rl_states tx"
    using tx' by auto
  have own': "owner (set_progress i p tx') (ns[k := n]) i = Some k"
    using owner_cong[where tx = tx and ns = ns] names_update[OF name] own same by (metis set_progress_sels(1))
  have len: "i < length (rl_states tx)" using forward_invD(5)[OF inv] i by simp
  have start': "fresh_start tx'" using tx' start by (auto simp: fresh_start_def)
  show ?thesis
  proof (rule forward_frame_node[OF inv i own _ _ _ _ name])
    show "fresh_start (set_progress i p tx')" using start' by simp
    show "cand_ok (set_progress i p tx') (ns[k := n]) i"
      using c own own' ok(1) k len by (simp add: cand_ok_def Let_def same)
    show "node_ok (set_progress i p tx') (ns[k := n]) k"
      using ok(2) i own' k name by (auto simp: node_ok_def same split: if_splits)
  qed (use tx' in \<open>auto simp: same\<close>)
qed

lemma round_fresh:
  assumes inv: "forward_inv tx ns" and i: "i < length (rl_candidates tx)" and own: "owner tx ns i = None"
    and tx': "(tx' = tx \<and> op = (i \<in> set (rl_opened tx))) \<or> (i \<notin> set (rl_opened tx) \<and> op \<and> tx' = tx\<lparr>rl_opened := rl_opened tx @ [i]\<rparr>)"
    and ok: "fresh_ok op (ca_bounds (rl_candidates tx ! i)) p (td_lease v)"
  shows "forward_inv (set_progress i p (set_candidate_device i v tx')) ns"
proof -
  have start: "fresh_start tx" using forward_invD[OF inv] by auto
  have same: "rl_candidates tx' = rl_candidates tx" "rl_changed tx' = rl_changed tx" "rl_updated tx' = rl_updated tx" "rl_states tx' = rl_states tx"
    using tx' by auto
  have own': "owner (set_progress i p (set_candidate_device i v tx')) ns i = None"
    using i own by (auto simp: owner_def same)
  have len: "i < length (rl_states tx)" using forward_invD(5)[OF inv] i by simp
  have op: "(i \<in> set (rl_opened tx')) = op" using tx' by auto
  have start': "fresh_start tx'" using tx' start by (auto simp: fresh_start_def)
  show ?thesis
  proof (rule forward_frame_fresh[OF inv i own])
    show "fresh_start (set_progress i p (set_candidate_device i v tx'))" using start' by simp
    show "cand_ok (set_progress i p (set_candidate_device i v tx')) ns i"
      using own' ok i len by (simp add: cand_ok_def Let_def same op)
    show "rl_candidates (set_progress i p (set_candidate_device i v tx')) = (rl_candidates tx)[i := (rl_candidates tx ! i)\<lparr>ca_device := Some v\<rparr>]"
      by (simp add: same)
  qed (use tx' in \<open>auto simp: same\<close>)
qed

lemma set_device_id:
  assumes "ca_device (rl_candidates tx ! i) = Some v"
  shows "set_candidate_device i v tx = tx"
proof -
  have "(rl_candidates tx ! i)\<lparr>ca_device := Some v\<rparr> = rl_candidates tx ! i" using assms by (cases "rl_candidates tx ! i") simp
  then show ?thesis by (simp add: set_candidate_device_def)
qed

lemma round_same: "r = Inr fin \<Longrightarrow> forward_inv (set_progress i p tx') ns' \<Longrightarrow> rl_states tx' = rl_states tx \<Longrightarrow> i < length (rl_states tx)
   \<Longrightarrow> (fin \<Longrightarrow> \<not> is_opening p) \<Longrightarrow> round_ok i tx r (set_progress i p tx', ns')"
  unfolding round_ok_def by (rule exI[of _ p]) auto

lemma round_stay: "r = Inr True \<Longrightarrow> forward_inv tx' ns' \<Longrightarrow> rl_states tx' = rl_states tx \<Longrightarrow> \<not> is_opening (rl_states tx ! i) \<Longrightarrow> round_ok i tx r (tx', ns')"
  unfolding round_ok_def using set_progress_id[of i tx'] list_update_id[of "rl_states tx" i]
  by (intro exI[of _ "rl_states tx ! i"]) (auto intro: exI[of _ "rl_states tx ! i"])

lemma round_fail: "forward_inv (set_progress i p tx') ns' \<Longrightarrow> rl_states tx' = rl_states tx \<Longrightarrow> \<not> is_opening p \<Longrightarrow> round_ok i tx (Inl e) (tx', ns')"
  unfolding round_ok_def by (rule exI[of _ p]) (auto, metis list_update_id)

lemma stage_update_served:
  assumes "stage_update (tracked dv) ca n = (a, n')" "served n"
  shows "served n' \<and> rn_name n' = rn_name n \<and> rn_bounds n' = rn_bounds n \<and> (a = Inr False \<or> gs_device (rn_bounds n) = gs_device (ca_bounds ca))"
  using assms by (auto simp: stage_update_def served_def tracked_update split: if_splits prod.splits)

lemma forward_prepare_ok:
  assumes inv: "forward_inv tx ns" and i: "i < length (rl_candidates tx)" and st: "rl_states tx ! i = DpPrepare"
    and step: "forward_prepare (tracked dv) ho now i (tx, ns) = (r, s)"
  shows "round_ok i tx r s"
proof -
  have c: "cand_ok tx ns i" and len: "i < length (rl_states tx)" using forward_invD[OF inv] i by auto
  show ?thesis
  proof (cases "owner tx ns i")
    case None
    then have eq: "r = Inr False" "s = (set_progress i (DpOpen None) tx, ns)" using step by (auto simp: forward_prepare_def owner_def)
    obtain d where d: "ca_device (rl_candidates tx ! i) = Some d" "i \<notin> set (rl_opened tx)" "td_lease d = LeaseClosed"
      using c None st by (auto simp: cand_ok_def Let_def split: option.splits)
    have "forward_inv (set_progress i (DpOpen None) tx) ns"
      using round_fresh[OF inv i None, of tx False "DpOpen None" d] d by (simp add: set_device_id)
    then show ?thesis unfolding eq by (rule round_same[OF refl]) (auto simp: len st)
  next
    case (Some k)
    have k: "k < length ns" "rn_name (ns ! k) = ca_name (rl_candidates tx ! i)" using owner_Some[OF Some] by auto
    have nch: "k \<notin> set (rl_changed tx)" "ca_name (rl_candidates tx ! i) \<notin> set (rl_updated tx)" "served (ns ! k)"
      using c Some st forward_invD(4)[OF inv k(1)] by (auto simp: cand_ok_def Let_def node_ok_def split: if_splits)
    obtain a n where up: "stage_update (tracked dv) (rl_candidates tx ! i) (ns ! k) = (a, n)" by (cases "stage_update (tracked dv) (rl_candidates tx ! i) (ns ! k)")
    have n: "served n" "rn_name n = rn_name (ns ! k)" "rn_bounds n = rn_bounds (ns ! k)"
        "a = Inr False \<or> gs_device (rn_bounds (ns ! k)) = gs_device (ca_bounds (rl_candidates tx ! i))" using stage_update_served[OF up nch(3)] by auto
    have h: "lease_held (rn_device n)" using n by (auto simp: served_def lease_held_def)
    have sp: "set_progress i DpPrepare tx = tx" using set_progress_id[of i tx] st by simp
    have still: "forward_inv (set_progress i DpReady tx) ns" if "gs_device (rn_bounds (ns ! k)) = gs_device (ca_bounds (rl_candidates tx ! i))"
      using round_node[OF inv i Some, of tx "ns ! k" DpReady] nch k that by simp
    have busy: "forward_inv tx (ns[k := n])"
      using round_node[OF inv i Some, of tx n DpPrepare] nch k n sp by simp
    have upd: "forward_inv (set_progress i DpReady (tx\<lparr>rl_updated := rl_updated tx @ [rn_name n]\<rparr>)) (ns[k := n])" if "a \<noteq> Inr False"
      using that round_node[OF inv i Some, of "tx\<lparr>rl_updated := rl_updated tx @ [rn_name n]\<rparr>" n DpReady] nch n by simp
    have chg: "forward_inv (set_progress i (DpQuiescing k) (tx\<lparr>rl_changed := rl_changed tx @ [k]\<rparr>)) (ns[k := n])"
      using round_node[OF inv i Some, of "tx\<lparr>rl_changed := rl_changed tx @ [k]\<rparr>" n "DpQuiescing k"] nch n h k by simp
    have eq: "(r, s) =
       (if gs_device (rn_bounds (ns ! k)) = gs_device (ca_bounds (rl_candidates tx ! i)) \<and> rn_radio (ns ! k) = ca_radio (rl_candidates tx ! i)
        then (Inr True, set_progress i DpReady tx, ns)
        else (case a of
                Inl e \<Rightarrow> (Inl e, tx\<lparr>rl_updated := rl_updated tx @ [rn_name n]\<rparr>, ns[k := n])
              | Inr True \<Rightarrow> (Inr True, set_progress i DpReady (tx\<lparr>rl_updated := rl_updated tx @ [rn_name n]\<rparr>), ns[k := n])
              | Inr False \<Rightarrow>
                  if ho_outstanding ho now (rn_host n) \<noteq> 0 \<or> ho_protected ho now (rn_host n) \<noteq> 0 then (Inl RtBusy, tx, ns[k := n])
                  else (Inr False, set_progress i (DpQuiescing k) (tx\<lparr>rl_changed := rl_changed tx @ [k]\<rparr>), ns[k := n])))"
      using step Some up by (simp add: forward_prepare_def owner_def Let_def cong: if_cong)
    have no: "\<not> is_opening DpReady" "\<not> is_opening DpPrepare" "\<not> is_opening (DpQuiescing k)" by (auto simp: is_opening_def)
    show ?thesis
    proof (cases a)
      case (Inl e)
      then show ?thesis using eq round_same[OF refl still, of tx True] round_fail[OF upd] len no by (auto split: if_splits)
    next
      case (Inr b)
      show ?thesis
      proof (cases b)
        case True
        then show ?thesis using eq Inr round_same[OF refl still, of tx True] round_same[OF refl upd, of tx True] len no by (auto split: if_splits)
      next
        case False
        then show ?thesis
          using eq Inr round_same[OF refl still, of tx True] round_same[OF refl chg, of tx False] round_fail[of i DpPrepare tx "ns[k := n]" tx] busy sp len no st
          by (auto split: if_splits)
      qed
    qed
  qed
qed

lemma owned_state:
  assumes inv: "forward_inv tx ns" and i: "i < length (rl_candidates tx)" and own: "owner tx ns i = Some k"
    and ch: "k \<in> set (rl_changed tx)"
  shows "k < length ns" "rn_name (ns ! k) \<notin> set (rl_updated tx)"
    "owned_ok True (ca_name (rl_candidates tx ! i) \<in> set (rl_updated tx)) (ca_bounds (rl_candidates tx ! i)) k (rl_states tx ! i) (ns ! k)"
  using owner_Some[OF own] forward_invD(3)[OF inv i] forward_invD(4)[OF inv, of k] own ch
  by (auto simp: cand_ok_def Let_def node_ok_def)

lemma forward_quiesce_ok:
  assumes inv: "forward_inv tx ns" and i: "i < length (rl_candidates tx)" and st: "rl_states tx ! i = DpQuiescing k"
    and step: "forward_quiesce (tracked dv) ho now i k (tx, ns) = (r, s)"
  shows "round_ok i tx r s"
proof -
  have c: "cand_ok tx ns i" and len: "i < length (rl_states tx)" using forward_invD[OF inv] i by auto
  have own: "owner tx ns i = Some k" and ch: "k \<in> set (rl_changed tx)" and h: "lease_held (rn_device (ns ! k))"
    using c st by (auto simp: cand_ok_def Let_def split: option.splits)
  note os = owned_state[OF inv i own ch]
  have sp: "set_progress i (DpQuiescing k) tx = tx" using set_progress_id[of i tx] st by simp
  obtain q v where q: "do_quiesce (tracked dv) (rn_device (ns ! k)) = (q, v)" by (cases "do_quiesce (tracked dv) (rn_device (ns ! k))")
  have lv: "td_lease v = (if q then LeaseQuiet else LeaseStopping)" by (rule tracked_quiesce[OF q h])
  have hv: "lease_held v" using lv by (simp add: lease_held_def)
  have stay: "forward_inv tx (ns[k := n])" if "rn_device n = v" "rn_name n = rn_name (ns ! k)" for n
    using round_node[OF inv i own, of tx n "DpQuiescing k"] os ch hv that by (simp add: sp)
  have closed: "forward_inv (set_progress i (DpOpen (Some k)) tx) (ns[k := n])" if "rn_device n = do_close (tracked dv) v" "rn_name n = rn_name (ns ! k)" q for n
    using round_node[OF inv i own, of tx n "DpOpen (Some k)"] os ch tracked_close[of v dv] lv that by simp
  have no: "\<not> is_opening (rl_states tx ! i)" by (simp add: is_opening_def st)
  show ?thesis
  proof (cases q)
    case False
    then have "(r, s) = (Inr True, tx, ns[k := (ns ! k)\<lparr>rn_device := v\<rparr>])" using step q by (simp add: forward_quiesce_def Let_def)
    then show ?thesis using round_stay[OF refl stay refl no] by simp
  next
    case True
    then have "(r, s) = (let gated = (ns ! k)\<lparr>rn_device := v, rn_host := ho_gate ho (rn_host (ns ! k))\<rparr> in
           if ho_protected ho now (rn_host gated) \<noteq> 0 then (Inr True, tx, ns[k := gated])
           else (Inr False, set_progress i (DpOpen (Some k)) tx, ns[k := gated\<lparr>rn_device := do_close (tracked dv) v, rn_open := False\<rparr>]))"
      using step q by (simp add: forward_quiesce_def Let_def split: if_splits)
    then show ?thesis using round_stay[OF refl stay refl no] round_same[OF refl closed refl len, of _ False] True st by (auto simp: Let_def split: if_splits)
  qed
qed

lemma forward_open_ok:
  assumes inv: "forward_inv tx ns" and i: "i < length (rl_candidates tx)" and st: "rl_states tx ! i = DpOpen old"
    and step: "forward_open (tracked dv) i old (tx, ns) = (r, s)"
  shows "round_ok i tx r s"
proof -
  have c: "cand_ok tx ns i" and len: "i < length (rl_states tx)" using forward_invD[OF inv] i by auto
  have no: "\<not> is_opening (DpWaiting o1)" "\<not> is_opening (DpQuiescing k1)" for o1 k1 by (auto simp: is_opening_def)
  show ?thesis
  proof (cases old)
    case None
    obtain d where own: "owner tx ns i = None" and d: "ca_device (rl_candidates tx ! i) = Some d" "i \<notin> set (rl_opened tx)" "td_lease d = LeaseClosed"
      using c st None by (auto simp: cand_ok_def Let_def split: option.splits)
    obtain a v where o: "do_open (tracked dv) (ca_bounds (rl_candidates tx ! i)) d = (a, v)"
      by (cases "do_open (tracked dv) (ca_bounds (rl_candidates tx ! i)) d")
    let ?tx = "set_candidate_device i v (tx\<lparr>rl_opened := rl_opened tx @ [i]\<rparr>)"
    have inv': "forward_inv (set_progress i (DpWaiting None) ?tx) ns"
      using round_fresh[OF inv i own, of "tx\<lparr>rl_opened := rl_opened tx @ [i]\<rparr>" True "DpWaiting None" v] d tracked_open[OF o] by simp
    have "(r, s) = (if a then (Inr False, set_progress i (DpWaiting None) ?tx, ns) else (Inl RtDevice, ?tx, ns))"
      using step None d o by (simp add: forward_open_def Let_def)
    then show ?thesis using round_same[OF refl inv', of tx False] round_fail[OF inv', of tx] len st no by (auto split: if_splits)
  next
    case (Some k)
    then have own: "owner tx ns i = Some k" and ch: "k \<in> set (rl_changed tx)" and cl: "td_lease (rn_device (ns ! k)) = LeaseClosed"
      using c st by (auto simp: cand_ok_def Let_def split: option.splits)
    note os = owned_state[OF inv i own ch]
    obtain a v where o: "do_open (tracked dv) (ca_bounds (rl_candidates tx ! i)) (rn_device (ns ! k)) = (a, v)"
      by (cases "do_open (tracked dv) (ca_bounds (rl_candidates tx ! i)) (rn_device (ns ! k))")
    let ?n = "(ns ! k)\<lparr>rn_device := v, rn_open := a\<rparr>"
    have lv: "td_lease v = LeaseLive (ca_bounds (rl_candidates tx ! i))" by (rule tracked_open[OF o cl])
    have inv1: "forward_inv (set_progress i (DpWaiting (Some k)) tx) (ns[k := ?n])" if a
      using round_node[OF inv i own, of tx ?n "DpWaiting (Some k)"] os ch lv that by (simp add: moved_def)
    have inv2: "forward_inv (set_progress i (DpQuiescing k) tx) (ns[k := ?n])"
      using round_node[OF inv i own, of tx ?n "DpQuiescing k"] os ch lv by (simp add: lease_held_def)
    have "(r, s) = (if a then (Inr False, set_progress i (DpWaiting (Some k)) tx, ns[k := ?n]) else (Inl RtDevice, tx, ns[k := ?n]))"
      using step Some o by (simp add: forward_open_def Let_def)
    then show ?thesis using round_same[OF refl inv1, of tx False] round_fail[OF inv2, of tx] len st no by (auto split: if_splits)
  qed
qed

lemma forward_wait_ok:
  assumes inv: "forward_inv tx ns" and i: "i < length (rl_candidates tx)" and st: "rl_states tx ! i = DpWaiting old"
    and step: "forward_wait (tracked dv) i old (tx, ns) = (r, s)"
  shows "round_ok i tx r s"
proof -
  have c: "cand_ok tx ns i" and len: "i < length (rl_states tx)" using forward_invD[OF inv] i by auto
  have no: "\<not> is_opening (DpWaiting o1)" "\<not> is_opening DpReady" for o1 by (auto simp: is_opening_def)
  show ?thesis
  proof (cases old)
    case None
    obtain d where own: "owner tx ns i = None" and d: "ca_device (rl_candidates tx ! i) = Some d" "i \<in> set (rl_opened tx)"
        "td_lease d = LeaseLive (ca_bounds (rl_candidates tx ! i))"
      using c st None by (auto simp: cand_ok_def Let_def split: option.splits)
    obtain a v where o: "do_ready (tracked dv) d = (a, v)" by (cases "do_ready (tracked dv) d")
    let ?tx = "set_candidate_device i v tx"
    have inv': "forward_inv (set_progress i p ?tx) ns" if "p = DpWaiting None \<or> p = DpReady" for p
      using round_fresh[OF inv i own, of tx True p v] d tracked_ready[OF o] that by auto
    have "set_progress i (rl_states ?tx ! i) ?tx = ?tx" by (rule set_progress_id)
    then have keep: "forward_inv ?tx ns" using inv'[of "DpWaiting None"] st None by simp
    have "(r, s) = (case a of Inl e \<Rightarrow> (Inl e, ?tx, ns) | Inr b \<Rightarrow> if b then (Inr False, set_progress i DpReady ?tx, ns) else (Inr True, ?tx, ns))"
      using step None d o by (simp add: forward_wait_def Let_def)
    then show ?thesis
      using round_same[OF refl inv'[of DpReady], of tx False] round_fail[OF inv'[of DpReady], of tx] round_stay[OF refl keep, of tx i] len st no
      by (auto split: if_splits sum.splits)
  next
    case (Some k)
    then have own: "owner tx ns i = Some k" and ch: "k \<in> set (rl_changed tx)" and m: "moved (ca_bounds (rl_candidates tx ! i)) (ns ! k)"
      using c st by (auto simp: cand_ok_def Let_def split: option.splits)
    note os = owned_state[OF inv i own ch]
    obtain a v where o: "do_ready (tracked dv) (rn_device (ns ! k)) = (a, v)" by (cases "do_ready (tracked dv) (rn_device (ns ! k))")
    let ?n = "(ns ! k)\<lparr>rn_device := v\<rparr>"
    have mv: "moved (ca_bounds (rl_candidates tx ! i)) ?n" using m tracked_ready[OF o] by (simp add: moved_def)
    have inv1: "forward_inv (set_progress i p tx) (ns[k := ?n])" if "p = DpWaiting (Some k) \<or> p = DpReady" for p
      using round_node[OF inv i own, of tx ?n p] os ch mv that by auto
    have keep: "forward_inv tx (ns[k := ?n])" using inv1[of "DpWaiting (Some k)"] st Some set_progress_id[of i tx] by simp
    have "(r, s) = (case a of Inl e \<Rightarrow> (Inl e, tx, ns[k := ?n]) | Inr b \<Rightarrow> if b then (Inr False, set_progress i DpReady tx, ns[k := ?n]) else (Inr True, tx, ns[k := ?n]))"
      using step Some o by (simp add: forward_wait_def Let_def)
    then show ?thesis
      using round_same[OF refl inv1[of DpReady], of tx False] round_fail[OF inv1[of DpReady], of tx] round_stay[OF refl keep, of tx i] len st no
      by (auto split: if_splits sum.splits)
  qed
qed

lemma forward_step_ok:
  assumes inv: "forward_inv tx ns" and i: "i < length (rl_candidates tx)"
    and step: "forward_step (tracked dv) ho now i (tx, ns) = (r, s)"
  shows "round_ok i tx r s"
proof (cases "rl_states tx ! i")
  case DpReady
  then show ?thesis using step round_stay[OF refl inv refl, of i] by (auto simp: forward_step_def is_opening_def)
qed (use step forward_prepare_ok[OF inv i] forward_quiesce_ok[OF inv i] forward_open_ok[OF inv i] forward_wait_ok[OF inv i] in \<open>auto simp: forward_step_def\<close>)


section \<open>The forward loop\<close>

fun progress_rank :: "DeviceProgress \<Rightarrow> nat" where
  "progress_rank DpPrepare = 4"
| "progress_rank (DpQuiescing _) = 3"
| "progress_rank (DpOpen _) = 2"
| "progress_rank (DpWaiting _) = 1"
| "progress_rank DpReady = 0"

lemma progress_rank_bound: "progress_rank p < 5"
  by (cases p) auto

lemma forward_step_rank:
  assumes "forward_step dv ho now i (tx, ns) = (Inr False, tx', ns')" "i < length (rl_states tx)"
  shows "progress_rank (rl_states tx' ! i) < progress_rank (rl_states tx ! i)"
  using assms
  by (cases "rl_states tx ! i")
    (auto simp: forward_step_def forward_prepare_def forward_quiesce_def forward_open_def forward_wait_def Let_def
      split: option.splits prod.splits sum.splits bool.splits if_splits)

lemma failed_progress: "failed_inv (set_progress i p tx) ns = failed_inv tx ns"
  by (simp add: failed_inv_def reload_shape_ok_def)

lemma failed_of_forward:
  assumes inv: "forward_inv tx ns" and settled: "settled_but {} tx"
  shows "failed_inv tx ns"
proof -
  have no: "\<not> is_opening (rl_states tx ! i)" if "i < length (rl_candidates tx)" for i
    using settled that forward_invD(5)[OF inv] by (simp add: settled_but_def)
  have c: "if i \<in> set (rl_opened tx) then (\<exists>d. ca_device (rl_candidates tx ! i) = Some d \<and> lease_held d)
           else pred_option (\<lambda>d. td_lease d = LeaseClosed) (ca_device (rl_candidates tx ! i))" if i: "i < length (rl_candidates tx)" for i
    using forward_invD(3)[OF inv i] no[OF i]
    by (cases "rl_states tx ! i") (auto simp: cand_ok_def Let_def lease_held_def is_opening_def split: option.splits elim: fresh_ok.elims)
  have n: "if k \<in> set (rl_changed tx) then lease_held (rn_device (ns ! k)) \<and> rn_name (ns ! k) \<notin> set (rl_updated tx) else served (ns ! k)"
    if k: "k < length ns" for k
  proof (cases "k \<in> set (rl_changed tx)")
    case True
    then obtain i where i: "i < length (rl_candidates tx)" "owner tx ns i = Some k"
      using forward_invD(4)[OF inv k] by (auto simp: node_ok_def)
    show ?thesis using owned_state[OF inv i True] no[OF i(1)] True
      by (cases "rl_states tx ! i") (auto simp: lease_held_def moved_def is_opening_def)
  next
    case False
    then show ?thesis using forward_invD(4)[OF inv k] by (simp add: node_ok_def)
  qed
  show ?thesis using forward_invD[OF inv] c n by (simp add: failed_inv_def)
qed

lemma settled_progress: "settled_but {i} tx \<Longrightarrow> \<not> is_opening p \<Longrightarrow> settled_but {} (set_progress i p tx)"
  unfolding settled_but_def set_progress_sels length_list_update by (metis nth_list_update_eq nth_list_update_neq singletonD)

lemma settled_states: "settled_but {i} tx \<Longrightarrow> rl_states tx' = (rl_states tx)[i := q] \<Longrightarrow> settled_but {i} tx'"
  by (auto simp: settled_but_def)

lemma settled_all: "settled_but {} tx \<Longrightarrow> settled_but I tx"
  by (auto simp: settled_but_def)

lemma forward_loop_ok:
  "forward_inv tx ns \<Longrightarrow> i < length (rl_candidates tx) \<Longrightarrow> settled_but {i} tx \<Longrightarrow> progress_rank (rl_states tx ! i) < fuel \<Longrightarrow>
   \<exists>r tx' ns'. forward_loop (tracked dv) ho now i fuel (tx, ns) = Some (r, tx', ns')
     \<and> length (rl_states tx') = length (rl_states tx)
     \<and> (case r of Inl e \<Rightarrow> failed_inv tx' ns' | Inr _ \<Rightarrow> forward_inv tx' ns' \<and> settled_but {} tx')"
proof (induction fuel arbitrary: tx ns)
  case 0
  then show ?case by simp
next
  case (Suc fuel)
  obtain r tx1 ns1 where step: "forward_step (tracked dv) ho now i (tx, ns) = (r, tx1, ns1)"
    by (cases "forward_step (tracked dv) ho now i (tx, ns)") auto
  obtain p q where ok: "forward_inv (set_progress i p tx1) ns1" "rl_states tx1 = (rl_states tx)[i := q]"
      "case r of Inl e \<Rightarrow> \<not> is_opening p | Inr fin \<Rightarrow> p = rl_states tx1 ! i \<and> (fin \<longrightarrow> \<not> is_opening p)"
    using forward_step_ok[OF Suc.prems(1,2) step] unfolding round_ok_def fst_conv snd_conv by blast
  have set1: "settled_but {i} tx1" using settled_states[OF Suc.prems(3) ok(2)] .
  show ?case
  proof (cases r)
    case (Inl e)
    then have "settled_but {} (set_progress i p tx1)" using ok(3) settled_progress[OF set1] by simp
    then have "failed_inv tx1 ns1" using failed_of_forward[OF ok(1)] by (simp add: failed_progress)
    then show ?thesis using step Inl ok(2) by simp
  next
    case (Inr fin)
    then have inv1: "forward_inv tx1 ns1" using ok(1,3) set_progress_id[of i tx1] by simp
    show ?thesis
    proof (cases fin)
      case True
      then have "settled_but {} tx1" using ok(3) Inr settled_progress[OF set1, of "rl_states tx1 ! i", unfolded set_progress_id] by auto
      then show ?thesis using step Inr inv1 ok(2) True by simp
    next
      case False
      have i1: "i < length (rl_candidates tx1)"
        using forward_invD(5)[OF inv1] forward_invD(5)[OF Suc.prems(1)] ok(2) Suc.prems(2) by (metis length_list_update)
      have "progress_rank (rl_states tx1 ! i) < progress_rank (rl_states tx ! i)"
        using forward_step_rank[of "tracked dv" ho now i tx ns tx1 ns1] step Inr False forward_invD(5)[OF Suc.prems(1)] Suc.prems(2) by simp
      then show ?thesis using Suc.IH[OF inv1 i1 set1] Suc.prems(4) step Inr False ok(2) by simp
    qed
  qed
qed

lemma forward_all_ok:
  "forward_inv tx ns \<Longrightarrow> settled_but {} tx \<Longrightarrow> \<forall>i \<in> set is. i < length (rl_states tx) \<Longrightarrow>
   \<exists>tx' ns'. forward_all (tracked dv) ho now is (tx, ns) = Some (tx', ns')
     \<and> (forward_inv tx' ns' \<and> settled_but {} tx' \<or> (\<exists>e tx0. tx' = reload_fail e tx0 \<and> failed_inv tx0 ns'))"
proof (induction "is" arbitrary: tx ns)
  case Nil
  then show ?case by simp
next
  case (Cons i ids)
  have i: "i < length (rl_candidates tx)" using Cons.prems(3) forward_invD(5)[OF Cons.prems(1)] by simp
  obtain r tx1 ns1 where run: "reload_forward (tracked dv) ho now i (tx, ns) = Some (r, tx1, ns1)"
    and len: "length (rl_states tx1) = length (rl_states tx)"
    and ok: "case r of Inl e \<Rightarrow> failed_inv tx1 ns1 | Inr _ \<Rightarrow> forward_inv tx1 ns1 \<and> settled_but {} tx1"
    using forward_loop_ok[OF Cons.prems(1) i settled_all[OF Cons.prems(2)] progress_rank_bound, of dv ho now]
    unfolding reload_forward_def by blast
  show ?case
  proof (cases r)
    case (Inl e)
    then show ?thesis using run ok by auto
  next
    case (Inr u)
    then have "forward_all (tracked dv) ho now (i # ids) (tx, ns) = forward_all (tracked dv) ho now ids (tx1, ns1)" using run by (cases u) simp
    then show ?thesis using Cons.IH[of tx1 ns1] Cons.prems(3) ok len Inr by simp
  qed
qed

section \<open>What holds while the transaction is rolled back\<close>

definition fresh_leases :: "('v tracked_device, 'r, 'x) ReloadTransaction \<Rightarrow> bool" where
  "fresh_leases tx \<longleftrightarrow>
     distinct (rl_opened tx) \<and> set (rl_opened tx) \<subseteq> {..<length (rl_candidates tx)} \<and> rl_fresh_closed tx \<le> length (rl_opened tx)
     \<and> (\<forall>i < length (rl_candidates tx). i \<notin> set (rl_opened tx) \<longrightarrow> pred_option (\<lambda>d. td_lease d = LeaseClosed) (ca_device (rl_candidates tx ! i)))
     \<and> (\<forall>q < length (rl_opened tx). \<exists>d. ca_device (rl_candidates tx ! (rl_opened tx ! q)) = Some d
          \<and> (if q < length (rl_opened tx) - rl_fresh_closed tx then lease_held d else td_lease d = LeaseClosed))"

text \<open>A node whose update could not be reverted is stopped; its lease is closed, or held where the device is not quiescent yet.\<close>

definition lost :: "('v tracked_device, 'h, 'r) ReloadNode \<Rightarrow> bool" where
  "lost n \<longleftrightarrow> (if rn_open n then lease_held (rn_device n) else td_lease (rn_device n) = LeaseClosed)"

fun restore_ok :: "bool \<Rightarrow> bool \<Rightarrow> RestoreProgress \<Rightarrow> ('v tracked_device, 'h, 'r) ReloadNode \<Rightarrow> bool" where
  "restore_ok ever restored RpClose n \<longleftrightarrow> lease_held (rn_device n)"
| "restore_ok ever restored RpOpen n \<longleftrightarrow> td_lease (rn_device n) = LeaseClosed"
| "restore_ok ever restored RpWaiting n \<longleftrightarrow> served n"
| "restore_ok ever restored RpFailed n \<longleftrightarrow> lease_held (rn_device n)"
| "restore_ok ever restored RpDone n \<longleftrightarrow> served n \<or> down n \<and> (ever \<or> \<not> restored)"

definition node_leases :: "bool \<Rightarrow> ('v tracked_device, 'r, 'x) ReloadTransaction \<Rightarrow> ('v tracked_device, 'h, 'r) ReloadNode list \<Rightarrow> bool" where
  "node_leases ever tx ns \<longleftrightarrow>
     distinct (map rn_name ns) \<and> distinct (rl_changed tx) \<and> set (rl_changed tx) \<subseteq> {..<length ns} \<and> set (rl_updated tx) \<subseteq> rn_name ` set ns
     \<and> rl_updates_restored tx \<le> length (rl_updated tx) \<and> length (rl_restoring tx) = length (rl_changed tx)
     \<and> (\<forall>k < length ns. k \<notin> set (rl_changed tx) \<longrightarrow> served (ns ! k) \<or> lost (ns ! k) \<and> \<not> rl_restored tx)
     \<and> (\<forall>p < length (rl_changed tx). restore_ok ever (rl_restored tx) (rl_restoring tx ! p) (ns ! (rl_changed tx ! p))
          \<and> rn_name (ns ! (rl_changed tx ! p)) \<notin> set (rl_updated tx))"

lemma restore_ok_mono: "restore_ok ever b r n \<Longrightarrow> (b' \<Longrightarrow> b) \<Longrightarrow> restore_ok ever b' r n"
  by (cases r) auto

lemma failed_leases:
  assumes "failed_inv tx ns"
  shows "fresh_leases (reload_fail e tx) \<and> node_leases ever (reload_fail e tx) ns \<and> rl_failure (reload_fail e tx) \<noteq> None"
  using assms
  by (auto simp: failed_inv_def reload_shape_ok_def fresh_start_def fresh_leases_def node_leases_def reload_fail_def subset_iff)

lemma close_fresh_step:
  assumes fl: "fresh_leases tx" and n: "Suc n = length (rl_opened tx) - rl_fresh_closed tx"
    and d: "ca_device (rl_candidates tx ! (rl_opened tx ! n)) = Some d"
    and v: "if c = 0 then lease_held v else td_lease v = LeaseClosed" and c: "c \<le> 1"
  shows "fresh_leases ((set_candidate_device (rl_opened tx ! n) v tx)\<lparr>rl_fresh_closed := rl_fresh_closed tx + c\<rparr>)"
proof -
  let ?i = "rl_opened tx ! n"
  have dist: "distinct (rl_opened tx)" and nl: "n < length (rl_opened tx)" using fl n by (auto simp: fresh_leases_def)
  then have i: "?i \<in> set (rl_opened tx)" "?i < length (rl_candidates tx)" using fl by (auto simp: fresh_leases_def subset_iff)
  have ne: "rl_opened tx ! q \<noteq> ?i" if "q < length (rl_opened tx)" "q \<noteq> n" for q
    using that dist nl by (simp add: nth_eq_iff_index_eq)
  have q: "\<exists>d. ca_device ((rl_candidates tx)[?i := (rl_candidates tx ! ?i)\<lparr>ca_device := Some v\<rparr>] ! (rl_opened tx ! q)) = Some d
        \<and> (if q < length (rl_opened tx) - (rl_fresh_closed tx + c) then lease_held d else td_lease d = LeaseClosed)" if ql: "q < length (rl_opened tx)" for q
  proof (cases "q = n")
    case True
    have "(n < length (rl_opened tx) - (rl_fresh_closed tx + c)) = (c = 0)" using n c by auto
    then show ?thesis using True i v by (auto split: if_splits)
  next
    case False
    have "(q < length (rl_opened tx) - (rl_fresh_closed tx + c)) = (q < length (rl_opened tx) - rl_fresh_closed tx)"
      using n False c ql by auto
    then show ?thesis using fl ql ne[OF ql False] by (simp add: fresh_leases_def)
  qed
  have r: "pred_option (\<lambda>d. td_lease d = LeaseClosed) (ca_device ((rl_candidates tx)[?i := (rl_candidates tx ! ?i)\<lparr>ca_device := Some v\<rparr>] ! j))"
    if "j < length (rl_candidates tx)" "j \<notin> set (rl_opened tx)" for j
    using that i fl by (metis fresh_leases_def nth_list_update_neq)
  have "rl_fresh_closed tx + c \<le> length (rl_opened tx)" using n c by simp
  then show ?thesis using q r fl dist unfolding fresh_leases_def by simp
qed

lemma close_fresh_ok:
  "fresh_leases tx \<Longrightarrow> n = length (rl_opened tx) - rl_fresh_closed tx \<Longrightarrow> \<exists>tx'. close_fresh (tracked dv) n tx = Some tx' \<and> fresh_leases tx'"
proof (induction n arbitrary: tx)
  case 0
  then show ?case by simp
next
  case (Suc n)
  have nl: "n < length (rl_opened tx)" "n < length (rl_opened tx) - rl_fresh_closed tx" using Suc.prems(2) by auto
  obtain d where d: "ca_device (rl_candidates tx ! (rl_opened tx ! n)) = Some d" "lease_held d"
    using Suc.prems(1) nl unfolding fresh_leases_def by (metis (lifting))
  obtain q v where q: "do_quiesce (tracked dv) d = (q, v)" by (cases "do_quiesce (tracked dv) d")
  have lv: "td_lease v = (if q then LeaseQuiet else LeaseStopping)" by (rule tracked_quiesce[OF q d(2)])
  show ?case
  proof (cases q)
    case False
    then have "fresh_leases ((set_candidate_device (rl_opened tx ! n) v tx)\<lparr>rl_fresh_closed := rl_fresh_closed tx + 0\<rparr>)"
      using lv by (intro close_fresh_step[OF Suc.prems d(1)]) (auto simp: lease_held_def)
    then have "fresh_leases (set_candidate_device (rl_opened tx ! n) v tx)" by (simp add: fresh_leases_def)
    then show ?thesis using d q False by simp
  next
    case True
    let ?tx = "(set_candidate_device (rl_opened tx ! n) (do_close (tracked dv) v) tx)\<lparr>rl_fresh_closed := rl_fresh_closed tx + 1\<rparr>"
    have fl: "fresh_leases ?tx" using lv True tracked_close[of v dv] by (intro close_fresh_step[OF Suc.prems d(1)]) auto
    have "n = length (rl_opened ?tx) - rl_fresh_closed ?tx" using Suc.prems(2) by simp
    from Suc.IH[OF fl this] show ?thesis using d q True by simp
  qed
qed

lemma close_fresh_frame:
  "close_fresh dv n tx = Some tx' \<Longrightarrow>
   rl_changed tx' = rl_changed tx \<and> rl_updated tx' = rl_updated tx \<and> rl_opened tx' = rl_opened tx \<and> rl_restoring tx' = rl_restoring tx
   \<and> rl_updates_restored tx' = rl_updates_restored tx \<and> rl_restored tx' = rl_restored tx \<and> rl_failure tx' = rl_failure tx"
  by (induction dv n tx rule: close_fresh.induct)
    (auto simp: Let_def set_candidate_device_def split: option.splits prod.splits bool.splits)

section \<open>Restoring the nodes\<close>

fun restore_rank :: "RestoreProgress \<Rightarrow> nat" where
  "restore_rank RpClose = 4"
| "restore_rank RpOpen = 3"
| "restore_rank RpWaiting = 2"
| "restore_rank RpFailed = 1"
| "restore_rank RpDone = 0"

text \<open>The fields that restoring the nodes leaves alone.\<close>

definition rollback_frame :: "('v, 'r, 'x) ReloadTransaction \<Rightarrow> ('v, 'r, 'x) ReloadTransaction \<Rightarrow> bool" where
  "rollback_frame tx tx' \<longleftrightarrow> rl_candidates tx' = rl_candidates tx \<and> rl_changed tx' = rl_changed tx \<and> rl_updated tx' = rl_updated tx
     \<and> rl_opened tx' = rl_opened tx \<and> rl_fresh_closed tx' = rl_fresh_closed tx \<and> rl_failure tx' = rl_failure tx"

lemma rollback_frame_refl [simp]: "rollback_frame tx tx"
  by (simp add: rollback_frame_def)

lemma frame_trans: "rollback_frame a b \<Longrightarrow> rollback_frame b c \<Longrightarrow> rollback_frame a c"
  by (simp add: rollback_frame_def)

lemma frame_fresh: "rollback_frame tx tx' \<Longrightarrow> fresh_leases tx' = fresh_leases tx"
  by (simp add: rollback_frame_def fresh_leases_def)

lemma node_leases_changed:
  assumes nl: "node_leases ever tx ns" and p: "p < length (rl_changed tx)" and k: "rl_changed tx ! p = k"
    and name: "rn_name n = rn_name (ns ! k)" and bounds: "rn_bounds n = rn_bounds (ns ! k)" and b: "b \<Longrightarrow> rl_restored tx"
    and ok: "restore_ok ever b r n"
  shows "node_leases ever ((set_restoring p r tx)\<lparr>rl_restored := b\<rparr>) (ns[k := n])"
proof -
  have kl: "k < length ns" "k \<in> set (rl_changed tx)" using nl p k by (auto simp: node_leases_def subset_iff)
  have ne: "rl_changed tx ! q \<noteq> k" if "q < length (rl_changed tx)" "q \<noteq> p" for q
    using that nl p k by (auto simp: node_leases_def nth_eq_iff_index_eq)
  have un: "served (ns[k := n] ! j) \<or> lost (ns[k := n] ! j) \<and> \<not> b" if "j < length ns" "j \<notin> set (rl_changed tx)" for j
    using that nl kl b by (auto simp: node_leases_def nth_list_update)
  have ch: "restore_ok ever b ((rl_restoring tx)[p := r] ! q) (ns[k := n] ! (rl_changed tx ! q)) \<and> rn_name (ns[k := n] ! (rl_changed tx ! q)) \<notin> set (rl_updated tx)"
    if q: "q < length (rl_changed tx)" for q
  proof (cases "q = p")
    case True
    then show ?thesis using nl p k kl ok name by (auto simp: node_leases_def)
  next
    case False
    have old: "restore_ok ever (rl_restored tx) (rl_restoring tx ! q) (ns ! (rl_changed tx ! q))" "rn_name (ns ! (rl_changed tx ! q)) \<notin> set (rl_updated tx)"
      using nl q by (auto simp: node_leases_def)
    show ?thesis using restore_ok_mono[OF old(1) b] old(2) False ne[OF q False] by simp
  qed
  show ?thesis
    using nl un ch by (simp add: node_leases_def set_restoring_def names_update[OF name] names_image[OF name] del: set_map)
qed

definition restore_round ::
    "bool \<Rightarrow> ('v tracked_device, 'r, 'x) ReloadTransaction \<Rightarrow> nat \<Rightarrow> bool \<times> ('v tracked_device, 'h, 'r, 'x) reload_state \<Rightarrow> bool" where
  "restore_round ever tx p r \<longleftrightarrow> (case r of (again, tx', ns') \<Rightarrow>
     node_leases ever tx' ns' \<and> rollback_frame tx tx' \<and> (again \<longrightarrow> restore_rank (rl_restoring tx' ! p) < restore_rank (rl_restoring tx ! p)))"

lemma restore_stay:
  assumes "node_leases ever tx ns" "p < length (rl_changed tx)" "rl_changed tx ! p = k" "rn_name n = rn_name (ns ! k)" "rn_bounds n = rn_bounds (ns ! k)"
    "restore_ok ever (rl_restored tx) (rl_restoring tx ! p) n"
  shows "restore_round ever tx p (False, tx, ns[k := n])"
proof -
  have "(set_restoring p (rl_restoring tx ! p) tx)\<lparr>rl_restored := rl_restored tx\<rparr> = tx" by (simp add: set_restoring_def)
  then show ?thesis using node_leases_changed[OF assms(1-5), of "rl_restored tx" "rl_restoring tx ! p"] assms(6) by (simp add: restore_round_def)
qed

lemma restore_go_flag:
  assumes "node_leases ever tx ns" "p < length (rl_changed tx)" "rl_changed tx ! p = k" "rn_name n = rn_name (ns ! k)" "rn_bounds n = rn_bounds (ns ! k)"
    "b \<Longrightarrow> rl_restored tx" "restore_ok ever b r n" "restore_rank r < restore_rank (rl_restoring tx ! p)"
  shows "restore_round ever tx p (True, (set_restoring p r tx)\<lparr>rl_restored := b\<rparr>, ns[k := n])"
proof -
  have "p < length (rl_restoring tx)" using assms(1,2) by (simp add: node_leases_def)
  then show ?thesis using node_leases_changed[OF assms(1-5), of b r] assms(6-8) by (simp add: restore_round_def rollback_frame_def set_restoring_def)
qed

lemma restore_go:
  assumes "node_leases ever tx ns" "p < length (rl_changed tx)" "rl_changed tx ! p = k" "rn_name n = rn_name (ns ! k)" "rn_bounds n = rn_bounds (ns ! k)"
    "restore_ok ever (rl_restored tx) r n" "restore_rank r < restore_rank (rl_restoring tx ! p)"
  shows "restore_round ever tx p (True, set_restoring p r tx, ns[k := n])"
  using restore_go_flag[OF assms(1-5), of "rl_restored tx" r] assms(6,7) by (simp add: set_restoring_def)

lemma restore_step_ok:
  assumes nl: "node_leases ever tx ns" and p: "p < length (rl_changed tx)" and stop: "stopping \<Longrightarrow> ever"
  shows "restore_round ever tx p (restore_step (tracked dv) ho stopping now p (tx, ns))"
proof -
  define k where "k = rl_changed tx ! p"
  have ok: "restore_ok ever (rl_restored tx) (rl_restoring tx ! p) (ns ! k)" using nl p by (auto simp: node_leases_def k_def)
  note stay = restore_stay[OF nl p k_def[symmetric]]
  note go = restore_go[OF nl p k_def[symmetric]]
  obtain q v where q: "do_quiesce (tracked dv) (rn_device (ns ! k)) = (q, v)" by fastforce
  obtain a w where o: "do_open (tracked dv) (rn_bounds (ns ! k)) (rn_device (ns ! k)) = (a, w)" by fastforce
  obtain b u where r: "do_ready (tracked dv) (rn_device (ns ! k)) = (b, u)" by fastforce
  note defs = restore_step_def Let_def k_def[symmetric]
  show ?thesis
  proof (cases "rl_restoring tx ! p")
    case RpClose
    then have lv: "td_lease v = (if q then LeaseQuiet else LeaseStopping)" using tracked_quiesce[OF q] ok by simp
    show ?thesis
    proof (cases q)
      case True
      then have step: "restore_step (tracked dv) ho stopping now p (tx, ns) = (True, set_restoring p (if stopping then RpDone else RpOpen) tx,
          ns[k := (ns ! k)\<lparr>rn_device := do_close (tracked dv) v, rn_open := False\<rparr>])" using RpClose q by (simp add: defs)
      show ?thesis unfolding step using True lv RpClose stop tracked_close[of v dv] by (intro go) (auto simp: down_def)
    qed (use RpClose q lv in \<open>auto simp: defs lease_held_def intro!: stay\<close>)
  next
    case RpOpen
    then have lv: "td_lease w = LeaseLive (rn_bounds (ns ! k))" using tracked_open[OF o] ok by simp
    show ?thesis using RpOpen o lv by (cases a) (auto simp: defs served_def lease_held_def intro!: go)
  next
    case RpWaiting
    then obtain c where "rn_open (ns ! k)" "td_lease u = LeaseLive c" "gs_device c = gs_device (rn_bounds (ns ! k))"
      using ok tracked_ready[OF r] by (auto simp: served_def)
    then show ?thesis using RpWaiting r by (auto simp: defs served_def lease_held_def split: sum.splits bool.splits intro!: stay go)
  next
    case RpFailed
    then have lv: "td_lease v = (if q then LeaseQuiet else LeaseStopping)" using tracked_quiesce[OF q] ok by simp
    show ?thesis
      using RpFailed q lv tracked_close[of v dv]
      by (cases q) (auto simp: defs lease_held_def down_def intro!: stay restore_go_flag[OF nl p k_def[symmetric]])
  next
    case RpDone
    then show ?thesis using nl by (simp add: defs restore_round_def)
  qed
qed

end
