(* ===== verification/Reload_Props.thy ===== *)
theory Reload_Props
  imports Reload_Leases
begin

text \<open>
  The properties of the configuration transaction: a run of polls from the start of the transaction, with the hosts of the nodes
  free to change between the polls, never panics and never leaves the order of the calls of a lease; when it completes every
  candidate has the device it asked for, and when it fails every device is back where it was.
\<close>

section \<open>The rollback of a poll\<close>

lemma restore_loop_ok:
  "node_leases ever tx ns \<Longrightarrow> p < length (rl_changed tx) \<Longrightarrow> (stopping \<Longrightarrow> ever) \<Longrightarrow> restore_rank (rl_restoring tx ! p) < fuel \<Longrightarrow>
   \<exists>tx' ns'. restore_loop (tracked dv) ho stopping now p fuel (tx, ns) = Some (tx', ns') \<and> node_leases ever tx' ns' \<and> rollback_frame tx tx'"
proof (induction fuel arbitrary: tx ns)
  case 0
  then show ?case by simp
next
  case (Suc fuel)
  obtain again tx1 ns1 where step: "restore_step (tracked dv) ho stopping now p (tx, ns) = (again, tx1, ns1)"
    by (cases "restore_step (tracked dv) ho stopping now p (tx, ns)") auto
  have one: "restore_round ever tx p (restore_step (tracked dv) ho stopping now p (tx, ns))"
    by (rule restore_step_ok[OF Suc.prems(1,2)]) (rule Suc.prems(3))
  have ok: "node_leases ever tx1 ns1" "rollback_frame tx tx1"
      "again \<Longrightarrow> restore_rank (rl_restoring tx1 ! p) < restore_rank (rl_restoring tx ! p)"
    using one step by (auto simp: restore_round_def)
  show ?case
  proof (cases again)
    case True
    have p1: "p < length (rl_changed tx1)" using ok(2) Suc.prems(2) by (simp add: rollback_frame_def)
    have f1: "restore_rank (rl_restoring tx1 ! p) < fuel" using ok(3)[OF True] Suc.prems(4) by simp
    obtain tx2 ns2 where "restore_loop (tracked dv) ho stopping now p fuel (tx1, ns1) = Some (tx2, ns2)" "node_leases ever tx2 ns2" "rollback_frame tx1 tx2"
      using Suc.IH[OF ok(1) p1 Suc.prems(3) f1] by blast
    then show ?thesis using step True frame_trans[OF ok(2)] by auto
  next
    case False
    then show ?thesis using step ok by simp
  qed
qed

lemma restore_rank_bound: "restore_rank r < 5"
  by (cases r) auto

lemma restore_all_ok:
  "node_leases ever tx ns \<Longrightarrow> n \<le> length (rl_changed tx) \<Longrightarrow> (stopping \<Longrightarrow> ever) \<Longrightarrow>
   \<exists>tx' ns'. restore_all (tracked dv) ho stopping now n (tx, ns) = Some (tx', ns') \<and> node_leases ever tx' ns' \<and> rollback_frame tx tx'"
proof (induction n arbitrary: tx ns)
  case 0
  then show ?case by simp
next
  case (Suc n)
  have n: "n < length (rl_changed tx)" using Suc.prems(2) by simp
  obtain tx1 ns1 where one: "restore_loop (tracked dv) ho stopping now n 5 (tx, ns) = Some (tx1, ns1)" "node_leases ever tx1 ns1" "rollback_frame tx tx1"
    using restore_loop_ok[of ever tx ns n stopping 5 dv ho now, OF Suc.prems(1) n Suc.prems(3) restore_rank_bound] by blast
  have "n \<le> length (rl_changed tx1)" using one(3) Suc.prems(2) by (simp add: rollback_frame_def)
  from Suc.IH[OF one(2) this Suc.prems(3)] show ?case using one frame_trans[OF one(3)] by fastforce
qed

lemma stop_node_lost:
  assumes "served n \<or> lost n"
  shows "lost (stop_node (tracked dv) ho now n)"
proof -
  have l: "if rn_open n then lease_held (rn_device n) else td_lease (rn_device n) = LeaseClosed"
    using assms by (auto simp: served_def lost_def lease_held_def)
  obtain q v where q: "do_quiesce (tracked dv) (rn_device n) = (q, v)" by fastforce
  then have "rn_open n \<Longrightarrow> td_lease v = (if q then LeaseQuiet else LeaseStopping)" using tracked_quiesce[OF q] l by simp
  then show ?thesis using l q tracked_close[of v dv] by (auto simp: stop_node_def Let_def lost_def lease_held_def split: bool.splits if_splits)
qed

lemma stop_node_static [simp]: "rn_name (stop_node dv ho now n) = rn_name n" "rn_bounds (stop_node dv ho now n) = rn_bounds n"
  by (auto simp: stop_node_def Let_def split: bool.splits prod.splits)

lemma node_leases_unchanged:
  assumes nl: "node_leases ever tx ns" and k: "k < length ns" "k \<notin> set (rl_changed tx)" and name: "rn_name n = rn_name (ns ! k)"
    and b: "b \<Longrightarrow> rl_restored tx" and ok: "served n \<or> lost n \<and> \<not> b" and u: "rl_updates_restored tx < length (rl_updated tx)"
  shows "node_leases ever (tx\<lparr>rl_updates_restored := rl_updates_restored tx + 1, rl_restored := b\<rparr>) (ns[k := n])"
proof -
  have un: "served (ns[k := n] ! j) \<or> lost (ns[k := n] ! j) \<and> \<not> b" if "j < length ns" "j \<notin> set (rl_changed tx)" for j
    using that nl k b ok by (cases "j = k") (auto simp: node_leases_def)
  have ch: "restore_ok ever b (rl_restoring tx ! q) (ns[k := n] ! (rl_changed tx ! q)) \<and> rn_name (ns[k := n] ! (rl_changed tx ! q)) \<notin> set (rl_updated tx)"
    if q: "q < length (rl_changed tx)" for q
  proof -
    have old: "restore_ok ever (rl_restored tx) (rl_restoring tx ! q) (ns ! (rl_changed tx ! q))" "rn_name (ns ! (rl_changed tx ! q)) \<notin> set (rl_updated tx)"
      using nl q by (auto simp: node_leases_def)
    have "rl_changed tx ! q \<noteq> k" using k q by auto
    then show ?thesis using restore_ok_mono[OF old(1) b] old(2) by simp
  qed
  show ?thesis using nl un ch u by (simp add: node_leases_def names_update[OF name] names_image[OF name] del: set_map)
qed

lemma restore_updates_ok:
  "node_leases ever tx ns \<Longrightarrow> n = length (rl_updated tx) - rl_updates_restored tx \<Longrightarrow>
   \<exists>tx' ns'. restore_updates (tracked dv) ho now n (tx, ns) = Some (tx', ns') \<and> node_leases ever tx' ns' \<and> rollback_frame tx tx'
     \<and> rl_restoring tx' = rl_restoring tx"
proof (induction n arbitrary: tx ns)
  case 0
  then show ?case by simp
next
  case (Suc n)
  have u: "rl_updates_restored tx < length (rl_updated tx)" "n < length (rl_updated tx)" using Suc.prems(2) by auto
  have "rl_updated tx ! n \<in> rn_name ` set ns" using Suc.prems(1) nth_mem[OF u(2)] by (auto simp: node_leases_def simp del: nth_mem)
  then obtain k where k: "position (\<lambda>m. rn_name m = rl_updated tx ! n) ns = Some k"
    by (cases "position (\<lambda>m. rn_name m = rl_updated tx ! n) ns") (auto simp: position_None)
  have kl: "k < length ns" "rn_name (ns ! k) = rl_updated tx ! n" using position_Some[OF k] by auto
  have kc: "k \<notin> set (rl_changed tx)"
  proof
    assume "k \<in> set (rl_changed tx)"
    then obtain p where "p < length (rl_changed tx)" "rl_changed tx ! p = k" by (auto simp: in_set_conv_nth)
    then show False using Suc.prems(1) kl(2) nth_mem[OF u(2)] by (auto simp: node_leases_def)
  qed
  obtain f v where f: "do_finish_update (tracked dv) False (rn_device (ns ! k)) = (f, v)" by fastforce
  let ?n = "(ns ! k)\<lparr>rn_device := v\<rparr>"
  let ?b = "f \<and> rl_restored tx"
  let ?n' = "if f then ?n else stop_node (tracked dv) ho now ?n"
  let ?tx = "tx\<lparr>rl_updates_restored := rl_updates_restored tx + 1, rl_restored := ?b\<rparr>"
  have old: "served (ns ! k) \<or> lost (ns ! k) \<and> \<not> rl_restored tx" using Suc.prems(1) kl(1) kc by (simp add: node_leases_def)
  then have keep: "served ?n \<or> lost ?n \<and> \<not> rl_restored tx" using tracked_finish[OF f] by (auto simp: served_def lost_def lease_held_def)
  have inv: "node_leases ever ?tx (ns[k := ?n'])"
  proof (rule node_leases_unchanged[OF Suc.prems(1) kl(1) kc])
    show "rn_name ?n' = rn_name (ns ! k)" by simp
    show "served ?n' \<or> lost ?n' \<and> \<not> ?b" using keep stop_node_lost[of ?n dv ho now] by (auto split: if_splits)
  qed (use u in auto)
  have fr: "rollback_frame tx ?tx" "rl_restoring ?tx = rl_restoring tx" by (simp_all add: rollback_frame_def)
  have eq: "restore_updates (tracked dv) ho now (Suc n) (tx, ns) = restore_updates (tracked dv) ho now n (?tx, ns[k := ?n'])"
    using k f by (cases f) (auto simp: Let_def)
  have "n = length (rl_updated ?tx) - rl_updates_restored ?tx" using Suc.prems(2) by simp
  from Suc.IH[OF inv this] show ?case unfolding eq using fr frame_trans[OF fr(1)] by (metis (no_types, lifting))
qed

lemma reload_rollback_ok:
  assumes fl: "fresh_leases tx" and nl: "node_leases ever tx ns" and f: "rl_failure tx \<noteq> None" and stop: "stopping \<Longrightarrow> ever"
  shows "\<exists>r tx' ns'. reload_rollback (tracked dv) ho stopping now (tx, ns) = Some (r, tx', ns') \<and> fresh_leases tx' \<and> node_leases ever tx' ns'
    \<and> (case r of Inr b \<Rightarrow> \<not> b \<and> rl_failure tx' \<noteq> None | Inl e \<Rightarrow> rollback_complete tx' \<and> (rl_restored tx' \<or> e = RtRestore))"
proof -
  obtain tx1 where c: "close_fresh (tracked dv) (length (rl_opened tx) - rl_fresh_closed tx) tx = Some tx1" "fresh_leases tx1"
    using close_fresh_ok[OF fl refl] by blast
  note cf = close_fresh_frame[OF c(1)]
  have n1: "node_leases ever tx1 ns" using nl cf by (simp add: node_leases_def)
  obtain tx2 ns2 where r: "restore_all (tracked dv) ho stopping now (length (rl_changed tx1)) (tx1, ns) = Some (tx2, ns2)" "node_leases ever tx2 ns2" "rollback_frame tx1 tx2"
    using restore_all_ok[of ever tx1 ns "length (rl_changed tx1)" stopping dv ho now, OF n1 order_refl stop] by blast
  obtain tx3 ns3 where u: "restore_updates (tracked dv) ho now (length (rl_updated tx2) - rl_updates_restored tx2) (tx2, ns2) = Some (tx3, ns3)"
      "node_leases ever tx3 ns3" "rollback_frame tx2 tx3"
    using restore_updates_ok[OF r(2) refl] by blast
  have fl3: "fresh_leases tx3" using frame_fresh[OF frame_trans[OF r(3) u(3)]] c(2) by simp
  have f3: "rl_failure tx3 \<noteq> None" using frame_trans[OF r(3) u(3)] cf f by (simp add: rollback_frame_def)
  have eq: "reload_rollback (tracked dv) ho stopping now (tx, ns) =
      (if \<not> rollback_complete tx3 then Some (Inr False, tx3, ns3)
       else if rl_restored tx3 then map_option (\<lambda>e. (Inl e, tx3\<lparr>rl_failure := None\<rparr>, ns3)) (rl_failure tx3)
       else Some (Inl RtRestore, tx3, ns3))"
    using c(1) r(1) u(1) by (simp add: reload_rollback_def)
  have same: "fresh_leases (tx3\<lparr>rl_failure := None\<rparr>)" "node_leases ever (tx3\<lparr>rl_failure := None\<rparr>) ns3"
      "rollback_complete (tx3\<lparr>rl_failure := None\<rparr>) = rollback_complete tx3"
    using fl3 u(2) by (simp_all add: fresh_leases_def node_leases_def rollback_complete_def)
  show ?thesis unfolding eq using f3 fl3 u(2) same by auto
qed

section \<open>A poll\<close>

definition poll_inv :: "bool \<Rightarrow> ('v tracked_device, 'r, 'x) ReloadTransaction \<Rightarrow> ('v tracked_device, 'h, 'r) ReloadNode list \<Rightarrow> bool" where
  "poll_inv ever tx ns \<longleftrightarrow> (forward_inv tx ns \<and> settled_but {} tx) \<or> (rl_failure tx \<noteq> None \<and> fresh_leases tx \<and> node_leases ever tx ns)"

definition poll_result ::
    "bool \<Rightarrow> RuntimeError + bool \<Rightarrow> ('v tracked_device, 'r, 'x) ReloadTransaction \<Rightarrow> ('v tracked_device, 'h, 'r) ReloadNode list \<Rightarrow> bool" where
  "poll_result ever r tx ns \<longleftrightarrow>
     (case r of
        Inr fin \<Rightarrow> if fin then forward_inv tx ns \<and> settled_but {} tx \<and> list_all (\<lambda>p. p = DpReady) (rl_states tx) else poll_inv ever tx ns
      | Inl e \<Rightarrow> fresh_leases tx \<and> node_leases ever tx ns \<and> rollback_complete tx \<and> (rl_restored tx \<or> e = RtRestore))"

lemma forward_no_failure: "forward_inv tx ns \<Longrightarrow> rl_failure tx = None"
  using forward_invD(2) by (fastforce simp: fresh_start_def)

lemma reload_advance_ok:
  assumes inv: "poll_inv ever tx ns" and stop: "stopping \<Longrightarrow> ever"
  shows "\<exists>r tx' ns'. reload_advance (tracked dv) ho stopping now (tx, ns) = Some (r, tx', ns')
    \<and> poll_result ever r tx' ns'"
proof -
  have rb: ?thesis if fl: "fresh_leases tx1" and nl: "node_leases ever tx1 ns1" and f: "rl_failure tx1 \<noteq> None"
      and run: "reload_advance (tracked dv) ho stopping now (tx, ns) = reload_rollback (tracked dv) ho stopping now (tx1, ns1)" for tx1 ns1
  proof -
    obtain r tx' ns' where *: "reload_rollback (tracked dv) ho stopping now (tx1, ns1) = Some (r, tx', ns')" "fresh_leases tx'" "node_leases ever tx' ns'"
        "case r of Inr b \<Rightarrow> \<not> b \<and> rl_failure tx' \<noteq> None | Inl e \<Rightarrow> rollback_complete tx' \<and> (rl_restored tx' \<or> e = RtRestore)"
      using reload_rollback_ok[of tx1 ever ns1 stopping dv ho now, OF fl nl f stop] by blast
    show ?thesis unfolding run using * by (cases r) (auto simp: poll_inv_def poll_result_def)
  qed
  show ?thesis
  proof (cases "forward_inv tx ns \<and> settled_but {} tx")
    case True
    note none = forward_no_failure[OF conjunct1[OF True]]
    show ?thesis
    proof (cases stopping)
      case True
      have "failed_inv tx ns" using failed_of_forward \<open>forward_inv tx ns \<and> settled_but {} tx\<close> by blast
      from failed_leases[OF this, of RtBusy ever] show ?thesis
        using True none by (intro rb[of "reload_fail RtBusy tx" ns]) (auto simp: reload_advance_def)
    next
      case False
      have ids: "\<forall>i\<in>set [0..<length (rl_candidates tx)]. i < length (rl_states tx)" using forward_invD(5) True by fastforce
      obtain tx1 ns1 where run: "forward_all (tracked dv) ho now [0..<length (rl_candidates tx)] (tx, ns) = Some (tx1, ns1)"
        and ok: "forward_inv tx1 ns1 \<and> settled_but {} tx1 \<or> (\<exists>e tx0. tx1 = reload_fail e tx0 \<and> failed_inv tx0 ns1)"
        using forward_all_ok[OF _ _ ids] True by blast
      have adv: "reload_advance (tracked dv) ho stopping now (tx, ns) =
          (if rl_failure tx1 \<noteq> None then reload_rollback (tracked dv) ho stopping now (tx1, ns1)
           else Some (Inr (list_all (\<lambda>p. p = DpReady) (rl_states tx1)), tx1, ns1))"
        using False none run by (simp add: reload_advance_def)
      from ok show ?thesis
      proof
        assume "forward_inv tx1 ns1 \<and> settled_but {} tx1"
        then show ?thesis using adv forward_no_failure[of tx1 ns1] by (auto simp: poll_inv_def poll_result_def)
      next
        assume "\<exists>e tx0. tx1 = reload_fail e tx0 \<and> failed_inv tx0 ns1"
        then have "fresh_leases tx1" "node_leases ever tx1 ns1" "rl_failure tx1 \<noteq> None" using failed_leases by blast+
        then show ?thesis using adv by (intro rb[of tx1 ns1]) auto
      qed
    qed
  next
    case False
    then have "fresh_leases tx" "node_leases ever tx ns" "rl_failure tx \<noteq> None" using inv by (auto simp: poll_inv_def)
    then show ?thesis by (intro rb[of tx ns]) (auto simp: reload_advance_def)
  qed
qed

section \<open>What a transaction leaves alone\<close>

definition node_view :: "('v, 'h, 'r) ReloadNode list \<Rightarrow> (string \<times> GenerationSettings) list" where
  "node_view ns = map (\<lambda>n. (rn_name n, rn_bounds n)) ns"

definition candidate_view :: "('v, 'r) ReloadCandidate list \<Rightarrow> (string \<times> GenerationSettings) list" where
  "candidate_view cs = map (\<lambda>c. (ca_name c, ca_bounds c)) cs"

definition same_view :: "('v, 'h, 'r, 'x) reload_state \<Rightarrow> ('v, 'h, 'r, 'x) reload_state \<Rightarrow> bool" where
  "same_view s s' \<longleftrightarrow> node_view (snd s') = node_view (snd s) \<and> candidate_view (rl_candidates (fst s')) = candidate_view (rl_candidates (fst s))"

lemma same_view_trans: "same_view a b \<Longrightarrow> same_view b c \<Longrightarrow> same_view a c"
  by (simp add: same_view_def)

lemma same_view_refl [simp]: "same_view s s"
  by (simp add: same_view_def)

lemma node_view_update: "rn_name n = rn_name (ns ! k) \<Longrightarrow> rn_bounds n = rn_bounds (ns ! k) \<Longrightarrow> node_view (ns[k := n]) = node_view ns"
  unfolding node_view_def by (rule map_update_same) simp

lemma candidate_view_device: "candidate_view (cs[i := (cs ! i)\<lparr>ca_device := d\<rparr>]) = candidate_view cs"
  unfolding candidate_view_def by (rule map_update_same) simp

lemma stage_update_view: "stage_update dv ca n = (a, n') \<Longrightarrow> rn_name n' = rn_name n \<and> rn_bounds n' = rn_bounds n"
  by (auto simp: stage_update_def split: if_splits prod.splits)

lemmas view_simps = same_view_def node_view_update candidate_view_device

lemma forward_step_view: "forward_step dv ho now i (tx, ns) = (r, s') \<Longrightarrow> same_view (tx, ns) s'"
  by (cases "rl_states tx ! i")
    (auto simp: forward_step_def forward_prepare_def forward_quiesce_def forward_open_def forward_wait_def Let_def view_simps
      dest!: stage_update_view split: option.splits prod.splits sum.splits bool.splits if_splits)

lemma forward_loop_view: "forward_loop dv ho now i fuel s = Some (r, s') \<Longrightarrow> same_view s s'"
  by (induction dv ho now i fuel s rule: forward_loop.induct)
    (auto split: prod.splits sum.splits bool.splits dest!: forward_step_view, meson same_view_trans)

lemma forward_all_view: "forward_all dv ho now ids s = Some s' \<Longrightarrow> same_view s s'"
proof (induction dv ho now ids s rule: forward_all.induct)
  case (2 dv ho now i ids s)
  obtain r tx1 ns1 where run: "reload_forward dv ho now i s = Some (r, tx1, ns1)" using "2.prems" by (auto split: option.splits)
  have one: "same_view s (tx1, ns1)" using forward_loop_view run by (simp add: reload_forward_def)
  show ?case
  proof (cases r)
    case (Inl e)
    then show ?thesis using "2.prems" run one by (auto simp: same_view_def reload_fail_def)
  next
    case (Inr u)
    then have "same_view (tx1, ns1) s'" using "2.IH" "2.prems" run by simp
    then show ?thesis using one same_view_trans by blast
  qed
qed auto

lemma close_fresh_view: "close_fresh dv n tx = Some tx' \<Longrightarrow> candidate_view (rl_candidates tx') = candidate_view (rl_candidates tx)"
  by (induction dv n tx rule: close_fresh.induct)
    (auto simp: Let_def candidate_view_device split: option.splits prod.splits bool.splits)

lemma restore_step_view: "restore_step dv ho stopping now p (tx, ns) = (again, s') \<Longrightarrow> same_view (tx, ns) s'"
  by (cases "rl_restoring tx ! p")
    (auto simp: restore_step_def Let_def view_simps set_restoring_def split: prod.splits sum.splits bool.splits if_splits)

lemma restore_loop_view: "restore_loop dv ho stopping now p fuel s = Some s' \<Longrightarrow> same_view s s'"
  by (induction dv ho stopping now p fuel s rule: restore_loop.induct)
    (auto split: prod.splits bool.splits dest!: restore_step_view dest: same_view_trans)

lemma restore_all_view: "restore_all dv ho stopping now n s = Some s' \<Longrightarrow> same_view s s'"
proof (induction n arbitrary: s)
  case (Suc n)
  obtain s1 where "restore_loop dv ho stopping now n 5 s = Some s1" "restore_all dv ho stopping now n s1 = Some s'"
    using Suc.prems unfolding restore_all.simps bind_eq_Some_conv by blast
  then show ?case using restore_loop_view Suc.IH same_view_trans by blast
qed auto

lemma restore_updates_view: "restore_updates dv ho now n s = Some s' \<Longrightarrow> same_view s s'"
proof (induction n arbitrary: s)
  case (Suc n)
  obtain tx ns where s: "s = (tx, ns)" by (cases s)
  obtain k where k: "position (\<lambda>node. rn_name node = rl_updated tx ! n) ns = Some k" using Suc.prems s by (auto split: option.splits)
  obtain ok v where f: "do_finish_update dv False (rn_device (ns ! k)) = (ok, v)" by fastforce
  show ?case using Suc.prems Suc.IH s k f
    by (cases ok) (auto simp: Let_def same_view_def node_view_update)
qed auto

lemma reload_advance_view:
  assumes "reload_advance dv ho stopping now (tx, ns) = Some (r, s')"
  shows "same_view (tx, ns) s'"
proof -
  let ?tx = "if stopping \<and> rl_failure tx = None then reload_fail RtBusy tx else tx"
  have v0: "same_view (tx, ns) (?tx, ns)" by (simp add: same_view_def reload_fail_def)
  obtain tx1 ns1 where f: "(if rl_failure ?tx = None then forward_all dv ho now [0..<length (rl_candidates ?tx)] (?tx, ns) else Some (?tx, ns)) = Some (tx1, ns1)"
    and g: "(if rl_failure tx1 \<noteq> None then reload_rollback dv ho stopping now (tx1, ns1)
        else Some (Inr (list_all (\<lambda>p. p = DpReady) (rl_states tx1)), tx1, ns1)) = Some (r, s')"
    using assms unfolding reload_advance_def Let_def prod.case Option.bind_eq_Some_conv by auto
  have v1: "same_view (?tx, ns) (tx1, ns1)" using f forward_all_view by (metis option.inject same_view_refl)
  have "same_view (tx1, ns1) s'"
  proof (cases "rl_failure tx1 = None")
    case True
    then show ?thesis using g by simp
  next
    case False
    then obtain tx2 tx3 ns3 tx4 ns4 where r: "close_fresh dv (length (rl_opened tx1) - rl_fresh_closed tx1) tx1 = Some tx2"
        "restore_all dv ho stopping now (length (rl_changed tx2)) (tx2, ns1) = Some (tx3, ns3)"
        "restore_updates dv ho now (length (rl_updated tx3) - rl_updates_restored tx3) (tx3, ns3) = Some (tx4, ns4)"
        "s' = (tx4, ns4) \<or> s' = (tx4\<lparr>rl_failure := None\<rparr>, ns4)"
      using g unfolding reload_rollback_def by (auto simp: Option.bind_eq_Some_conv split: if_splits)
    have "same_view (tx1, ns1) (tx2, ns1)" using close_fresh_view[OF r(1)] by (simp add: same_view_def)
    moreover have "same_view (tx4, ns4) s'" using r(4) by (auto simp: same_view_def)
    ultimately show ?thesis using restore_all_view[OF r(2)] restore_updates_view[OF r(3)] same_view_trans by blast
  qed
  then show ?thesis using v0 v1 same_view_trans by blast
qed

section \<open>Polls\<close>

text \<open>The invariants read of a node its name, its bounds, its lease and whether it is open.\<close>

definition lease_view :: "('v tracked_device, 'h, 'r) ReloadNode list \<Rightarrow> (string \<times> GenerationSettings \<times> lease \<times> bool) list" where
  "lease_view ns = map (\<lambda>n. (rn_name n, rn_bounds n, td_lease (rn_device n), rn_open n)) ns"

lemma lease_view_nth:
  assumes "lease_view ns' = lease_view ns"
  shows "length ns' = length ns"
    "k < length ns \<Longrightarrow> rn_name (ns' ! k) = rn_name (ns ! k) \<and> rn_bounds (ns' ! k) = rn_bounds (ns ! k)
       \<and> td_lease (rn_device (ns' ! k)) = td_lease (rn_device (ns ! k)) \<and> rn_open (ns' ! k) = rn_open (ns ! k)"
proof -
  show len: "length ns' = length ns" using assms unfolding lease_view_def by (rule map_eq_imp_length_eq)
  assume "k < length ns"
  moreover have "lease_view ns' ! k = lease_view ns ! k" using assms by simp
  ultimately show "rn_name (ns' ! k) = rn_name (ns ! k) \<and> rn_bounds (ns' ! k) = rn_bounds (ns ! k)
       \<and> td_lease (rn_device (ns' ! k)) = td_lease (rn_device (ns ! k)) \<and> rn_open (ns' ! k) = rn_open (ns ! k)" using len by (simp add: lease_view_def)
qed

lemma lease_view_names: "map rn_name ns = map fst (lease_view ns)"
  by (simp add: lease_view_def)

lemma node_view_lease: "node_view ns = map (\<lambda>(a, b, c, d). (a, b)) (lease_view ns)"
  by (simp add: node_view_def lease_view_def)

lemma owned_ok_cong:
  "rn_bounds n' = rn_bounds n \<Longrightarrow> td_lease (rn_device n') = td_lease (rn_device n) \<Longrightarrow> rn_open n' = rn_open n \<Longrightarrow> owned_ok ch up b k p n' = owned_ok ch up b k p n"
  by (cases p) (auto simp: lease_held_def moved_def)

lemma node_state_cong:
  assumes "rn_bounds n' = rn_bounds n" "td_lease (rn_device n') = td_lease (rn_device n)" "rn_open n' = rn_open n"
  shows "served n' = served n" "lost n' = lost n" "restore_ok ever b r n' = restore_ok ever b r n"
proof -
  show s: "served n' = served n" "lost n' = lost n" using assms by (auto simp: served_def lost_def lease_held_def)
  show "restore_ok ever b r n' = restore_ok ever b r n" using assms s by (cases r) (auto simp: lease_held_def down_def)
qed

lemma forward_inv_view:
  assumes v: "lease_view ns' = lease_view ns" and inv: "forward_inv tx ns"
  shows "forward_inv tx ns'"
proof -
  note nth = lease_view_nth[OF v]
  have names: "map rn_name ns' = map rn_name ns" using v by (simp add: lease_view_names)
  have own: "owner tx ns' i = owner tx ns i" for i by (simp add: owner_names names)
  have shape: "reload_shape_ok tx ns'" using forward_invD(1)[OF inv] nth(1) by (simp add: reload_shape_ok_def names flip: set_map)
  have c: "cand_ok tx ns' i" if "i < length (rl_candidates tx)" for i
  proof (cases "owner tx ns i")
    case None
    then show ?thesis using forward_invD(3)[OF inv that] by (simp add: cand_ok_def own Let_def)
  next
    case (Some k)
    then show ?thesis using forward_invD(3)[OF inv that] nth(2)[of k] owner_Some[OF Some] owned_ok_cong[of "ns' ! k" "ns ! k"]
      by (simp add: cand_ok_def own Let_def)
  qed
  have n: "node_ok tx ns' k" if "k < length ns" for k
    using forward_invD(4)[OF inv that] nth(2)[OF that] node_state_cong[of "ns' ! k" "ns ! k"] by (simp add: node_ok_def own)
  show ?thesis using shape forward_invD(2)[OF inv] c n nth(1) by (simp add: forward_inv_def)
qed

lemma node_leases_view:
  assumes v: "lease_view ns' = lease_view ns" and nl: "node_leases ever tx ns"
  shows "node_leases ever tx ns'"
proof -
  note nth = lease_view_nth[OF v]
  have names: "map rn_name ns' = map rn_name ns" using v by (simp add: lease_view_names)
  have un: "served (ns' ! k) \<or> lost (ns' ! k) \<and> \<not> rl_restored tx" if "k < length ns" "k \<notin> set (rl_changed tx)" for k
    using that nl nth(2)[of k] node_state_cong[of "ns' ! k" "ns ! k"] by (simp add: node_leases_def)
  have ch: "restore_ok ever (rl_restored tx) (rl_restoring tx ! p) (ns' ! (rl_changed tx ! p)) \<and> rn_name (ns' ! (rl_changed tx ! p)) \<notin> set (rl_updated tx)"
    if p: "p < length (rl_changed tx)" for p
  proof -
    have k: "rl_changed tx ! p < length ns" using nl nth_mem[OF p] by (auto simp: node_leases_def)
    show ?thesis using nl p nth(2)[OF k] node_state_cong(3)[of "ns' ! (rl_changed tx ! p)" "ns ! (rl_changed tx ! p)"] by (simp add: node_leases_def)
  qed
  show ?thesis using nl un ch nth(1) by (simp add: node_leases_def names flip: set_map)
qed

lemma poll_inv_view: "lease_view ns' = lease_view ns \<Longrightarrow> poll_inv ever tx ns \<Longrightarrow> poll_inv ever tx ns'"
  using forward_inv_view node_leases_view by (metis poll_inv_def)

text \<open>Between two polls the hosts of the nodes do what they do.\<close>

definition hosts_run :: "(nat \<Rightarrow> 'h \<Rightarrow> 'h) \<Rightarrow> ('v, 'h, 'r) ReloadNode list \<Rightarrow> ('v, 'h, 'r) ReloadNode list" where
  "hosts_run f ns = map (\<lambda>k. (ns ! k)\<lparr>rn_host := f k (rn_host (ns ! k))\<rparr>) [0..<length ns]"

fun reload_polls ::
    "'v DeviceOps \<Rightarrow> 'h HostOps \<Rightarrow> (bool \<times> u64 \<times> (nat \<Rightarrow> 'h \<Rightarrow> 'h)) list \<Rightarrow> ('v, 'h, 'r, 'x) reload_state
      \<Rightarrow> ((RuntimeError + bool) \<times> ('v, 'h, 'r, 'x) reload_state) option" where
  "reload_polls dv ho [] s = Some (Inr False, s)"
| "reload_polls dv ho ((stopping, now, f) # ps) s =
     (case reload_advance dv ho stopping now (fst s, hosts_run f (snd s)) of
        None \<Rightarrow> None
      | Some (r, s') \<Rightarrow> if r = Inr False then reload_polls dv ho ps s' else Some (r, s'))"

lemma hosts_run_view: "lease_view (hosts_run f ns) = lease_view ns"
  by (rule nth_equalityI) (simp_all add: lease_view_def hosts_run_def)

lemma reload_polls_ok:
  "poll_inv ever tx ns \<Longrightarrow> (list_ex fst ps \<Longrightarrow> ever) \<Longrightarrow>
   \<exists>r tx' ns'. reload_polls (tracked dv) ho ps (tx, ns) = Some (r, tx', ns') \<and> same_view (tx, ns) (tx', ns') \<and> poll_result ever r tx' ns'"
proof (induction ps arbitrary: tx ns)
  case Nil
  then show ?case by (simp add: poll_result_def)
next
  case (Cons p ps)
  obtain stopping now f where p: "p = (stopping, now, f)" by (cases p)
  let ?ns = "hosts_run f ns"
  have inv: "poll_inv ever tx ?ns" using poll_inv_view[OF hosts_run_view Cons.prems(1)] .
  have st: "stopping \<Longrightarrow> ever" using Cons.prems(2) p by simp
  obtain r tx1 ns1 where a: "reload_advance (tracked dv) ho stopping now (tx, ?ns) = Some (r, tx1, ns1)" and ok: "poll_result ever r tx1 ns1"
    using reload_advance_ok[of ever tx ?ns stopping dv ho now, OF inv st] by blast
  have v: "same_view (tx, ns) (tx1, ns1)"
    using reload_advance_view[OF a] hosts_run_view[of f ns] by (simp add: same_view_def node_view_lease)
  show ?case
  proof (cases "r = Inr False")
    case True
    then have "poll_inv ever tx1 ns1" using ok by (simp add: poll_result_def)
    from Cons.IH[OF this] obtain r2 tx2 ns2 where "reload_polls (tracked dv) ho ps (tx1, ns1) = Some (r2, tx2, ns2)" "same_view (tx1, ns1) (tx2, ns2)" "poll_result ever r2 tx2 ns2"
      using Cons.prems(2) by auto
    then show ?thesis using a p True same_view_trans[OF v] by auto
  next
    case False
    then show ?thesis using a p v ok by simp
  qed
qed

section \<open>The start of a transaction\<close>

definition reload_ready :: "('v tracked_device, 'r) ReloadCandidate list \<Rightarrow> ('v tracked_device, 'h, 'r) ReloadNode list \<Rightarrow> bool" where
  "reload_ready cs ns \<longleftrightarrow>
     distinct (map rn_name ns) \<and> distinct (map ca_name cs) \<and> list_all served ns
     \<and> list_all (\<lambda>c. case ca_device c of None \<Rightarrow> ca_name c \<in> set (map rn_name ns) | Some d \<Rightarrow> td_lease d = LeaseClosed) cs"

lemma reload_new_ok:
  assumes "reload_ready cs ns"
  shows "forward_inv (reload_new x cs) ns" "settled_but {} (reload_new x cs)"
proof -
  show "settled_but {} (reload_new x cs)" by (simp add: settled_but_def reload_new_def is_opening_def)
  have c: "cand_ok (reload_new x cs) ns i" if i: "i < length cs" for i
  proof -
    have dev: "case ca_device (cs ! i) of None \<Rightarrow> ca_name (cs ! i) \<in> set (map rn_name ns) | Some d \<Rightarrow> td_lease d = LeaseClosed"
      using assms i unfolding reload_ready_def list_all_length by blast
    show ?thesis
    proof (cases "owner (reload_new x cs) ns i")
      case None
      then have "ca_name (cs ! i) \<notin> set (map rn_name ns)" by (auto simp: owner_def reload_new_def position_None)
      then show ?thesis using dev None i by (auto simp: cand_ok_def reload_new_def split: option.splits)
    next
      case (Some k)
      then show ?thesis using dev i by (cases "ca_device (cs ! i)") (simp_all add: cand_ok_def reload_new_def)
    qed
  qed
  have n: "node_ok (reload_new x cs) ns k" if "k < length ns" for k
    using assms that by (simp add: node_ok_def reload_new_def reload_ready_def list_all_length)
  show "forward_inv (reload_new x cs) ns"
    using assms c n by (simp add: forward_inv_def reload_shape_ok_def fresh_start_def reload_ready_def) (simp add: reload_new_def)
qed

lemma reload_new_poll: "reload_ready cs ns \<Longrightarrow> poll_inv ever (reload_new x cs) ns"
  by (simp add: poll_inv_def reload_new_ok)

definition leases_sound :: "('v tracked_device, 'r, 'x) ReloadTransaction \<Rightarrow> ('v tracked_device, 'h, 'r) ReloadNode list \<Rightarrow> bool" where
  "leases_sound tx ns \<longleftrightarrow>
     list_all (\<lambda>n. td_lease (rn_device n) \<noteq> LeaseBroken) ns
     \<and> list_all (\<lambda>c. pred_option (\<lambda>d. td_lease d \<noteq> LeaseBroken) (ca_device c)) (rl_candidates tx)"

lemma failed_sound:
  assumes "failed_inv tx ns"
  shows "leases_sound tx ns"
proof -
  have n: "td_lease (rn_device (ns ! k)) \<noteq> LeaseBroken" if "k < length ns" for k
    using assms that unfolding failed_inv_def by (auto simp: lease_held_def served_def split: if_splits)
  have c: "pred_option (\<lambda>d. td_lease d \<noteq> LeaseBroken) (ca_device (rl_candidates tx ! i))" if "i < length (rl_candidates tx)" for i
    using assms that unfolding failed_inv_def by (cases "i \<in> set (rl_opened tx)") (fastforce simp: lease_held_def option.pred_set)+
  show ?thesis using n c by (simp add: leases_sound_def list_all_length)
qed

lemma rollback_sound:
  assumes fl: "fresh_leases tx" and nl: "node_leases ever tx ns"
  shows "leases_sound tx ns"
proof -
  have n: "td_lease (rn_device (ns ! k)) \<noteq> LeaseBroken" if k: "k < length ns" for k
  proof (cases "k \<in> set (rl_changed tx)")
    case True
    then obtain p where p: "p < length (rl_changed tx)" "rl_changed tx ! p = k" by (auto simp: in_set_conv_nth)
    then have "restore_ok ever (rl_restored tx) (rl_restoring tx ! p) (ns ! k)" using nl by (auto simp: node_leases_def)
    then show ?thesis by (cases "rl_restoring tx ! p") (auto simp: lease_held_def served_def down_def)
  next
    case False
    then have "served (ns ! k) \<or> lost (ns ! k)" using nl k by (auto simp: node_leases_def)
    then show ?thesis by (auto simp: served_def lost_def lease_held_def split: if_splits)
  qed
  have c: "pred_option (\<lambda>d. td_lease d \<noteq> LeaseBroken) (ca_device (rl_candidates tx ! i))" if i: "i < length (rl_candidates tx)" for i
  proof (cases "i \<in> set (rl_opened tx)")
    case True
    then obtain q where q: "q < length (rl_opened tx)" "rl_opened tx ! q = i" by (auto simp: in_set_conv_nth)
    then obtain d where "ca_device (rl_candidates tx ! i) = Some d" "lease_held d \<or> td_lease d = LeaseClosed" using fl unfolding fresh_leases_def by metis
    then show ?thesis by (auto simp: lease_held_def)
  next
    case False
    then have "pred_option (\<lambda>d. td_lease d = LeaseClosed) (ca_device (rl_candidates tx ! i))" using fl i by (simp add: fresh_leases_def)
    then show ?thesis by (auto simp: option.pred_set)
  qed
  show ?thesis using n c by (simp add: leases_sound_def list_all_length)
qed

lemma poll_result_sound: "poll_result ever r tx ns \<Longrightarrow> leases_sound tx ns"
  using failed_sound[OF failed_of_forward] rollback_sound
  by (auto simp: poll_result_def poll_inv_def split: sum.splits if_splits)

text \<open>C6. Whatever the devices answer, the hosts do between the polls and the order of stop requests, a configuration transaction
  polled any number of times never panics, its loops end, and it keeps the order of the calls on every lease: it never closes a
  device without a quiescence just reported, opens one that is not closed, or polls or updates one that is not open.
\<close>

theorem reload_keeps_lease_order:
  assumes "reload_ready cs ns"
  shows "\<exists>r tx ns'. reload_polls (tracked dv) ho ps (reload_new x cs, ns) = Some (r, tx, ns') \<and> leases_sound tx ns'"
proof -
  have "poll_inv True (reload_new x cs) ns" by (rule reload_new_poll[OF assms])
  from reload_polls_ok[OF this TrueI] show ?thesis using poll_result_sound by blast
qed

section \<open>Rollback\<close>

definition leases_closed :: "('v tracked_device, 'r, 'x) ReloadTransaction \<Rightarrow> bool" where
  "leases_closed tx \<longleftrightarrow> list_all (\<lambda>c. pred_option (\<lambda>d. td_lease d = LeaseClosed) (ca_device c)) (rl_candidates tx)"

lemma complete_closed:
  assumes fl: "fresh_leases tx" and done1: "rollback_complete tx"
  shows "leases_closed tx"
proof -
  have "pred_option (\<lambda>d. td_lease d = LeaseClosed) (ca_device (rl_candidates tx ! i))" if i: "i < length (rl_candidates tx)" for i
  proof (cases "i \<in> set (rl_opened tx)")
    case True
    then obtain q where q: "q < length (rl_opened tx)" "rl_opened tx ! q = i" by (auto simp: in_set_conv_nth)
    then have "\<exists>d. ca_device (rl_candidates tx ! i) = Some d \<and> td_lease d = LeaseClosed"
      using fl done1 by (auto simp: fresh_leases_def rollback_complete_def)
    then show ?thesis by auto
  next
    case False
    then show ?thesis using fl i by (simp add: fresh_leases_def)
  qed
  then show ?thesis by (simp add: leases_closed_def list_all_length)
qed

lemma complete_nodes:
  assumes nl: "node_leases ever tx ns" and done1: "rollback_complete tx" and k: "k < length ns"
  shows "served (ns ! k) \<or> lost (ns ! k) \<and> (ever \<or> \<not> rl_restored tx)"
proof (cases "k \<in> set (rl_changed tx)")
  case True
  then obtain p where p: "p < length (rl_changed tx)" "rl_changed tx ! p = k" by (auto simp: in_set_conv_nth)
  have "rl_restoring tx ! p = RpDone" using done1 p nl by (simp add: rollback_complete_def node_leases_def list_all_length)
  then show ?thesis using nl p by (auto simp: node_leases_def down_def lost_def)
next
  case False
  then show ?thesis using nl k by (auto simp: node_leases_def)
qed


section \<open>Commit\<close>

lemma lease_view_update:
  "rn_name n = rn_name (ns ! k) \<Longrightarrow> rn_bounds n = rn_bounds (ns ! k) \<Longrightarrow> td_lease (rn_device n) = td_lease (rn_device (ns ! k)) \<Longrightarrow> rn_open n = rn_open (ns ! k)
   \<Longrightarrow> lease_view (ns[k := n]) = lease_view ns"
  unfolding lease_view_def by (rule map_update_same) simp

lemma commit_updates_ok:
  "set names \<subseteq> set (map rn_name ns) \<Longrightarrow>
   \<exists>r tx' ns'. commit_updates (tracked dv) ho now names (tx, ns) = Some (r, tx', ns')
     \<and> (case r of Inl e \<Rightarrow> e = RtRestore | Inr _ \<Rightarrow> tx' = tx \<and> lease_view ns' = lease_view ns)"
proof (induction names arbitrary: ns)
  case Nil
  then show ?case by simp
next
  case (Cons a names)
  obtain k where k: "position (\<lambda>m. rn_name m = a) ns = Some k"
    using Cons.prems by (cases "position (\<lambda>m. rn_name m = a) ns") (auto simp: position_None)
  obtain ok v where f: "do_finish_update (tracked dv) True (rn_device (ns ! k)) = (ok, v)" by fastforce
  let ?ns = "ns[k := (ns ! k)\<lparr>rn_device := v\<rparr>]"
  have view: "lease_view ?ns = lease_view ns" using tracked_finish[OF f] by (intro lease_view_update) auto
  show ?case
  proof (cases ok)
    case True
    have "set names \<subseteq> set (map rn_name ?ns)" using Cons.prems view unfolding lease_view_names by simp
    from Cons.IH[OF this, unfolded view] show ?thesis using k f True by simp
  next
    case False
    then show ?thesis using k f by simp
  qed
qed

definition serves :: "GenerationSettings \<Rightarrow> ('v tracked_device, 'h, 'r) ReloadNode \<Rightarrow> bool" where
  "serves b n \<longleftrightarrow> (\<exists>c. td_lease (rn_device n) = LeaseLive c \<and> gs_device c = gs_device b) \<and> rn_open n"

definition candidate_placed :: "('v tracked_device, 'h, 'r) ReloadNode list \<Rightarrow> ('v tracked_device, 'r) ReloadCandidate \<Rightarrow> bool" where
  "candidate_placed ns ca \<longleftrightarrow>
     (\<exists>n \<in> set ns. rn_name n = ca_name ca \<and> serves (ca_bounds ca) n)
     \<or> ((\<forall>n \<in> set ns. rn_name n \<noteq> ca_name ca) \<and> (\<exists>d. ca_device ca = Some d \<and> td_lease d = LeaseLive (ca_bounds ca)))"

lemma adopt_node_served: "serves (ca_bounds ca) n \<Longrightarrow> served (adopt_node ho u ca n) \<and> rn_name (adopt_node ho u ca n) = rn_name n \<and> rn_bounds (adopt_node ho u ca n) = ca_bounds ca"
  by (auto simp: serves_def served_def adopt_node_def Let_def)

lemma fresh_node_served:
  "td_lease d = LeaseLive (ca_bounds ca) \<Longrightarrow> served (fresh_node ho ca d) \<and> rn_name (fresh_node ho ca d) = ca_name ca \<and> rn_bounds (fresh_node ho ca d) = ca_bounds ca"
  by (simp add: served_def fresh_node_def)

lemma set_remove_nth:
  assumes "distinct (map f xs)" "k < length xs"
  shows "set (take k xs @ drop (Suc k) xs) = set xs - {xs ! k}" "distinct (map f (take k xs @ drop (Suc k) xs))"
proof -
  have xs: "xs = take k xs @ xs ! k # drop (Suc k) xs" using id_take_nth_drop[OF assms(2)] .
  have d: "distinct (map f (take k xs @ xs ! k # drop (Suc k) xs))" using assms(1) xs by simp
  then show "distinct (map f (take k xs @ drop (Suc k) xs))" by auto
  have "xs ! k \<notin> set (take k xs) \<union> set (drop (Suc k) xs)" using d by auto
  then show "set (take k xs @ drop (Suc k) xs) = set xs - {xs ! k}" using arg_cong[OF xs, of set] by auto
qed

lemma commit_candidates_ok:
  "distinct (map rn_name ns) \<Longrightarrow> distinct (map ca_name cs) \<Longrightarrow> \<forall>ca \<in> set cs. candidate_placed ns ca \<Longrightarrow>
   \<exists>nodes rest. commit_candidates ho u cs ns = Some (nodes, rest) \<and> node_view nodes = candidate_view cs \<and> list_all served nodes
     \<and> set rest = {n \<in> set ns. rn_name n \<notin> ca_name ` set cs}"
proof (induction cs arbitrary: ns)
  case Nil
  then show ?case by (simp add: node_view_def candidate_view_def)
next
  case (Cons ca cs)
  have placed: "candidate_placed ns ca" using Cons.prems(3) by simp
  show ?case
  proof (cases "position (\<lambda>n. rn_name n = ca_name ca) ns")
    case None
    then have none: "\<forall>n \<in> set ns. rn_name n \<noteq> ca_name ca" by (simp add: position_None)
    then obtain d where d: "ca_device ca = Some d" "td_lease d = LeaseLive (ca_bounds ca)" using placed by (auto simp: candidate_placed_def)
    obtain nodes rest where r: "commit_candidates ho u cs ns = Some (nodes, rest)" "node_view nodes = candidate_view cs" "list_all served nodes"
        "set rest = {n \<in> set ns. rn_name n \<notin> ca_name ` set cs}"
      using Cons.IH[OF Cons.prems(1)] Cons.prems by auto
    show ?thesis using None d r fresh_node_served[OF d(2), of ho] none by (auto simp: node_view_def candidate_view_def)
  next
    case (Some k)
    let ?ns = "take k ns @ drop (Suc k) ns"
    have k: "k < length ns" "rn_name (ns ! k) = ca_name ca" using position_Some[OF Some] by auto
    note rm = set_remove_nth[OF Cons.prems(1) k(1)]
    have uniq: "n = ns ! k" if "n \<in> set ns" "rn_name n = ca_name ca" for n
      using Cons.prems(1) that k by (metis distinct_map inj_on_def nth_mem)
    have sv: "serves (ca_bounds ca) (ns ! k)" using placed uniq k nth_mem[OF k(1)] unfolding candidate_placed_def by metis
    have "\<forall>c \<in> set cs. candidate_placed ?ns c"
    proof
      fix c
      assume c: "c \<in> set cs"
      then have "ca_name c \<noteq> ca_name ca" using Cons.prems(2) by (auto simp: rev_image_eqI)
      then show "candidate_placed ?ns c" using Cons.prems(3) c k(2) unfolding candidate_placed_def rm(1) by (metis Diff_iff list.set_intros(2) singletonD)
    qed
    then obtain nodes rest where r: "commit_candidates ho u cs ?ns = Some (nodes, rest)" "node_view nodes = candidate_view cs" "list_all served nodes"
        "set rest = {n \<in> set ?ns. rn_name n \<notin> ca_name ` set cs}"
      using Cons.IH[OF rm(2)] Cons.prems(2) by auto
    have "set rest = {n \<in> set ns. rn_name n \<notin> ca_name ` set (ca # cs)}" unfolding r(4) rm(1) using uniq k(2) by auto
    then show ?thesis using Some r adopt_node_served[OF sv, of ho u] k(2) by (simp add: node_view_def candidate_view_def)
  qed
qed

lemma ready_placed:
  assumes inv: "forward_inv tx ns" and ready: "list_all (\<lambda>p. p = DpReady) (rl_states tx)" and i: "i < length (rl_candidates tx)"
  shows "candidate_placed ns (rl_candidates tx ! i)"
proof -
  have st: "rl_states tx ! i = DpReady" using ready i forward_invD(5)[OF inv] by (simp add: list_all_length)
  have c: "cand_ok tx ns i" using forward_invD(3)[OF inv i] .
  show ?thesis
  proof (cases "owner tx ns i")
    case None
    then have "\<forall>n \<in> set ns. rn_name n \<noteq> ca_name (rl_candidates tx ! i)" by (simp add: owner_def position_None)
    moreover obtain d where "ca_device (rl_candidates tx ! i) = Some d" "td_lease d = LeaseLive (ca_bounds (rl_candidates tx ! i))"
      using c st None by (auto simp: cand_ok_def Let_def split: option.splits)
    ultimately show ?thesis by (auto simp: candidate_placed_def)
  next
    case (Some k)
    have k: "k < length ns" "rn_name (ns ! k) = ca_name (rl_candidates tx ! i)" using owner_Some[OF Some] by auto
    have "serves (ca_bounds (rl_candidates tx ! i)) (ns ! k)"
      using c st Some forward_invD(4)[OF inv k(1)] by (auto simp: cand_ok_def Let_def node_ok_def serves_def moved_def served_def split: if_splits)
    then show ?thesis using k nth_mem[OF k(1)] unfolding candidate_placed_def by blast
  qed
qed

lemma left_served:
  assumes inv: "forward_inv tx ns" and n: "n \<in> set ns" "rn_name n \<notin> ca_name ` set (rl_candidates tx)"
  shows "served n"
proof -
  obtain k where k: "k < length ns" "ns ! k = n" using n(1) by (auto simp: in_set_conv_nth)
  have "owner tx ns i \<noteq> Some k" if "i < length (rl_candidates tx)" for i
    using owner_Some[of tx ns i k] n(2) k that nth_mem[OF that] by (metis imageI)
  then show ?thesis using forward_invD(4)[OF inv k(1)] k by (auto simp: node_ok_def split: if_splits)
qed


section \<open>A runtime with one node\<close>

text \<open>Its device refuses to open under the name \<open>bad\<close>; the flag makes it stage updates and refuse to finish them.\<close>

definition sim_device :: "bool \<Rightarrow> unit DeviceOps" where
  "sim_device stuck =
     \<lparr>do_update = (\<lambda>_ v. (Inr stuck, v)), do_finish_update = (\<lambda>commit v. (\<not> (stuck \<and> commit), v)), do_quiesce = (\<lambda>v. (True, v)),
      do_close = (\<lambda>v. v), do_open = (\<lambda>b v. (gs_device b \<noteq> ''bad'', v)), do_ready = (\<lambda>v. (Inr True, v))\<rparr>"

definition sim_hosts :: "unit HostOps" where
  "sim_hosts =
     \<lparr>ho_outstanding = (\<lambda>_ _. 0), ho_protected = (\<lambda>_ _. 0), ho_gate = (\<lambda>h. h), ho_restore = (\<lambda>h. h), ho_stop = (\<lambda>_ h. h),
      ho_close_links = (\<lambda>h. h), ho_detach = (\<lambda>_ h. h), ho_publish = (\<lambda>_ _ h. h), ho_fresh = (\<lambda>_. ())\<rparr>"

definition sim_bounds :: "string \<Rightarrow> string \<Rightarrow> GenerationSettings" where
  "sim_bounds node device = \<lparr>gs_node = node, gs_device = device, gs_receive_maximum = 1, gs_transmit_maximum = 1, gs_squelch_delay_ms = 0, gs_status_snapshot_interval_ms = 0\<rparr>"

definition sim_nodes :: "(unit tracked_device, unit, nat) ReloadNode list" where
  "sim_nodes = [\<lparr>rn_name = ''1000'', rn_bounds = sim_bounds ''1000'' ''first'', rn_radio = 0,
     rn_device = \<lparr>td_dev = (), td_lease = LeaseLive (sim_bounds ''1000'' ''first'')\<rparr>, rn_open = True, rn_host = ()\<rparr>]"

definition sim_candidates :: "string \<Rightarrow> (unit tracked_device, nat) ReloadCandidate list" where
  "sim_candidates device =
     [\<lparr>ca_name = ''1000'', ca_bounds = sim_bounds ''1000'' device, ca_radio = 1, ca_device = None\<rparr>,
      \<lparr>ca_name = ''2000'', ca_bounds = sim_bounds ''2000'' ''second'', ca_radio = 0, ca_device = Some \<lparr>td_dev = (), td_lease = LeaseClosed\<rparr>\<rparr>]"

definition sim_run :: "bool \<Rightarrow> string \<Rightarrow> ((RuntimeError + bool) \<times> (unit tracked_device, unit, nat, unit) reload_state) option" where
  "sim_run stuck device = reload_polls (tracked (sim_device stuck)) sim_hosts [(False, 1, \<lambda>_ h. h)] (reload_new () (sim_candidates device), sim_nodes)"

lemma sim_ready: "reload_ready (sim_candidates device) sim_nodes"
  by (simp add: reload_ready_def sim_candidates_def sim_nodes_def served_def sim_bounds_def)

lemma sim_fails: "map_option fst (sim_run False ''bad'') = Some (Inl RtDevice)"
  by code_simp

lemma sim_completes: "map_option fst (sim_run stuck ''first'') = Some (Inr True)"
  by (cases stuck) (simp_all only:, code_simp+)

theorem reload_keeps_lease_order_witness:
  "reload_ready (sim_candidates ''bad'') sim_nodes
   \<and> (\<exists>r tx ns'. sim_run False ''bad'' = Some (r, tx, ns') \<and> leases_sound tx ns')"
  unfolding sim_run_def by (intro conjI sim_ready reload_keeps_lease_order)



text \<open>
  When a device refuses to finish a staged update, the commit closes the devices of the new nodes without their quiescence,
  which the trait \<^verbatim>\<open>DeviceHandoff\<close> asks for before a close: the lease of the new node is broken.
\<close>

theorem commit_failure_skips_quiescence:
  "\<exists>tx ns' tx' nodes. sim_run True ''first'' = Some (Inr True, tx, ns') \<and> leases_sound tx ns'
     \<and> commit_reload (tracked (sim_device True)) sim_hosts 2 (tx, ns') = Some (Inl RtRestore, tx', nodes, []) \<and> \<not> leases_sound tx' nodes"
proof -
  obtain tx ns' where run: "sim_run True ''first'' = Some (Inr True, tx, ns')" using sim_completes[of True] by auto
  have "map_option (\<lambda>(r, s). leases_sound (fst s) (snd s)) (sim_run True ''first'') = Some True" by (code_simp, simp)
  then have sound: "leases_sound tx ns'" using run by simp
  have "map_option (\<lambda>(r, tx', nodes, retired). (r, leases_sound tx' nodes, retired = []))
      (Option.bind (sim_run True ''first'') (\<lambda>(r, s). commit_reload (tracked (sim_device True)) sim_hosts 2 s)) = Some (Inl RtRestore, False, True)"
    by (code_simp, simp)
  then show ?thesis using run sound by auto
qed

end
