(* ===== verification/Spec2Isabelle.thy ===== *)
theory Spec2Isabelle
  imports Link_Hub_Relay Link_Hub_Groups Link_Topology Peer_Signals Dtmf_Command Tx_Policy Site_Policy Event_Scheduler
    Node_Host_Atomic Dtmf_Control Link_Schedule Composition Link_Queue Parrot Message_Handoff
    Controller_Props Config_Document Reload_Props
begin

text \<open>
  Verification of the controller core of an amateur-radio repeater and linking system
  (\<^verbatim>\<open>src/rust/core/src\<close>).

  \<^bold>\<open>The program.\<close> A node controls one radio transmitter and links it with other nodes. Its core
  decides what an operator or a peer asks for (DTMF and text commands), which peers are connected and
  who is told what (the link manager), when the transmitter is keyed, identifies and is cut off
  (transmit policy), what site equipment does (alarms and outputs), and which configured events are due
  (the scheduler). Audio callbacks run beside the control thread and share single atomic cells with it.
  Adapters and hosts around the core do the input and output.

  \<^bold>\<open>Theories and sources\<close> (paths under \<^verbatim>\<open>src/rust/core/src\<close>).
  \<^item> \<open>Prelude\<close>, \<open>Utf8\<close>: saturating 64-bit arithmetic, decimal printing and parsing, string
    operations of Rust, byte lengths and UTF-8 validity, and the locales \<open>codec\<close>, \<open>guarded_machine\<close> and
    \<open>machine\<close> (an operation set with an invariant) that the components interpret.
  \<^item> \<open>Peer_Identity\<close> (\<^verbatim>\<open>link/mod.rs\<close>, \<^verbatim>\<open>link/identity.rs\<close>): identity classes and operator aliases.
  \<^item> \<open>Access_Policy\<close> (\<^verbatim>\<open>access.rs\<close>): the access lists and the deny-first authorization.
  \<^item> \<open>Asl_Protocol\<close> (\<^verbatim>\<open>link/protocol.rs\<close>, \<^verbatim>\<open>link/text.rs\<close>): the control text parser with
    its printed forms, and the classification of human text.
  \<^item> \<open>Group_Selection\<close> (first part of \<^verbatim>\<open>link/audio.rs\<close>), \<open>Link_Hub\<close> (\<^verbatim>\<open>link/hub.rs\<close>) with
    \<open>Link_Hub_Props\<close>, \<open>Link_Hub_Relay\<close>, \<open>Link_Hub_Groups\<close>: the link manager, its invariant over every
    operation sequence, dial tokens and backoff, relaying, and priority groups.
  \<^item> \<open>Link_Topology\<close> (\<^verbatim>\<open>link/topology.rs\<close>): the publication gate and the bounded advertisement.
  \<^item> \<open>Link_Peer\<close> (\<^verbatim>\<open>link/peer.rs\<close>): key epochs, digit terminator, receive qualification.
  \<^item> \<open>Peer_Signals\<close> (\<^verbatim>\<open>link/signals.rs\<close>, \<^verbatim>\<open>link/echo_telemetry.rs\<close>): the cells shared with
    audio; the source cell also as an interleaving of single atomic accesses.
  \<^item> \<open>Dtmf_Command\<close> (\<^verbatim>\<open>command.rs\<close>), \<open>Remote_Base\<close> (\<^verbatim>\<open>remote_base_command.rs\<close>,
    \<^verbatim>\<open>remote_base_command_wire.rs\<close>): the command table, the digit collector, and the remote-base grammar.
  \<^item> \<open>Dtmf_Control\<close> (\<^verbatim>\<open>runtime/dtmf.rs\<close>): the digit queue from audio to control and the interpretation of
    digits, with administrative grants and the pad test; the ring and the password hash are arguments.
  \<^item> \<open>Tx_Policy\<close> (\<^verbatim>\<open>policy/\<close>, \<^verbatim>\<open>controller/timeout.rs\<close>): hang time, identifiers, watchdog.
  \<^item> \<open>Site_Policy\<close> (\<^verbatim>\<open>site/alarm.rs\<close>, \<^verbatim>\<open>site/output.rs\<close>): alarms and output pulses.
  \<^item> \<open>Event_Scheduler\<close> (\<^verbatim>\<open>runtime/scheduler.rs\<close>, parts of \<^verbatim>\<open>schedule.rs\<close> and
    \<^verbatim>\<open>controller/telemetry.rs\<close>): civil-time reservations.
  \<^item> \<open>Link_Schedule\<close> (\<^verbatim>\<open>runtime/link_schedule.rs\<close>): permanent and replacement routes, their reservations and
    the warnings before a boundary; the civil arithmetic of a window is an argument.
  \<^item> \<open>Composition\<close> (\<^verbatim>\<open>composition.rs\<close>): the compiler of message content, with the tone and Morse providers and
    the allocator as arguments.
  \<^item> \<open>Spsc_Ring\<close>: the ring of the \<^verbatim>\<open>rtrb\<close> crate, an argument with its laws as a hypothesis.
  \<^item> \<open>Link_Queue\<close> (\<^verbatim>\<open>audio/link_queue.rs\<close>): outbound link audio with source spans; producer and consumer
    interleaved one ring access at a time.
  \<^item> \<open>Parrot\<close> (\<^verbatim>\<open>controller/parrot.rs\<close>): the capture of receive bursts in two circulating buffers.
  \<^item> \<open>Message_Handoff\<close> (\<^verbatim>\<open>controller/message.rs\<close>): preparation requests, completions and retirements between
    audio and control, one ring access at a time; prepared streams are an argument.
  \<^item> \<open>Playback\<close> (\<^verbatim>\<open>audio/playback.rs\<close>): one media item over the operations of a stream, which are an
    argument.
  \<^item> \<open>Telemetry\<close> (\<^verbatim>\<open>controller/telemetry.rs\<close>): prepared media and their circulation between control and audio.
  \<^item> \<open>Release_Planners\<close> (\<^verbatim>\<open>controller/tail.rs\<close>, \<^verbatim>\<open>controller/courtesy.rs\<close>, \<^verbatim>\<open>controller/announcement.rs\<close>): what is
    played when traffic ends.
  \<^item> \<open>Controller\<close> (\<^verbatim>\<open>controller/mod.rs\<close>, \<^verbatim>\<open>controller/timeout.rs\<close>) with \<open>Controller_Shape\<close> and \<open>Controller_Props\<close>: the
    step per sample that composes the planners, the policies and playback into the transmit decision; that it is total
    and keeps its tables in step; when the transmitter is off and how long traffic can hold it. Arithmetic on samples is
    an argument.
  \<^item> \<open>Node_Host\<close>, \<open>Node_Host_Atomic\<close> (\<^verbatim>\<open>runtime/generation.rs\<close>, \<^verbatim>\<open>runtime/node_host.rs\<close>): prepared
    generations, publication, device handoff and reclamation; the hazard slots as an interleaving of
    single atomic accesses.
  \<^item> \<open>Reload\<close>, \<open>Reload_Leases\<close>, \<open>Reload_Props\<close> (\<^verbatim>\<open>runtime/reload.rs\<close>, the commit and the node shutdown of
    \<^verbatim>\<open>runtime/aggregate.rs\<close>): the configuration transaction over several polls, with its rollback; the lease of every
    device as a ghost; what a completed and what a failed transaction leaves. Devices and hosts are arguments. Its loops
    have fuel five: every round advances through at most five states.
  \<^item> \<open>Config_Document\<close> (\<^verbatim>\<open>config/parse.rs\<close>, \<^verbatim>\<open>config/scope.rs\<close>, \<^verbatim>\<open>config/document.rs\<close>): lines, section names and the
    configuration document with its queries.

  \<^bold>\<open>Correspondence.\<close> A struct is a record, an enum a datatype, a method a definition on the explicit
  state returning the result and the new state; \<^verbatim>\<open>Result\<close> is a sum with the error on the left, and a
  panic is a \<open>None\<close>. \<^verbatim>\<open>u64\<close> is \<^typ>\<open>u64\<close> with the saturating operations written as the code
  writes them; \<^verbatim>\<open>i128\<close> times are integers. Objects shared through \<^verbatim>\<open>Arc\<close> and atomics
  are a store with addresses. Atomic accesses are sequentially consistent.

  \<^bold>\<open>What is shown.\<close> Invariants hold over every sequence of operations (link manager, groups, identifier,
  scheduler); tokens and dispatches that went stale stay stale; printed control text parses back; an
  optimised or order-dependent routine equals its specification (command table, selections, output
  demand); timers fire at exactly the configured instant; a reload that fails leaves every radio device as it was, and
  one that completes serves every configured node; the transmitter is silent where policy forbids it. Generation and serial counters are machine
  words that the properties assume not to have wrapped, which needs \<open>2 ^ 64\<close> operations.

  \<^bold>\<open>Not modelled.\<close> The audio signal path (filters, tone and DTMF detection, mixing), which computes on
  floating point samples; configuration schema tables, their defaults and the resolution of settings; the hosts, adapters and foreign
  interfaces (\<^verbatim>\<open>asterisk\<close>, \<^verbatim>\<open>standalone\<close>, \<^verbatim>\<open>product\<close>, the adapter crates), which perform
  the input and output; message text and media preparation.
\<close>

end
